(* ===== verification/Xnet_Prelude.thy ===== *)
theory Xnet_Prelude
  imports Main "HOL-Library.Word"
begin

text \<open>
  Shared vocabulary of the development: the machine integer types of lwIP's
  \<^verbatim>\<open>arch.h\<close>, the error codes of \<^verbatim>\<open>err.h\<close>, byte blocks and
  the copy into a block, the generic facts on words and lists the components use, and the
  locale of systems that keep an invariant, which the stateful components interpret.
\<close>

unbundle bit_operations_syntax

named_theorems c_arith \<open>unsigned wrap-around arithmetic that does not wrap\<close>
named_theorems mem_simps \<open>lengths and contents of blocks after a copy\<close>

type_synonym u8 = "8 word"
type_synonym u16 = "16 word"
type_synonym u32 = "32 word"
type_synonym u64 = "64 word"

type_synonym addr = nat

section \<open>Error codes\<close>

datatype err_t =
    ERR_OK | ERR_MEM | ERR_BUF | ERR_TIMEOUT | ERR_RTE | ERR_INPROGRESS | ERR_VAL
  | ERR_WOULDBLOCK | ERR_USE | ERR_ALREADY | ERR_ISCONN | ERR_CONN | ERR_IF | ERR_ABRT
  | ERR_RST | ERR_CLSD | ERR_ARG

section \<open>Words\<close>

lemma unat_minus_no_wrap [c_arith]:
  fixes a b :: "'a::len word"
  assumes "unat b \<le> unat a"
  shows "unat (a - b) = unat a - unat b"
  using assms by (simp add: unat_sub word_le_nat_alt)

lemma unat_plus_no_wrap [c_arith]:
  fixes a b :: "'a::len word"
  assumes "unat a + unat b < 2 ^ LENGTH('a)"
  shows "unat (a + b) = unat a + unat b"
  using assms by (simp add: unat_word_ariths)

lemma unat_Suc_less [c_arith]:
  fixes i n :: "'a::len word"
  assumes "i < n"
  shows "unat (i + 1) = Suc (unat i)"
proof -
  have "unat i < unat n" using assms by (simp add: word_less_nat_alt)
  then have "unat i + 1 < 2 ^ LENGTH('a)"
    using unsigned_less [of n, where ?'a = nat] by linarith
  then show ?thesis by (simp add: unat_word_ariths)
qed

lemma word_unatI: "unat a = unat b \<Longrightarrow> a = b" for a b :: "'a::len word"
  by (rule unsigned_word_eqI)

lemma word_add_wraps:
  fixes a b :: "'a::len word"
  shows "a + b < a \<longleftrightarrow> 2 ^ LENGTH('a) \<le> unat a + unat b"
proof (cases "unat a + unat b < 2 ^ LENGTH('a)")
  case True
  then show ?thesis by (simp add: word_less_nat_alt unat_plus_no_wrap)
next
  case False
  have lt: "unat a < 2 ^ LENGTH('a)" "unat b < 2 ^ LENGTH('a)"
    using unsigned_less [of a, where ?'a = nat] unsigned_less [of b, where ?'a = nat] by auto
  have "unat (a + b) = (unat a + unat b) mod 2 ^ LENGTH('a)"
    by (simp add: unat_word_ariths)
  also have "\<dots> = unat a + unat b - 2 ^ LENGTH('a)"
  proof -
    have "unat a + unat b - 2 ^ LENGTH('a) < 2 ^ LENGTH('a)" using lt by linarith
    then show ?thesis using False by (simp add: le_mod_geq)
  qed
  finally have "unat (a + b) < unat a" using False lt by linarith
  then show ?thesis using False by (simp add: word_less_nat_alt)
qed

lemma unat_u16_lt [simp]: "unat (w :: u16) < 65536"
  using unsigned_less [of w, where ?'a = nat] by simp

lemma unat_u16_le [simp]: "unat (w :: u16) \<le> 65535"
  using unat_u16_lt [of w] by linarith

lemma unat_u8_lt [simp]: "unat (w :: u8) < 256"
  using unsigned_less [of w, where ?'a = nat] by simp

lemma unat_u32_lt [simp]: "unat (w :: u32) < 4294967296"
  using unsigned_less [of w, where ?'a = nat] by simp

lemma unat_of_nat_u16 [c_arith]: "n < 65536 \<Longrightarrow> unat (of_nat n :: u16) = n"
  by (simp add: unat_of_nat)

lemma u16_add_wraps: "a + b < a \<longleftrightarrow> 65536 \<le> unat a + unat b" for a b :: u16
  using word_add_wraps [of a b] by simp
lemma unat_ucast_up:
  fixes b :: "'a::len word"
  assumes "LENGTH('a) \<le> LENGTH('b)"
  shows "unat (ucast b :: 'b::len word) = unat b"
proof -
  have "unat b < 2 ^ LENGTH('b)"
    using unsigned_less [of b, where ?'a = nat] power_increasing [OF assms, of "2::nat"]
    by linarith
  then show ?thesis by (simp add: unsigned_ucast_eq take_bit_nat_eq_self)
qed

lemma unat_ucast_u8_u16 [simp]: "unat (ucast (b :: u8) :: u16) = unat b"
  by (rule unat_ucast_up) simp

lemma unat_ucast_u16_u32 [simp]: "unat (ucast (b :: u16) :: u32) = unat b"
  by (rule unat_ucast_up) simp

lemma unat_ucast_u8_u32 [simp]: "unat (ucast (b :: u8) :: u32) = unat b"
  by (rule unat_ucast_up) simp

lemma unat_drop_bit:
  fixes n :: "'a::len word"
  shows "unat (drop_bit k n) = unat n div 2 ^ k"
  unfolding unsigned_drop_bit_eq by (simp add: take_bit_nat_eq_self drop_bit_eq_div)

lemma unat_take_bit:
  fixes n :: "'a::len word"
  shows "unat (take_bit k n) = unat n mod 2 ^ k"
  unfolding unsigned_take_bit_eq by (simp add: take_bit_eq_mod)

lemma unat_push_bit:
  fixes n :: "'a::len word"
  assumes "unat n * 2 ^ k < 2 ^ LENGTH('a)"
  shows "unat (push_bit k n) = unat n * 2 ^ k"
  unfolding unsigned_push_bit_eq
  by (simp add: take_bit_nat_eq_self push_bit_eq_mult assms)

lemma byte_masks:
  "(0xff :: 'a::len word) = mask 8"
  "(0xff00 :: 'a::len word) = push_bit 8 (mask 8)"
  "(0xff0000 :: 'a::len word) = push_bit 16 (mask 8)"
  "(0xff000000 :: 'a::len word) = push_bit 24 (mask 8)"
  "(0xffff :: 'a::len word) = mask 16"
  by (simp_all add: mask_eq_exp_minus_1 push_bit_eq_mult)

section \<open>Blocks of bytes\<close>

text \<open>\<^verbatim>\<open>MEMCPY\<close> of \<open>bs\<close> to offset \<open>k\<close> of a block.\<close>

definition mem_write :: "'a list \<Rightarrow> nat \<Rightarrow> 'a list \<Rightarrow> 'a list" where
  "mem_write m k bs = take k m @ bs @ drop (k + length bs) m"

lemma length_mem_write [mem_simps]:
  "k + length bs \<le> length m \<Longrightarrow> length (mem_write m k bs) = length m"
  by (simp add: mem_write_def)

lemma mem_write_Nil [simp]: "mem_write m k [] = m"
  by (simp add: mem_write_def)

lemma take_mem_write [mem_simps]:
  "k + length bs \<le> length m \<Longrightarrow> j \<le> k \<Longrightarrow> take j (mem_write m k bs) = take j m"
  by (simp add: mem_write_def)

lemma drop_mem_write [mem_simps]:
  "k + length bs \<le> length m \<Longrightarrow> k + length bs \<le> j \<Longrightarrow> drop j (mem_write m k bs) = drop j m"
  by (simp add: mem_write_def)

lemma mem_write_same [mem_simps]:
  "k + length bs \<le> length m \<Longrightarrow> take (length bs) (drop k (mem_write m k bs)) = bs"
  by (simp add: mem_write_def)

lemma mem_write_append [mem_simps]:
  "k + length as + length bs \<le> length m \<Longrightarrow>
   mem_write (mem_write m k as) (k + length as) bs = mem_write m k (as @ bs)"
  by (simp add: mem_write_def ac_simps)

lemma mem_write_appended [mem_simps]:
  "k + length bs \<le> length xs \<Longrightarrow> mem_write (xs @ ys) k bs = mem_write xs k bs @ ys"
  by (simp add: mem_write_def)

lemma mem_write_append_right [mem_simps]:
  "mem_write (xs @ ys) (length xs + k) bs = xs @ mem_write ys k bs"
  by (simp add: mem_write_def)

lemma mem_write_all [mem_simps]: "length bs = length m \<Longrightarrow> mem_write m 0 bs = bs"
  by (simp add: mem_write_def)

lemma mem_write_split:
  assumes "k \<le> length xs" "n = min (length xs - k) (length bs)"
  shows "mem_write xs k (take n bs) @ mem_write ys 0 (drop n bs) = mem_write (xs @ ys) k bs"
  using assms by (cases "length bs \<le> length xs - k")
    (auto simp: mem_write_def add.commute simp flip: append_assoc, simp)

text \<open>A window of \<open>n\<close> bytes at \<open>a\<close>, after a write inside it.\<close>

lemma window_mem_write [mem_simps]:
  assumes "a \<le> k" "k + length bs \<le> a + n" "a + n \<le> length m"
  shows "take n (drop a (mem_write m k bs)) = mem_write (take n (drop a m)) (k - a) bs"
proof -
  obtain d where k: "k = a + d" using assms(1) by (metis le_Suc_ex)
  have d: "d + length bs \<le> n" "a + d \<le> length m" using assms k by auto
  have "drop a (mem_write m k bs) = take d (drop a m) @ bs @ drop (a + d + length bs) m"
    using d by (simp add: mem_write_def k drop_take)
  also have "take n \<dots> = take d (drop a m) @ bs @ take (n - d - length bs) (drop (a + d + length bs) m)"
    using d assms by (simp add: min_absorb2)
  also have "\<dots> = mem_write (take n (drop a m)) d bs"
    using d by (simp add: mem_write_def drop_take min_absorb1 ac_simps)
  finally show ?thesis by (simp add: k)
qed

section \<open>Systems with an invariant\<close>

text \<open>
  A component that reacts to events: \<open>step\<close> is one event, \<open>enabled\<close> the guard under
  which the environment may raise it. What every step keeps holds after every run.
\<close>

locale invariant_system =
  fixes step :: "'e \<Rightarrow> 's \<Rightarrow> 's"
    and enabled :: "'e \<Rightarrow> 's \<Rightarrow> bool"
    and start :: "'s \<Rightarrow> bool"
    and inv :: "'s \<Rightarrow> bool"
  assumes start_inv: "start s \<Longrightarrow> inv s"
    and step_inv: "inv s \<Longrightarrow> enabled e s \<Longrightarrow> inv (step e s)"
begin

inductive reach :: "'s \<Rightarrow> bool" where
  reach_start: "start s \<Longrightarrow> reach s"
| reach_step: "reach s \<Longrightarrow> enabled e s \<Longrightarrow> reach (step e s)"

lemma reach_inv: "reach s \<Longrightarrow> inv s"
  by (induction rule: reach.induct) (auto intro: start_inv step_inv)

fun run :: "'e list \<Rightarrow> 's \<Rightarrow> 's" where
  "run [] s = s"
| "run (e # es) s = run es (step e s)"

fun run_ok :: "'e list \<Rightarrow> 's \<Rightarrow> bool" where
  "run_ok [] s = True"
| "run_ok (e # es) s = (enabled e s \<and> run_ok es (step e s))"

lemma run_inv: "inv s \<Longrightarrow> run_ok es s \<Longrightarrow> inv (run es s)"
  by (induction es arbitrary: s) (auto intro: step_inv)

end

text \<open>
  A component simulates its contract: a step that the contract allows is a step of the component,
  and the states stay related. Sequences of steps follow.
\<close>

locale simulation =
  fixes cstep :: "'e \<Rightarrow> 'c \<Rightarrow> 'c option"
    and astep :: "'e \<Rightarrow> 'a \<Rightarrow> 'a option"
    and R :: "'c \<Rightarrow> 'a \<Rightarrow> bool"
  assumes sim: "R c a \<Longrightarrow> astep e a = Some a' \<Longrightarrow> \<exists>c'. cstep e c = Some c' \<and> R c' a'"
begin

fun crun :: "'e list \<Rightarrow> 'c \<Rightarrow> 'c option" where
  "crun [] c = Some c"
| "crun (e # es) c = Option.bind (cstep e c) (crun es)"

fun arun :: "'e list \<Rightarrow> 'a \<Rightarrow> 'a option" where
  "arun [] a = Some a"
| "arun (e # es) a = Option.bind (astep e a) (arun es)"

lemma run_sim: "R c a \<Longrightarrow> arun es a = Some a' \<Longrightarrow> \<exists>c'. crun es c = Some c' \<and> R c' a'"
proof (induction es arbitrary: c a)
  case (Cons e es)
  then obtain b where b: "astep e a = Some b" "arun es b = Some a'" by (auto split: bind_splits)
  then obtain d where "cstep e c = Some d" "R d b" using sim [OF Cons.prems(1)] by blast
  then show ?case using Cons.IH b(2) by simp
qed simp

end

end
