(* ===== verification/Lwip_Def.thy ===== *)
theory Lwip_Def
  imports Xnet_Prelude
begin

text \<open>
  \<^verbatim>\<open>externals/lwip/src/core/def.c\<close>: byte order conversion on a little-endian host
  and lwIP's own versions of the non-standard string functions. A C string is the list of its
  characters before the terminating zero byte; a position in a string is its offset.
\<close>

section \<open>Byte order\<close>

definition lwip_htons :: "u16 \<Rightarrow> u16" where
  "lwip_htons n = push_bit 8 (n AND 0x00ff) OR drop_bit 8 (n AND 0xff00)"

definition lwip_htonl :: "u32 \<Rightarrow> u32" where
  "lwip_htonl n = push_bit 24 (n AND 0x000000ff) OR push_bit 8 (n AND 0x0000ff00)
     OR drop_bit 8 (n AND 0x00ff0000) OR drop_bit 24 (n AND 0xff000000)"

lemma lwip_htons_htons: "lwip_htons (lwip_htons n) = n"
  unfolding lwip_htons_def byte_masks
  by (rule bit_word_eqI) (auto simp: bit_simps)

lemma bit_lwip_htonl:
  assumes "i < 32"
  shows "bit (lwip_htonl n) i
    = bit n (if i < 8 then 24 + i else if i < 16 then 8 + i else if i < 24 then i - 8 else i - 24)"
  using assms unfolding lwip_htonl_def byte_masks
  by (simp add: bit_simps) linarith

lemma lwip_htonl_htonl: "lwip_htonl (lwip_htonl n) = n"
proof (rule bit_word_eqI)
  fix i assume "i < LENGTH(32)"
  then show "bit (lwip_htonl (lwip_htonl n)) i = bit n i"
    by (cases "i < 8"; cases "i < 16"; cases "i < 24") (auto simp: bit_lwip_htonl)
qed

lemma lwip_htons_alt: "lwip_htons n = push_bit 8 (take_bit 8 n) + drop_bit 8 n"
proof -
  have "lwip_htons n = push_bit 8 (take_bit 8 n) OR drop_bit 8 n"
    unfolding lwip_htons_def byte_masks
    by (rule bit_word_eqI) (auto simp: bit_simps dest: bit_imp_le_length)
  also have "\<dots> = push_bit 8 (take_bit 8 n) + drop_bit 8 n"
    by (rule disjunctive_add [symmetric]) (auto simp: bit_simps dest: bit_imp_le_length)
  finally show ?thesis .
qed

lemma unat_lwip_htons: "unat (lwip_htons n) = 256 * (unat n mod 256) + unat n div 256"
proof -
  have p: "unat (push_bit 8 (take_bit 8 n)) = 256 * (unat n mod 256)"
    by (subst unat_push_bit; unfold unat_take_bit) simp_all
  have d: "unat (drop_bit 8 n) = unat n div 256"
    unfolding unat_drop_bit by simp
  have "unat n div 256 < 256" using unat_u16_lt [of n] by linarith
  moreover have "unat n mod 256 < 256" by simp
  ultimately have s: "256 * (unat n mod 256) + unat n div 256 < 65536" by linarith
  have "unat (push_bit 8 (take_bit 8 n)) + unat (drop_bit 8 n) < 2 ^ LENGTH(16)"
    unfolding p d by (rule order.strict_trans2 [OF s]) simp
  then show ?thesis
    unfolding lwip_htons_alt by (simp only: unat_plus_no_wrap p d)
qed

section \<open>Case-insensitive comparison\<close>

definition byte_of :: "char \<Rightarrow> u8" where
  "byte_of c = word_of_nat (of_char c)"

text \<open>The character at the pointer: the terminating zero at the end of the string.\<close>

fun c_at :: "string \<Rightarrow> u8" where
  "c_at [] = 0"
| "c_at (c # cs) = byte_of c"

definition is_lower :: "u8 \<Rightarrow> bool" where
  "is_lower c \<longleftrightarrow> 0x61 \<le> c \<and> c \<le> 0x7a"

text \<open>One iteration of the loop body: do the two characters differ for the comparison?\<close>

definition char_mismatch :: "u8 \<Rightarrow> u8 \<Rightarrow> bool" where
  "char_mismatch c1 c2 \<longleftrightarrow>
     (if c1 \<noteq> c2 then
        (let c1_upc = c1 OR 0x20 in
         if is_lower c1_upc then c1_upc \<noteq> c2 OR 0x20 else True)
      else False)"

function lwip_stricmp :: "string \<Rightarrow> string \<Rightarrow> int" where
  "lwip_stricmp str1 str2 =
     (let c1 = c_at str1; c2 = c_at str2 in
      if char_mismatch c1 c2 then 1
      else if c1 \<noteq> 0 then lwip_stricmp (tl str1) (tl str2)
      else 0)"
  by pat_completeness auto
termination
proof (relation "measure (\<lambda>(s, t). length s)", goal_cases)
  case (2 str1 str2 x xa)
  then show ?case by (cases str1) auto
qed simp

function lwip_strnicmp :: "string \<Rightarrow> string \<Rightarrow> u64 \<Rightarrow> int" where
  "lwip_strnicmp str1 str2 len =
     (let c1 = c_at str1; c2 = c_at str2 in
      if char_mismatch c1 c2 then 1
      else let len = len - 1 in
           if len \<noteq> 0 \<and> c1 \<noteq> 0 then lwip_strnicmp (tl str1) (tl str2) len
           else 0)"
  by pat_completeness auto
termination
proof (relation "measure (\<lambda>(s, t, n). length s)", goal_cases)
  case (2 str1 str2 len x xa xb)
  then show ?case by (cases str1) auto
qed simp

declare lwip_stricmp.simps [simp del] lwip_strnicmp.simps [simp del]

section \<open>Substring search\<close>

text \<open>
  The position \<open>p\<close> is the offset \<open>i\<close> from \<open>buffer\<close> and \<open>rest\<close> is
  the string at \<open>p\<close>. \<^verbatim>\<open>strncmp(p, token, tokenlen) == 0\<close> on strings without
  zero bytes compares the first \<open>tokenlen\<close> characters.
\<close>

fun strnstr_loop :: "nat \<Rightarrow> string \<Rightarrow> string \<Rightarrow> nat \<Rightarrow> nat option" where
  "strnstr_loop i [] token n = None"
| "strnstr_loop i (c # rest) token n =
     (if i + length token \<le> n then
        if c = hd token \<and> take (length token) (c # rest) = token then Some i
        else strnstr_loop (Suc i) rest token n
      else None)"

definition lwip_strnstr :: "string \<Rightarrow> string \<Rightarrow> nat \<Rightarrow> nat option" where
  "lwip_strnstr buffer token n =
     (if length token = 0 then Some 0 else strnstr_loop 0 buffer token n)"

fun strnistr_loop :: "nat \<Rightarrow> string \<Rightarrow> string \<Rightarrow> nat \<Rightarrow> nat option" where
  "strnistr_loop i [] token n = None"
| "strnistr_loop i (c # rest) token n =
     (if i + length token \<le> n then
        if lwip_strnicmp (c # rest) token (of_nat (length token)) = 0 then Some i
        else strnistr_loop (Suc i) rest token n
      else None)"

definition lwip_strnistr :: "string \<Rightarrow> string \<Rightarrow> nat \<Rightarrow> nat option" where
  "lwip_strnistr buffer token n =
     (if length token = 0 then Some 0 else strnistr_loop 0 buffer token n)"

section \<open>Decimal output\<close>

text \<open>
  \<open>buf\<close> is the output buffer of \<^verbatim>\<open>bufsize\<close> bytes, \<open>tmp\<close> and
  \<open>res\<close> are offsets into it. \<^verbatim>\<open>-number\<close> overflows on
  \<^verbatim>\<open>INT_MIN\<close>: the result there is \<open>None\<close>.
\<close>

definition digit_char :: "int \<Rightarrow> char" where
  "digit_char d = char_of (nat (48 + d))"

fun itoa_loop :: "nat \<Rightarrow> nat \<Rightarrow> int \<Rightarrow> string \<Rightarrow> nat \<times> int \<times> string" where
  "itoa_loop res tmp n buf =
     (if n \<noteq> 0 \<and> res < tmp then
        itoa_loop res (tmp - 1) (n div 10) (buf[tmp - 1 := digit_char (n mod 10)])
      else (tmp, n, buf))"

definition lwip_itoa :: "string \<Rightarrow> int \<Rightarrow> string option" where
  "lwip_itoa buf number =
     (if number = - (2 ^ 31) then None
      else
        let bufsize = length buf;
            n = (if number \<ge> 0 then number else - number)
        in if bufsize < 2 then
             Some (if bufsize = 1 then buf[0 := CHR 0x00] else buf)
           else
             let (res, buf) = (if number < 0 then (1, buf[0 := CHR ''-'']) else (0, buf));
                 buf = buf[bufsize - 1 := CHR 0x00];
                 (tmp, n, buf) = itoa_loop res (bufsize - 1) n buf
             in if n \<noteq> 0 then Some (buf[0 := CHR 0x00])
                else if buf ! tmp = CHR 0x00 then
                  Some ((buf[res := CHR ''0''])[res + 1 := CHR 0x00])
                else Some (mem_write buf res (drop tmp buf)))"

declare itoa_loop.simps [simp del]

section \<open>The comparison is equality up to ASCII case\<close>

definition lower :: "u8 \<Rightarrow> u8" where
  "lower c = (if 0x41 \<le> c \<and> c \<le> 0x5a then c + 0x20 else c)"

lemma or_one_bit: "c OR push_bit k 1 = (if bit c k then c else c + push_bit k 1)" for c :: u8
proof (cases "bit c k")
  case True
  then show ?thesis by (auto intro!: bit_word_eqI simp: bit_simps)
next
  case False
  then have "c + push_bit k 1 = c OR push_bit k 1"
    by (intro disjunctive_add) (auto simp: bit_simps)
  then show ?thesis using False by simp
qed

lemma or_0x20: "c OR 0x20 = (if bit c 5 then c else c + 0x20)" for c :: u8
  using or_one_bit [of c 5] by simp

lemma bit_unat: "bit c n \<longleftrightarrow> odd (unat c div 2 ^ n)" for c :: "'a::len word"
proof -
  have "bit c n = bit (unat c) n" by (simp add: bit_unsigned_iff)
  also have "\<dots> = odd (unat c div 2 ^ n)" by (rule bit_iff_odd)
  finally show ?thesis .
qed

lemma upper_bit5: "0x41 \<le> c \<Longrightarrow> c \<le> 0x5a \<Longrightarrow> \<not> bit c 5" for c :: u8
proof -
  assume "0x41 \<le> c" "c \<le> 0x5a"
  then have "unat c div 32 = 2" by (simp add: word_le_nat_alt)
  then show ?thesis by (simp add: bit_unat)
qed

lemma or_0x20_lower:
  "if is_lower (c OR 0x20) then lower c = c OR 0x20 else lower c = c \<and> \<not> is_lower (lower c)"
proof (cases "bit c 5")
  case True
  then show ?thesis using upper_bit5 [of c]
    by (auto simp: or_0x20 is_lower_def lower_def)
next
  case False
  then have "even (unat c div 32)" by (simp add: bit_unat)
  then have lt: "unat c + 32 < 256" and no: "\<not> (97 \<le> unat c \<and> unat c \<le> 122)"
    using unat_u8_lt [of c] by presburger+
  have u: "unat (c + 0x20) = unat c + 32" using lt by (simp add: unat_word_ariths)
  show ?thesis using False lt no
    by (auto simp: or_0x20 is_lower_def lower_def word_le_nat_alt u)
qed
lemma char_mismatch_lower: "char_mismatch c1 c2 \<longleftrightarrow> lower c1 \<noteq> lower c2"
  using or_0x20_lower [of c1] or_0x20_lower [of c2]
  unfolding char_mismatch_def Let_def by (auto split: if_splits)

definition fold_case :: "string \<Rightarrow> u8 list" where
  "fold_case s = map (lower \<circ> byte_of) s"

definition c_string :: "string \<Rightarrow> bool" where
  "c_string s \<longleftrightarrow> CHR 0x00 \<notin> set s"

lemma c_string_Cons [simp]: "c_string (c # s) \<longleftrightarrow> c \<noteq> CHR 0x00 \<and> c_string s"
  by (auto simp: c_string_def)

lemma c_string_Nil [simp]: "c_string []"
  by (auto simp: c_string_def)

lemma byte_of_eq_0 [simp]: "byte_of c = 0 \<longleftrightarrow> c = CHR 0x00"
proof
  assume "byte_of c = 0"
  then have "of_char c mod (256 :: nat) = 0"
    by (simp add: byte_of_def word_of_nat_eq_0_iff dvd_eq_mod_eq_0)
  then have "of_char c = (of_char (CHR 0x00) :: nat)" by simp
  then show "c = CHR 0x00" by (simp only: of_char_eq_iff)
qed (simp add: byte_of_def)

lemma lower_eq_0 [simp]: "lower c = 0 \<longleftrightarrow> c = 0" "0 = lower c \<longleftrightarrow> c = 0"
proof -
  have "0x41 \<le> c \<Longrightarrow> c \<le> 0x5a \<Longrightarrow> unat (c + 0x20) \<noteq> 0"
    by (simp add: word_le_nat_alt unat_word_ariths)
  then show "lower c = 0 \<longleftrightarrow> c = 0" "0 = lower c \<longleftrightarrow> c = 0"
    by (auto simp: lower_def)
qed

lemma lower_0 [simp]: "lower 0 = 0"
  by simp

lemma lwip_stricmp_correct:
  assumes "c_string s" "c_string t"
  shows "lwip_stricmp s t = (if fold_case s = fold_case t then 0 else 1)"
  using assms
proof (induction s arbitrary: t)
  case Nil
  then show ?case by (cases t) (auto simp: lwip_stricmp.simps char_mismatch_lower fold_case_def Let_def)
next
  case (Cons c s)
  then show ?case
    by (cases t) (auto simp: lwip_stricmp.simps [of "c # s"] char_mismatch_lower fold_case_def Let_def)
qed

lemma lwip_strnicmp_correct:
  assumes "c_string s" "c_string t" "n \<noteq> 0"
  shows "lwip_strnicmp s t n
    = (if take (unat n) (fold_case s) = take (unat n) (fold_case t) then 0 else 1)"
  using assms
proof (induction s arbitrary: t n)
  case Nil
  then show ?case
    by (cases t) (auto simp: lwip_strnicmp.simps char_mismatch_lower fold_case_def Let_def unat_gt_0 take_Cons')
next
  case (Cons c s)
  obtain k where k: "unat n = Suc k" using Cons.prems(3) by (metis not0_implies_Suc unat_eq_0)
  then have n1: "unat (n - 1) = k" by (simp add: unat_minus_one Cons.prems(3))
  then have "n - 1 = 0 \<longleftrightarrow> k = 0" by (metis unat_eq_0)
  then show ?case using Cons n1 k
    by (cases t) (auto simp: lwip_strnicmp.simps [of "c # s"] char_mismatch_lower fold_case_def Let_def)
qed

lemma take_eq_short:
  assumes "length xs < k"
  shows "take k xs = take k ys \<longleftrightarrow> xs = ys"
proof
  assume eq: "take k xs = take k ys"
  then have "length ys \<le> k" using assms by (metis length_take min_def less_imp_le nat_less_le)
  then show "xs = ys" using eq assms by simp
qed simp

text \<open>
  With length 0 the counter of \<open>lwip_strnicmp\<close> is decremented before it is tested and
  wraps around: the function compares the whole strings instead of no characters.
\<close>

lemma lwip_strnicmp_zero:
  assumes "c_string s" "c_string t" "length s < 2 ^ 64"
  shows "lwip_strnicmp s t 0 = lwip_stricmp s t"
proof (cases s)
  case Nil
  then show ?thesis by (simp add: lwip_strnicmp.simps lwip_stricmp.simps Let_def)
next
  case (Cons c s')
  have m: "unat (- 1 :: u64) = 2 ^ 64 - 1"
    by (simp add: unsigned_minus_1_eq_mask mask_eq_exp_minus_1)
  have l: "length (fold_case s') < 2 ^ 64 - 1" using assms Cons by (simp add: fold_case_def)
  have t: "c_string (tl t)" using assms by (cases t) auto
  have "lwip_strnicmp s' (tl t) (- 1) = lwip_stricmp s' (tl t)"
    using assms t Cons take_eq_short [OF l, of "fold_case (tl t)"]
    by (simp add: lwip_strnicmp_correct lwip_stricmp_correct m)
  then show ?thesis
    by (simp add: lwip_strnicmp.simps [of "c # s'"] lwip_stricmp.simps [of "c # s'"] Let_def Cons)
qed

lemma lwip_strnicmp_zero_witness:
  "c_string ''abc'' \<and> c_string ''abd'' \<and> lwip_strnicmp ''abc'' ''abd'' 0 = lwip_stricmp ''abc'' ''abd''"
  using lwip_strnicmp_zero [of "''abc''" "''abd''"] by simp

section \<open>Substring search finds the first occurrence\<close>

definition occurs_at :: "string \<Rightarrow> string \<Rightarrow> nat \<Rightarrow> bool" where
  "occurs_at buffer token i \<longleftrightarrow> take (length token) (drop i buffer) = token"

definition occurs_ci_at :: "string \<Rightarrow> string \<Rightarrow> nat \<Rightarrow> bool" where
  "occurs_ci_at buffer token i \<longleftrightarrow>
     take (length token) (drop i (fold_case buffer)) = fold_case token"

text \<open>Both loops scan for the first suffix that passes a test, within the limit.\<close>

fun scan :: "(string \<Rightarrow> bool) \<Rightarrow> nat \<Rightarrow> nat \<Rightarrow> nat \<Rightarrow> string \<Rightarrow> nat option" where
  "scan P len n i [] = None"
| "scan P len n i (c # rest) =
     (if i + len \<le> n then if P (c # rest) then Some i else scan P len n (Suc i) rest else None)"

lemma scan_Some:
  "scan P len n i rest = Some j \<longleftrightarrow>
     (\<exists>k<length rest. j = i + k \<and> j + len \<le> n \<and> P (drop k rest) \<and> (\<forall>l<k. \<not> P (drop l rest)))"
  by (induction rest arbitrary: i) (auto simp: Ex_less_Suc2 All_less_Suc2)

lemma strnstr_loop_scan:
  "token \<noteq> [] \<Longrightarrow>
   strnstr_loop i rest token n = scan (\<lambda>r. take (length token) r = token) (length token) n i rest"
  by (induction rest arbitrary: i) (auto simp: neq_Nil_conv)

lemma strnistr_loop_scan:
  assumes "c_string token" "token \<noteq> []" "length token < 2 ^ 64"
  shows "c_string rest \<Longrightarrow> strnistr_loop i rest token n
    = scan (\<lambda>r. take (length token) (fold_case r) = fold_case token) (length token) n i rest"
proof (induction rest arbitrary: i)
  case (Cons c rest)
  have u: "unat (of_nat (length token) :: u64) = length token"
    using assms(3) by (simp add: unat_of_nat)
  have nz: "(of_nat (length token) :: u64) \<noteq> 0"
    using u assms(2) by (metis length_0_conv unat_0)
  show ?case
    using Cons assms by (auto simp: lwip_strnicmp_correct [OF _ _ nz] u fold_case_def)
qed simp

lemma drop_fold_case: "drop i (fold_case s) = fold_case (drop i s)"
  by (simp add: fold_case_def drop_map)

lemma occurs_at_less: "occurs_at buffer token i \<Longrightarrow> token \<noteq> [] \<Longrightarrow> i < length buffer"
  by (cases "i < length buffer") (auto simp: occurs_at_def)

lemma occurs_ci_at_less: "occurs_ci_at buffer token i \<Longrightarrow> token \<noteq> [] \<Longrightarrow> i < length buffer"
  by (cases "i < length buffer") (auto simp: occurs_ci_at_def fold_case_def)

lemma lwip_strnstr_first:
  "lwip_strnstr buffer token n = Some i \<longleftrightarrow>
     (if token = [] then i = 0
      else i + length token \<le> n \<and> occurs_at buffer token i
           \<and> (\<forall>j<i. \<not> occurs_at buffer token j))"
  using occurs_at_less [of buffer token i]
  by (auto simp: lwip_strnstr_def strnstr_loop_scan scan_Some occurs_at_def not_less)

text \<open>
  \<open>lwip_strnistr\<close> returns the position of the first occurrence of the token, up to
  ASCII case, that lies within the first \<open>n\<close> characters, and nothing when there is none.
\<close>

lemma lwip_strnistr_first:
  assumes "c_string buffer" "c_string token" "length token < 2 ^ 64"
  shows "lwip_strnistr buffer token n = Some i \<longleftrightarrow>
     (if token = [] then i = 0
      else i + length token \<le> n \<and> occurs_ci_at buffer token i
           \<and> (\<forall>j<i. \<not> occurs_ci_at buffer token j))"
  using assms occurs_ci_at_less [of buffer token i]
  by (auto simp: lwip_strnistr_def strnistr_loop_scan scan_Some occurs_ci_at_def drop_fold_case not_less)

lemma lwip_strnistr_first_witness:
  "lwip_strnistr ''GET /Index HTTP'' ''index'' 12 = Some 5 \<longleftrightarrow>
     5 + length ''index'' \<le> 12 \<and> occurs_ci_at ''GET /Index HTTP'' ''index'' 5
     \<and> (\<forall>j<5. \<not> occurs_ci_at ''GET /Index HTTP'' ''index'' j)"
  using lwip_strnistr_first [of "''GET /Index HTTP''" "''index''" 12 5] by simp

section \<open>The printed number\<close>

fun decimal :: "nat \<Rightarrow> string" where
  "decimal n = (if n < 10 then [digit_char (int n)]
                else decimal (n div 10) @ [digit_char (int (n mod 10))])"

declare decimal.simps [simp del]

definition decimal_int :: "int \<Rightarrow> string" where
  "decimal_int k = (if k < 0 then CHR ''-'' # decimal (nat (- k)) else decimal (nat k))"

lemma itoa_loop_fits:
  assumes "n > 0" "length (decimal n) \<le> tmp - res" "tmp < length buf"
  shows "itoa_loop res tmp (int n) buf
    = (tmp - length (decimal n), 0, mem_write buf (tmp - length (decimal n)) (decimal n))"
  using assms
proof (induction n arbitrary: tmp buf rule: decimal.induct)
  case (1 n)
  show ?case
  proof (cases "n < 10")
    case True
    then show ?thesis using 1
      by (simp add: itoa_loop.simps [of _ _ "int n"] itoa_loop.simps [of _ _ 0] decimal.simps [of n]
          mem_write_def upd_conv_take_nth_drop)
  next
    case False
    let ?b = "buf[tmp - 1 := digit_char (int n mod 10)]"
    have l: "length (decimal n) = Suc (length (decimal (n div 10)))"
      using False by (simp add: decimal.simps [of n])
    have "itoa_loop res (tmp - 1) (int (n div 10)) ?b
       = (tmp - 1 - length (decimal (n div 10)), 0,
          mem_write ?b (tmp - 1 - length (decimal (n div 10))) (decimal (n div 10)))"
      using "1.IH" [OF False, of "tmp - 1" ?b] "1.prems" False l by simp
    moreover have "mem_write ?b (tmp - 1 - length (decimal (n div 10))) (decimal (n div 10))
       = mem_write buf (tmp - length (decimal n)) (decimal n)"
      using "1.prems" False l
      by (simp add: mem_write_def upd_conv_take_nth_drop decimal.simps [of n] zmod_int)
    ultimately show ?thesis using "1.prems" False l
      by (simp add: itoa_loop.simps [of _ _ "int n"] zdiv_int)
  qed
qed

lemma itoa_loop_full:
  assumes "length (decimal n) > tmp - res" "n > 0"
  shows "\<exists>m b. itoa_loop res tmp (int n) buf = (min res tmp, m, b) \<and> m \<noteq> 0 \<and> length b = length buf"
  using assms
proof (induction n arbitrary: tmp buf rule: decimal.induct)
  case (1 n)
  show ?case
  proof (cases "res < tmp")
    case False
    then show ?thesis using "1.prems" by (simp add: itoa_loop.simps)
  next
    case True
    let ?b = "buf[tmp - 1 := digit_char (int n mod 10)]"
    have n: "\<not> n < 10" using "1.prems" True by (auto simp: decimal.simps [of n])
    have "tmp - 1 - res < length (decimal (n div 10))" "0 < n div 10" "min res (tmp - 1) = res"
      using "1.prems" n True by (auto simp: decimal.simps [of n])
    then obtain m b where "itoa_loop res (tmp - 1) (int (n div 10)) ?b = (res, m, b)"
        "m \<noteq> 0" "length b = length buf"
      using "1.IH" [OF n, of "tmp - 1" ?b] by auto
    then show ?thesis using True "1.prems"
      by (simp add: itoa_loop.simps [of _ _ "int n"] zdiv_int)
  qed
qed

definition cstr :: "string \<Rightarrow> string" where
  "cstr buf = takeWhile (\<lambda>c. c \<noteq> CHR 0x00) buf"

lemma digit_char_nz [simp]: "0 \<le> d \<Longrightarrow> d < 10 \<Longrightarrow> digit_char d \<noteq> CHR 0x00"
proof -
  assume "0 \<le> d" "d < 10"
  then have "of_char (digit_char d) = nat (48 + d)"
    unfolding digit_char_def by (simp add: nat_mod_as_int)
  then show ?thesis using \<open>0 \<le> d\<close> by (auto)
qed

lemma decimal_nz: "CHR 0x00 \<notin> set (decimal n)"
  by (induction n rule: decimal.induct) (subst decimal.simps, auto simp: digit_char_nz[symmetric])

lemma decimal_ne [simp]: "decimal n \<noteq> []"
  by (subst decimal.simps) auto

lemma cstr_append: "CHR 0x00 \<notin> set s \<Longrightarrow> cstr (s @ CHR 0x00 # r) = s"
  by (auto simp: cstr_def takeWhile_append)

text \<open>The part of \<open>lwip_itoa\<close> after the sign \<open>sg\<close> was written.\<close>

definition itoa_finish :: "nat \<Rightarrow> nat \<times> int \<times> string \<Rightarrow> string" where
  "itoa_finish res = (\<lambda>(tmp, n, buf).
     if n \<noteq> 0 then buf[0 := CHR 0x00]
     else if buf ! tmp = CHR 0x00 then (buf[res := CHR ''0''])[res + 1 := CHR 0x00]
     else mem_write buf res (drop tmp buf))"

lemma itoa_finish_fits:
  assumes n: "n > 0" and buf: "length buf = Suc B" "buf ! B = CHR 0x00"
    and res: "take res buf = sg" "length sg = res"
    and fits: "res + length (decimal n) \<le> B"
  shows "\<exists>r. itoa_finish res (itoa_loop res B (int n) buf) = sg @ decimal n @ CHR 0x00 # r
    \<and> length (sg @ decimal n @ CHR 0x00 # r) = Suc B"
proof -
  let ?t = "B - length (decimal n)"
  let ?b = "mem_write buf ?t (decimal n)"
  have loop: "itoa_loop res B (int n) buf = (?t, 0, ?b)"
    using n fits buf by (intro itoa_loop_fits) auto
  have d: "drop B buf = [CHR 0x00]" using buf by (simp add: Cons_nth_drop_Suc [symmetric])
  have dt: "drop ?t ?b = decimal n @ [CHR 0x00]"
    using fits buf d by (simp add: mem_write_def)
  have lb: "length ?b = Suc B" using fits buf by (simp add: length_mem_write)
  have "?b ! ?t = hd (decimal n)"
    using hd_drop_conv_nth [of ?t ?b] dt lb by simp
  then have nz: "?b ! ?t \<noteq> CHR 0x00"
    using decimal_nz [of n] by (metis decimal_ne hd_in_set)
  have tk: "take res ?b = sg" using fits buf res by (simp add: take_mem_write)
  have "itoa_finish res (?t, 0, ?b) = sg @ decimal n @ CHR 0x00 # drop (res + length (decimal n) + 1) ?b"
    using nz tk by (simp add: itoa_finish_def dt) (simp add: mem_write_def)
  then show ?thesis using loop lb fits res by (intro exI) auto
qed

lemma lwip_itoa_finish:
  assumes "number \<noteq> - (2 ^ 31)" "length buf \<ge> 2"
  shows "lwip_itoa buf number = Some
    (let res = (if number < 0 then 1 else 0);
         b = (if number < 0 then buf[0 := CHR ''-''] else buf)[length buf - 1 := CHR 0x00]
     in itoa_finish res (itoa_loop res (length buf - 1) \<bar>number\<bar> b))"
  using assms
  by (auto simp: lwip_itoa_def itoa_finish_def Let_def split: prod.splits)

lemma itoa_finish_full:
  assumes n: "n > 0" and buf: "length buf = Suc B" and full: "res + length (decimal n) > B"
  shows "\<exists>r. itoa_finish res (itoa_loop res B (int n) buf) = CHR 0x00 # r \<and> length r = B"
proof -
  have "B - res < length (decimal n)"
    using full length_greater_0_conv [of "decimal n"] decimal_ne [of n] by linarith
  then obtain t m b where "itoa_loop res B (int n) buf = (t, m, b)" "m \<noteq> 0" "length b = length buf"
    using itoa_loop_full [of B res n buf] n by auto
  then show ?thesis using buf by (cases b) (auto simp: itoa_finish_def)
qed

lemma decimal_0: "decimal 0 = ''0''"
  by code_simp

lemma lwip_itoa_zero:
  assumes "length buf \<ge> 2"
  shows "\<exists>out. lwip_itoa buf 0 = Some out \<and> length out = length buf \<and> cstr out = ''0''"
proof -
  define b where "b = buf[length buf - 1 := CHR 0x00]"
  have b: "length b = length buf" "b ! (length buf - 1) = CHR 0x00"
    using assms by (auto simp: b_def)
  have "lwip_itoa buf 0 = Some ((b[0 := CHR ''0''])[1 := CHR 0x00])"
    using b(2) assms by (simp add: lwip_itoa_finish b_def itoa_finish_def itoa_loop.simps Let_def)
  moreover have "cstr ((b[0 := CHR ''0''])[1 := CHR 0x00]) = ''0''"
    using b assms by (cases b; cases "tl b") (auto simp: cstr_def)
  ultimately show ?thesis using b by simp
qed

lemma lwip_itoa_writes:
  assumes "- (2 ^ 31) < number" "buf \<noteq> []"
  shows "\<exists>out. lwip_itoa buf number = Some out \<and> length out = length buf
    \<and> cstr out = (if length (decimal_int number) < length buf then decimal_int number else [])"
proof (cases "length buf \<ge> 2")
  case False
  then obtain c where "buf = [c]" using assms(2) by (cases buf; cases "tl buf") auto
  then show ?thesis using assms
    by (simp add: lwip_itoa_def cstr_def decimal_int_def)
next
  case True
  define res where "res = (if number < 0 then 1 else 0 :: nat)"
  define b where "b = (if number < 0 then buf[0 := CHR ''-''] else buf)[length buf - 1 := CHR 0x00]"
  define n where "n = nat \<bar>number\<bar>"
  define sg where "sg = (if number < 0 then ''-'' else [])"
  have r: "lwip_itoa buf number = Some (itoa_finish res (itoa_loop res (length buf - 1) (int n) b))"
    using lwip_itoa_finish [OF _ True, of number] assms(1)
    by (simp add: res_def b_def n_def Let_def)
  have b: "length b = Suc (length buf - 1)" "b ! (length buf - 1) = CHR 0x00"
    using True by (auto simp: b_def)
  have sg: "take res b = sg" "length sg = res"
    using True by (cases buf; cases "tl buf"; auto simp: b_def res_def sg_def)+
  show ?thesis
  proof (cases "number = 0")
    case True': True
    then show ?thesis using lwip_itoa_zero [OF True] True by (auto simp: decimal_int_def decimal_0)
  next
    case False
    then have n: "n > 0" by (simp add: n_def)
    have dec: "decimal_int number = sg @ decimal n" using False
      by (auto simp: decimal_int_def sg_def n_def)
    have sgz: "CHR 0x00 \<notin> set (sg @ decimal n)" using decimal_nz by (auto simp: sg_def)
    show ?thesis
    proof (cases "res + length (decimal n) \<le> length buf - 1")
      case True
      from itoa_finish_fits [OF n b sg True] r sgz cstr_append [OF sgz] sg
      show ?thesis using b \<open>2 \<le> length buf\<close> True by (auto simp: dec)
    next
      case False
      then obtain q where "itoa_finish res (itoa_loop res (length buf - 1) (int n) b) = CHR 0x00 # q"
          "length q = length buf - 1"
        using itoa_finish_full [OF n b(1)] by (auto simp: not_le)
      then show ?thesis using r False sg b \<open>2 \<le> length buf\<close>
        by (auto simp: dec cstr_def)
    qed
  qed
qed

text \<open>
  For every number but \<^verbatim>\<open>INT_MIN\<close> and every non-empty buffer,
  \<open>lwip_itoa\<close> stays inside the buffer and leaves the decimal representation as a
  terminated string if it fits with its terminator, and the empty string otherwise.
\<close>

lemma lwip_itoa_correct:
  assumes "- (2 ^ 31) < number" "buf \<noteq> []"
  shows "\<exists>out. lwip_itoa buf number = Some out \<and> length out = length buf
    \<and> cstr out = (if length (decimal_int number) < length buf then decimal_int number else [])"
  using assms by (rule lwip_itoa_writes)

lemma lwip_itoa_correct_witness:
  "- (2 ^ 31) < (- 205 :: int) \<and> ''xxxxxx'' \<noteq> [] \<and>
   (\<exists>out. lwip_itoa ''xxxxxx'' (- 205) = Some out \<and> length out = length ''xxxxxx''
    \<and> cstr out = (if length (decimal_int (- 205)) < length ''xxxxxx'' then decimal_int (- 205) else []))"
  using lwip_itoa_correct [of "- 205" "''xxxxxx''"] by simp

end
