(* ===== verification/Pbuf.thy ===== *)
theory Pbuf
  imports Xnet_Prelude
begin

text \<open>
  \<^verbatim>\<open>externals/lwip/src/core/pbuf.c\<close>: packet buffers. A chain of
  \<^verbatim>\<open>struct pbuf\<close> linked by \<^verbatim>\<open>next\<close> is the list of its elements
  (\<^verbatim>\<open>NULL\<close> is the empty list); an operation on a chain returns the chain as the
  operation leaves it. A buffer carries the memory block its payload pointer points into:
  \<open>p_payload\<close> is the offset of the pointer from the start of the block, which for the
  types that keep data behind the structure is \<^verbatim>\<open>(u8_t *)p + SIZEOF_STRUCT_PBUF\<close>.
  A \<^verbatim>\<open>NULL\<close> dereference or an access outside a block is the result \<open>None\<close>.
  The blocks come from \<^verbatim>\<open>malloc\<close>, a parameter. The build disables assertions
  (\<^verbatim>\<open>LWIP_NOASSERT\<close>); the checks of \<^verbatim>\<open>LWIP_ERROR\<close> are kept.
\<close>

section \<open>Buffers and chains\<close>

record pbuf =
  p_mem :: "u8 list"
  p_payload :: int
  p_tot_len :: u16
  p_len :: u16
  p_type_internal :: u8
  p_flags :: u8
  p_ref :: u8
  p_if_idx :: u8

datatype pbuf_layer = PBUF_TRANSPORT | PBUF_IP | PBUF_LINK | PBUF_RAW_TX | PBUF_RAW

fun layer_offset :: "pbuf_layer \<Rightarrow> u16" where
  "layer_offset PBUF_TRANSPORT = 0 + 14 + 40 + 20"
| "layer_offset PBUF_IP = 0 + 14 + 40"
| "layer_offset PBUF_LINK = 0 + 14"
| "layer_offset PBUF_RAW_TX = 0"
| "layer_offset PBUF_RAW = 0"

datatype pbuf_type = PBUF_RAM | PBUF_ROM | PBUF_REF | PBUF_POOL

abbreviation (input) PBUF_TYPE_FLAG_STRUCT_DATA_CONTIGUOUS :: u8 where
  "PBUF_TYPE_FLAG_STRUCT_DATA_CONTIGUOUS \<equiv> 0x80"
abbreviation (input) PBUF_TYPE_FLAG_DATA_VOLATILE :: u8 where
  "PBUF_TYPE_FLAG_DATA_VOLATILE \<equiv> 0x40"
abbreviation (input) PBUF_TYPE_ALLOC_SRC_MASK :: u8 where
  "PBUF_TYPE_ALLOC_SRC_MASK \<equiv> 0x0F"
abbreviation (input) PBUF_FLAG_IS_CUSTOM :: u8 where
  "PBUF_FLAG_IS_CUSTOM \<equiv> 0x02"
abbreviation (input) PBUF_FLAG_TCP_FIN :: u8 where
  "PBUF_FLAG_TCP_FIN \<equiv> 0x20"

text \<open>The type as kept in \<^verbatim>\<open>type_internal\<close>: the allocation flags above bit 7 are cut off.\<close>

fun type_bits :: "pbuf_type \<Rightarrow> u8" where
  "type_bits PBUF_RAM = 0x80"
| "type_bits PBUF_ROM = 0x01"
| "type_bits PBUF_REF = 0x41"
| "type_bits PBUF_POOL = 0x82"

definition payload_read :: "pbuf \<Rightarrow> nat \<Rightarrow> nat \<Rightarrow> u8 list" where
  "payload_read p off n = take n (drop (nat (p_payload p) + off) (p_mem p))"

definition payload_write :: "pbuf \<Rightarrow> nat \<Rightarrow> u8 list \<Rightarrow> pbuf" where
  "payload_write p off bs = p\<lparr>p_mem := mem_write (p_mem p) (nat (p_payload p) + off) bs\<rparr>"

definition pdata :: "pbuf \<Rightarrow> u8 list" where
  "pdata p = payload_read p 0 (unat (p_len p))"

definition pbytes :: "pbuf list \<Rightarrow> u8 list" where
  "pbytes ps = concat (map pdata ps)"

definition plen :: "pbuf list \<Rightarrow> nat" where
  "plen ps = sum_list (map (\<lambda>p. unat (p_len p)) ps)"

definition wf_pbuf :: "pbuf \<Rightarrow> bool" where
  "wf_pbuf p \<longleftrightarrow> 0 \<le> p_payload p \<and> nat (p_payload p) + unat (p_len p) \<le> length (p_mem p)"

text \<open>The invariant of \<^verbatim>\<open>tot_len\<close>: it is the number of bytes from this buffer on.\<close>

fun tot_ok :: "pbuf list \<Rightarrow> bool" where
  "tot_ok [] = True"
| "tot_ok (p # ps) = (unat (p_tot_len p) = plen (p # ps) \<and> tot_ok ps)"

definition wf_chain :: "pbuf list \<Rightarrow> bool" where
  "wf_chain ps \<longleftrightarrow> list_all wf_pbuf ps \<and> tot_ok ps"

section \<open>Allocation\<close>

definition SIZEOF_STRUCT_PBUF :: nat where
  "SIZEOF_STRUCT_PBUF = 24"

text \<open>\<^verbatim>\<open>PBUF_POOL_BUFSIZE_ALIGNED\<close>; \<^verbatim>\<open>MEM_ALIGNMENT\<close> is 4.\<close>

definition PBUF_POOL_BUFSIZE :: nat where
  "PBUF_POOL_BUFSIZE = 1516"

definition LWIP_MEM_ALIGN_SIZE :: "nat \<Rightarrow> nat" where
  "LWIP_MEM_ALIGN_SIZE n = (n + 3) div 4 * 4"

text \<open>
  \<open>malloc k n\<close> is the answer of the \<open>k\<close>-th call of the operation for \<open>n\<close>
  bytes: the block with whatever it holds, or \<open>None\<close>.
\<close>

type_synonym allocator = "nat \<Rightarrow> nat \<Rightarrow> u8 list option"

definition malloc_ok :: "allocator \<Rightarrow> bool" where
  "malloc_ok malloc \<longleftrightarrow> (\<forall>k n b. malloc k n = Some b \<longrightarrow> length b = n)"

definition pbuf_init_alloced_pbuf ::
    "u8 list \<Rightarrow> int \<Rightarrow> u16 \<Rightarrow> u16 \<Rightarrow> pbuf_type \<Rightarrow> u8 \<Rightarrow> pbuf" where
  "pbuf_init_alloced_pbuf mem payload tot_len len typ flags =
     \<lparr>p_mem = mem, p_payload = payload, p_tot_len = tot_len, p_len = len,
      p_type_internal = type_bits typ, p_flags = flags, p_ref = 1, p_if_idx = 0\<rparr>"

datatype free_dest = Free_Custom | Free_Memp_Pool | Free_Memp_Pbuf | Free_Heap | Free_None

definition free_dest :: "pbuf \<Rightarrow> free_dest" where
  "free_dest p =
     (let alloc_src = p_type_internal p AND PBUF_TYPE_ALLOC_SRC_MASK in
      if p_flags p AND PBUF_FLAG_IS_CUSTOM \<noteq> 0 then Free_Custom
      else if alloc_src = 0x02 then Free_Memp_Pool
      else if alloc_src = 0x01 then Free_Memp_Pbuf
      else if alloc_src = 0x00 then Free_Heap
      else Free_None)"

text \<open>
  \<open>pbuf_free\<close> returns its count, the buffers given back in order with the place they
  go to, and the rest of the chain that is still referenced.
\<close>

type_synonym freed = "(free_dest \<times> pbuf) list"

fun pbuf_free_loop :: "u8 \<Rightarrow> freed \<Rightarrow> pbuf list \<Rightarrow> u8 \<times> freed \<times> pbuf list" where
  "pbuf_free_loop count fr [] = (count, fr, [])"
| "pbuf_free_loop count fr (p # ps) =
     (let r = p_ref p - 1; p = p\<lparr>p_ref := r\<rparr> in
      if r = 0 then pbuf_free_loop (count + 1) (fr @ [(free_dest p, p)]) ps
      else (count, fr, p # ps))"

definition pbuf_free :: "pbuf list \<Rightarrow> u8 \<times> freed \<times> pbuf list" where
  "pbuf_free ps = pbuf_free_loop 0 [] ps"

definition pbuf_alloc_reference ::
    "allocator \<Rightarrow> u8 list \<Rightarrow> int \<Rightarrow> u16 \<Rightarrow> pbuf_type \<Rightarrow> pbuf list" where
  "pbuf_alloc_reference malloc mem payload len typ =
     (case malloc 0 SIZEOF_STRUCT_PBUF of
        None \<Rightarrow> []
      | Some b \<Rightarrow> [pbuf_init_alloced_pbuf mem payload len len typ 0])"

text \<open>
  What \<^verbatim>\<open>pbuf_alloc\<close> leaves: the chain (empty for \<^verbatim>\<open>NULL\<close>), the
  buffers it gave back on the way out, and whether it called \<open>pbuf_pool_is_empty\<close>.
\<close>

record alloc_res =
  ar_chain :: "pbuf list"
  ar_freed :: freed
  ar_pool_empty :: bool

text \<open>
  \<open>pbuf_pool_is_empty\<close> on \<^verbatim>\<open>pbuf_free_ooseq_pending\<close>; \<open>try_ok\<close> is the
  answer of \<^verbatim>\<open>tcpip_try_callback\<close>. The second result says whether the callback
  was queued.
\<close>

definition pbuf_pool_is_empty :: "bool \<Rightarrow> bool \<Rightarrow> bool \<times> bool" where
  "pbuf_pool_is_empty try_ok pending =
     (let queued = pending; pending = True in
      if \<not> queued then (if \<not> try_ok then (False, False) else (pending, True))
      else (pending, False))"

function pool_loop :: "allocator \<Rightarrow> nat \<Rightarrow> u16 \<Rightarrow> u16 \<Rightarrow> pbuf list \<Rightarrow> alloc_res" where
  "pool_loop malloc k offset rem_len p =
     (case malloc k (SIZEOF_STRUCT_PBUF + PBUF_POOL_BUFSIZE) of
        None \<Rightarrow>
          \<lparr>ar_chain = [], ar_freed = (if p \<noteq> [] then fst (snd (pbuf_free p)) else []),
           ar_pool_empty = True\<rparr>
      | Some b \<Rightarrow>
          let qlen = min rem_len
                (of_nat PBUF_POOL_BUFSIZE - of_nat (LWIP_MEM_ALIGN_SIZE (unat offset)));
              q = pbuf_init_alloced_pbuf (drop SIZEOF_STRUCT_PBUF b)
                    (int (LWIP_MEM_ALIGN_SIZE (unat offset))) rem_len qlen PBUF_POOL 0;
              rem_len = rem_len - qlen
          in if rem_len > 0 then pool_loop malloc (Suc k) 0 rem_len (p @ [q])
             else \<lparr>ar_chain = p @ [q], ar_freed = [], ar_pool_empty = False\<rparr>)"
  by pat_completeness auto
termination
proof (relation "measure (\<lambda>(m, k, off, rem, p). 2 * unat rem + (if off = 0 then 0 else 1))",
    goal_cases)
  case (2 malloc k offset rem_len p b qlen q rem)
  have q: "qlen \<le> rem_len" using 2(2) by simp
  then have u: "unat rem = unat rem_len - unat qlen"
    using 2(4) by (simp add: unat_sub)
  have "unat rem < unat rem_len" if "offset = 0"
  proof -
    have "qlen = min rem_len 1516"
      using 2(2) that by (simp add: PBUF_POOL_BUFSIZE_def LWIP_MEM_ALIGN_SIZE_def)
    then have "qlen \<noteq> 0" using 2(4,5) by (auto simp: min_def split: if_splits)
    then have "unat qlen \<noteq> 0" "unat rem_len \<noteq> 0" using q by (auto simp: unat_eq_0)
    then show ?thesis using u by simp
  qed
  then show ?case using u by (auto simp: Let_def)
qed auto

declare pool_loop.simps [simp del]

definition pbuf_alloc :: "allocator \<Rightarrow> pbuf_layer \<Rightarrow> u16 \<Rightarrow> pbuf_type \<Rightarrow> alloc_res" where
  "pbuf_alloc malloc layer len typ =
     (let offset = layer_offset layer in
      case typ of
        PBUF_REF \<Rightarrow> \<lparr>ar_chain = pbuf_alloc_reference malloc [] 0 len typ, ar_freed = [],
                      ar_pool_empty = False\<rparr>
      | PBUF_ROM \<Rightarrow> \<lparr>ar_chain = pbuf_alloc_reference malloc [] 0 len typ, ar_freed = [],
                      ar_pool_empty = False\<rparr>
      | PBUF_POOL \<Rightarrow> pool_loop malloc 0 offset len []
      | PBUF_RAM \<Rightarrow>
          let payload_len = of_nat (LWIP_MEM_ALIGN_SIZE (unat offset)
                                    + LWIP_MEM_ALIGN_SIZE (unat len)) :: u16;
              alloc_len = LWIP_MEM_ALIGN_SIZE SIZEOF_STRUCT_PBUF + unat payload_len;
              fail = \<lparr>ar_chain = [], ar_freed = [], ar_pool_empty = False\<rparr>
          in if unat payload_len < LWIP_MEM_ALIGN_SIZE (unat len)
                \<or> alloc_len < LWIP_MEM_ALIGN_SIZE (unat len) then fail
             else case malloc 0 alloc_len of
                    None \<Rightarrow> fail
                  | Some b \<Rightarrow>
                      \<lparr>ar_chain = [pbuf_init_alloced_pbuf (drop SIZEOF_STRUCT_PBUF b)
                         (int (LWIP_MEM_ALIGN_SIZE (unat offset))) len len PBUF_RAM 0],
                       ar_freed = [], ar_pool_empty = False\<rparr>)"

text \<open>\<^verbatim>\<open>payload_mem\<close> is \<open>None\<close> for \<^verbatim>\<open>NULL\<close>.\<close>

definition pbuf_alloced_custom ::
    "pbuf_layer \<Rightarrow> u16 \<Rightarrow> pbuf_type \<Rightarrow> u8 list option \<Rightarrow> u16 \<Rightarrow> pbuf option" where
  "pbuf_alloced_custom l len typ payload_mem payload_mem_len =
     (let offset = layer_offset l in
      if LWIP_MEM_ALIGN_SIZE (unat offset) + unat len > unat payload_mem_len then None
      else case payload_mem of
             Some m \<Rightarrow> Some (pbuf_init_alloced_pbuf m (int (LWIP_MEM_ALIGN_SIZE (unat offset)))
                              len len typ PBUF_FLAG_IS_CUSTOM)
           | None \<Rightarrow> Some (pbuf_init_alloced_pbuf [] 0 len len typ PBUF_FLAG_IS_CUSTOM))"

section \<open>Changing the length\<close>

text \<open>
  \<open>pbuf_realloc\<close>: the new chain, the buffers given back, and what other owners still
  hold of the cut-off tail. \<^verbatim>\<open>mem_trim\<close> returns its argument
  (\<^verbatim>\<open>MEM_LIBC_MALLOC\<close>). Running off the chain dereferences \<^verbatim>\<open>NULL\<close>.
\<close>

fun realloc_loop :: "pbuf list \<Rightarrow> u16 \<Rightarrow> u16 \<Rightarrow> (pbuf list \<times> freed \<times> pbuf list) option" where
  "realloc_loop [] rem_len shrink = None"
| "realloc_loop (q # qs) rem_len shrink =
     (if rem_len > p_len q then
        map_option (\<lambda>(c, fr, kept). (q\<lparr>p_tot_len := p_tot_len q - shrink\<rparr> # c, fr, kept))
          (realloc_loop qs (rem_len - p_len q) shrink)
      else
        let (_, fr, kept) = (if qs \<noteq> [] then pbuf_free qs else (0, [], []))
        in Some ([q\<lparr>p_len := rem_len, p_tot_len := rem_len\<rparr>], fr, kept))"

fun pbuf_realloc :: "pbuf list \<Rightarrow> u16 \<Rightarrow> (pbuf list \<times> freed \<times> pbuf list) option" where
  "pbuf_realloc [] new_len = None"
| "pbuf_realloc (p # ps) new_len =
     (if new_len \<ge> p_tot_len p then Some (p # ps, [], [])
      else realloc_loop (p # ps) new_len (p_tot_len p - new_len))"

text \<open>Header space. The returned byte is 0 on success and 1 on failure.\<close>

fun pbuf_add_header_impl :: "pbuf list \<Rightarrow> nat \<Rightarrow> bool \<Rightarrow> u8 \<times> pbuf list" where
  "pbuf_add_header_impl [] inc force = (1, [])"
| "pbuf_add_header_impl (p # ps) inc force =
     (if inc > 0xFFFF then (1, p # ps)
      else if inc = 0 then (0, p # ps)
      else
        let increment_magnitude = of_nat inc :: u16 in
        if increment_magnitude + p_tot_len p < increment_magnitude then (1, p # ps)
        else
          let contiguous =
                (p_type_internal p AND PBUF_TYPE_FLAG_STRUCT_DATA_CONTIGUOUS \<noteq> 0);
              payload = p_payload p - int inc
          in if (if contiguous then payload < 0 else \<not> force) then (1, p # ps)
             else (0, p\<lparr>p_payload := payload,
                        p_len := p_len p + increment_magnitude,
                        p_tot_len := p_tot_len p + increment_magnitude\<rparr> # ps))"

definition pbuf_add_header :: "pbuf list \<Rightarrow> nat \<Rightarrow> u8 \<times> pbuf list" where
  "pbuf_add_header ps inc = pbuf_add_header_impl ps inc False"

definition pbuf_add_header_force :: "pbuf list \<Rightarrow> nat \<Rightarrow> u8 \<times> pbuf list" where
  "pbuf_add_header_force ps inc = pbuf_add_header_impl ps inc True"

fun pbuf_remove_header :: "pbuf list \<Rightarrow> nat \<Rightarrow> u8 \<times> pbuf list" where
  "pbuf_remove_header [] dec = (1, [])"
| "pbuf_remove_header (p # ps) dec =
     (if dec > 0xFFFF then (1, p # ps)
      else if dec = 0 then (0, p # ps)
      else
        let increment_magnitude = of_nat dec :: u16 in
        if \<not> increment_magnitude \<le> p_len p then (1, p # ps)
        else (0, p\<lparr>p_payload := p_payload p + int dec,
                   p_len := p_len p - increment_magnitude,
                   p_tot_len := p_tot_len p - increment_magnitude\<rparr> # ps))"

text \<open>The increment is an \<^verbatim>\<open>s16_t\<close>.\<close>

definition pbuf_header_impl :: "pbuf list \<Rightarrow> 16 word \<Rightarrow> bool \<Rightarrow> u8 \<times> pbuf list" where
  "pbuf_header_impl ps inc force =
     (if sint inc < 0 then pbuf_remove_header ps (nat (- sint inc))
      else pbuf_add_header_impl ps (nat (sint inc)) force)"

definition pbuf_header :: "pbuf list \<Rightarrow> 16 word \<Rightarrow> u8 \<times> pbuf list" where
  "pbuf_header ps inc = pbuf_header_impl ps inc False"

definition pbuf_header_force :: "pbuf list \<Rightarrow> 16 word \<Rightarrow> u8 \<times> pbuf list" where
  "pbuf_header_force ps inc = pbuf_header_impl ps inc True"

text \<open>
  \<open>pbuf_free_header\<close>: the remaining chain, the buffers given back, and the dropped
  buffers another owner still holds (each with its \<^verbatim>\<open>next\<close> cleared).
\<close>

fun pbuf_free_header :: "pbuf list \<Rightarrow> u16 \<Rightarrow> pbuf list \<times> freed \<times> pbuf list" where
  "pbuf_free_header [] free_left = ([], [], [])"
| "pbuf_free_header (p # ps) free_left =
     (if free_left = 0 then (p # ps, [], [])
      else if free_left \<ge> p_len p then
        let (_, fr, kept) = pbuf_free [p];
            (c, fr', kept') = pbuf_free_header ps (free_left - p_len p)
        in (c, fr @ fr', kept @ kept')
      else (snd (pbuf_remove_header (p # ps) (unat free_left)), [], []))"

section \<open>Linking\<close>

fun clen_loop :: "pbuf list \<Rightarrow> u16 \<Rightarrow> u16" where
  "clen_loop [] n = n"
| "clen_loop (p # ps) n = clen_loop ps (n + 1)"

definition pbuf_clen :: "pbuf list \<Rightarrow> u16" where
  "pbuf_clen ps = clen_loop ps 0"

fun pbuf_ref :: "pbuf list \<Rightarrow> pbuf list" where
  "pbuf_ref [] = []"
| "pbuf_ref (p # ps) = p\<lparr>p_ref := p_ref p + 1\<rparr> # ps"

fun pbuf_cat :: "pbuf list \<Rightarrow> pbuf list \<Rightarrow> pbuf list" where
  "pbuf_cat h [] = h"
| "pbuf_cat [] t = []"
| "pbuf_cat h (t # ts) =
     map (\<lambda>p. p\<lparr>p_tot_len := p_tot_len p + p_tot_len t\<rparr>) h @ t # ts"

text \<open>
  \<open>pbuf_chain h t\<close>: the chain at \<open>h\<close>; its tail, with one reference more, is the
  chain the caller still holds at \<open>t\<close>.
\<close>

definition pbuf_chain :: "pbuf list \<Rightarrow> pbuf list \<Rightarrow> pbuf list" where
  "pbuf_chain h t = (if h = [] then [] else pbuf_cat h (pbuf_ref t))"

text \<open>
  \<open>pbuf_dechain\<close>: the first buffer alone, what was given back, and the returned tail.
  The count \<open>tail_gone\<close> is a \<^verbatim>\<open>u8_t\<close>: if it wraps to 0 the function returns
  a pointer to memory it has given back, the outcome \<open>None\<close>.
\<close>

fun pbuf_dechain :: "pbuf list \<Rightarrow> (pbuf \<times> freed \<times> pbuf list) option" where
  "pbuf_dechain [] = None"
| "pbuf_dechain [p] = Some (p, [], [])"
| "pbuf_dechain (p # q # qs) =
     (let q = q\<lparr>p_tot_len := p_tot_len p - p_len p\<rparr>;
          p = p\<lparr>p_tot_len := p_len p\<rparr>;
          (tail_gone, fr, rest) = pbuf_free (q # qs)
      in if tail_gone > 0 then Some (p, fr, [])
         else if fr = [] then Some (p, fr, rest) else None)"

section \<open>Copying\<close>

definition queue_check :: "pbuf list \<Rightarrow> bool" where
  "queue_check ps \<longleftrightarrow> (case ps of [] \<Rightarrow> True | p # qs \<Rightarrow> p_len p = p_tot_len p \<longrightarrow> qs = [])"

text \<open>
  The loop of \<open>pbuf_copy\<close> from the current target \<open>t\<close> and source \<open>f\<close>, with
  the offsets into them; the result is the target chain from \<open>t\<close> on. The code
  tests \<^verbatim>\<open>offset_to == p_to->len\<close>; \<open>offset_to\<close> never exceeds the length.
\<close>

function copy_loop :: "pbuf list \<Rightarrow> nat \<Rightarrow> pbuf list \<Rightarrow> nat \<Rightarrow> err_t \<times> pbuf list" where
  "copy_loop [] offset_to fs offset_from = (ERR_ARG, [])"
| "copy_loop (t # ts) offset_to [] offset_from = (ERR_OK, t # ts)"
| "copy_loop (t # ts) offset_to (f # fs) offset_from =
     (let len = (if unat (p_len t) - offset_to \<ge> unat (p_len f) - offset_from
                 then unat (p_len f) - offset_from else unat (p_len t) - offset_to);
          t' = payload_write t offset_to (payload_read f offset_from len);
          offset_to = offset_to + len;
          offset_from = offset_from + len;
          (from', offset_from') =
            (if offset_from \<ge> unat (p_len f) then (fs, 0) else (f # fs, offset_from));
          advance = (offset_to \<ge> unat (p_len t))
      in if advance \<and> ts = [] \<and> from' \<noteq> [] then (ERR_ARG, t' # ts)
         else if \<not> queue_check from' then (ERR_VAL, t' # ts)
         else if \<not> queue_check (if advance then ts else t' # ts) then (ERR_VAL, t' # ts)
         else if from' = [] then (ERR_OK, t' # ts)
         else if advance then
           (let (e, ts') = copy_loop ts 0 from' offset_from' in (e, t' # ts'))
         else copy_loop (t' # ts) offset_to from' offset_from')"
  by pat_completeness auto
termination
  by (relation "measure (\<lambda>(ts, ot, fs, off). length ts + length fs)")
     (auto simp: Let_def split: if_splits)

declare copy_loop.simps [simp del]

definition pbuf_copy :: "pbuf list \<Rightarrow> pbuf list \<Rightarrow> err_t \<times> pbuf list" where
  "pbuf_copy p_to p_from =
     (case (p_to, p_from) of
        (t # ts, f # fs) \<Rightarrow>
          if p_tot_len t \<ge> p_tot_len f then copy_loop p_to 0 p_from 0 else (ERR_ARG, p_to)
      | _ \<Rightarrow> (ERR_ARG, p_to))"

text \<open>\<open>dataptr\<close> is the destination block, \<open>None\<close> for \<^verbatim>\<open>NULL\<close>.\<close>

fun copy_partial_loop ::
    "pbuf list \<Rightarrow> u8 list \<Rightarrow> u16 \<Rightarrow> u16 \<Rightarrow> u16 \<Rightarrow> u16 \<Rightarrow> (u16 \<times> u8 list) option" where
  "copy_partial_loop [] data len offset left copied_total = Some (copied_total, data)"
| "copy_partial_loop (p # ps) data len offset left copied_total =
     (if len = 0 then Some (copied_total, data)
      else if offset \<noteq> 0 \<and> offset \<ge> p_len p then
        copy_partial_loop ps data len (offset - p_len p) left copied_total
      else
        let n = p_len p - offset;
            buf_copy_len = (if n > len then len else n)
        in if unat left + unat buf_copy_len \<le> length data then
             copy_partial_loop ps
               (mem_write data (unat left) (payload_read p (unat offset) (unat buf_copy_len)))
               (len - buf_copy_len) 0 (left + buf_copy_len) (copied_total + buf_copy_len)
           else None)"

definition pbuf_copy_partial ::
    "pbuf list \<Rightarrow> u8 list option \<Rightarrow> u16 \<Rightarrow> u16 \<Rightarrow> (u16 \<times> u8 list) option" where
  "pbuf_copy_partial buf dataptr len offset =
     (case dataptr of
        None \<Rightarrow> Some (0, [])
      | Some data \<Rightarrow>
          if buf = [] then Some (0, data) else copy_partial_loop buf data len offset 0 0)"

fun pbuf_skip_const :: "pbuf list \<Rightarrow> u16 \<Rightarrow> pbuf list \<times> u16" where
  "pbuf_skip_const [] offset_left = ([], offset_left)"
| "pbuf_skip_const (q # qs) offset_left =
     (if p_len q \<le> offset_left then pbuf_skip_const qs (offset_left - p_len q)
      else (q # qs, offset_left))"

definition pbuf_skip :: "pbuf list \<Rightarrow> u16 \<Rightarrow> pbuf list \<times> u16" where
  "pbuf_skip ps in_offset = pbuf_skip_const ps in_offset"

text \<open>
  The pointer \<open>pbuf_get_contiguous\<close> returns: \<^verbatim>\<open>NULL\<close>, an offset into the
  payload of a buffer of the chain, or the caller's buffer.
\<close>

datatype contiguous = C_Null | C_Payload pbuf nat | C_Buffer "u8 list"

definition pbuf_get_contiguous ::
    "pbuf list \<Rightarrow> u8 list option \<Rightarrow> nat \<Rightarrow> u16 \<Rightarrow> u16 \<Rightarrow> contiguous option" where
  "pbuf_get_contiguous p buffer bufsize len offset =
     (if p = [] \<or> buffer = None \<or> \<not> bufsize \<ge> unat len then Some C_Null
      else case pbuf_skip_const p offset of
             ([], _) \<Rightarrow> Some C_Null
           | (q # qs, out_offset) \<Rightarrow>
               if unat (p_len q) \<ge> unat out_offset + unat len
               then Some (C_Payload q (unat out_offset))
               else case pbuf_copy_partial (q # qs) buffer len out_offset of
                      None \<Rightarrow> None
                    | Some (n, data) \<Rightarrow> Some (if n \<noteq> len then C_Null else C_Buffer data))"

fun split_64k_loop :: "u16 \<Rightarrow> pbuf list \<Rightarrow> pbuf list \<times> pbuf list" where
  "split_64k_loop tot_len_front [] = ([], [])"
| "split_64k_loop tot_len_front (r # rs) =
     (if tot_len_front + p_len r \<ge> tot_len_front then
        let (front, rest) = split_64k_loop (tot_len_front + p_len r) rs in (r # front, rest)
      else ([], r # rs))"

fun pbuf_split_64k :: "pbuf list \<Rightarrow> pbuf list \<times> pbuf list" where
  "pbuf_split_64k [] = ([], [])"
| "pbuf_split_64k [p] = ([p], [])"
| "pbuf_split_64k (p # q # qs) =
     (let (front, rest) = split_64k_loop (p_len p) (q # qs) in
      case rest of
        [] \<Rightarrow> (p # front, [])
      | r # rs \<Rightarrow>
          (map (\<lambda>i. i\<lparr>p_tot_len := p_tot_len i - p_tot_len r\<rparr>) (p # front),
           (if p_flags p AND PBUF_FLAG_TCP_FIN \<noteq> 0
            then r\<lparr>p_flags := p_flags r OR PBUF_FLAG_TCP_FIN\<rparr> else r) # rs))"

text \<open>\<open>take_loop\<close> copies the remaining bytes; running off the chain is \<open>None\<close>.\<close>

fun take_loop :: "pbuf list \<Rightarrow> u8 list \<Rightarrow> pbuf list option" where
  "take_loop ps [] = Some ps"
| "take_loop [] (b # bs) = None"
| "take_loop (p # ps) (b # bs) =
     (let n = min (length (b # bs)) (unat (p_len p)) in
      map_option ((#) (payload_write p 0 (take n (b # bs)))) (take_loop ps (drop n (b # bs))))"

definition pbuf_take :: "pbuf list \<Rightarrow> u8 list option \<Rightarrow> u16 \<Rightarrow> (err_t \<times> pbuf list) option" where
  "pbuf_take buf dataptr len =
     (case buf of
        [] \<Rightarrow> Some (ERR_ARG, [])
      | p # ps \<Rightarrow>
          (case dataptr of
             None \<Rightarrow> Some (ERR_ARG, buf)
           | Some data \<Rightarrow>
               if \<not> p_tot_len p \<ge> len then Some (ERR_MEM, buf)
               else if length data < unat len then None
               else map_option (Pair ERR_OK) (take_loop buf (take (unat len) data))))"

definition pbuf_take_at ::
    "pbuf list \<Rightarrow> u8 list \<Rightarrow> u16 \<Rightarrow> u16 \<Rightarrow> (err_t \<times> pbuf list) option" where
  "pbuf_take_at buf data len offset =
     (case pbuf_skip buf offset of
        ([], _) \<Rightarrow> Some (ERR_MEM, buf)
      | (q # qs, target_offset) \<Rightarrow>
          if \<not> unat (p_tot_len q) \<ge> unat target_offset + unat len then Some (ERR_MEM, buf)
          else if length data < unat len then None
          else
            let front = take (length buf - length (q # qs)) buf;
                first_copy_len = min (unat (p_len q) - unat target_offset) (unat len);
                q' = payload_write q (unat target_offset) (take first_copy_len data);
                remaining_len = len - of_nat first_copy_len
            in if remaining_len > 0 then
                 map_option (\<lambda>(e, qs'). (e, front @ q' # qs'))
                   (pbuf_take qs (Some (drop first_copy_len data)) remaining_len)
               else Some (ERR_OK, front @ q' # qs))"

definition pbuf_clone :: "allocator \<Rightarrow> pbuf_layer \<Rightarrow> pbuf_type \<Rightarrow> pbuf list \<Rightarrow> alloc_res option" where
  "pbuf_clone malloc layer typ p =
     (case p of
        [] \<Rightarrow> None
      | x # xs \<Rightarrow>
          let r = pbuf_alloc malloc layer (p_tot_len x) typ in
          Some (if ar_chain r = [] then r
                else r\<lparr>ar_chain := snd (pbuf_copy (ar_chain r) p)\<rparr>))"

text \<open>\<open>pbuf_coalesce\<close>: the returned chain, and what \<open>pbuf_free\<close> did with the old one.\<close>

definition pbuf_coalesce ::
    "allocator \<Rightarrow> pbuf list \<Rightarrow> pbuf_layer \<Rightarrow> (pbuf list \<times> freed \<times> pbuf list) option" where
  "pbuf_coalesce malloc p layer =
     (case p of
        [] \<Rightarrow> None
      | [x] \<Rightarrow> Some (p, [], [])
      | _ \<Rightarrow>
          (case pbuf_clone malloc layer PBUF_RAM p of
             None \<Rightarrow> None
           | Some r \<Rightarrow>
               if ar_chain r = [] then Some (p, ar_freed r, [])
               else (let (_, fr, kept) = pbuf_free p in Some (ar_chain r, ar_freed r @ fr, kept))))"

section \<open>Single bytes and searching\<close>

definition pbuf_try_get_at :: "pbuf list \<Rightarrow> u16 \<Rightarrow> int" where
  "pbuf_try_get_at p offset =
     (case pbuf_skip_const p offset of
        ([], _) \<Rightarrow> - 1
      | (q # qs, q_idx) \<Rightarrow>
          if p_len q > q_idx then uint (hd (payload_read q (unat q_idx) 1)) else - 1)"

definition pbuf_get_at :: "pbuf list \<Rightarrow> u16 \<Rightarrow> u8" where
  "pbuf_get_at p offset =
     (let ret = pbuf_try_get_at p offset in if ret \<ge> 0 then of_int ret else 0)"

definition pbuf_put_at :: "pbuf list \<Rightarrow> u16 \<Rightarrow> u8 \<Rightarrow> pbuf list" where
  "pbuf_put_at p offset data =
     (case pbuf_skip p offset of
        ([], _) \<Rightarrow> p
      | (q # qs, q_idx) \<Rightarrow>
          if p_len q > q_idx then
            take (length p - length (q # qs)) p @ payload_write q (unat q_idx) [data] # qs
          else p)"

text \<open>\<open>s2\<close> has at least \<open>n\<close> bytes.\<close>

function memcmp_loop :: "pbuf list \<Rightarrow> u16 \<Rightarrow> u8 list \<Rightarrow> u16 \<Rightarrow> u16 \<Rightarrow> u16" where
  "memcmp_loop q start s2 n i =
     (if i < n then
        let a = pbuf_get_at q (start + i); b = s2 ! unat i in
        if a \<noteq> b then of_nat (min (unat i + 1) 0xFFFF)
        else memcmp_loop q start s2 n (i + 1)
      else 0)"
  by pat_completeness auto
termination
  by (relation "measure (\<lambda>(q, st, s, n, i). unat n - unat i)")
     (auto simp: unat_Suc_less word_less_nat_alt)

declare memcmp_loop.simps [simp del]

definition pbuf_memcmp :: "pbuf list \<Rightarrow> u16 \<Rightarrow> u8 list \<Rightarrow> u16 \<Rightarrow> u16 option" where
  "pbuf_memcmp p offset s2 n =
     (case p of
        [] \<Rightarrow> None
      | x # xs \<Rightarrow>
          if unat (p_tot_len x) < unat offset + unat n then Some 0xffff
          else (let (q, start) = pbuf_skip_const p offset in Some (memcmp_loop q start s2 n 0)))"

text \<open>
  The index of \<open>pbuf_memfind\<close> is a \<^verbatim>\<open>u16_t\<close> and wraps: a loop that does not end is
  \<open>None\<close>.
\<close>

partial_function (option) memfind_loop ::
    "pbuf list \<Rightarrow> u8 list \<Rightarrow> u16 \<Rightarrow> u16 \<Rightarrow> u16 \<Rightarrow> u16 option" where
  "memfind_loop p mem mem_len max_cmp_start i =
     (if i \<le> max_cmp_start then
        case pbuf_memcmp p i mem mem_len of
          None \<Rightarrow> None
        | Some cmp \<Rightarrow> if cmp = 0 then Some i else memfind_loop p mem mem_len max_cmp_start (i + 1)
      else Some 0xFFFF)"

definition pbuf_memfind :: "pbuf list \<Rightarrow> u8 list \<Rightarrow> u16 \<Rightarrow> u16 \<Rightarrow> u16 option" where
  "pbuf_memfind p mem mem_len start_offset =
     (case p of
        [] \<Rightarrow> None
      | x # xs \<Rightarrow>
          let max_cmp_start = p_tot_len x - mem_len in
          if unat (p_tot_len x) \<ge> unat mem_len + unat start_offset then
            memfind_loop p mem mem_len max_cmp_start start_offset
          else Some 0xFFFF)"

text \<open>\<open>substr\<close> is \<open>None\<close> for \<^verbatim>\<open>NULL\<close>, else the bytes before the zero.\<close>

definition pbuf_strstr :: "pbuf list \<Rightarrow> u8 list option \<Rightarrow> u16 option" where
  "pbuf_strstr p substr =
     (case substr of
        None \<Rightarrow> Some 0xFFFF
      | Some s \<Rightarrow>
          if s = [] then Some 0xFFFF
          else case p of
                 [] \<Rightarrow> None
               | x # xs \<Rightarrow>
                   if p_tot_len x = 0xFFFF then Some 0xFFFF
                   else if length s \<ge> 0xFFFF then Some 0xFFFF
                   else pbuf_memfind p s (of_nat (length s)) 0)"

end
