(* ===== verification/Pbuf_Chain.thy ===== *)
theory Pbuf_Chain
  imports Pbuf
begin

text \<open>
  The operations of \<^verbatim>\<open>pbuf.c\<close> against the byte string a chain carries:
  well-formed chains, reading and writing at an offset, and their laws as an interface.
\<close>

section \<open>Bytes of a chain\<close>

named_theorems chain_simps \<open>bytes and well-formedness of chains\<close>

lemma length_pdata [chain_simps]: "wf_pbuf p \<Longrightarrow> length (pdata p) = unat (p_len p)"
  by (auto simp: wf_pbuf_def pdata_def payload_read_def)

lemma payload_read_pdata:
  "off + n \<le> unat (p_len p) \<Longrightarrow> payload_read p off n = take n (drop off (pdata p))"
  by (simp add: payload_read_def pdata_def drop_take ac_simps)

lemma wf_payload_write [chain_simps]:
  "wf_pbuf p \<Longrightarrow> off + length bs \<le> unat (p_len p) \<Longrightarrow> wf_pbuf (payload_write p off bs)"
  by (simp add: wf_pbuf_def payload_write_def length_mem_write)

lemma pdata_payload_write [chain_simps]:
  assumes "wf_pbuf p" "off + length bs \<le> unat (p_len p)"
  shows "pdata (payload_write p off bs) = mem_write (pdata p) off bs"
proof -
  have "take (unat (p_len p)) (drop (nat (p_payload p))
          (mem_write (p_mem p) (nat (p_payload p) + off) bs))
      = mem_write (take (unat (p_len p)) (drop (nat (p_payload p)) (p_mem p)))
          (nat (p_payload p) + off - nat (p_payload p)) bs"
    using assms by (intro window_mem_write) (auto simp: wf_pbuf_def)
  then show ?thesis by (simp add: pdata_def payload_read_def payload_write_def)
qed

lemma payload_write_fields [simp]:
  "p_len (payload_write p off bs) = p_len p"
  "p_tot_len (payload_write p off bs) = p_tot_len p"
  "p_ref (payload_write p off bs) = p_ref p"
  "p_flags (payload_write p off bs) = p_flags p"
  "p_type_internal (payload_write p off bs) = p_type_internal p"
  "p_payload (payload_write p off bs) = p_payload p"
  by (simp_all add: payload_write_def)

lemma payload_write_Nil [simp]: "payload_write p off [] = p"
  by (simp add: payload_write_def)

lemma pbytes_simps [chain_simps]:
  "pbytes [] = []"
  "pbytes (p # ps) = pdata p @ pbytes ps"
  "pbytes (ps @ qs) = pbytes ps @ pbytes qs"
  by (simp_all add: pbytes_def)

lemma plen_simps [simp]:
  "plen [] = 0"
  "plen (p # ps) = unat (p_len p) + plen ps"
  "plen (ps @ qs) = plen ps + plen qs"
  by (simp_all add: plen_def)

lemma length_pbytes [chain_simps]: "list_all wf_pbuf ps \<Longrightarrow> length (pbytes ps) = plen ps"
  by (induction ps) (auto simp: chain_simps)

lemma wf_chain_Nil [simp]: "wf_chain []"
  by (simp add: wf_chain_def)

lemma wf_chain_Cons [chain_simps]:
  "wf_chain (p # ps) \<longleftrightarrow>
     wf_pbuf p \<and> unat (p_tot_len p) = unat (p_len p) + plen ps \<and> wf_chain ps"
  by (auto simp: wf_chain_def)

lemma wf_chain_list_all: "wf_chain ps \<Longrightarrow> list_all wf_pbuf ps"
  by (simp add: wf_chain_def)

lemma wf_chain_length [chain_simps]: "wf_chain ps \<Longrightarrow> length (pbytes ps) = plen ps"
  by (simp add: wf_chain_list_all length_pbytes)

lemma wf_chain_plen_u16: "wf_chain ps \<Longrightarrow> plen ps < 65536"
proof (cases ps)
  case (Cons p qs)
  assume "wf_chain ps"
  then have "plen ps = unat (p_tot_len p)" by (simp add: Cons chain_simps)
  then show ?thesis by (simp only: unat_u16_lt)
qed simp

lemma tot_ok_append:
  "tot_ok (ps @ qs) \<Longrightarrow> tot_ok qs"
  by (induction ps) auto

lemma tot_ok_replace:
  "tot_ok (ps @ qs) \<Longrightarrow> plen qs' = plen qs \<Longrightarrow> tot_ok qs' \<Longrightarrow> tot_ok (ps @ qs')"
  by (induction ps) auto

lemma wf_chain_append_tail: "wf_chain (ps @ qs) \<Longrightarrow> wf_chain qs"
  by (auto simp: wf_chain_def tot_ok_append)

lemma wf_chain_replace:
  "wf_chain (ps @ qs) \<Longrightarrow> plen qs' = plen qs \<Longrightarrow> wf_chain qs' \<Longrightarrow> wf_chain (ps @ qs')"
  by (auto simp: wf_chain_def intro: tot_ok_replace)

section \<open>Skipping\<close>

lemma pbuf_skip_const_spec:
  assumes "pbuf_skip_const ps off = (qs, out)"
  shows "\<exists>front. ps = front @ qs \<and> unat off = plen front + unat out
    \<and> (case qs of [] \<Rightarrow> True | q # _ \<Rightarrow> unat out < unat (p_len q))"
  using assms
proof (induction ps off rule: pbuf_skip_const.induct)
  case (1 off)
  then show ?case by auto
next
  case (2 q qs' off)
  show ?case
  proof (cases "p_len q \<le> off")
    case True
    then obtain front where "qs' = front @ qs" "unat (off - p_len q) = plen front + unat out"
        "case qs of [] \<Rightarrow> True | q # _ \<Rightarrow> unat out < unat (p_len q)"
      using 2 by auto
    then show ?thesis using True
      by (intro exI [of _ "q # front"]) (auto simp: unat_sub word_le_nat_alt)
  next
    case False
    then show ?thesis using 2(2) by (auto simp: word_less_nat_alt word_le_nat_alt)
  qed
qed

lemma pbuf_skip_const_Nil:
  "fst (pbuf_skip_const ps off) = [] \<longleftrightarrow> plen ps \<le> unat off"
  by (induction ps off rule: pbuf_skip_const.induct)
     (auto simp: unat_sub word_le_nat_alt word_less_nat_alt)

section \<open>Reading out of a chain\<close>

lemma copy_partial_loop_correct:
  assumes "list_all wf_pbuf ps" "unat left + unat len \<le> length data" "unat left + unat len < 65536"
    "unat copied = unat left"
  shows "\<exists>k. copy_partial_loop ps data len offset left copied
      = Some (k, mem_write data (unat left) (take (unat len) (drop (unat offset) (pbytes ps))))
    \<and> unat k = unat left + min (unat len) (plen ps - unat offset)"
  using assms
proof (induction ps data len offset left copied rule: copy_partial_loop.induct)
  case (1 data len offset left copied)
  then show ?case by (simp add: pbytes_simps)
next
  case (2 p ps data len offset left copied)
  have wf: "wf_pbuf p" "list_all wf_pbuf ps" using "2.prems" by auto
  note l = length_pdata [OF wf(1)]
  consider (zero) "len = 0" | (skip) "len \<noteq> 0" "offset \<noteq> 0 \<and> p_len p \<le> offset"
    | (copy) "len \<noteq> 0" "\<not> (offset \<noteq> 0 \<and> p_len p \<le> offset)" by blast
  then show ?case
  proof cases
    case zero
    then show ?thesis using "2.prems" by simp
  next
    case skip
    then have le: "unat (p_len p) \<le> unat offset" by (simp add: word_le_nat_alt)
    then have u: "unat (offset - p_len p) = unat offset - unat (p_len p)"
      by (rule unat_minus_no_wrap)
    show ?thesis using "2.IH"(1) [OF skip wf(2) "2.prems"(2-4)] skip l le
      by (simp add: pbytes_simps u add.commute)
  next
    case copy
    define m where "m = (if p_len p - offset > len then len else p_len p - offset)"
    have o: "unat offset \<le> unat (p_len p)"
      using copy(2) by (auto simp: word_le_nat_alt)
    then have n: "unat (p_len p - offset) = unat (p_len p) - unat offset"
      by (simp add: unat_minus_no_wrap)
    have m: "unat m = min (unat len) (unat (p_len p) - unat offset)"
      using n by (auto simp: m_def word_less_nat_alt min_def)
    have um: "unat (len - m) = unat len - unat m" "unat (left + m) = unat left + unat m"
        "unat (copied + m) = unat copied + unat m"
      using m "2.prems" by (auto simp: unat_minus_no_wrap unat_plus_no_wrap)
    define bs where "bs = payload_read p (unat offset) (unat m)"
    have bs: "bs = take (unat m) (drop (unat offset) (pdata p))"
      unfolding bs_def using m o by (intro payload_read_pdata) auto
    then have lb: "length bs = unat m" using l m o by simp
    let ?d = "mem_write data (unat left) bs"
    have ld: "length ?d = length data" using "2.prems" m lb by (simp add: length_mem_write)
    obtain k where k: "copy_partial_loop ps ?d (len - m) 0 (left + m) (copied + m)
        = Some (k, mem_write ?d (unat (left + m)) (take (unat (len - m)) (drop 0 (pbytes ps))))"
        "unat k = unat (left + m) + min (unat (len - m)) (plen ps)"
      using "2.IH"(2) [OF copy refl m_def, folded bs_def, of] wf(2) "2.prems" m ld um
      by auto
    have "mem_write ?d (unat (left + m)) (take (unat (len - m)) (pbytes ps))
        = mem_write data (unat left) (bs @ take (unat (len - m)) (pbytes ps))"
    proof -
      have "length (take (unat (len - m)) (pbytes ps)) \<le> unat len - unat m" "unat m \<le> unat len"
        using um m by simp_all
      then have "unat left + length bs + length (take (unat (len - m)) (pbytes ps)) \<le> length data"
        using "2.prems"(2) lb by linarith
      then show ?thesis by (simp only: um(2) lb [symmetric] mem_write_append)
    qed
    moreover have "bs @ take (unat (len - m)) (pbytes ps)
        = take (unat len) (drop (unat offset) (pbytes (p # ps)))"
      using bs l o um m by (auto simp: pbytes_simps min_def)
    moreover have "unat left + unat m \<le> length data" using "2.prems"(2) m by linarith
    then have "copy_partial_loop (p # ps) data len offset left copied
        = copy_partial_loop ps ?d (len - m) 0 (left + m) (copied + m)"
      using copy unfolding bs_def m_def by (simp only: copy_partial_loop.simps Let_def if_True if_False simp_thms)
    moreover have "unat k = unat left + min (unat len) (plen (p # ps) - unat offset)"
      unfolding k(2) um using m o by (auto simp: min_def)
    ultimately show ?thesis using k(1) by simp
  qed
qed

lemma pbuf_copy_partial_bytes:
  assumes "wf_chain ps" "ps \<noteq> []" "unat len \<le> length data"
  shows "\<exists>k. pbuf_copy_partial ps (Some data) len offset
      = Some (k, mem_write data 0 (take (unat len) (drop (unat offset) (pbytes ps))))
    \<and> unat k = min (unat len) (plen ps - unat offset)"
  using copy_partial_loop_correct [of ps 0 len data 0 offset] assms
  by (auto simp: pbuf_copy_partial_def wf_chain_def)

section \<open>Writing into a chain\<close>

text \<open>Chains that differ in the contents only.\<close>

definition same_shape :: "pbuf list \<Rightarrow> pbuf list \<Rightarrow> bool" where
  "same_shape = list_all2 (\<lambda>q p. p_len q = p_len p \<and> p_tot_len q = p_tot_len p)"

lemma same_shape_simps [simp]:
  "same_shape ps ps" "same_shape (q # qs) (p # ps) \<longleftrightarrow>
     p_len q = p_len p \<and> p_tot_len q = p_tot_len p \<and> same_shape qs ps"
  by (auto simp: same_shape_def list_all2_same)

lemma same_shape:
  assumes "same_shape qs ps"
  shows "length qs = length ps" "plen qs = plen ps" "tot_ok qs \<longleftrightarrow> tot_ok ps"
proof -
  have "length qs = length ps \<and> plen qs = plen ps \<and> (tot_ok qs \<longleftrightarrow> tot_ok ps)"
    using assms unfolding same_shape_def by (induction rule: list_all2_induct) simp_all
  then show "length qs = length ps" "plen qs = plen ps" "tot_ok qs \<longleftrightarrow> tot_ok ps" by auto
qed

lemma take_loop_correct:
  assumes "list_all wf_pbuf ps" "length bs \<le> plen ps"
  shows "\<exists>qs. take_loop ps bs = Some qs \<and> pbytes qs = mem_write (pbytes ps) 0 bs
    \<and> list_all wf_pbuf qs \<and> same_shape qs ps"
  using assms
proof (induction ps bs rule: take_loop.induct)
  case (3 p ps b bs)
  define n where "n = min (length (b # bs)) (unat (p_len p))"
  have wf: "wf_pbuf p" "list_all wf_pbuf ps" using "3.prems" by auto
  have "length (drop n (b # bs)) \<le> plen ps" using "3.prems" by (auto simp: n_def min_def)
  then obtain qs where qs: "take_loop ps (drop n (b # bs)) = Some qs"
      "pbytes qs = mem_write (pbytes ps) 0 (drop n (b # bs))" "list_all wf_pbuf qs"
      "same_shape qs ps"
    using "3.IH" [OF n_def wf(2)] by blast
  let ?q = "payload_write p 0 (take n (b # bs))"
  have l: "length (take n (b # bs)) \<le> unat (p_len p)" by (simp add: n_def)
  have "pbytes (?q # qs) = mem_write (pdata p) 0 (take n (b # bs)) @ mem_write (pbytes ps) 0 (drop n (b # bs))"
    using l wf qs by (simp add: chain_simps)
  also have "\<dots> = mem_write (pbytes (p # ps)) 0 (b # bs)"
    using length_pdata [OF wf(1)] by (auto simp: mem_write_def pbytes_simps n_def min_def)
  finally have "pbytes (?q # qs) = mem_write (pbytes (p # ps)) 0 (b # bs)" .
  moreover have "take_loop (p # ps) (b # bs) = Some (?q # qs)"
    by (simp only: take_loop.simps Let_def n_def [symmetric] qs(1) option.map)
  moreover have "wf_pbuf ?q" using l wf by (simp add: wf_payload_write)
  ultimately show ?case using qs by simp
qed (auto simp: pbytes_simps)

lemma pbuf_take_correct:
  assumes "wf_chain ps" "unat len \<le> plen ps" "unat len \<le> length data" "ps \<noteq> []"
  shows "\<exists>qs. pbuf_take ps (Some data) len = Some (ERR_OK, qs)
    \<and> pbytes qs = mem_write (pbytes ps) 0 (take (unat len) data) \<and> wf_chain qs
    \<and> plen qs = plen ps \<and> length qs = length ps"
proof -
  obtain p ps' where ps: "ps = p # ps'" using assms by (cases ps) auto
  obtain qs where "take_loop ps (take (unat len) data) = Some qs"
      "pbytes qs = mem_write (pbytes ps) 0 (take (unat len) data)"
      "list_all wf_pbuf qs" "same_shape qs ps"
    using take_loop_correct [of ps "take (unat len) data"] assms by (auto simp: wf_chain_def)
  moreover have "len \<le> p_tot_len p" using assms ps
    by (simp add: word_le_nat_alt chain_simps)
  ultimately show ?thesis using assms ps same_shape [of qs ps]
    by (auto simp: pbuf_take_def wf_chain_def not_less)
qed

lemma pbuf_take_at_bytes:
  assumes wf: "wf_chain ps" and fits: "unat offset + unat len \<le> plen ps"
    and data: "unat len \<le> length data" and inside: "unat offset < plen ps"
  shows "\<exists>qs. pbuf_take_at ps data len offset = Some (ERR_OK, qs)
    \<and> pbytes qs = mem_write (pbytes ps) (unat offset) (take (unat len) data) \<and> wf_chain qs
    \<and> plen qs = plen ps \<and> length qs = length ps"
proof -
  obtain qs out where sk: "pbuf_skip_const ps offset = (qs, out)" by fastforce
  then have "qs \<noteq> []" using pbuf_skip_const_Nil [of ps offset] inside by auto
  then obtain q qs' where qs: "qs = q # qs'" by (cases qs) auto
  obtain front where fr: "ps = front @ q # qs'" "unat offset = plen front + unat out"
      "unat out < unat (p_len q)"
    using pbuf_skip_const_spec [OF sk] qs by auto
  have wfq: "wf_chain (q # qs')" using wf fr wf_chain_append_tail by blast
  define n where "n = min (unat (p_len q) - unat out) (unat len)"
  let ?q = "payload_write q (unat out) (take n data)"
  have n: "unat (of_nat n :: u16) = n" using n_def unat_u16_lt [of len]
    by (intro unat_of_nat_u16) linarith
  then have r: "unat (len - of_nat n) = unat len - n"
    by (simp add: unat_minus_no_wrap n_def)
  have ln: "length (take n data) = n" using data by (simp add: n_def)
  have room: "unat out + unat len \<le> unat (p_len q) + plen qs'" using fits fr by simp
  have pq: "pdata ?q = mem_write (pdata q) (unat out) (take n data)" "wf_pbuf ?q"
    using wfq fr(3) ln by (auto simp: chain_simps n_def)
  have tot: "unat (p_tot_len q) \<ge> unat out + unat len" using wfq room by (simp add: chain_simps)
  have front: "take (length ps - length (q # qs')) ps = front" using fr by simp
  have lf: "length (pbytes front) = plen front" using wf fr by (simp add: wf_chain_def length_pbytes)
  have guards: "\<not> \<not> unat (p_tot_len q) \<ge> unat out + unat len" "\<not> length data < unat len"
    using tot data by auto
  have eq: "pbuf_take_at ps data len offset =
      (if len - of_nat n > 0 then map_option (\<lambda>(e, rs). (e, front @ ?q # rs))
         (pbuf_take qs' (Some (drop n data)) (len - of_nat n))
       else Some (ERR_OK, front @ ?q # qs'))"
    unfolding pbuf_take_at_def pbuf_skip_def sk qs
    by (simp only: prod.case list.case guards if_False Let_def front n_def [symmetric])
  obtain rs where rs: "pbuf_take_at ps data len offset = Some (ERR_OK, front @ ?q # rs)"
      "pbytes rs = mem_write (pbytes qs') 0 (drop n (take (unat len) data))"
      "wf_chain rs" "plen rs = plen qs'" "length rs = length qs'"
  proof (cases "unat len - n = 0")
    case True
    then have "len - of_nat n = 0" using r by (metis unat_eq_0)
    then have "pbuf_take_at ps data len offset = Some (ERR_OK, front @ ?q # qs')"
      by (simp only: eq less_irrefl if_False)
    then show ?thesis by (rule that) (use True wfq in \<open>auto simp: chain_simps\<close>)
  next
    case False
    then have pos: "len - of_nat n > 0" using r by (metis unat_eq_0 word_gt_0)
    have ne: "qs' \<noteq> []" using False room n_def by (cases qs') auto
    have nq: "n = unat (p_len q) - unat out" using False unfolding n_def by linarith
    have "wf_chain qs'" using wfq by (simp add: chain_simps)
    moreover have "unat (len - of_nat n) \<le> plen qs'"
      unfolding r using room nq fr(3) by linarith
    moreover have "unat (len - of_nat n) \<le> length (drop n data)"
      unfolding r length_drop using data by linarith
    ultimately
    obtain rs where "pbuf_take qs' (Some (drop n data)) (len - of_nat n) = Some (ERR_OK, rs)"
        "pbytes rs = mem_write (pbytes qs') 0 (take (unat (len - of_nat n)) (drop n data))"
        "wf_chain rs" "plen rs = plen qs'" "length rs = length qs'"
      using pbuf_take_correct [OF _ _ _ ne] by blast
    moreover from this have "pbuf_take_at ps data len offset = Some (ERR_OK, front @ ?q # rs)"
      by (simp only: eq pos if_True option.map prod.case)
    ultimately show ?thesis by (intro that [of rs]) (auto simp: r drop_take)
  qed
  have "pbytes (front @ ?q # rs) = mem_write (pbytes ps) (unat offset) (take (unat len) data)"
  proof -
    have "pbytes (front @ ?q # rs) = pbytes front
        @ mem_write (pdata q) (unat out) (take n data) @ mem_write (pbytes qs') 0 (drop n (take (unat len) data))"
      by (simp add: pbytes_simps pq rs)
    also have "\<dots> = pbytes front @ mem_write (pdata q @ pbytes qs') (unat out) (take (unat len) data)"
      using mem_write_split [of "unat out" "pdata q" n "take (unat len) data" "pbytes qs'"]
        wfq fr(3) data by (simp add: chain_simps n_def min.absorb2 take_take)
    also have "\<dots> = mem_write (pbytes ps) (unat offset) (take (unat len) data)"
      using mem_write_append_right [of "pbytes front"] by (simp add: fr pbytes_simps lf)
    finally show ?thesis .
  qed
  moreover have "wf_chain (front @ ?q # rs)"
  proof (rule wf_chain_replace [of front "q # qs'"])
    show "wf_chain (front @ q # qs')" using wf by (simp only: fr(1))
    show "plen (?q # rs) = plen (q # qs')" by (simp add: rs(4))
    show "wf_chain (?q # rs)" using pq(2) rs(3,4) wfq by (simp add: wf_chain_Cons)
  qed
  moreover have "plen (front @ ?q # rs) = plen ps" "length (front @ ?q # rs) = length ps"
    by (simp_all add: fr(1) rs(4,5))
  ultimately show ?thesis using rs(1) by blast
qed
section \<open>Reading back what was written\<close>

text \<open>A concrete chain of two buffers.\<close>

definition sample_pbuf :: "u8 list \<Rightarrow> u16 \<Rightarrow> pbuf" where
  "sample_pbuf bs tot = \<lparr>p_mem = replicate 16 0 @ bs, p_payload = 16, p_tot_len = tot,
     p_len = of_nat (length bs), p_type_internal = type_bits PBUF_RAM, p_flags = 0, p_ref = 1,
     p_if_idx = 0\<rparr>"

definition sample_chain :: "pbuf list" where
  "sample_chain = [sample_pbuf [1, 2, 3] 5, sample_pbuf [4, 5] 2]"

lemma sample_chain_wf: "wf_chain sample_chain"
  by (simp add: sample_chain_def sample_pbuf_def wf_chain_def wf_pbuf_def)

lemma sample_chain_ne: "sample_chain \<noteq> []"
  by (simp add: sample_chain_def)

lemma sample_chain_plen: "plen sample_chain = 5"
  by (simp add: sample_chain_def sample_pbuf_def)

text \<open>
  C19. Data written at an offset of a chain with \<open>pbuf_take_at\<close> is what
  \<open>pbuf_copy_partial\<close> reads back there, across buffer boundaries; all other bytes and
  the lengths of the chain stay as they were.
\<close>

theorem pbuf_take_at_read_back:
  assumes "wf_chain ps" "unat offset < plen ps" "unat offset + unat len \<le> plen ps"
    and "unat len \<le> length data" "unat len \<le> length out"
  shows "\<exists>qs. pbuf_take_at ps data len offset = Some (ERR_OK, qs) \<and> wf_chain qs
    \<and> pbytes qs = mem_write (pbytes ps) (unat offset) (take (unat len) data)
    \<and> pbuf_copy_partial qs (Some out) len offset
        = Some (len, mem_write out 0 (take (unat len) data))"
proof -
  obtain qs where qs: "pbuf_take_at ps data len offset = Some (ERR_OK, qs)" "wf_chain qs"
      "pbytes qs = mem_write (pbytes ps) (unat offset) (take (unat len) data)" "plen qs = plen ps"
      "length qs = length ps"
    using pbuf_take_at_bytes [OF assms(1,3,4,2)] by blast
  have ne: "qs \<noteq> []" using qs(4) assms(2) by auto
  obtain k where k: "pbuf_copy_partial qs (Some out) len offset
      = Some (k, mem_write out 0 (take (unat len) (drop (unat offset) (pbytes qs))))"
      "unat k = min (unat len) (plen qs - unat offset)"
    using pbuf_copy_partial_bytes [OF qs(2) ne assms(5)] by blast
  have "k = len" using k(2) qs(4) assms(3) by (intro word_unatI) simp
  moreover have "take (unat len) (drop (unat offset) (pbytes qs)) = take (unat len) data"
    using mem_write_same [of "unat offset" "take (unat len) data" "pbytes ps"] assms
    by (simp add: qs(3) wf_chain_length min_absorb2)
  ultimately show ?thesis using qs k by auto
qed

lemma pbuf_take_at_read_back_witness:
  "\<exists>qs. pbuf_take_at sample_chain [7, 8] 2 2 = Some (ERR_OK, qs)
     \<and> pbuf_copy_partial qs (Some [0, 0]) 2 2 = Some (2, mem_write [0, 0] 0 [7, 8])"
  using pbuf_take_at_read_back [OF sample_chain_wf, of 2 2 "[7, 8]" "[0, 0]"]
  by (auto simp: sample_chain_plen)

section \<open>The interface of a packet store\<close>

locale packet_store =
  fixes bytes :: "'s \<Rightarrow> u8 list"
    and inv :: "'s \<Rightarrow> bool"
    and put :: "'s \<Rightarrow> u8 list \<Rightarrow> nat \<Rightarrow> 's option"
    and get :: "'s \<Rightarrow> nat \<Rightarrow> nat \<Rightarrow> u8 list"
  assumes put_law: "inv s \<Longrightarrow> off < length (bytes s) \<Longrightarrow> off + length bs \<le> length (bytes s) \<Longrightarrow>
      \<exists>s'. put s bs off = Some s' \<and> inv s' \<and> bytes s' = mem_write (bytes s) off bs"
    and get_law: "inv s \<Longrightarrow> off + n \<le> length (bytes s) \<Longrightarrow> get s off n = take n (drop off (bytes s))"
begin

lemma get_put_same:
  assumes "inv s" "off < length (bytes s)" "off + length bs \<le> length (bytes s)"
  shows "\<exists>s'. put s bs off = Some s' \<and> inv s' \<and> get s' off (length bs) = bs"
  using put_law [OF assms] assms by (auto simp: get_law mem_simps)

lemma get_put_before:
  assumes "inv s" "off < length (bytes s)" "off + length bs \<le> length (bytes s)" "a + n \<le> off"
  shows "\<exists>s'. put s bs off = Some s' \<and> get s' a n = get s a n"
  using put_law [OF assms(1-3)] assms by (auto simp: get_law mem_simps mem_write_def drop_take min_absorb1)

text \<open>Writing a header and then a body fills a store of exactly their size.\<close>

lemma put_header_body:
  assumes "inv s" "hdr \<noteq> []" "length (bytes s) = length hdr + length body"
  shows "\<exists>s1. put s hdr 0 = Some s1 \<and>
    (body \<noteq> [] \<longrightarrow> (\<exists>s2. put s1 body (length hdr) = Some s2 \<and> inv s2 \<and> bytes s2 = hdr @ body))
    \<and> inv s1 \<and> (body = [] \<longrightarrow> bytes s1 = hdr)"
proof -
  obtain s1 where s1: "put s hdr 0 = Some s1" "inv s1" "bytes s1 = mem_write (bytes s) 0 hdr"
    using put_law [of s 0 hdr] assms by auto
  have l: "length (bytes s1) = length hdr + length body"
    using assms s1 by (simp add: length_mem_write)
  have "\<exists>s2. put s1 body (length hdr) = Some s2 \<and> inv s2 \<and> bytes s2 = hdr @ body" if "body \<noteq> []"
  proof -
    obtain s2 where "put s1 body (length hdr) = Some s2" "inv s2"
        "bytes s2 = mem_write (bytes s1) (length hdr) body"
      using put_law [of s1 "length hdr" body] s1(2) l \<open>body \<noteq> []\<close> by auto
    then show ?thesis using s1(3) assms(3) by (simp add: mem_write_def)
  qed
  then show ?thesis using s1 assms by (auto simp: mem_write_def)
qed

end

definition chain_put :: "pbuf list \<Rightarrow> u8 list \<Rightarrow> nat \<Rightarrow> pbuf list option" where
  "chain_put ps bs off =
     (case pbuf_take_at ps bs (of_nat (length bs)) (of_nat off) of
        Some (ERR_OK, qs) \<Rightarrow> Some qs
      | _ \<Rightarrow> None)"

definition chain_get :: "pbuf list \<Rightarrow> nat \<Rightarrow> nat \<Rightarrow> u8 list" where
  "chain_get ps off n =
     (case pbuf_copy_partial ps (Some (replicate n 0)) (of_nat n) (of_nat off) of
        Some (k, data) \<Rightarrow> take (unat k) data
      | None \<Rightarrow> [])"

interpretation chain: packet_store pbytes wf_chain chain_put chain_get
proof unfold_locales
  fix ps :: "pbuf list" and off :: nat and bs :: "u8 list"
  assume wf: "wf_chain ps" and off: "off < length (pbytes ps)" "off + length bs \<le> length (pbytes ps)"
  have lt: "plen ps < 65536" "length (pbytes ps) = plen ps"
    using wf by (auto simp: wf_chain_plen_u16 chain_simps)
  then have u: "unat (of_nat (length bs) :: u16) = length bs" "unat (of_nat off :: u16) = off"
    using off by (auto intro!: unat_of_nat_u16)
  obtain qs where "pbuf_take_at ps bs (of_nat (length bs)) (of_nat off) = Some (ERR_OK, qs)"
      "pbytes qs = mem_write (pbytes ps) off bs" "wf_chain qs"
    using pbuf_take_at_bytes [OF wf, of "of_nat off" "of_nat (length bs)" bs] u off lt by auto
  then show "\<exists>s'. chain_put ps bs off = Some s' \<and> wf_chain s' \<and> pbytes s' = mem_write (pbytes ps) off bs"
    by (simp add: chain_put_def)
next
  fix ps :: "pbuf list" and off n :: nat
  assume wf: "wf_chain ps" and off: "off + n \<le> length (pbytes ps)"
  have lt: "plen ps < 65536" "length (pbytes ps) = plen ps"
    using wf by (auto simp: wf_chain_plen_u16 chain_simps)
  then have u: "unat (of_nat n :: u16) = n" "unat (of_nat off :: u16) = off"
    using off by (auto intro!: unat_of_nat_u16)
  show "chain_get ps off n = take n (drop off (pbytes ps))"
  proof (cases "ps = []")
    case True
    then show ?thesis using off by (simp add: chain_get_def pbuf_copy_partial_def pbytes_simps)
  next
    case False
    obtain k where "pbuf_copy_partial ps (Some (replicate n 0)) (of_nat n) (of_nat off)
        = Some (k, mem_write (replicate n 0) 0 (take n (drop off (pbytes ps))))" "unat k = n"
      using pbuf_copy_partial_bytes [OF wf False, of "of_nat n" "replicate n 0" "of_nat off"] u off lt
      by auto
    then show ?thesis using off by (simp add: chain_get_def mem_write_def)
  qed
qed
end
