(* ===== verification/Pbuf_Alloc.thy ===== *)
theory Pbuf_Alloc
  imports Pbuf_Chain
begin

text \<open>
  Ownership of buffers: what \<^verbatim>\<open>pbuf_free\<close> gives back, what
  \<^verbatim>\<open>pbuf_alloc\<close> promises, and the room for headers in front of the payload.
\<close>

section \<open>Reference counts\<close>

definition dropped :: "pbuf \<Rightarrow> free_dest \<times> pbuf" where
  "dropped p = (let p = p\<lparr>p_ref := 0\<rparr> in (free_dest p, p))"

definition unshare :: "pbuf list \<Rightarrow> pbuf list" where
  "unshare ps = (case ps of [] \<Rightarrow> [] | p # qs \<Rightarrow> p\<lparr>p_ref := p_ref p - 1\<rparr> # qs)"

lemma pbuf_free_loop_spec:
  "pbuf_free_loop count fr ps =
     (count + of_nat (length (takeWhile (\<lambda>p. p_ref p = 1) ps)),
      fr @ map dropped (takeWhile (\<lambda>p. p_ref p = 1) ps),
      unshare (dropWhile (\<lambda>p. p_ref p = 1) ps))"
  by (induction ps arbitrary: count fr)
     (auto simp: Let_def dropped_def unshare_def ac_simps)

lemma pbuf_free_spec:
  "pbuf_free ps =
     (of_nat (length (takeWhile (\<lambda>p. p_ref p = 1) ps)),
      map dropped (takeWhile (\<lambda>p. p_ref p = 1) ps),
      unshare (dropWhile (\<lambda>p. p_ref p = 1) ps))"
  by (simp add: pbuf_free_def pbuf_free_loop_spec)

lemma pbuf_free_sole:
  "list_all (\<lambda>p. p_ref p = 1) ps \<Longrightarrow> pbuf_free ps = (of_nat (length ps), map dropped ps, [])"
proof -
  assume "list_all (\<lambda>p. p_ref p = 1) ps"
  then have t: "takeWhile (\<lambda>p. p_ref p = 1) ps = ps" and d: "dropWhile (\<lambda>p. p_ref p = 1) ps = []"
    by (auto simp: list_all_iff)
  show ?thesis unfolding pbuf_free_spec t d by (simp add: unshare_def)
qed

section \<open>Allocation\<close>

lemma align_bounds: "n \<le> LWIP_MEM_ALIGN_SIZE n" "LWIP_MEM_ALIGN_SIZE n < n + 4"
  unfolding LWIP_MEM_ALIGN_SIZE_def by linarith+

lemma layer_offset_le: "unat (layer_offset l) \<le> 74"
  by (cases l) simp_all

lemma init_fields [simp]:
  "p_mem (pbuf_init_alloced_pbuf m y t l ty f) = m"
  "p_payload (pbuf_init_alloced_pbuf m y t l ty f) = y"
  "p_tot_len (pbuf_init_alloced_pbuf m y t l ty f) = t"
  "p_len (pbuf_init_alloced_pbuf m y t l ty f) = l"
  "p_type_internal (pbuf_init_alloced_pbuf m y t l ty f) = type_bits ty"
  "p_flags (pbuf_init_alloced_pbuf m y t l ty f) = f"
  "p_ref (pbuf_init_alloced_pbuf m y t l ty f) = 1"
  by (simp_all add: pbuf_init_alloced_pbuf_def)

text \<open>What an owner may rely on: sole ownership, the type, and no flags.\<close>

definition fresh :: "pbuf_type \<Rightarrow> pbuf \<Rightarrow> bool" where
  "fresh ty p \<longleftrightarrow> p_ref p = 1 \<and> p_flags p = 0 \<and> p_type_internal p = type_bits ty"

definition pool_bytes :: nat where
  "pool_bytes = SIZEOF_STRUCT_PBUF + PBUF_POOL_BUFSIZE"

definition pool_good :: "allocator \<Rightarrow> nat \<Rightarrow> u16 \<Rightarrow> u16 \<Rightarrow> pbuf list \<Rightarrow> bool" where
  "pool_good malloc k offset rem_len qs \<longleftrightarrow>
     qs \<noteq> [] \<and> wf_chain qs \<and> plen qs = unat rem_len \<and> list_all (fresh PBUF_POOL) qs
     \<and> p_payload (hd qs) = int (LWIP_MEM_ALIGN_SIZE (unat offset)) \<and> p_tot_len (hd qs) = rem_len
     \<and> (\<forall>i<length qs. malloc (k + i) pool_bytes \<noteq> None)"

definition pool_bad :: "allocator \<Rightarrow> nat \<Rightarrow> pbuf list \<Rightarrow> bool" where
  "pool_bad malloc k qs \<longleftrightarrow>
     list_all (fresh PBUF_POOL) qs \<and> malloc (k + length qs) pool_bytes = None
     \<and> (\<forall>i<length qs. malloc (k + i) pool_bytes \<noteq> None)"

lemma pool_good_Cons:
  assumes "pool_good malloc (Suc k) 0 (rem_len - p_len q) qs" "malloc k pool_bytes \<noteq> None"
    "wf_pbuf q" "fresh PBUF_POOL q" "p_tot_len q = rem_len" "p_len q \<le> rem_len"
    "p_payload q = int (LWIP_MEM_ALIGN_SIZE (unat offset))"
  shows "pool_good malloc k offset rem_len (q # qs)"
proof -
  have r: "unat (rem_len - p_len q) + unat (p_len q) = unat rem_len"
    using assms(6) by (simp add: unat_sub word_le_nat_alt)
  show ?thesis using assms r
    by (auto simp: pool_good_def chain_simps All_less_Suc2)
qed

lemma pool_bad_Cons:
  assumes "pool_bad malloc (Suc k) qs" "malloc k pool_bytes \<noteq> None" "fresh PBUF_POOL q"
  shows "pool_bad malloc k (q # qs)"
  using assms by (auto simp: pool_bad_def All_less_Suc2)

definition pool_ok :: "pbuf list \<Rightarrow> alloc_res" where
  "pool_ok qs = \<lparr>ar_chain = qs, ar_freed = [], ar_pool_empty = False\<rparr>"

definition pool_failed :: "pbuf list \<Rightarrow> alloc_res" where
  "pool_failed qs = \<lparr>ar_chain = [], ar_freed = fst (snd (pbuf_free qs)), ar_pool_empty = True\<rparr>"

lemma pool_loop_correct:
  assumes "malloc_ok malloc" "unat offset \<le> 74"
  shows "(\<exists>qs. pool_loop malloc k offset rem_len p = pool_ok (p @ qs)
              \<and> pool_good malloc k offset rem_len qs)
       \<or> (\<exists>qs. pool_loop malloc k offset rem_len p = pool_failed (p @ qs)
              \<and> pool_bad malloc k qs)"
  using assms
proof (induction malloc k offset rem_len p rule: pool_loop.induct)
  case (1 malloc k offset rem_len p)
  show ?case
  proof (cases "malloc k pool_bytes")
    case None
    then show ?thesis
      by (intro disjI2 exI [of _ "[]"]) (auto simp: pool_loop.simps pool_bytes_def pool_failed_def pool_bad_def pbuf_free_def)
  next
    case (Some b)
    define al where "al = LWIP_MEM_ALIGN_SIZE (unat offset)"
    define qlen where "qlen = min rem_len (of_nat PBUF_POOL_BUFSIZE - of_nat al)"
    define q where "q = pbuf_init_alloced_pbuf (drop SIZEOF_STRUCT_PBUF b) (int al) rem_len qlen PBUF_POOL 0"
    have al: "al \<le> 77" using align_bounds [of "unat offset"] "1.prems"(2) unfolding al_def by linarith
    have cap: "unat (of_nat PBUF_POOL_BUFSIZE - of_nat al :: u16) = 1516 - al"
      using al by (simp add: unat_minus_no_wrap PBUF_POOL_BUFSIZE_def unat_of_nat_u16)
    have ql: "unat qlen = min (unat rem_len) (1516 - al)"
      using cap by (auto simp: qlen_def min_def word_le_nat_alt)
    have r: "unat (rem_len - qlen) = unat rem_len - unat qlen"
      using ql by (intro unat_minus_no_wrap) simp
    have "length b = 1540" using "1.prems"(1) Some
      by (auto simp: malloc_ok_def pool_bytes_def SIZEOF_STRUCT_PBUF_def PBUF_POOL_BUFSIZE_def)
    then have wfq: "wf_pbuf q" using al ql by (simp add: q_def wf_pbuf_def SIZEOF_STRUCT_PBUF_def)
    have fr: "fresh PBUF_POOL q" by (simp add: q_def fresh_def)
    have step: "pool_loop malloc k offset rem_len p
        = (if rem_len - qlen > 0 then pool_loop malloc (Suc k) 0 (rem_len - qlen) (p @ [q])
           else \<lparr>ar_chain = p @ [q], ar_freed = [], ar_pool_empty = False\<rparr>)"
      using Some unfolding pool_loop.simps [of malloc k] pool_bytes_def q_def qlen_def al_def
      by (simp only: option.case Let_def)
    show ?thesis
    proof (cases "rem_len - qlen > 0")
      case False
      then have "rem_len = qlen" by (simp add: word_gt_0)
      then have "pool_good malloc k offset rem_len [q]" using wfq fr Some
        by (simp add: pool_good_def chain_simps q_def al_def)
      then show ?thesis using False by (intro disjI1 exI [of _ "[q]"]) (simp add: step pool_ok_def)
    next
      case True
      have q: "p_len q = qlen" "p_tot_len q = rem_len"
          "p_payload q = int (LWIP_MEM_ALIGN_SIZE (unat offset))" "qlen \<le> rem_len"
        by (simp_all add: q_def al_def qlen_def)
      have rec: "pool_loop malloc k offset rem_len p = pool_loop malloc (Suc k) 0 (rem_len - qlen) (p @ [q])"
        using True by (simp only: step if_True)
      from "1.IH" [OF Some [unfolded pool_bytes_def] qlen_def [unfolded al_def] q_def [unfolded al_def] refl True "1.prems"(1)]
      consider (ok) qs where "pool_loop malloc (Suc k) 0 (rem_len - qlen) (p @ [q]) = pool_ok ((p @ [q]) @ qs)"
            "pool_good malloc (Suc k) 0 (rem_len - qlen) qs"
        | (bad) qs where "pool_loop malloc (Suc k) 0 (rem_len - qlen) (p @ [q]) = pool_failed ((p @ [q]) @ qs)"
            "pool_bad malloc (Suc k) qs"
        by auto
      then show ?thesis
      proof cases
        case ok
        then show ?thesis using pool_good_Cons [of malloc k rem_len q qs offset] Some wfq fr q
          by (intro disjI1 exI [of _ "q # qs"]) (simp add: rec)
      next
        case bad
        then show ?thesis using pool_bad_Cons [of malloc k qs q] Some fr
          by (intro disjI2 exI [of _ "q # qs"]) (simp add: rec)
      qed
    qed
  qed
qed
lemma pbuf_alloc_pool:
  "pbuf_alloc malloc layer len PBUF_POOL = pool_loop malloc 0 (layer_offset layer) len []"
  by (simp add: pbuf_alloc_def)

lemma ram_sizes:
  fixes len :: u16 and layer :: pbuf_layer
  defines "pl \<equiv> of_nat (LWIP_MEM_ALIGN_SIZE (unat (layer_offset layer))
      + LWIP_MEM_ALIGN_SIZE (unat len)) :: u16"
  assumes "\<not> unat pl < LWIP_MEM_ALIGN_SIZE (unat len)"
  shows "unat pl = LWIP_MEM_ALIGN_SIZE (unat (layer_offset layer)) + LWIP_MEM_ALIGN_SIZE (unat len)"
proof -
  let ?a = "LWIP_MEM_ALIGN_SIZE (unat (layer_offset layer))" and ?b = "LWIP_MEM_ALIGN_SIZE (unat len)"
  have a: "?a \<le> 77" using align_bounds(2) [of "unat (layer_offset layer)"] layer_offset_le [of layer] by linarith
  have b: "?b < 65536 + 4" using align_bounds(2) [of "unat len"] unat_u16_lt [of len] by linarith
  have "unat pl = (?a + ?b) mod 65536" unfolding pl_def unat_of_nat by (simp add: take_bit_eq_mod)
  moreover have "(?a + ?b) mod 65536 = ?a + ?b - 65536" if "\<not> ?a + ?b < 65536"
    using that a b by (simp add: le_mod_geq)
  ultimately show ?thesis using assms(2) a b
    by (cases "?a + ?b < 65536") (simp, linarith)
qed

definition RAM_alloc_len :: "pbuf_layer \<Rightarrow> u16 \<Rightarrow> nat" where
  "RAM_alloc_len layer len = 24 + LWIP_MEM_ALIGN_SIZE (unat (layer_offset layer)) + LWIP_MEM_ALIGN_SIZE (unat len)"

lemma pbuf_alloc_ram:
  "pbuf_alloc malloc layer len PBUF_RAM =
     (if LWIP_MEM_ALIGN_SIZE (unat (layer_offset layer)) + LWIP_MEM_ALIGN_SIZE (unat len) < 65536 then
        case malloc 0 (RAM_alloc_len layer len) of
          None \<Rightarrow> pool_ok []
        | Some b \<Rightarrow> pool_ok [pbuf_init_alloced_pbuf (drop SIZEOF_STRUCT_PBUF b)
                       (int (LWIP_MEM_ALIGN_SIZE (unat (layer_offset layer)))) len len PBUF_RAM 0]
      else pool_ok [])"
proof -
  let ?a = "LWIP_MEM_ALIGN_SIZE (unat (layer_offset layer))" and ?b = "LWIP_MEM_ALIGN_SIZE (unat len)"
  let ?pl = "of_nat (?a + ?b) :: u16"
  have s: "LWIP_MEM_ALIGN_SIZE SIZEOF_STRUCT_PBUF = 24"
    by (simp add: LWIP_MEM_ALIGN_SIZE_def SIZEOF_STRUCT_PBUF_def)
  show ?thesis
  proof (cases "?a + ?b < 65536")
    case True
    then have u: "unat ?pl = ?a + ?b" by (rule unat_of_nat_u16)
    show ?thesis using True
      by (simp only: pbuf_alloc_def Let_def pbuf_type.case u s RAM_alloc_len_def pool_ok_def)
         (auto simp: ac_simps split: option.splits)
  next
    case False
    then have "unat ?pl < ?b" using ram_sizes [of layer len] unat_u16_lt [of ?pl] by linarith
    then show ?thesis using False
      by (simp only: pbuf_alloc_def Let_def pbuf_type.case s pool_ok_def) simp
  qed
qed

lemma pbuf_alloc_ok:
  assumes "malloc_ok malloc" "typ = PBUF_RAM \<or> typ = PBUF_POOL"
    and "ar_chain (pbuf_alloc malloc layer len typ) = p # ps"
  shows "wf_chain (p # ps) \<and> plen (p # ps) = unat len \<and> p_tot_len p = len
    \<and> list_all (fresh typ) (p # ps) \<and> unat (layer_offset layer) \<le> nat (p_payload p)
    \<and> ar_freed (pbuf_alloc malloc layer len typ) = []"
proof (cases "typ = PBUF_POOL")
  case True
  then have "pbuf_alloc malloc layer len typ = pool_ok (p # ps)
      \<and> pool_good malloc 0 (layer_offset layer) len (p # ps)"
    using pool_loop_correct [OF assms(1) layer_offset_le, of 0 layer len "[]"] assms(3)
    by (auto simp: pbuf_alloc_pool pool_ok_def pool_failed_def)
  then show ?thesis using True align_bounds(1) [of "unat (layer_offset layer)"]
    by (simp add: pool_good_def pool_ok_def)
next
  case False
  then have t: "typ = PBUF_RAM" using assms(2) by simp
  obtain b where b: "malloc 0 (RAM_alloc_len layer len) = Some b" "ps = []"
      "p = pbuf_init_alloced_pbuf (drop SIZEOF_STRUCT_PBUF b)
             (int (LWIP_MEM_ALIGN_SIZE (unat (layer_offset layer)))) len len PBUF_RAM 0"
    using assms(3) unfolding t pbuf_alloc_ram
    by (auto simp: pool_ok_def split: if_splits option.splits)
  have "length b = RAM_alloc_len layer len" using assms(1) b(1) by (simp add: malloc_ok_def)
  then have "wf_pbuf p" using align_bounds(1) [of "unat len"]
    by (simp add: b(3) wf_pbuf_def RAM_alloc_len_def SIZEOF_STRUCT_PBUF_def)
  then show ?thesis using b t assms(3) align_bounds(1) [of "unat (layer_offset layer)"]
    unfolding t pbuf_alloc_ram
    by (auto simp: chain_simps fresh_def pool_ok_def split: if_splits)
qed

text \<open>
  C40. A chain \<open>pbuf_alloc\<close> returns for \<^verbatim>\<open>PBUF_RAM\<close> or
  \<^verbatim>\<open>PBUF_POOL\<close> is well-formed, has exactly the requested number of bytes, belongs to
  the caller alone, and leaves room for the headers of its layer before the first byte.
\<close>

theorem pbuf_alloc_success:
  assumes "malloc_ok malloc" "typ = PBUF_RAM \<or> typ = PBUF_POOL"
    and "ar_chain (pbuf_alloc malloc layer len typ) = p # ps"
  shows "wf_chain (p # ps) \<and> plen (p # ps) = unat len \<and> p_tot_len p = len
    \<and> list_all (fresh typ) (p # ps) \<and> unat (layer_offset layer) \<le> nat (p_payload p)
    \<and> ar_freed (pbuf_alloc malloc layer len typ) = []"
  by (rule pbuf_alloc_ok [OF assms])

definition zero_malloc :: allocator where
  "zero_malloc k n = Some (replicate n 0)"

lemma zero_malloc_ok: "malloc_ok zero_malloc"
  by (simp add: malloc_ok_def zero_malloc_def)

lemma pbuf_alloc_success_witness:
  "\<exists>p. ar_chain (pbuf_alloc zero_malloc PBUF_IP 5 PBUF_RAM) = [p] \<and> wf_chain [p] \<and> plen [p] = 5"
proof -
  obtain p where p: "ar_chain (pbuf_alloc zero_malloc PBUF_IP 5 PBUF_RAM) = [p]"
    by (simp add: pbuf_alloc_ram zero_malloc_def pool_ok_def LWIP_MEM_ALIGN_SIZE_def)
  then show ?thesis using pbuf_alloc_success [OF zero_malloc_ok _ p] by simp
qed

text \<open>
  When \<open>pbuf_alloc\<close> returns \<^verbatim>\<open>NULL\<close> nothing leaks: either the request does
  not fit in 16 bits or the first \<^verbatim>\<open>malloc\<close> failed and nothing was taken, or every
  pool buffer taken before the failing \<^verbatim>\<open>malloc\<close> is given back to the pool.
\<close>

lemma pbuf_alloc_no_leak:
  assumes "malloc_ok malloc" "ar_chain (pbuf_alloc malloc layer len typ) = []"
  defines "r \<equiv> pbuf_alloc malloc layer len typ"
  shows "(\<forall>i<length (ar_freed r). malloc i pool_bytes \<noteq> None)
    \<and> (\<forall>x\<in>set (ar_freed r). fst x = Free_Memp_Pool)
    \<and> (case typ of
         PBUF_POOL \<Rightarrow> malloc (length (ar_freed r)) pool_bytes = None \<and> ar_pool_empty r
       | PBUF_RAM \<Rightarrow> ar_freed r = [] \<and> (malloc 0 (RAM_alloc_len layer len) = None
           \<or> 65536 \<le> LWIP_MEM_ALIGN_SIZE (unat (layer_offset layer)) + LWIP_MEM_ALIGN_SIZE (unat len))
       | _ \<Rightarrow> ar_freed r = [] \<and> malloc 0 SIZEOF_STRUCT_PBUF = None)"
proof (cases "typ")
  case PBUF_RAM
  then show ?thesis using assms(2) unfolding r_def PBUF_RAM pbuf_alloc_ram
    by (auto simp: pool_ok_def split: if_splits option.splits)
next
  case PBUF_POOL
  obtain qs where r: "r = pool_failed qs" "pool_bad malloc 0 qs"
    using pool_loop_correct [OF assms(1) layer_offset_le, of 0 layer len "[]"] assms(2)
    by (auto simp: r_def PBUF_POOL pbuf_alloc_pool pool_ok_def pool_good_def)
  have sole: "list_all (\<lambda>p. p_ref p = 1) qs"
    using r(2) by (auto simp: pool_bad_def fresh_def list_all_iff)
  have "ar_freed r = map dropped qs"
    by (simp add: r(1) pool_failed_def pbuf_free_sole [OF sole])
  moreover have "fst (dropped q) = Free_Memp_Pool" if "q \<in> set qs" for q
    using r(2) that by (auto simp: pool_bad_def list_all_iff fresh_def dropped_def free_dest_def Let_def)
  ultimately show ?thesis using r PBUF_POOL
    by (auto simp: pool_bad_def pool_failed_def)
qed (use assms(2) in \<open>auto simp: r_def pbuf_alloc_def pbuf_alloc_reference_def split: option.splits\<close>)

definition one_malloc :: allocator where
  "one_malloc k n = (if k = 0 then Some (replicate n 0) else None)"

lemma pbuf_alloc_no_leak_witness:
  "ar_chain (pbuf_alloc one_malloc PBUF_RAW 3000 PBUF_POOL) = []
   \<and> length (ar_freed (pbuf_alloc one_malloc PBUF_RAW 3000 PBUF_POOL)) = 1
   \<and> one_malloc 1 pool_bytes = None"
proof -
  have ok: "malloc_ok one_malloc" by (auto simp: malloc_ok_def one_malloc_def split: if_splits)
  have e: "ar_chain (pbuf_alloc one_malloc PBUF_RAW 3000 PBUF_POOL) = []
      \<and> length (ar_freed (pbuf_alloc one_malloc PBUF_RAW 3000 PBUF_POOL)) = 1"
    by (simp add: pbuf_alloc_pool pool_loop.simps [of _ 0] pool_loop.simps [of _ "Suc 0"]
        one_malloc_def LWIP_MEM_ALIGN_SIZE_def PBUF_POOL_BUFSIZE_def Let_def pbuf_free_spec)
  then show ?thesis using pbuf_alloc_no_leak [OF ok, of PBUF_RAW 3000 PBUF_POOL] by auto
qed

section \<open>Header space\<close>

lemma contiguous_types:
  "type_bits PBUF_RAM AND PBUF_TYPE_FLAG_STRUCT_DATA_CONTIGUOUS \<noteq> 0"
  "type_bits PBUF_POOL AND PBUF_TYPE_FLAG_STRUCT_DATA_CONTIGUOUS \<noteq> 0"
  by simp_all

definition contiguous :: "pbuf \<Rightarrow> bool" where
  "contiguous p \<longleftrightarrow> p_type_internal p AND PBUF_TYPE_FLAG_STRUCT_DATA_CONTIGUOUS \<noteq> 0"

lemma pbuf_add_header_cases:
  assumes wf: "wf_chain (p # ps)" and force: "force \<longrightarrow> contiguous p"
  shows "(0 < inc \<and> contiguous p \<and> int inc \<le> p_payload p \<and> inc + plen (p # ps) < 65536
      \<and> pbuf_add_header_impl (p # ps) inc force
        = (0, p\<lparr>p_payload := p_payload p - int inc, p_len := p_len p + of_nat inc,
                p_tot_len := p_tot_len p + of_nat inc\<rparr> # ps))
    \<or> inc = 0 \<and> pbuf_add_header_impl (p # ps) inc force = (0, p # ps)
    \<or> 0 < inc \<and> (\<not> contiguous p \<or> p_payload p < int inc \<or> 65536 \<le> inc + plen (p # ps))
      \<and> pbuf_add_header_impl (p # ps) inc force = (1, p # ps)"
proof (cases "inc > 0xFFFF \<or> inc = 0")
  case False
  then have u: "unat (of_nat inc :: u16) = inc" by (intro unat_of_nat_u16) simp
  have t: "unat (p_tot_len p) = plen (p # ps)" using wf by (simp add: chain_simps)
  have wrap: "of_nat inc + p_tot_len p < (of_nat inc :: u16) \<longleftrightarrow> 65536 \<le> inc + plen (p # ps)"
    unfolding u16_add_wraps u t ..
  show ?thesis using False force wrap
    by (auto simp: Let_def contiguous_def)
qed auto

end
