(* ===== verification/Pbuf_Ops.thy ===== *)
theory Pbuf_Ops
  imports Pbuf_Alloc
begin

text \<open>
  The operations that reshape a chain: headers, shortening, linking and unlinking, copies between
  chains and the search functions, each as an operation on the bytes of the chain.
\<close>

section \<open>Adding and removing headers\<close>

lemma wf_grow_front:
  assumes "wf_chain (p # ps)" "int inc \<le> p_payload p" "inc + plen (p # ps) < 65536"
  defines "q \<equiv> p\<lparr>p_payload := p_payload p - int inc, p_len := p_len p + of_nat inc,
                p_tot_len := p_tot_len p + of_nat inc\<rparr>"
  shows "wf_chain (q # ps) \<and> unat (p_len q) = unat (p_len p) + inc
    \<and> pdata q = take inc (drop (nat (p_payload p) - inc) (p_mem p)) @ pdata p"
proof -
  have wf: "wf_pbuf p" "unat (p_tot_len p) = unat (p_len p) + plen ps" "wf_chain ps"
    using assms(1) by (auto simp: chain_simps)
  have u: "unat (of_nat inc :: u16) = inc" using assms(3) by (intro unat_of_nat_u16) simp
  have l: "unat (p_len q) = unat (p_len p) + inc" "unat (p_tot_len q) = unat (p_tot_len p) + inc"
    using assms(3) wf u by (simp_all add: q_def unat_plus_no_wrap)
  have n: "nat (p_payload q) = nat (p_payload p) - inc" "0 \<le> p_payload q" "inc \<le> nat (p_payload p)"
    using assms(2) by (auto simp: q_def nat_diff_distrib)
  have m: "p_mem q = p_mem p" by (simp add: q_def)
  have "wf_pbuf q" using wf(1) n l m by (auto simp: wf_pbuf_def)
  moreover have "pdata q = take inc (drop (nat (p_payload p) - inc) (p_mem p)) @ pdata p"
  proof -
    have "pdata q = take (inc + unat (p_len p)) (drop (nat (p_payload p) - inc) (p_mem p))"
      by (simp add: pdata_def payload_read_def l n m add.commute)
    also have "\<dots> = take inc (drop (nat (p_payload p) - inc) (p_mem p))
        @ take (unat (p_len p)) (drop inc (drop (nat (p_payload p) - inc) (p_mem p)))"
      by (rule take_add)
    finally show ?thesis using n(3) by (simp add: pdata_def payload_read_def)
  qed
  ultimately show ?thesis using l wf by (simp add: chain_simps)
qed

lemma pbuf_remove_header_ok:
  assumes wf: "wf_chain (p # ps)" and dec: "dec \<le> unat (p_len p)"
  shows "\<exists>q. pbuf_remove_header (p # ps) dec = (0, q # ps) \<and> wf_chain (q # ps)
    \<and> pbytes (q # ps) = drop dec (pbytes (p # ps)) \<and> p_payload q = p_payload p + int dec
    \<and> unat (p_len q) = unat (p_len p) - dec \<and> p_mem q = p_mem p"
proof (cases "dec = 0")
  case True
  then show ?thesis using wf by auto
next
  case False
  have lt: "dec \<le> 0xFFFF" using dec unat_u16_lt [of "p_len p"] by linarith
  then have u: "unat (of_nat dec :: u16) = dec" by (intro unat_of_nat_u16) simp
  define q where "q = p\<lparr>p_payload := p_payload p + int dec, p_len := p_len p - of_nat dec,
     p_tot_len := p_tot_len p - of_nat dec\<rparr>"
  have w: "wf_pbuf p" "unat (p_tot_len p) = unat (p_len p) + plen ps" using wf by (auto simp: chain_simps)
  have l: "unat (p_len q) = unat (p_len p) - dec" "unat (p_tot_len q) = unat (p_tot_len p) - dec"
    using u dec w by (simp_all add: q_def unat_minus_no_wrap)
  have "pbuf_remove_header (p # ps) dec = (0, q # ps)"
    using lt False dec u by (simp add: q_def word_le_nat_alt Let_def)
  moreover have "wf_pbuf q" using w l dec by (auto simp: wf_pbuf_def q_def nat_add_distrib)
  moreover have "pdata q = drop dec (pdata p)"
    using w l by (simp add: pdata_def payload_read_def q_def nat_add_distrib wf_pbuf_def drop_take add.commute)
  moreover have "dec \<le> length (pdata p)" using w dec by (simp add: chain_simps)
  ultimately show ?thesis using w l dec wf by (auto simp: chain_simps q_def)
qed

lemma pbuf_remove_header_fail:
  "unat (p_len p) < dec \<Longrightarrow> pbuf_remove_header (p # ps) dec = (1, p # ps)"
  by (auto simp: word_le_nat_alt unat_of_nat_u16)

text \<open>
  Adding a header succeeds exactly when the payload lies in one block with the structure, the
  block has the room before the payload and the total length stays within 16 bits; it then puts
  the new bytes in front of the old ones and removing the header restores the chain. In the
  other cases it reports failure and changes nothing.
\<close>

lemma pbuf_header_roundtrip:
  assumes wf: "wf_chain (p # ps)" and inc: "0 < inc"
  shows "if contiguous p \<and> int inc \<le> p_payload p \<and> inc + plen (p # ps) < 65536
    then \<exists>q hdr. pbuf_add_header (p # ps) inc = (0, q # ps) \<and> wf_chain (q # ps)
           \<and> length hdr = inc \<and> pbytes (q # ps) = hdr @ pbytes (p # ps)
           \<and> pbuf_remove_header (q # ps) inc = (0, p # ps)
    else pbuf_add_header (p # ps) inc = (1, p # ps)"
proof (cases "contiguous p \<and> int inc \<le> p_payload p \<and> inc + plen (p # ps) < 65536")
  case True
  define q where "q = p\<lparr>p_payload := p_payload p - int inc, p_len := p_len p + of_nat inc,
                p_tot_len := p_tot_len p + of_nat inc\<rparr>"
  define hdr where "hdr = take inc (drop (nat (p_payload p) - inc) (p_mem p))"
  have "pbuf_add_header (p # ps) inc = (0, q # ps)"
    using pbuf_add_header_cases [OF wf, of False inc] True inc by (auto simp: pbuf_add_header_def q_def)
  moreover have g: "wf_chain (q # ps)" "unat (p_len q) = unat (p_len p) + inc" "pdata q = hdr @ pdata p"
    using wf_grow_front [OF wf, of inc] True by (auto simp: q_def hdr_def)
  moreover have "length hdr = inc"
  proof -
    have "length (pdata q) = unat (p_len p) + inc" "length (pdata p) = unat (p_len p)"
      using g(1,2) wf by (simp_all add: wf_chain_Cons length_pdata)
    then show ?thesis using g(3) by simp
  qed
  moreover have "pbuf_remove_header (q # ps) inc = (0, p # ps)"
  proof -
    have "inc \<le> unat (p_len q)" using g by simp
    moreover have "unat (of_nat inc :: u16) = inc" using True by (intro unat_of_nat_u16) simp
    ultimately show ?thesis using inc True by (simp add: Let_def word_le_nat_alt q_def)
  qed
  ultimately show ?thesis using True by (auto simp: pbytes_simps)
next
  case False
  then show ?thesis using pbuf_add_header_cases [OF wf, of False inc] inc
    by (auto simp: pbuf_add_header_def)
qed

lemma pbuf_header_roundtrip_witness:
  "\<exists>p q hdr. wf_chain [p] \<and> pbuf_add_header [p] 14 = (0, [q]) \<and> wf_chain [q]
    \<and> length hdr = 14 \<and> pbytes [q] = hdr @ pbytes [p] \<and> pbuf_remove_header [q] 14 = (0, [p])"
proof -
  let ?p = "\<lparr>p_mem = replicate 20 7, p_payload = 16, p_tot_len = 4, p_len = 4, p_type_internal = 0x80,
    p_flags = 0, p_ref = 1, p_if_idx = 0\<rparr>"
  have wf: "wf_chain [?p]" by (simp add: wf_chain_def wf_pbuf_def)
  have c: "contiguous ?p \<and> int 14 \<le> p_payload ?p \<and> 14 + plen [?p] < 65536"
    by (simp add: contiguous_def)
  from pbuf_header_roundtrip [OF wf zero_less_numeral, of "num.Bit0 (num.Bit1 (num.Bit1 num.One))",
      unfolded if_P [OF c]]
  show ?thesis using wf by blast
qed

section \<open>Shortening\<close>

lemma realloc_loop_correct:
  assumes "wf_chain ps" "unat rem_len < plen ps" "unat shrink = plen ps - unat rem_len" "ps \<noteq> []"
  shows "\<exists>qs fr kept. realloc_loop ps rem_len shrink = Some (qs, fr, kept) \<and> qs \<noteq> []
    \<and> wf_chain qs \<and> pbytes qs = take (unat rem_len) (pbytes ps) \<and> plen qs = unat rem_len
    \<and> length fr + length kept + length qs = length ps"
  using assms
proof (induction ps rem_len shrink rule: realloc_loop.induct)
  case (2 q qs rem_len shrink)
  have wf: "wf_pbuf q" "unat (p_tot_len q) = unat (p_len q) + plen qs" "wf_chain qs"
    using "2.prems" by (auto simp: chain_simps)
  have lq: "length (pdata q) = unat (p_len q)" using wf by (simp add: chain_simps)
  show ?case
  proof (cases "rem_len > p_len q")
    case True
    then have gt: "unat rem_len > unat (p_len q)" by (simp add: word_less_nat_alt)
    then have r: "unat (rem_len - p_len q) = unat rem_len - unat (p_len q)"
      by (intro unat_minus_no_wrap) simp
    have "qs \<noteq> []" using "2.prems"(2) gt by (cases qs) auto
    moreover have "unat (rem_len - p_len q) < plen qs"
        "unat shrink = plen qs - unat (rem_len - p_len q)"
      unfolding r using "2.prems"(2,3) gt by simp_all
    ultimately obtain c fr kept where c: "realloc_loop qs (rem_len - p_len q) shrink = Some (c, fr, kept)"
        "c \<noteq> []" "wf_chain c" "pbytes c = take (unat rem_len - unat (p_len q)) (pbytes qs)"
        "plen c = unat rem_len - unat (p_len q)" "length fr + length kept + length c = length qs"
      using "2.IH" [OF True wf(3)] unfolding r by blast
    let ?q = "q\<lparr>p_tot_len := p_tot_len q - shrink\<rparr>"
    have t: "unat (p_tot_len q - shrink) = unat rem_len"
      using "2.prems" wf gt by (subst unat_minus_no_wrap) auto
    have "wf_pbuf ?q" "pdata ?q = pdata q"
      using wf(1) by (auto simp: wf_pbuf_def pdata_def payload_read_def)
    then have "wf_chain (?q # c)" "pbytes (?q # c) = take (unat rem_len) (pbytes (q # qs))"
      using c t gt lq by (auto simp: wf_chain_Cons pbytes_simps)
    then show ?thesis using True c gt by simp
  next
    case False
    then have le: "unat rem_len \<le> unat (p_len q)" by (simp add: word_less_nat_alt)
    let ?q = "q\<lparr>p_len := rem_len, p_tot_len := rem_len\<rparr>"
    have "wf_pbuf ?q" using wf(1) le by (auto simp: wf_pbuf_def)
    moreover have "pdata ?q = take (unat rem_len) (pdata q)"
      using le by (simp add: pdata_def payload_read_def min_absorb1)
    moreover have "length (fst (snd (pbuf_free qs))) + length (snd (snd (pbuf_free qs))) = length qs"
    proof -
      have "length (unshare xs) = length xs" for xs by (simp add: unshare_def split: list.splits)
      then show ?thesis
        by (simp add: pbuf_free_spec) (metis length_append takeWhile_dropWhile_id)
    qed
    ultimately show ?thesis using False le lq
      by (cases "qs = []") (auto simp: wf_chain_Cons pbytes_simps split: prod.splits)
  qed
qed simp

text \<open>
  Shortening a chain with \<open>pbuf_realloc\<close> never runs off its end; the result is a
  well-formed chain carrying the first \<open>new_len\<close> bytes, and every buffer cut off is
  either given back or left to its other owners.
\<close>

lemma pbuf_realloc_correct:
  assumes "wf_chain ps" "ps \<noteq> []"
  shows "\<exists>qs fr kept. pbuf_realloc ps new_len = Some (qs, fr, kept) \<and> wf_chain qs
    \<and> pbytes qs = take (unat new_len) (pbytes ps)
    \<and> length qs + length fr + length kept = length ps"
proof -
  obtain p qs where ps: "ps = p # qs" using assms by (cases ps) auto
  have t: "unat (p_tot_len p) = plen ps" "length (pbytes ps) = plen ps"
    using assms ps by (auto simp: chain_simps)
  show ?thesis
  proof (cases "new_len \<ge> p_tot_len p")
    case True
    then show ?thesis using assms t ps by (auto simp: word_le_nat_alt)
  next
    case False
    then have lt: "unat new_len < plen ps" using t by (simp add: word_le_nat_alt)
    then have "unat (p_tot_len p - new_len) = plen ps - unat new_len"
      using t by (subst unat_minus_no_wrap) auto
    from realloc_loop_correct [OF assms(1) lt this assms(2)] show ?thesis
      using False ps by auto
  qed
qed

lemma pbuf_realloc_correct_witness:
  "wf_chain sample_chain \<and> (\<exists>qs fr kept. pbuf_realloc sample_chain 4 = Some (qs, fr, kept) \<and> wf_chain qs
     \<and> pbytes qs = take 4 (pbytes sample_chain) \<and> length qs + length fr + length kept = length sample_chain)"
  using pbuf_realloc_correct [OF sample_chain_wf sample_chain_ne, of 4] sample_chain_wf by simp

section \<open>Copying chain to chain\<close>

text \<open>A chain that is one packet: a buffer with \<^verbatim>\<open>len == tot_len\<close> is the last.\<close>

fun one_packet :: "pbuf list \<Rightarrow> bool" where
  "one_packet [] = True"
| "one_packet (p # ps) = ((p_len p = p_tot_len p \<longrightarrow> ps = []) \<and> one_packet ps)"

lemma one_packet_queue_check: "one_packet ps \<Longrightarrow> queue_check ps"
  by (cases ps) (auto simp: queue_check_def)

lemma one_packet_rest:
  assumes "wf_chain (p # ps)" "one_packet (p # ps)" "ps \<noteq> []"
  shows "0 < plen ps"
proof (rule ccontr)
  assume "\<not> 0 < plen ps"
  then have "unat (p_tot_len p) = unat (p_len p)" using assms(1) by (simp add: chain_simps)
  then have "p_len p = p_tot_len p" by (intro word_unatI) simp
  then show False using assms by simp
qed

lemma one_packet_shape: "same_shape qs ps \<Longrightarrow> one_packet qs \<longleftrightarrow> one_packet ps"
  unfolding same_shape_def by (induction rule: list_all2_induct) auto

text \<open>One round of the loop, with the amount \<open>n\<close> it copies.\<close>

lemma copy_loop_step:
  assumes "one_packet (t # ts)" "one_packet (f # fs)"
    and n: "n = min (unat (p_len t) - ot) (unat (p_len f) - off)"
    and t': "t' = payload_write t ot (payload_read f off n)"
    and fs': "fs' = (if off + n \<ge> unat (p_len f) then fs else f # fs)"
    and off': "off' = (if off + n \<ge> unat (p_len f) then 0 else off + n)"
    and ne: "\<not> (ot + n \<ge> unat (p_len t) \<and> ts = [] \<and> fs' \<noteq> [])"
  shows "copy_loop (t # ts) ot (f # fs) off =
    (if fs' = [] then (ERR_OK, t' # ts)
     else if ot + n \<ge> unat (p_len t) then (let (e, ts') = copy_loop ts 0 fs' off' in (e, t' # ts'))
     else copy_loop (t' # ts) (ot + n) fs' off')"
proof -
  have n': "(if unat (p_len t) - ot \<ge> unat (p_len f) - off then unat (p_len f) - off
            else unat (p_len t) - ot) = n"
    unfolding n min_def by simp
  have s: "same_shape (t' # ts) (t # ts)" by (simp add: t')
  have q: "queue_check fs'" "queue_check (if ot + n \<ge> unat (p_len t) then ts else t' # ts)"
    using assms(1,2) one_packet_shape [OF s] by (auto simp: fs' intro!: one_packet_queue_check)
  show ?thesis unfolding copy_loop.simps(3) [of t ts ot f fs off] n' Let_def
    using ne q by (auto simp: t' [symmetric] fs' off' split: if_splits)
qed

lemma same_shape_trans: "same_shape as bs \<Longrightarrow> same_shape bs cs \<Longrightarrow> same_shape as cs"
  unfolding same_shape_def by (rule list_all2_trans) auto

lemma copy_loop_correct:
  assumes "wf_chain to" "wf_chain from" "one_packet to" "one_packet from" "from \<noteq> []"
    "to \<noteq> []" "ot \<le> unat (p_len (hd to))" "off \<le> unat (p_len (hd from))"
    "plen from - off \<le> plen to - ot"
  shows "\<exists>qs. copy_loop to ot from off = (ERR_OK, qs) \<and> same_shape qs to \<and> list_all wf_pbuf qs
    \<and> pbytes qs = mem_write (pbytes to) ot (drop off (pbytes from))"
  using assms
proof (induction "length to + length from" arbitrary: to ot "from" off rule: less_induct)
  case less
  obtain t ts f fs where tf: "to = t # ts" "from = f # fs" using less.prems(5,6) by (meson neq_Nil_conv)
  note prems = less.prems [unfolded tf list.sel]
  have wt: "wf_pbuf t" "wf_chain ts" "list_all wf_pbuf ts" and wf: "wf_pbuf f" "wf_chain fs"
    using prems by (auto simp: chain_simps wf_chain_list_all)
  have lt: "length (pdata t) = unat (p_len t)" and lf: "length (pdata f) = unat (p_len f)"
    using wt wf by (auto simp: length_pdata)
  have fits: "unat (p_len f) - off + plen fs \<le> unat (p_len t) - ot + plen ts"
    using prems(7-9) by simp
  have ot: "ot \<le> unat (p_len t)" and off: "off \<le> unat (p_len f)" using prems by auto
  define n where "n = min (unat (p_len t) - ot) (unat (p_len f) - off)"
  have nt: "ot + n \<le> unat (p_len t)" and nf: "off + n \<le> unat (p_len f)"
    and nm: "n = unat (p_len t) - ot \<or> n = unat (p_len f) - off"
    using ot off by (auto simp: n_def)
  define D where "D = drop off (pdata f)"
  define t' where "t' = payload_write t ot (payload_read f off n)"
  define fs' where "fs' = (if off + n \<ge> unat (p_len f) then fs else f # fs)"
  define off' where "off' = (if off + n \<ge> unat (p_len f) then 0 else off + n)"
  have rd: "payload_read f off n = take n D"
    unfolding D_def by (rule payload_read_pdata) (rule nf)
  have lD: "length D = unat (p_len f) - off" using lf by (simp add: D_def)
  have ln: "length (take n D) = n" using lD nf by simp
  have t'w: "wf_pbuf t'" "pdata t' = mem_write (pdata t) ot (take n D)"
    unfolding t'_def rd using wt nt ln by (simp_all add: wf_payload_write pdata_payload_write)
  have sh: "same_shape (t' # ts) (t # ts)" by (simp add: t'_def)
  have R: "take n D @ drop off' (pbytes fs') = drop off (pbytes (f # fs))"
  proof (cases "off + n \<ge> unat (p_len f)")
    case True
    then show ?thesis using off lf lD by (simp add: D_def off'_def fs'_def pbytes_simps)
  next
    case False
    then have "take n D @ drop off' (pbytes fs') = take n D @ drop (off + n) (pdata f) @ pbytes fs"
      using lf by (simp add: off'_def fs'_def pbytes_simps)
    also have "\<dots> = D @ pbytes fs" by (simp add: D_def add.commute flip: append_assoc drop_drop)
    finally show ?thesis using off lf by (simp add: D_def pbytes_simps)
  qed
  have fs0: "fs \<noteq> [] \<Longrightarrow> 0 < plen fs" using one_packet_rest prems(2,4) by blast
  have ne: "\<not> (ot + n \<ge> unat (p_len t) \<and> ts = [] \<and> fs' \<noteq> [])"
    using fits fs0 nf by (cases "fs = []") (auto simp: fs'_def split: if_splits)
  note step = copy_loop_step [OF prems(3,4) n_def t'_def fs'_def off'_def ne]
  consider (finish) "fs' = []" | (advance) "fs' \<noteq> []" "ot + n \<ge> unat (p_len t)"
    | (stay) "fs' \<noteq> []" "\<not> ot + n \<ge> unat (p_len t)" by blast
  then have "\<exists>qs. copy_loop (t # ts) ot (f # fs) off = (ERR_OK, qs) \<and> same_shape qs (t # ts)
    \<and> list_all wf_pbuf qs \<and> pbytes qs = mem_write (pbytes (t # ts)) ot (drop off (pbytes (f # fs)))"
  proof cases
    case finish
    have "pbytes (t' # ts) = mem_write (pdata t) ot (take n D) @ pbytes ts"
      by (simp add: pbytes_simps t'w)
    also have "\<dots> = mem_write (pdata t @ pbytes ts) ot (take n D)"
      by (rule mem_write_appended [symmetric]) (simp only: ln lt nt)
    also have "take n D = drop off (pbytes (f # fs))" using R finish by (simp add: pbytes_simps)
    finally show ?thesis using finish step sh t'w wt by (simp add: pbytes_simps)
  next
    case advance
    have ne: "ts \<noteq> []" using ne advance by blast
    have "wf_chain fs'" "one_packet fs'" using prems(2,4) by (auto simp: fs'_def chain_simps)
    moreover have "off' \<le> unat (p_len (hd fs'))" by (simp add: off'_def fs'_def)
    moreover have "plen fs' - off' \<le> plen ts - 0"
      using fits advance(2) nt nf by (auto simp: off'_def fs'_def)
    moreover have "length ts + length fs' < length to + length from" by (simp add: tf fs'_def)
    ultimately obtain qs where qs: "copy_loop ts 0 fs' off' = (ERR_OK, qs)" "same_shape qs ts"
        "list_all wf_pbuf qs" "pbytes qs = mem_write (pbytes ts) 0 (drop off' (pbytes fs'))"
      using less.hyps [of ts fs' 0 off'] wt prems(3) advance ne by auto
    have "pbytes (t' # qs) = mem_write (pbytes (t # ts)) ot (take n D @ drop off' (pbytes fs'))"
    proof -
      have nn: "n = min (length (pdata t) - ot) (length (take n D @ drop off' (pbytes fs')))"
        unfolding length_append ln lt using advance(2) nt by auto
      show ?thesis using mem_write_split [OF _ nn, of "pbytes ts"] ot lt ln lD nf
        by (simp add: pbytes_simps t'w qs)
    qed
    then show ?thesis using step advance qs sh t'w by (simp add: R)
  next
    case stay
    then have all: "off + n = unat (p_len f)" using nm nf nt by auto
    then have f': "fs' = fs" "off' = 0" by (auto simp: fs'_def off'_def)
    have "wf_chain (t' # ts)" using prems(1) sh t'w same_shape by (auto simp: wf_chain_def)
    moreover have "one_packet (t' # ts)" using prems(3) one_packet_shape [OF sh] by simp
    moreover have "plen fs' - off' \<le> plen (t' # ts) - (ot + n)"
      using fits all nt same_shape(2) [OF sh] by (simp add: f')
    moreover have "length (t' # ts) + length fs' < length to + length from" by (simp add: tf f')
    moreover have "ot + n \<le> unat (p_len t')" using nt by (simp add: t'_def)
    ultimately obtain qs where qs: "copy_loop (t' # ts) (ot + n) fs' off' = (ERR_OK, qs)"
        "same_shape qs (t' # ts)" "list_all wf_pbuf qs"
        "pbytes qs = mem_write (pbytes (t' # ts)) (ot + n) (drop off' (pbytes fs'))"
      using less.hyps [of "t' # ts" fs' "ot + n" off'] wf prems(4) stay by (auto simp: f')
    have "pbytes (t' # ts) = mem_write (pbytes (t # ts)) ot (take n D)"
      using nt ln lt by (simp add: pbytes_simps t'w mem_write_appended)
    moreover have "ot + length (take n D) + length (drop off' (pbytes fs')) \<le> length (pbytes (t # ts))"
      using fits all nt ln lt wt wf by (simp add: f' chain_simps)
    ultimately have "pbytes qs = mem_write (pbytes (t # ts)) ot (take n D @ drop off' (pbytes fs'))"
      using mem_write_append qs(4) ln by metis
    then show ?thesis using step stay qs same_shape_trans [OF qs(2) sh] by (simp add: R)
  qed
  then show ?case by (simp only: tf)
qed

lemma pbuf_copy_bytes:
  assumes "wf_chain to" "wf_chain from" "one_packet to" "one_packet from"
    "from \<noteq> []" "to \<noteq> []" "plen from \<le> plen to"
  shows "\<exists>qs. pbuf_copy to from = (ERR_OK, qs) \<and> wf_chain qs \<and> same_shape qs to
    \<and> pbytes qs = pbytes from @ drop (plen from) (pbytes to)"
proof -
  obtain t ts f fs where tf: "to = t # ts" "from = f # fs" using assms(5,6) by (meson neq_Nil_conv)
  obtain qs where "copy_loop to 0 from 0 = (ERR_OK, qs)" "same_shape qs to" "list_all wf_pbuf qs"
      "pbytes qs = mem_write (pbytes to) 0 (pbytes from)"
    using copy_loop_correct [OF assms(1-6), of 0 0] assms(7) by auto
  moreover have "p_tot_len f \<le> p_tot_len t"
    using assms by (simp add: tf word_le_nat_alt chain_simps)
  ultimately show ?thesis using assms(1,2) same_shape [of qs to]
    by (auto simp: pbuf_copy_def tf wf_chain_def mem_write_def length_pbytes)
qed

text \<open>
  \<open>pbuf_coalesce\<close> of a chain that holds one packet keeps the packet: the result is
  either the chain itself, when it has one buffer or memory is short, or one well-formed buffer
  with the same bytes, and then the old chain's references are dropped.
\<close>

lemma pbuf_coalesce_correct:
  assumes "malloc_ok malloc" "wf_chain ps" "one_packet ps" "ps \<noteq> []"
  shows "\<exists>qs fr kept. pbuf_coalesce malloc ps layer = Some (qs, fr, kept) \<and> wf_chain qs
    \<and> pbytes qs = pbytes ps \<and> (qs = ps \<and> fr = [] \<or> length qs = 1 \<and> (fr, kept) = snd (pbuf_free ps))"
proof (cases "length ps = 1")
  case True
  then obtain p where "ps = [p]" by (cases ps; cases "tl ps") auto
  then show ?thesis using assms(2) by (simp add: pbuf_coalesce_def)
next
  case False
  then obtain p q qs where ps: "ps = p # q # qs" using assms(4) by (cases ps; cases "tl ps") auto
  define r where "r = pbuf_alloc malloc layer (p_tot_len p) PBUF_RAM"
  have fr: "ar_freed r = []" by (auto simp: r_def pbuf_alloc_ram pool_ok_def split: option.splits)
  show ?thesis
  proof (cases "ar_chain r")
    case Nil
    then show ?thesis using assms(2) fr
      by (simp add: pbuf_coalesce_def ps pbuf_clone_def r_def [symmetric] Let_def)
  next
    case (Cons t ts)
    then have ts: "ts = []" unfolding r_def pbuf_alloc_ram by (auto simp: pool_ok_def split: if_splits option.splits)
    have t: "wf_chain [t]" "plen [t] = unat (p_tot_len p)"
      using pbuf_alloc_ok [OF assms(1) _ Cons [unfolded r_def]] ts by auto
    have pl: "plen ps = unat (p_tot_len p)" using assms(2) by (simp add: ps chain_simps)
    obtain us where us: "pbuf_copy [t] ps = (ERR_OK, us)" "wf_chain us" "same_shape us [t]"
        "pbytes us = pbytes ps @ drop (plen ps) (pbytes [t])"
      using pbuf_copy_bytes [OF t(1) assms(2), unfolded one_packet.simps] assms(3,4) t(2) pl by auto
    have "drop (plen ps) (pbytes [t]) = []" using t pl by (simp add: wf_chain_length)
    moreover have "length us = 1" "us \<noteq> []" using same_shape(1) [OF us(3)] by auto
    moreover obtain c fr' kept where "pbuf_free ps = (c, fr', kept)" by (cases "pbuf_free ps") auto
    ultimately show ?thesis using us Cons ts fr
      by (simp add: pbuf_coalesce_def pbuf_clone_def ps r_def [symmetric] Let_def)
  qed
qed

lemma sample_chain_one: "one_packet sample_chain"
  by (simp add: sample_chain_def sample_pbuf_def)

lemma pbuf_coalesce_correct_witness:
  "\<exists>qs fr kept. pbuf_coalesce zero_malloc sample_chain PBUF_RAW = Some (qs, fr, kept) \<and> wf_chain qs
    \<and> pbytes qs = pbytes sample_chain"
  using pbuf_coalesce_correct [OF zero_malloc_ok sample_chain_wf sample_chain_one sample_chain_ne] by blast

section \<open>Linking\<close>

lemma pbuf_cat_correct:
  assumes "wf_chain h" "wf_chain t" "h \<noteq> []" "plen h + plen t < 65536"
  shows "wf_chain (pbuf_cat h t) \<and> pbytes (pbuf_cat h t) = pbytes h @ pbytes t"
proof (cases t)
  case Nil
  then show ?thesis using assms by (simp add: pbytes_simps)
next
  case (Cons x xs)
  let ?f = "\<lambda>p. p\<lparr>p_tot_len := p_tot_len p + p_tot_len x\<rparr>"
  have x: "unat (p_tot_len x) = plen t" using assms(2) Cons by (simp add: chain_simps)
  have d: "pdata (?f p) = pdata p" "wf_pbuf (?f p) \<longleftrightarrow> wf_pbuf p" for p
    by (simp_all add: pdata_def payload_read_def wf_pbuf_def)
  have "wf_chain (map ?f h @ t) \<and> pbytes (map ?f h) = pbytes h \<and> plen (map ?f h) = plen h"
    using assms(1,4)
  proof (induction h)
    case (Cons p ps)
    have "unat (p_tot_len p + p_tot_len x) = unat (p_tot_len p) + unat (p_tot_len x)"
      using Cons.prems x by (intro unat_plus_no_wrap) (simp add: chain_simps)
    then show ?case using Cons x d by (auto simp: chain_simps)
  qed (use assms(2) in simp)
  moreover have "pbuf_cat h t = map ?f h @ t" using assms(3) Cons by (cases h) auto
  ultimately show ?thesis by (simp add: pbytes_simps)
qed

text \<open>
  \<open>pbuf_dechain\<close> separates the first buffer: it becomes a well-formed chain of its
  own, and the rest is returned well-formed if somebody else holds it and given back otherwise.
  The count of buffers given back is 8 bits wide: if their number is a positive multiple of 256
  the function returns a pointer into the chain it has just given back.
\<close>

lemma pbuf_dechain_correct:
  assumes "wf_chain (p # q # qs)"
  defines "gone \<equiv> length (takeWhile (\<lambda>x. p_ref x = 1) (q # qs))"
  shows "(pbuf_dechain (p # q # qs) = None \<longleftrightarrow> 0 < gone \<and> 256 dvd gone) \<and>
    (case pbuf_dechain (p # q # qs) of
      None \<Rightarrow> True
    | Some (p', fr, tail) \<Rightarrow> wf_chain [p'] \<and> pbytes [p'] = pdata p \<and> length fr = gone
        \<and> (if gone = 0 then wf_chain tail \<and> pbytes tail = pbytes (q # qs)
             \<and> p_ref (hd tail) = p_ref q - 1 else tail = []))"
proof -
  define q' where "q' = q\<lparr>p_tot_len := p_tot_len p - p_len p\<rparr>"
  define p' where "p' = p\<lparr>p_tot_len := p_len p\<rparr>"
  have wf: "wf_pbuf p" "unat (p_tot_len p) = unat (p_len p) + plen (q # qs)" "wf_chain (q # qs)"
    using assms(1) by (auto simp: wf_chain_Cons)
  have g: "length (takeWhile (\<lambda>x. p_ref x = 1) (q' # qs)) = gone" by (simp add: gone_def q'_def)
  have p': "wf_chain [p'] \<and> pbytes [p'] = pdata p"
    using wf(1) by (simp add: p'_def wf_chain_Cons wf_pbuf_def pdata_def payload_read_def pbytes_simps)
  have t: "unat (p_tot_len p - p_len p) = plen (q # qs)"
    using wf(2) by (subst unat_minus_no_wrap) auto
  have q': "wf_chain (q' # qs)" "pbytes (q' # qs) = pbytes (q # qs)"
    using wf(3) t by (auto simp: q'_def wf_chain_Cons wf_pbuf_def pdata_def payload_read_def pbytes_simps)
  have eq: "pbuf_dechain (p # q # qs) =
      (if (of_nat gone :: u8) > 0 then Some (p', map dropped (takeWhile (\<lambda>x. p_ref x = 1) (q' # qs)), [])
       else if gone = 0 then Some (p', [], unshare (q' # qs)) else None)"
    using g by (auto simp: pbuf_free_spec Let_def q'_def [symmetric] p'_def [symmetric] split: if_splits)
  have z: "(of_nat gone :: u8) > 0 \<longleftrightarrow> \<not> 256 dvd gone"
    by (simp add: word_gt_0 word_of_nat_eq_0_iff)
  show ?thesis
  proof (cases "gone = 0")
    case True
    have u: "wf_chain (unshare (q' # qs))" "pbytes (unshare (q' # qs)) = pbytes (q # qs)"
      using q' by (auto simp: unshare_def wf_chain_Cons wf_pbuf_def pdata_def payload_read_def pbytes_simps)
    have "p_ref (hd (unshare (q' # qs))) = p_ref q - 1" by (simp add: unshare_def q'_def)
    then show ?thesis unfolding eq using True u p' by simp
  next
    case False
    then show ?thesis unfolding eq z using p' g by (simp del: takeWhile.simps)
  qed
qed
lemma pbuf_dechain_correct_witness:
  "\<exists>p q. sample_chain = [p, q] \<and> wf_chain [p, q] \<and> pbuf_dechain [p, q] \<noteq> None"
proof -
  obtain p q where pq: "sample_chain = [p, q]" "p_ref q = 1" by (simp add: sample_chain_def sample_pbuf_def)
  then have wf: "wf_chain [p, q]" using sample_chain_wf by simp
  then have "pbuf_dechain [p, q] \<noteq> None"
    using pbuf_dechain_correct [OF wf] pq(2) by (simp del: pbuf_dechain.simps)
  then show ?thesis using pq(1) wf by blast
qed

section \<open>Splitting at 64k\<close>

text \<open>A chain longer than 64k carries its totals modulo \<open>2 ^ 16\<close>.\<close>

fun tot_wraps :: "pbuf list \<Rightarrow> bool" where
  "tot_wraps [] = True"
| "tot_wraps (p # ps) = (p_tot_len p = of_nat (plen (p # ps)) \<and> tot_wraps ps)"

lemma split_64k_loop_correct:
  assumes "split_64k_loop tot ps = (front, rest)"
  shows "ps = front @ rest \<and> unat tot + plen front < 65536
    \<and> (rest \<noteq> [] \<longrightarrow> 65536 \<le> unat tot + plen front + unat (p_len (hd rest)))"
  using assms
proof (induction tot ps arbitrary: front rule: split_64k_loop.induct)
  case (2 tot r rs)
  show ?case
  proof (cases "unat tot + unat (p_len r) < 65536")
    case True
    then have u: "unat (tot + p_len r) = unat tot + unat (p_len r)"
      by (intro unat_plus_no_wrap) simp
    then have ge: "tot + p_len r \<ge> tot" by (simp add: word_le_nat_alt)
    then obtain fr where fr: "split_64k_loop (tot + p_len r) rs = (fr, rest)" "front = r # fr"
      using 2(2) by (auto split: prod.splits)
    then show ?thesis using "2.IH" [OF ge fr(1)] u by auto
  next
    case False
    then have "\<not> tot + p_len r \<ge> tot" by (simp add: not_le u16_add_wraps)
    then show ?thesis using 2(2) False by auto
  qed
qed auto

lemma tot_wraps_append: "tot_wraps (ps @ qs) \<Longrightarrow> tot_wraps qs"
  by (induction ps) auto

lemma tot_wraps_ok: "tot_wraps ps \<Longrightarrow> plen ps < 65536 \<Longrightarrow> tot_ok ps"
  by (induction ps) (auto simp: unat_of_nat_u16 unat_plus_no_wrap)

lemma tot_wraps_cut:
  assumes "tot_wraps (ps @ qs)"
  shows "tot_wraps (map (\<lambda>i. i\<lparr>p_tot_len := p_tot_len i - of_nat (plen qs)\<rparr>) ps)
    \<and> plen (map (\<lambda>i. i\<lparr>p_tot_len := p_tot_len i - of_nat (plen qs)\<rparr>) ps) = plen ps"
  using assms by (induction ps) auto

text \<open>
  \<open>pbuf_split_64k\<close> cuts a chain of any length, whose totals may have wrapped, in two:
  the bytes are those of the chain, the front is below 64k with exact totals, the totals of the
  rest are right modulo 64k, and the cut is made only where one more buffer would overflow.
\<close>

lemma pbuf_split_64k_correct:
  assumes "tot_wraps ps" "pbuf_split_64k ps = (front, rest)"
  shows "pbytes front @ pbytes rest = pbytes ps \<and> length front + length rest = length ps
    \<and> plen front < 65536 \<and> tot_ok front \<and> tot_wraps rest
    \<and> (rest \<noteq> [] \<longrightarrow> 65536 \<le> plen front + unat (p_len (hd rest)))"
proof (cases ps rule: pbuf_split_64k.cases)
  case (3 p q qs)
  obtain fr r where sp: "split_64k_loop (p_len p) (q # qs) = (fr, r)" by fastforce
  note l = split_64k_loop_correct [OF sp]
  show ?thesis
  proof (cases r)
    case Nil
    then have "front = ps" "rest = []" "plen ps < 65536" using assms(2) l sp 3 by auto
    then show ?thesis using assms(1) tot_wraps_ok by (auto simp: pbytes_simps)
  next
    case (Cons x xs)
    let ?f = "\<lambda>i. i\<lparr>p_tot_len := p_tot_len i - p_tot_len x\<rparr>"
    define x' where "x' = (if p_flags p AND PBUF_FLAG_TCP_FIN \<noteq> 0
      then x\<lparr>p_flags := p_flags x OR PBUF_FLAG_TCP_FIN\<rparr> else x)"
    have fx: "front = map ?f (p # fr)" "rest = x' # xs"
      using assms(2) sp 3 Cons by (auto simp: x'_def)
    have ps: "ps = (p # fr) @ x # xs" using l 3 Cons by simp
    have w: "tot_wraps (x # xs)" using assms(1) tot_wraps_append unfolding ps by blast
    then have tx: "p_tot_len x = of_nat (plen (x # xs))" by simp
    have cut: "tot_wraps front" "plen front = plen (p # fr)"
      using tot_wraps_cut [OF assms(1) [unfolded ps], folded tx] fx(1) by blast+
    have x': "p_len x' = p_len x" "p_tot_len x' = p_tot_len x" "pdata x' = pdata x"
      by (simp_all add: x'_def pdata_def payload_read_def)
    have "pbytes (map ?f ys) = pbytes ys" for ys
      by (induction ys) (auto simp: pbytes_simps pdata_def payload_read_def)
    then have "pbytes front @ pbytes rest = pbytes ps"
      by (simp add: fx ps pbytes_simps x' del: list.map)
    moreover have "tot_wraps rest" using w by (simp add: fx x')
    moreover have "plen front < 65536" using cut l by simp
    moreover have "length front + length rest = length ps" by (simp add: fx ps)
    ultimately show ?thesis using tot_wraps_ok [OF cut(1)] cut l Cons fx x' by simp
  qed
qed (use assms in \<open>auto simp: pbytes_simps tot_wraps_ok unat_of_nat_u16\<close>)

lemma pbuf_split_64k_correct_witness:
  "tot_wraps sample_chain \<and> (\<exists>front rest. pbuf_split_64k sample_chain = (front, rest)
     \<and> pbytes front @ pbytes rest = pbytes sample_chain \<and> tot_ok front)"
proof -
  have "tot_wraps sample_chain" by (simp add: sample_chain_def sample_pbuf_def)
  moreover obtain f r where "pbuf_split_64k sample_chain = (f, r)" by fastforce
  ultimately show ?thesis using pbuf_split_64k_correct by blast
qed

section \<open>Single bytes\<close>

lemma pbuf_try_get_at_correct:
  assumes "wf_chain ps"
  shows "pbuf_try_get_at ps off = (if unat off < plen ps then uint (pbytes ps ! unat off) else - 1)"
proof -
  obtain qs out where sk: "pbuf_skip_const ps off = (qs, out)" by fastforce
  obtain front where fr: "ps = front @ qs" "unat off = plen front + unat out"
      "case qs of [] \<Rightarrow> True | q # _ \<Rightarrow> unat out < unat (p_len q)"
    using pbuf_skip_const_spec [OF sk] by blast
  have lf: "length (pbytes front) = plen front"
    using assms fr(1) by (simp add: wf_chain_def length_pbytes)
  show ?thesis
  proof (cases qs)
    case Nil
    then show ?thesis unfolding pbuf_try_get_at_def sk using fr by simp
  next
    case (Cons q qs')
    have lt: "unat out < unat (p_len q)" "wf_pbuf q"
      using fr assms Cons by (auto simp: wf_chain_def)
    have "payload_read q (unat out) 1 = take 1 (drop (unat out) (pdata q))"
      using lt by (intro payload_read_pdata) simp
    also have "\<dots> = [pdata q ! unat out]"
      using lt by (simp add: take_Suc_conv_app_nth length_pdata)
    finally have "hd (payload_read q (unat out) 1) = pdata q ! unat out" by simp
    moreover have "pbytes ps ! unat off = pdata q ! unat out"
      using fr Cons lf lt by (simp add: pbytes_simps nth_append length_pdata)
    ultimately show ?thesis unfolding pbuf_try_get_at_def sk using fr Cons lt
      by (simp add: word_less_nat_alt)
  qed
qed

lemma pbuf_get_at_correct:
  "wf_chain ps \<Longrightarrow> pbuf_get_at ps off = (if unat off < plen ps then pbytes ps ! unat off else 0)"
  by (simp add: pbuf_get_at_def pbuf_try_get_at_correct Let_def)


lemma pbuf_put_at_correct:
  assumes "wf_chain ps"
  shows "wf_chain (pbuf_put_at ps off b) \<and>
    pbytes (pbuf_put_at ps off b) = (pbytes ps)[unat off := b]"
proof -
  obtain qs out where sk: "pbuf_skip_const ps off = (qs, out)" by fastforce
  obtain front where fr: "ps = front @ qs" "unat off = plen front + unat out"
      "case qs of [] \<Rightarrow> True | q # _ \<Rightarrow> unat out < unat (p_len q)"
    using pbuf_skip_const_spec [OF sk] by blast
  have lf: "length (pbytes front) = plen front"
    using assms fr(1) by (simp add: wf_chain_def length_pbytes)
  show ?thesis
  proof (cases qs)
    case Nil
    then show ?thesis unfolding pbuf_put_at_def pbuf_skip_def sk using fr assms lf by (simp add: list_update_beyond)
  next
    case (Cons q qs')
    let ?q = "payload_write q (unat out) [b]"
    have lt: "unat out < unat (p_len q)" "wf_chain (q # qs')"
      using fr assms Cons wf_chain_append_tail by auto
    then have q: "wf_pbuf ?q" "pdata ?q = (pdata q)[unat out := b]"
      by (auto simp: chain_simps mem_write_def upd_conv_take_nth_drop)
    have e: "pbuf_put_at ps off b = front @ ?q # qs'"
      unfolding pbuf_put_at_def pbuf_skip_def sk Cons
      using fr(1) Cons lt by (simp add: word_less_nat_alt)
    have "wf_chain (front @ ?q # qs')"
    proof (rule wf_chain_replace [of front "q # qs'"])
      show "wf_chain (front @ q # qs')" using assms by (simp only: fr(1) Cons)
      show "wf_chain (?q # qs')" using lt(2) q(1) by (simp add: wf_chain_Cons)
    qed simp
    moreover have "pbytes (front @ ?q # qs') = (pbytes ps)[unat off := b]"
      using lf lt q fr by (simp add: Cons pbytes_simps list_update_append wf_chain_Cons length_pdata)
    ultimately show ?thesis by (simp add: e)
  qed
qed

section \<open>Comparing and searching\<close>

lemma memcmp_loop_zero:
  assumes "wf_chain q" "unat start + unat n \<le> plen q" "i \<le> n"
  shows "memcmp_loop q start s2 n i = 0 \<longleftrightarrow>
    (\<forall>j. unat i \<le> j \<and> j < unat n \<longrightarrow> pbytes q ! (unat start + j) = s2 ! j)"
  using assms
proof (induction q start s2 n i rule: memcmp_loop.induct)
  case (1 q start s2 n i)
  show ?case
  proof (cases "i < n")
    case True
    then have ni: "unat i < unat n" by (simp add: word_less_nat_alt)
    have "unat start + unat i < 65536"
      using "1.prems"(2) ni wf_chain_plen_u16 [OF "1.prems"(1)] by linarith
    then have u: "unat (start + i) = unat start + unat i" by (intro unat_plus_no_wrap) simp
    have get: "pbuf_get_at q (start + i) = pbytes q ! (unat start + unat i)"
      using "1.prems" ni u by (simp add: pbuf_get_at_correct)
    have m: "(of_nat (min (unat i + 1) 0xFFFF) :: u16) \<noteq> 0"
    proof -
      have "unat i + 1 < 65536" using ni unat_u16_lt [of n] by linarith
      then have "unat (of_nat (min (unat i + 1) 0xFFFF) :: u16) = unat i + 1"
        by (subst unat_of_nat_u16) auto
      then show ?thesis by (metis Suc_eq_plus1 nat.simps(3) unat_0)
    qed
    have s: "unat (i + 1) = Suc (unat i)" using True by (rule unat_Suc_less)
    show ?thesis
    proof (cases "pbuf_get_at q (start + i) = s2 ! unat i")
      case eq: True
      have le: "i + 1 \<le> n" using ni s by (simp add: word_le_nat_alt)
      have "memcmp_loop q start s2 n i = memcmp_loop q start s2 n (i + 1)"
        using True eq by (subst memcmp_loop.simps) simp
      also have "(\<dots> = 0) \<longleftrightarrow>
          (\<forall>j. Suc (unat i) \<le> j \<and> j < unat n \<longrightarrow> pbytes q ! (unat start + j) = s2 ! j)"
        using "1.IH" [OF True refl refl _ "1.prems"(1,2) le] eq s by simp
      also have "\<dots> \<longleftrightarrow> (\<forall>j. unat i \<le> j \<and> j < unat n \<longrightarrow> pbytes q ! (unat start + j) = s2 ! j)"
        using eq get by (metis Suc_leI le_eq_less_or_eq Suc_le_lessD)
      finally show ?thesis .
    next
      case False
      then have "memcmp_loop q start s2 n i = of_nat (min (unat i + 1) 0xFFFF)"
        using True by (subst memcmp_loop.simps) simp
      then show ?thesis using m False ni get by auto
    qed
  next
    case False
    then have "unat n \<le> unat i" by (simp add: word_less_nat_alt)
    then show ?thesis using False by (subst memcmp_loop.simps) auto
  qed
qed

lemma pbuf_memcmp_zero:
  assumes wf: "wf_chain ps" "ps \<noteq> []" and n: "unat n \<le> length s2"
  shows "\<exists>r. pbuf_memcmp ps off s2 n = Some r \<and>
    (r = 0 \<longleftrightarrow> unat off + unat n \<le> plen ps
       \<and> take (unat n) (drop (unat off) (pbytes ps)) = take (unat n) s2)"
proof -
  obtain p ps' where ps: "ps = p # ps'" using wf by (cases ps) auto
  have t: "unat (p_tot_len p) = plen ps" "length (pbytes ps) = plen ps"
    using wf by (auto simp: ps chain_simps)
  show ?thesis
  proof (cases "plen ps < unat off + unat n")
    case True
    then have "pbuf_memcmp ps off s2 n = Some 0xffff"
      unfolding pbuf_memcmp_def ps using t by (simp add: ps)
    then show ?thesis using True by auto
  next
    case False
    obtain qs out where sk: "pbuf_skip_const ps off = (qs, out)" by fastforce
    obtain front where fr: "ps = front @ qs" "unat off = plen front + unat out"
      using pbuf_skip_const_spec [OF sk] by blast
    have lf: "length (pbytes front) = plen front"
      using wf fr(1) by (simp add: wf_chain_def length_pbytes)
    have wq: "wf_chain qs" using wf fr(1) wf_chain_append_tail by blast
    have le: "unat out + unat n \<le> plen qs" using False fr by simp
    have r: "pbuf_memcmp ps off s2 n = Some (memcmp_loop qs out s2 n 0)"
      using False t sk unfolding pbuf_memcmp_def ps by simp
    have z: "memcmp_loop qs out s2 n 0 = 0 \<longleftrightarrow>
        (\<forall>j<unat n. pbytes qs ! (unat out + j) = s2 ! j)"
      using memcmp_loop_zero [OF wq le, of 0 s2] by simp
    have nth: "pbytes ps ! (unat off + j) = pbytes qs ! (unat out + j)" for j
      using fr lf by (simp add: pbytes_simps nth_append add.assoc)
    have "take (unat n) (drop (unat off) (pbytes ps)) = take (unat n) s2 \<longleftrightarrow>
        (\<forall>j<unat n. pbytes ps ! (unat off + j) = s2 ! j)"
      using False n t by (subst list_eq_iff_nth_eq) auto
    then show ?thesis using r z False nth by auto
  qed
qed
definition first_match :: "(nat \<Rightarrow> bool) \<Rightarrow> nat \<Rightarrow> nat \<Rightarrow> u16 \<Rightarrow> bool" where
  "first_match P i m r \<longleftrightarrow>
     (if \<exists>j. i \<le> j \<and> j \<le> m \<and> P j
      then i \<le> unat r \<and> unat r \<le> m \<and> P (unat r) \<and> (\<forall>j. i \<le> j \<and> j < unat r \<longrightarrow> \<not> P j)
      else r = 0xFFFF)"

lemma first_match_here: "i \<le> m \<Longrightarrow> P i \<Longrightarrow> unat r = i \<Longrightarrow> first_match P i m r"
  by (auto simp: first_match_def)

lemma first_match_next:
  assumes "first_match P (Suc i) m r" "\<not> P i"
  shows "first_match P i m r"
proof -
  have "i \<le> j \<and> P j \<longleftrightarrow> Suc i \<le> j \<and> P j" for j using assms(2) by (cases "i = j") auto
  then have ex: "(\<exists>j. i \<le> j \<and> j \<le> m \<and> P j) \<longleftrightarrow> (\<exists>j. Suc i \<le> j \<and> j \<le> m \<and> P j)"
    and all: "(\<forall>j. i \<le> j \<and> j < k \<longrightarrow> \<not> P j) \<longleftrightarrow> (\<forall>j. Suc i \<le> j \<and> j < k \<longrightarrow> \<not> P j)" for k
    by blast+
  show ?thesis
  proof (cases "\<exists>j. Suc i \<le> j \<and> j \<le> m \<and> P j")
    case True
    show ?thesis using assms(1) Suc_leD [of i "unat r"]
      unfolding first_match_def ex all if_P [OF True] by blast
  next
    case False
    show ?thesis using assms(1) unfolding first_match_def ex if_not_P [OF False] .
  qed
qed

lemma memfind_loop_correct:
  assumes wf: "wf_chain ps" "ps \<noteq> []" and n: "length s2 = unat n" "unat n \<le> plen ps"
    and m: "unat m = plen ps - unat n" and i: "i \<le> m"
  shows "\<exists>r. memfind_loop ps s2 n m i = Some r \<and>
    first_match (\<lambda>j. take (unat n) (drop j (pbytes ps)) = s2) (unat i) (unat m) r"
  using i
proof (induction "unat m - unat i" arbitrary: i rule: less_induct)
  case less
  let ?P = "\<lambda>j. take (unat n) (drop j (pbytes ps)) = s2"
  have le: "unat i \<le> unat m" using less.prems by (simp add: word_le_nat_alt)
  obtain r where r: "pbuf_memcmp ps i s2 n = Some r" "r = 0 \<longleftrightarrow> ?P (unat i)"
    using pbuf_memcmp_zero [OF wf, of n s2 i] n m le by auto
  show ?case
  proof (cases "?P (unat i)")
    case True
    then have "memfind_loop ps s2 n m i = Some i"
      using r less.prems by (subst memfind_loop.simps) simp
    then show ?thesis using True le by (auto intro: first_match_here)
  next
    case False
    then have step: "memfind_loop ps s2 n m i = memfind_loop ps s2 n m (i + 1)"
      using r less.prems by (subst memfind_loop.simps) simp
    show ?thesis
    proof (cases "i = m")
      case True
      have "n \<noteq> 0" using False n by auto
      then have "unat n > 0" by (simp add: unat_gt_0)
      then have "unat m + 1 < 65536" using m n wf_chain_plen_u16 [OF wf(1)] by linarith
      then have "unat (m + 1) = unat m + 1" by (subst unat_plus_no_wrap) auto
      then have "\<not> m + 1 \<le> m" by (simp add: word_le_nat_alt)
      then have "memfind_loop ps s2 n m (i + 1) = Some 0xFFFF"
        using True by (subst memfind_loop.simps) simp
      then show ?thesis using step False True by (auto simp: first_match_def)
    next
      case ne: False
      then have "i < m" using less.prems by simp
      then have s: "unat (i + 1) = Suc (unat i)" "unat i < unat m"
        by (auto simp: unat_Suc_less word_less_nat_alt)
      then have "i + 1 \<le> m" "unat m - unat (i + 1) < unat m - unat i"
        by (auto simp: word_le_nat_alt)
      then obtain r where "memfind_loop ps s2 n m (i + 1) = Some r" "first_match ?P (Suc (unat i)) (unat m) r"
        using less.hyps [of "i + 1"] unfolding s(1) by blast
      then show ?thesis using step False by (auto intro: first_match_next)
    qed
  qed
qed

text \<open>
  \<open>pbuf_memfind\<close> terminates although its 16-bit index may reach its maximum, and
  returns the first position from \<open>start_offset\<close> on at which the bytes of the chain are
  the ones searched for, or \<^verbatim>\<open>0xFFFF\<close> when there is none.
\<close>

lemma pbuf_memfind_first:
  assumes "wf_chain ps" "ps \<noteq> []" "length s2 = unat n"
  shows "\<exists>r. pbuf_memfind ps s2 n start = Some r \<and>
    (if unat start + unat n \<le> plen ps
     then first_match (\<lambda>j. take (unat n) (drop j (pbytes ps)) = s2) (unat start) (plen ps - unat n) r
     else r = 0xFFFF)"
proof -
  obtain p ps' where ps: "ps = p # ps'" using assms by (cases ps) auto
  have t: "unat (p_tot_len p) = plen ps" using assms by (simp add: ps chain_simps)
  show ?thesis
  proof (cases "unat start + unat n \<le> plen ps")
    case True
    have m: "unat (p_tot_len p - n) = plen ps - unat n"
      using True t by (subst unat_minus_no_wrap) auto
    then have "start \<le> p_tot_len p - n" using True by (simp add: word_le_nat_alt)
    from memfind_loop_correct [OF assms _ m this] True
    show ?thesis unfolding pbuf_memfind_def ps using t m by (simp add: ps add.commute)
  next
    case False
    then show ?thesis unfolding pbuf_memfind_def ps using t by (simp add: ps add.commute)
  qed
qed
lemma pbuf_memfind_first_witness:
  "\<exists>r. pbuf_memfind sample_chain [3, 4] 2 0 = Some r \<and>
     first_match (\<lambda>j. take 2 (drop j (pbytes sample_chain)) = [3, 4]) 0 3 r"
  using pbuf_memfind_first [of sample_chain "[3, 4]" 2 0]
  by (simp add: sample_chain_wf sample_chain_ne sample_chain_plen)

end
