(* ===== verification/Inet_Chksum.thy ===== *)
theory Inet_Chksum
  imports Pbuf_Ops Lwip_Def
begin

text \<open>
  \<^verbatim>\<open>externals/lwip/src/core/inet_chksum.c\<close> with
  \<^verbatim>\<open>LWIP_CHKSUM_ALGORITHM\<close> 2 on a little-endian host. Whether a payload starts at an
  odd address is a parameter of the functions, since the algorithm depends on it and its result
  must not. IPv4 and IPv6 addresses are in network byte order as in the source.
\<close>

section \<open>The sum over a block\<close>

definition FOLD_U32T :: "u32 \<Rightarrow> u32" where
  "FOLD_U32T u = drop_bit 16 u + (u AND 0x0000ffff)"

definition SWAP_BYTES_IN_WORD :: "u32 \<Rightarrow> u32" where
  "SWAP_BYTES_IN_WORD w = push_bit 8 (w AND 0xff) OR drop_bit 8 (w AND 0xff00)"

text \<open>The 16-bit word with the bytes \<open>a\<close> and \<open>b\<close> in memory.\<close>

definition le16 :: "u8 \<Rightarrow> u8 \<Rightarrow> u16" where
  "le16 a b = ucast a OR push_bit 8 (ucast b)"

fun chksum_words :: "u8 list \<Rightarrow> u32 \<Rightarrow> u32 \<times> u8 list" where
  "chksum_words (a # b # bs) acc = chksum_words bs (acc + ucast (le16 a b))"
| "chksum_words bs acc = (acc, bs)"

definition lwip_standard_chksum :: "bool \<Rightarrow> u8 list \<Rightarrow> u16" where
  "lwip_standard_chksum at_odd data =
     (let (t1, pb) = (if at_odd \<and> data \<noteq> [] then (hd data, tl data) else (0, data));
          (acc, rest) = chksum_words pb 0;
          t0 = (if rest \<noteq> [] then hd rest else 0);
          acc = acc + ucast (le16 t0 t1);
          acc = FOLD_U32T acc;
          acc = FOLD_U32T acc;
          acc = (if at_odd then SWAP_BYTES_IN_WORD acc else acc)
      in ucast acc)"

definition inet_chksum :: "bool \<Rightarrow> u8 list \<Rightarrow> u16" where
  "inet_chksum at_odd data = NOT (lwip_standard_chksum at_odd data)"

definition lwip_chksum_copy :: "bool \<Rightarrow> u8 list \<Rightarrow> u8 list \<Rightarrow> u8 list \<times> u16" where
  "lwip_chksum_copy at_odd dst src =
     (let dst = mem_write dst 0 src in (dst, lwip_standard_chksum at_odd (take (length src) dst)))"

section \<open>Sums over chains\<close>

fun chain_loop :: "(pbuf \<Rightarrow> bool) \<Rightarrow> pbuf list \<Rightarrow> u32 \<Rightarrow> bool \<Rightarrow> u32 \<times> bool" where
  "chain_loop at_odd [] acc swapped = (acc, swapped)"
| "chain_loop at_odd (q # qs) acc swapped =
     (let acc = FOLD_U32T (acc + ucast (lwip_standard_chksum (at_odd q) (pdata q))) in
      if unat (p_len q) mod 2 \<noteq> 0
      then chain_loop at_odd qs (SWAP_BYTES_IN_WORD acc) (\<not> swapped)
      else chain_loop at_odd qs acc swapped)"

definition inet_chksum_pbuf :: "(pbuf \<Rightarrow> bool) \<Rightarrow> pbuf list \<Rightarrow> u16" where
  "inet_chksum_pbuf at_odd p =
     (let (acc, swapped) = chain_loop at_odd p 0 False;
          acc = (if swapped then SWAP_BYTES_IN_WORD acc else acc)
      in NOT (ucast (acc AND 0xffff)))"

text \<open>The tail shared by the pseudo-header sums: protocol, length, and folding.\<close>

definition pseudo_finish :: "u32 \<Rightarrow> u8 \<Rightarrow> u16 \<Rightarrow> u16" where
  "pseudo_finish acc proto proto_len =
     (let acc = acc + ucast (lwip_htons (ucast proto));
          acc = acc + ucast (lwip_htons proto_len);
          acc = FOLD_U32T acc;
          acc = FOLD_U32T acc
      in NOT (ucast (acc AND 0xffff)))"

definition inet_cksum_pseudo_base ::
    "(pbuf \<Rightarrow> bool) \<Rightarrow> pbuf list \<Rightarrow> u8 \<Rightarrow> u16 \<Rightarrow> u32 \<Rightarrow> u16" where
  "inet_cksum_pseudo_base at_odd p proto proto_len acc =
     (let (acc, swapped) = chain_loop at_odd p acc False;
          acc = (if swapped then SWAP_BYTES_IN_WORD acc else acc)
      in pseudo_finish acc proto proto_len)"

definition add_halves :: "u32 \<Rightarrow> u32 \<Rightarrow> u32" where
  "add_halves acc a = acc + (a AND 0xffff) + (drop_bit 16 a AND 0xffff)"

definition inet_chksum_pseudo ::
    "(pbuf \<Rightarrow> bool) \<Rightarrow> pbuf list \<Rightarrow> u8 \<Rightarrow> u16 \<Rightarrow> u32 \<Rightarrow> u32 \<Rightarrow> u16" where
  "inet_chksum_pseudo at_odd p proto proto_len src dest =
     (let acc = add_halves 0 src;
          acc = add_halves acc dest;
          acc = FOLD_U32T acc;
          acc = FOLD_U32T acc
      in inet_cksum_pseudo_base at_odd p proto proto_len acc)"

text \<open>The four words of an IPv6 address.\<close>

type_synonym ip6_words = "u32 \<times> u32 \<times> u32 \<times> u32"

definition ip6_acc :: "ip6_words \<Rightarrow> ip6_words \<Rightarrow> u32" where
  "ip6_acc src dest =
     (case (src, dest) of ((s0, s1, s2, s3), (d0, d1, d2, d3)) \<Rightarrow>
        let acc = add_halves (add_halves 0 s0) d0;
            acc = add_halves (add_halves acc s1) d1;
            acc = add_halves (add_halves acc s2) d2;
            acc = add_halves (add_halves acc s3) d3;
            acc = FOLD_U32T acc
        in FOLD_U32T acc)"

definition ip6_chksum_pseudo ::
    "(pbuf \<Rightarrow> bool) \<Rightarrow> pbuf list \<Rightarrow> u8 \<Rightarrow> u16 \<Rightarrow> ip6_words \<Rightarrow> ip6_words \<Rightarrow> u16" where
  "ip6_chksum_pseudo at_odd p proto proto_len src dest =
     inet_cksum_pseudo_base at_odd p proto proto_len (ip6_acc src dest)"

text \<open>
  An address of either family. The caller passes two addresses of one family; reading the other
  member of the union is \<open>None\<close>.
\<close>

datatype ip_words = IPADDR_V4 u32 | IPADDR_V6 ip6_words

definition ip_chksum_pseudo ::
    "(pbuf \<Rightarrow> bool) \<Rightarrow> pbuf list \<Rightarrow> u8 \<Rightarrow> u16 \<Rightarrow> ip_words \<Rightarrow> ip_words \<Rightarrow> u16 option" where
  "ip_chksum_pseudo at_odd p proto proto_len src dest =
     (case (src, dest) of
        (IPADDR_V6 s, IPADDR_V6 d) \<Rightarrow> Some (ip6_chksum_pseudo at_odd p proto proto_len s d)
      | (IPADDR_V4 s, IPADDR_V4 d) \<Rightarrow> Some (inet_chksum_pseudo at_odd p proto proto_len s d)
      | _ \<Rightarrow> None)"

fun partial_loop ::
    "(pbuf \<Rightarrow> bool) \<Rightarrow> pbuf list \<Rightarrow> u16 \<Rightarrow> u32 \<Rightarrow> bool \<Rightarrow> u32 \<times> bool" where
  "partial_loop at_odd [] chksum_len acc swapped = (acc, swapped)"
| "partial_loop at_odd (q # qs) chksum_len acc swapped =
     (if chksum_len > 0 then
        let chklen = (if p_len q > chksum_len then chksum_len else p_len q);
            acc = acc + ucast (lwip_standard_chksum (at_odd q) (payload_read q 0 (unat chklen)));
            chksum_len = chksum_len - chklen;
            acc = FOLD_U32T acc
        in if unat (p_len q) mod 2 \<noteq> 0
           then partial_loop at_odd qs chksum_len (SWAP_BYTES_IN_WORD acc) (\<not> swapped)
           else partial_loop at_odd qs chksum_len acc swapped
      else (acc, swapped))"

definition inet_cksum_pseudo_partial_base ::
    "(pbuf \<Rightarrow> bool) \<Rightarrow> pbuf list \<Rightarrow> u8 \<Rightarrow> u16 \<Rightarrow> u16 \<Rightarrow> u32 \<Rightarrow> u16" where
  "inet_cksum_pseudo_partial_base at_odd p proto proto_len chksum_len acc =
     (let (acc, swapped) = partial_loop at_odd p chksum_len acc False;
          acc = (if swapped then SWAP_BYTES_IN_WORD acc else acc)
      in pseudo_finish acc proto proto_len)"

definition inet_chksum_pseudo_partial ::
    "(pbuf \<Rightarrow> bool) \<Rightarrow> pbuf list \<Rightarrow> u8 \<Rightarrow> u16 \<Rightarrow> u16 \<Rightarrow> u32 \<Rightarrow> u32 \<Rightarrow> u16" where
  "inet_chksum_pseudo_partial at_odd p proto proto_len chksum_len src dest =
     (let acc = add_halves 0 src;
          acc = add_halves acc dest;
          acc = FOLD_U32T acc;
          acc = FOLD_U32T acc
      in inet_cksum_pseudo_partial_base at_odd p proto proto_len chksum_len acc)"

definition ip6_chksum_pseudo_partial ::
    "(pbuf \<Rightarrow> bool) \<Rightarrow> pbuf list \<Rightarrow> u8 \<Rightarrow> u16 \<Rightarrow> u16 \<Rightarrow> ip6_words \<Rightarrow> ip6_words \<Rightarrow> u16" where
  "ip6_chksum_pseudo_partial at_odd p proto proto_len chksum_len src dest =
     inet_cksum_pseudo_partial_base at_odd p proto proto_len chksum_len (ip6_acc src dest)"

definition ip_chksum_pseudo_partial ::
    "(pbuf \<Rightarrow> bool) \<Rightarrow> pbuf list \<Rightarrow> u8 \<Rightarrow> u16 \<Rightarrow> u16 \<Rightarrow> ip_words \<Rightarrow> ip_words \<Rightarrow> u16 option" where
  "ip_chksum_pseudo_partial at_odd p proto proto_len chksum_len src dest =
     (case (src, dest) of
        (IPADDR_V6 s, IPADDR_V6 d) \<Rightarrow>
          Some (ip6_chksum_pseudo_partial at_odd p proto proto_len chksum_len s d)
      | (IPADDR_V4 s, IPADDR_V4 d) \<Rightarrow>
          Some (inet_chksum_pseudo_partial at_odd p proto proto_len chksum_len s d)
      | _ \<Rightarrow> None)"

section \<open>One's complement sums\<close>

text \<open>The sum of the little-endian words of a byte string, an odd last byte padded with zero.\<close>

fun le_sum :: "u8 list \<Rightarrow> nat" where
  "le_sum (a # b # bs) = unat a + 256 * unat b + le_sum bs"
| "le_sum [a] = unat a"
| "le_sum [] = 0"

text \<open>The 16-bit one's complement representative of a sum: 0 only for the empty sum.\<close>

definition ocsum :: "nat \<Rightarrow> nat" where
  "ocsum S = (if S = 0 then 0 else (S - 1) mod 65535 + 1)"

text \<open>\<open>rep x S\<close>: \<open>x\<close> stands for the sum \<open>S\<close>.\<close>

definition rep :: "nat \<Rightarrow> nat \<Rightarrow> bool" where
  "rep x S \<longleftrightarrow> x mod 65535 = S mod 65535 \<and> (x = 0 \<longleftrightarrow> S = 0)"

named_theorems rep_intros \<open>operations that keep what an accumulator stands for\<close>

lemma rep_refl [rep_intros]: "rep x x"
  by (simp add: rep_def)

lemma rep_add [rep_intros]: "rep x S \<Longrightarrow> rep y T \<Longrightarrow> rep (x + y) (S + T)"
  unfolding rep_def by (auto intro: mod_add_cong)

lemma rep_mult [rep_intros]: "rep x S \<Longrightarrow> 0 < k \<Longrightarrow> rep (k * x) (k * S)"
  unfolding rep_def by (auto intro: mod_mult_cong)

lemma rep_trans: "rep x y \<Longrightarrow> rep y z \<Longrightarrow> rep x z"
  by (simp add: rep_def)

lemma rep_sym: "rep x y \<Longrightarrow> rep y x"
  by (simp add: rep_def)

lemma rep_65536: "rep (65536 * S) S"
proof -
  have "65536 * S = S + 65535 * S" by simp
  then have "(65536 * S) mod 65535 = S mod 65535" by (metis mod_mult_self2)
  then show ?thesis by (simp add: rep_def)
qed

lemma rep_fold: "rep (x div 65536 + x mod 65536) x"
proof -
  have "rep (x div 65536 + x mod 65536) (65536 * (x div 65536) + x mod 65536)"
    by (intro rep_add rep_refl rep_sym [OF rep_65536])
  then show ?thesis by simp
qed

lemma rep_swap: "rep (256 * (x mod 256) + x div 256) (256 * x)"
proof -
  have "rep (256 * (x mod 256) + x div 256) (256 * (x mod 256) + 65536 * (x div 256))"
    by (intro rep_add rep_refl rep_sym [OF rep_65536])
  also have "256 * (x mod 256) + 65536 * (x div 256) = 256 * x"
    using div_mult_mod_eq [of x 256] by linarith
  finally show ?thesis .
qed

lemma rep_unique:
  assumes "rep x S" "x \<le> 65535"
  shows "x = ocsum S"
proof (cases "S = 0")
  case True
  then show ?thesis using assms by (simp add: rep_def ocsum_def)
next
  case False
  then obtain m where m: "S = Suc m" by (cases S) auto
  have x: "x > 0" "x mod 65535 = (if Suc (m mod 65535) = 65535 then 0 else Suc (m mod 65535))"
    using assms False by (auto simp: rep_def m mod_Suc)
  show ?thesis
  proof (cases "x = 65535")
    case True
    then show ?thesis using x by (simp add: ocsum_def m split: if_splits)
  next
    case False
    then have "x mod 65535 = x" using assms(2) by simp
    then show ?thesis using x by (simp add: ocsum_def m split: if_splits)
  qed
qed

section \<open>The machine operations on sums\<close>

lemma unat_FOLD: "unat (FOLD_U32T u) = unat u div 65536 + unat u mod 65536"
proof -
  have a: "u AND 0x0000ffff = take_bit 16 u"
    unfolding byte_masks by (simp add: take_bit_eq_mask)
  have d: "unat (drop_bit 16 u) = unat u div 65536" "unat (take_bit 16 u) = unat u mod 65536"
    unfolding unat_drop_bit unat_take_bit by simp_all
  have "unat u div 65536 < 65536" using unat_u32_lt [of u] by linarith
  moreover have "unat u mod 65536 < 65536" by simp
  ultimately show ?thesis unfolding FOLD_U32T_def a
    by (subst unat_plus_no_wrap; unfold d) simp_all
qed

lemma fold_fold_le: "unat (FOLD_U32T (FOLD_U32T u)) \<le> 65535"
proof -
  have "unat u div 65536 < 65536" using unat_u32_lt [of u] by linarith
  moreover have "unat u mod 65536 < 65536" by simp
  ultimately have "unat (FOLD_U32T u) < 131071" unfolding unat_FOLD by linarith
  then have "unat (FOLD_U32T u) div 65536 \<le> 1" "unat (FOLD_U32T u) mod 65536 \<le> 65535"
      "unat (FOLD_U32T u) = 65536 * (unat (FOLD_U32T u) div 65536) + unat (FOLD_U32T u) mod 65536"
    by auto
  then show ?thesis using \<open>unat (FOLD_U32T u) < 131071\<close>
    unfolding unat_FOLD [of "FOLD_U32T u"] by linarith
qed

lemma fold_sum_le: "unat u \<le> 131070 \<Longrightarrow> unat (FOLD_U32T u) \<le> 65535"
proof -
  assume "unat u \<le> 131070"
  moreover have "unat u = 65536 * (unat u div 65536) + unat u mod 65536" by simp
  ultimately show ?thesis unfolding unat_FOLD using mod_less_divisor [of 65536 "unat u"] by linarith
qed

lemma rep_FOLD [rep_intros]: "rep (unat u) S \<Longrightarrow> rep (unat (FOLD_U32T u)) S"
  unfolding unat_FOLD by (rule rep_trans [OF rep_fold])

lemma SWAP_alt: "SWAP_BYTES_IN_WORD w = push_bit 8 (take_bit 8 w) + take_bit 8 (drop_bit 8 w)"
proof -
  have "SWAP_BYTES_IN_WORD w = push_bit 8 (take_bit 8 w) OR take_bit 8 (drop_bit 8 w)"
    unfolding SWAP_BYTES_IN_WORD_def byte_masks
    by (rule bit_word_eqI) (auto simp: bit_simps)
  also have "\<dots> = push_bit 8 (take_bit 8 w) + take_bit 8 (drop_bit 8 w)"
    by (rule disjunctive_add [symmetric]) (auto simp: bit_simps)
  finally show ?thesis .
qed

lemma unat_SWAP_any: "unat (SWAP_BYTES_IN_WORD w) = 256 * (unat w mod 256) + unat w div 256 mod 256"
proof -
  have p: "unat (push_bit 8 (take_bit 8 w)) = 256 * (unat w mod 256)"
    by (subst unat_push_bit; unfold unat_take_bit) simp_all
  have d: "unat (take_bit 8 (drop_bit 8 w)) = unat w div 256 mod 256"
    unfolding unat_take_bit unat_drop_bit by simp
  have "unat w mod 256 < 256" "unat w div 256 mod 256 < 256" by simp_all
  then have s: "256 * (unat w mod 256) + unat w div 256 mod 256 < 65536" by linarith
  have "unat (push_bit 8 (take_bit 8 w)) + unat (take_bit 8 (drop_bit 8 w)) < 2 ^ LENGTH(32)"
    unfolding p d by (rule order.strict_trans2 [OF s]) simp
  then show ?thesis unfolding SWAP_alt by (simp only: unat_plus_no_wrap p d)
qed

lemma unat_SWAP:
  assumes "unat w \<le> 65535"
  shows "unat (SWAP_BYTES_IN_WORD w) = 256 * (unat w mod 256) + unat w div 256"
proof -
  have "unat w div 256 < 256" using assms by linarith
  then show ?thesis unfolding unat_SWAP_any by simp
qed

lemma swap_le: "unat (SWAP_BYTES_IN_WORD w) \<le> 65535"
proof -
  have "unat w mod 256 < 256" "unat w div 256 mod 256 < 256" by simp_all
  then show ?thesis unfolding unat_SWAP_any by linarith
qed

lemma rep_SWAP: "unat w \<le> 65535 \<Longrightarrow> rep (unat w) S \<Longrightarrow> rep (unat (SWAP_BYTES_IN_WORD w)) (256 * S)"
  unfolding unat_SWAP by (rule rep_trans [OF rep_swap]) (rule rep_mult, simp_all)

lemma unat_le16: "unat (le16 a b) = unat a + 256 * unat b"
proof -
  have "le16 a b = ucast a + push_bit 8 (ucast b)"
    unfolding le16_def
    by (rule disjunctive_add [symmetric]) (auto simp: bit_simps dest: bit_imp_le_length)
  moreover have p: "unat (push_bit 8 (ucast b :: u16)) = 256 * unat b"
    using unat_u8_lt [of b] by (subst unat_push_bit) (simp_all only: unat_ucast_u8_u16, simp_all)
  moreover have "unat a + 256 * unat b < 65536" using unat_u8_lt [of a] unat_u8_lt [of b] by linarith
  ultimately show ?thesis by (simp add: unat_plus_no_wrap p)
qed

section \<open>The sum of a block\<close>

definition head_byte :: "u8 list \<Rightarrow> u8" where
  "head_byte bs = (if bs \<noteq> [] then hd bs else 0)"

lemma chksum_words_sum:
  assumes "unat acc + length bs div 2 * 65535 < 2 ^ 32"
  shows "unat (fst (chksum_words bs acc)) + unat (head_byte (snd (chksum_words bs acc)))
      = unat acc + le_sum bs
    \<and> unat (fst (chksum_words bs acc)) \<le> unat acc + length bs div 2 * 65535"
  using assms
proof (induction bs acc rule: chksum_words.induct)
  case (1 a b bs acc)
  have w: "unat (ucast (le16 a b) :: u32) = unat a + 256 * unat b" by (simp add: unat_le16)
  have le: "unat a + 256 * unat b \<le> 65535" using unat_u8_lt [of a] unat_u8_lt [of b] by linarith
  have bound: "unat acc + 65535 + length bs div 2 * 65535 < 2 ^ 32" using "1.prems" by simp
  then have s: "unat (acc + ucast (le16 a b)) = unat acc + (unat a + 256 * unat b)"
    using le w by (subst unat_plus_no_wrap) simp_all
  have "unat (acc + ucast (le16 a b)) + length bs div 2 * 65535 < 2 ^ 32"
    unfolding s using bound le by linarith
  from "1.IH" [OF this] show ?case unfolding s using le by simp
qed (auto simp: head_byte_def)

lemma le_sum_Cons: "rep (le_sum (b # bs)) (unat b + 256 * le_sum bs)"
proof (induction bs arbitrary: b rule: le_sum.induct)
  case (1 c d bs)
  have "rep (le_sum (b # c # d # bs)) (unat b + 256 * unat c + (unat d + 256 * le_sum bs))"
    using rep_add [OF rep_refl "1.IH" [of d]] by simp
  also have "unat b + 256 * unat c + (unat d + 256 * le_sum bs)
      = unat b + 256 * unat c + unat d + 256 * le_sum bs" by simp
  finally have l: "rep (le_sum (b # c # d # bs)) (unat b + 256 * unat c + unat d + 256 * le_sum bs)" .
  have "rep (unat b + 256 * le_sum (c # d # bs))
      (unat b + 256 * unat c + unat d + 256 * le_sum bs)"
  proof -
    have "unat b + 256 * le_sum (c # d # bs) = unat b + 256 * unat c + 65536 * unat d + 256 * le_sum bs"
      by simp
    then show ?thesis by (simp only:) (intro rep_add rep_refl rep_65536)
  qed
  then show ?case using l rep_sym rep_trans by blast
qed (auto intro: rep_refl)

lemma unat_ucast_u16_small: "unat (w :: u32) \<le> 65535 \<Longrightarrow> unat (ucast w :: u16) = unat w"
  by (simp add: unsigned_ucast_eq take_bit_nat_eq_self)

lemma lwip_standard_chksum_rep:
  assumes "length data \<le> 0x20000"
  shows "rep (unat (lwip_standard_chksum at_odd data)) (le_sum data)"
proof -
  define t1 where "t1 = (if at_odd \<and> data \<noteq> [] then hd data else 0)"
  define pb where "pb = (if at_odd \<and> data \<noteq> [] then tl data else data)"
  define acc where "acc = fst (chksum_words pb 0)"
  define t0 where "t0 = head_byte (snd (chksum_words pb 0))"
  define fin where "fin = FOLD_U32T (FOLD_U32T (acc + ucast (le16 t0 t1)))"
  have eq: "lwip_standard_chksum at_odd data = ucast (if at_odd then SWAP_BYTES_IN_WORD fin else fin)"
    by (simp add: lwip_standard_chksum_def fin_def acc_def t0_def t1_def pb_def head_byte_def
        Let_def split: prod.splits)
  have len: "length pb \<le> 0x20000" using assms by (auto simp: pb_def)
  then have h: "length pb div 2 * 65535 \<le> 65536 * 65535" by simp
  then have ws: "unat acc + unat t0 = le_sum pb" "unat acc \<le> 65536 * 65535"
    using chksum_words_sum [of 0 pb] by (auto simp: acc_def t0_def)
  have w: "unat (ucast (le16 t0 t1) :: u32) = unat t0 + 256 * unat t1" by (simp add: unat_le16)
  have "unat (acc + ucast (le16 t0 t1)) = unat acc + (unat t0 + 256 * unat t1)"
  proof -
    have "unat t0 + 256 * unat t1 \<le> 65535" using unat_u8_lt [of t0] unat_u8_lt [of t1] by linarith
    then have "unat acc + unat (ucast (le16 t0 t1) :: u32) < 2 ^ LENGTH(32)" using ws(2) w by simp
    then show ?thesis by (simp only: unat_plus_no_wrap w)
  qed
  also have "\<dots> = le_sum pb + 256 * unat t1" using ws(1) by simp
  finally have fin: "rep (unat fin) (le_sum pb + 256 * unat t1)"
    unfolding fin_def by (intro rep_FOLD) (simp add: rep_refl)
  have le: "unat fin \<le> 65535" unfolding fin_def by (rule fold_fold_le)
  show ?thesis
  proof (cases at_odd)
    case False
    then show ?thesis unfolding eq using fin le by (simp add: unat_ucast_u16_small pb_def t1_def)
  next
    case True
    have sw: "rep (unat (SWAP_BYTES_IN_WORD fin)) (256 * (le_sum pb + 256 * unat t1))"
      using le fin by (rule rep_SWAP)
    have "rep (256 * (le_sum pb + 256 * unat t1)) (le_sum data)"
    proof (cases data)
      case Nil
      then show ?thesis by (simp add: pb_def t1_def rep_refl)
    next
      case (Cons b bs)
      have "256 * (le_sum pb + 256 * unat t1) = 65536 * unat b + 256 * le_sum bs"
        using True Cons by (simp add: pb_def t1_def)
      also have "rep \<dots> (unat b + 256 * le_sum bs)" by (intro rep_add rep_refl rep_65536)
      finally show ?thesis unfolding Cons by (rule rep_trans [OF _ rep_sym [OF le_sum_Cons]])
    qed
    then show ?thesis unfolding eq using True rep_trans [OF sw] swap_le
      by (simp add: unat_ucast_u16_small)
  qed
qed

lemma lwip_standard_chksum_ocsum:
  assumes "length data \<le> 0x20000"
  shows "unat (lwip_standard_chksum at_odd data) = ocsum (le_sum data)"
proof (rule rep_unique [OF lwip_standard_chksum_rep [OF assms]])
  show "unat (lwip_standard_chksum at_odd data) \<le> 65535"
    using unat_u16_lt [of "lwip_standard_chksum at_odd data"] by linarith
qed

section \<open>The sum of a chain\<close>

text \<open>How the sum of a part is shifted by the parity of what precedes it.\<close>

definition shift :: "bool \<Rightarrow> nat \<Rightarrow> nat" where
  "shift swapped S = (if swapped then 256 * S else S)"

lemma le_sum_append: "rep (le_sum (xs @ ys)) (le_sum xs + shift (odd (length xs)) (le_sum ys))"
proof (induction xs rule: le_sum.induct)
  case (1 a b xs)
  then show ?case using rep_add [OF rep_refl [of "unat a + 256 * unat b"] "1.IH"]
    by (simp add: shift_def add.assoc)
qed (auto simp: shift_def intro: rep_refl le_sum_Cons)

lemma shift_add: "shift s (S + T) = shift s S + shift s T"
  by (simp add: shift_def algebra_simps)

lemma shift_shift: "rep (shift s (shift t S)) (shift (s \<noteq> t) S)"
  by (auto simp: shift_def intro: rep_refl rep_65536 [simplified])

lemma rep_shift: "rep x S \<Longrightarrow> rep (shift s x) (shift s S)"
  by (auto simp: shift_def intro: rep_mult)

lemma rep_SHIFT:
  assumes "unat acc \<le> 65535" "rep (unat acc) S"
  shows "rep (unat (if s then SWAP_BYTES_IN_WORD acc else acc)) (shift s S)"
  using assms by (auto simp: shift_def intro: rep_SWAP)

text \<open>
  The invariant of the loops over a chain: the accumulator stands for the sum \<open>S\<close> so far,
  seen from the parity of the bytes consumed. One buffer contributes the bytes \<open>d\<close>.
\<close>

definition acc_inv :: "u32 \<Rightarrow> bool \<Rightarrow> nat \<Rightarrow> bool" where
  "acc_inv acc sw S \<longleftrightarrow> unat acc \<le> 65535 \<and> rep (unat acc) (shift sw S)"

lemma acc_inv_rep: "acc_inv acc sw S \<Longrightarrow> rep S T \<Longrightarrow> acc_inv acc sw T"
  unfolding acc_inv_def using rep_shift rep_trans by blast

lemma acc_inv_step:
  assumes inv: "acc_inv acc sw S" and d: "length d \<le> 0x20000"
  shows "acc_inv (FOLD_U32T (acc + ucast (lwip_standard_chksum at_odd d))) sw (S + shift sw (le_sum d))"
proof -
  let ?c = "lwip_standard_chksum at_odd d"
  have b: "unat acc + unat ?c \<le> 131070"
    using inv unat_u16_lt [of ?c] unfolding acc_inv_def by linarith
  then have u: "unat (acc + ucast ?c) = unat acc + unat ?c"
    by (subst unat_plus_no_wrap) simp_all
  have "rep (unat (FOLD_U32T (acc + ucast ?c))) (shift sw S + le_sum d)"
    using inv lwip_standard_chksum_rep [OF d]
    by (intro rep_FOLD) (simp only: u rep_add acc_inv_def)
  moreover have "rep (le_sum d) (shift sw (shift sw (le_sum d)))"
    using rep_sym [OF shift_shift [of sw sw "le_sum d"]] by (simp add: shift_def)
  ultimately have "rep (unat (FOLD_U32T (acc + ucast ?c))) (shift sw (S + shift sw (le_sum d)))"
    unfolding shift_add by (blast intro: rep_trans rep_add rep_refl)
  moreover have "unat (FOLD_U32T (acc + ucast ?c)) \<le> 65535"
    using u b by (intro fold_sum_le) simp
  ultimately show ?thesis by (simp add: acc_inv_def)
qed

lemma acc_inv_swap:
  assumes "acc_inv acc sw S"
  shows "acc_inv (if b then SWAP_BYTES_IN_WORD acc else acc) (sw \<noteq> b) S"
  using rep_trans [OF rep_SHIFT [of acc "shift sw S" b] shift_shift [of b sw S]] assms swap_le
  by (cases b) (auto simp: acc_inv_def)

lemma acc_inv_final:
  assumes "acc_inv acc sw S"
  shows "unat (if sw then SWAP_BYTES_IN_WORD acc else acc) = ocsum S"
  using acc_inv_swap [OF assms, of sw] by (auto simp: acc_inv_def shift_def intro: rep_unique)

lemma sum_split:
  "rep (S + shift sw (le_sum d) + shift (sw \<noteq> odd (length d)) (le_sum r)) (S + shift sw (le_sum (d @ r)))"
proof -
  have "rep (shift sw (le_sum (d @ r))) (shift sw (le_sum d + shift (odd (length d)) (le_sum r)))"
    by (intro rep_shift le_sum_append)
  moreover have "rep (shift sw (le_sum d + shift (odd (length d)) (le_sum r)))
      (shift sw (le_sum d) + shift (sw \<noteq> odd (length d)) (le_sum r))"
    unfolding shift_add by (intro rep_add rep_refl shift_shift)
  ultimately have "rep (shift sw (le_sum d) + shift (sw \<noteq> odd (length d)) (le_sum r))
      (shift sw (le_sum (d @ r)))" by (blast intro: rep_trans rep_sym)
  then show ?thesis unfolding add.assoc by (intro rep_add rep_refl)
qed

lemma chain_loop_inv:
  assumes "list_all wf_pbuf ps" "acc_inv acc sw S" "chain_loop at_odd ps acc sw = (acc', sw')"
  shows "acc_inv acc' sw' (S + shift sw (le_sum (pbytes ps)))"
  using assms
proof (induction ps arbitrary: acc sw S)
  case (Cons q qs)
  let ?d = "pdata q" and ?o = "odd (length (pdata q))"
  have wf: "wf_pbuf q" "list_all wf_pbuf qs" using Cons.prems(1) by auto
  have ld: "length ?d = unat (p_len q)" using wf by (simp add: length_pdata)
  then have le: "length ?d \<le> 0x20000" using unat_u16_lt [of "p_len q"] by linarith
  let ?acc1 = "FOLD_U32T (acc + ucast (lwip_standard_chksum (at_odd q) ?d))"
  have "acc_inv (if ?o then SWAP_BYTES_IN_WORD ?acc1 else ?acc1) (sw \<noteq> ?o) (S + shift sw (le_sum ?d))"
    by (intro acc_inv_swap acc_inv_step Cons.prems(2) le)
  moreover have "chain_loop at_odd qs (if ?o then SWAP_BYTES_IN_WORD ?acc1 else ?acc1) (sw \<noteq> ?o) = (acc', sw')"
    using Cons.prems(3) ld by (auto simp: Let_def odd_iff_mod_2_eq_one split: if_splits)
  ultimately have "acc_inv acc' sw' (S + shift sw (le_sum ?d) + shift (sw \<noteq> ?o) (le_sum (pbytes qs)))"
    using Cons.IH [OF wf(2)] by blast
  then show ?case unfolding pbytes_simps by (rule acc_inv_rep [OF _ sum_split])
qed (auto simp: pbytes_simps shift_def)

lemma partial_loop_inv:
  assumes "list_all wf_pbuf ps" "acc_inv acc sw S" "partial_loop at_odd ps n acc sw = (acc', sw')"
  shows "acc_inv acc' sw' (S + shift sw (le_sum (take (unat n) (pbytes ps))))"
  using assms
proof (induction ps arbitrary: n acc sw S)
  case (Cons q qs)
  have wf: "wf_pbuf q" "list_all wf_pbuf qs" using Cons.prems(1) by auto
  have ld: "length (pdata q) = unat (p_len q)" using wf by (simp add: length_pdata)
  show ?case
  proof (cases "n > 0")
    case False
    then have "n = 0" by (simp add: word_gt_0)
    moreover have "shift sw (le_sum []) = 0" by (simp add: shift_def)
    ultimately show ?thesis using Cons.prems(2,3) by simp
  next
    case True
    define k where "k = (if p_len q > n then n else p_len q)"
    have k: "unat k = min (unat n) (unat (p_len q))" by (auto simp: k_def word_less_nat_alt)
    define d where "d = payload_read q 0 (unat k)"
    have d: "d = take (unat n) (pdata q)"
      using payload_read_pdata [of 0 "unat k" q] k ld by (simp add: d_def min_def)
    have "length d \<le> unat (p_len q)" using d ld by simp
    then have dl: "length d \<le> 0x20000" using unat_u16_lt [of "p_len q"] by linarith
    let ?o = "odd (unat (p_len q))"
    let ?acc1 = "FOLD_U32T (acc + ucast (lwip_standard_chksum (at_odd q) d))"
    have inv: "acc_inv (if ?o then SWAP_BYTES_IN_WORD ?acc1 else ?acc1) (sw \<noteq> ?o) (S + shift sw (le_sum d))"
      by (intro acc_inv_swap acc_inv_step Cons.prems(2) dl)
    have step: "partial_loop at_odd qs (n - k) (if ?o then SWAP_BYTES_IN_WORD ?acc1 else ?acc1) (sw \<noteq> ?o)
        = (acc', sw')"
      using Cons.prems(3) True
      by (auto simp: Let_def k_def [symmetric] d_def [symmetric] odd_iff_mod_2_eq_one split: if_splits)
    have u: "unat (n - k) = unat n - unat (p_len q)"
      using k by (subst unat_minus_no_wrap) auto
    have "acc_inv acc' sw' (S + shift sw (le_sum d)
        + shift (sw \<noteq> ?o) (le_sum (take (unat n - unat (p_len q)) (pbytes qs))))"
      using Cons.IH [OF wf(2) inv step] unfolding u .
    moreover have "rep (S + shift sw (le_sum d)
        + shift (sw \<noteq> ?o) (le_sum (take (unat n - unat (p_len q)) (pbytes qs))))
      (S + shift sw (le_sum (take (unat n) (pbytes (q # qs)))))"
    proof (cases "unat n \<le> unat (p_len q)")
      case True
      then show ?thesis using d ld by (simp add: pbytes_simps shift_def rep_refl)
    next
      case False
      then have "d = pdata q" using d ld by simp
      then show ?thesis using sum_split [of S sw d "take (unat n - unat (p_len q)) (pbytes qs)"] ld False
        by (simp add: pbytes_simps)
    qed
    ultimately show ?thesis by (rule acc_inv_rep)
  qed
qed (auto simp: pbytes_simps shift_def)

lemma low16_ocsum:
  fixes acc :: u32
  assumes "unat acc = ocsum S"
  shows "ucast (acc AND 0xffff) = (of_nat (ocsum S) :: u16)"
proof (rule word_unatI)
  have le: "ocsum S \<le> 65535" by (simp add: ocsum_def less_Suc_eq_le [symmetric])
  have a: "acc AND 0xffff = take_bit 16 acc" unfolding byte_masks by (simp add: take_bit_eq_mask)
  have "unat (take_bit 16 acc) = ocsum S" unfolding unat_take_bit assms using le by simp
  then show "unat (ucast (acc AND 0xffff) :: u16) = unat (of_nat (ocsum S) :: u16)"
    unfolding a using le unat_ucast_u16_small [of "take_bit 16 acc"] by (simp add: unat_of_nat_u16)
qed

lemma inet_chksum_pbuf_ocsum:
  assumes "list_all wf_pbuf ps"
  shows "inet_chksum_pbuf at_odd ps = NOT (of_nat (ocsum (le_sum (pbytes ps))))"
proof -
  obtain acc sw where l: "chain_loop at_odd ps 0 False = (acc, sw)" by fastforce
  have "acc_inv 0 False 0" by (simp add: acc_inv_def shift_def rep_refl)
  from chain_loop_inv [OF assms this l] have "acc_inv acc sw (le_sum (pbytes ps))"
    by (simp add: shift_def)
  from acc_inv_final [OF this] low16_ocsum show ?thesis
    by (simp add: inet_chksum_pbuf_def l Let_def)
qed

section \<open>Pseudo headers\<close>

text \<open>The bytes of a 32-bit value in memory, and a 16-bit value in network byte order.\<close>

definition mem32 :: "u32 \<Rightarrow> u8 list" where
  "mem32 a = [ucast a, ucast (drop_bit 8 a), ucast (drop_bit 16 a), ucast (drop_bit 24 a)]"

definition be16 :: "u16 \<Rightarrow> u8 list" where
  "be16 n = [ucast (drop_bit 8 n), ucast n]"

definition pseudo4 :: "u32 \<Rightarrow> u32 \<Rightarrow> u8 \<Rightarrow> u16 \<Rightarrow> u8 list" where
  "pseudo4 src dest proto len = mem32 src @ mem32 dest @ [0, proto] @ be16 len"

definition pseudo6 :: "ip6_words \<Rightarrow> ip6_words \<Rightarrow> u8 \<Rightarrow> u16 \<Rightarrow> u8 list" where
  "pseudo6 src dest proto len =
     (case (src, dest) of ((s0, s1, s2, s3), (d0, d1, d2, d3)) \<Rightarrow>
        mem32 s0 @ mem32 s1 @ mem32 s2 @ mem32 s3 @ mem32 d0 @ mem32 d1 @ mem32 d2 @ mem32 d3
        @ [0, 0] @ be16 len @ [0, 0, 0, proto])"

lemma unat_ucast_u8: "unat (ucast w :: u8) = unat w mod 256" for w :: "'a::len word"
proof -
  have "unat (ucast w :: u8) = take_bit 8 (unat w)" by (simp add: unsigned_ucast_eq)
  then show ?thesis by (simp add: take_bit_eq_mod)
qed

lemma le_sum_mem32: "le_sum (mem32 a) = unat a mod 65536 + unat a div 65536"
proof -
  have b: "unat (drop_bit k a) = unat a div 2 ^ k" for k by (rule unat_drop_bit)
  have "unat a div 16777216 < 256" using unat_u32_lt [of a] by linarith
  then have "unat a div 16777216 mod 256 = unat a div 16777216" by simp
  moreover have "unat a mod 65536 = unat a mod 256 + 256 * (unat a div 256 mod 256)"
    using mod_mult2_eq [of "unat a" 256 256] by simp
  moreover have "unat a div 65536 = unat a div 65536 mod 256 + 256 * (unat a div 16777216)"
    using div_mult2_eq [of "unat a" 65536 256] mult_div_mod_eq [of 256 "unat a div 65536"] by simp
  ultimately show ?thesis by (simp add: mem32_def unat_ucast_u8 b)
qed

lemma unat_add_halves:
  assumes "unat acc + 131070 < 2 ^ 32"
  shows "unat (add_halves acc a) = unat acc + le_sum (mem32 a)"
    and "le_sum (mem32 a) \<le> 131070"
proof -
  have d: "unat a div 65536 \<le> 65535" using unat_u32_lt [of a] by linarith
  have m: "unat a mod 65536 \<le> 65535" using mod_less_divisor [of 65536 "unat a"] by linarith
  show "le_sum (mem32 a) \<le> 131070" unfolding le_sum_mem32 using d m by linarith
  have l: "unat (a AND 0xffff) = unat a mod 65536"
    unfolding byte_masks by (simp only: take_bit_eq_mask [symmetric] unat_take_bit) simp
  have h: "unat (drop_bit 16 a AND 0xffff) = unat a div 65536"
    unfolding byte_masks using d
    by (simp only: take_bit_eq_mask [symmetric] unat_take_bit unat_drop_bit) simp
  have "unat (acc + (a AND 0xffff)) = unat acc + unat a mod 65536"
    using assms m by (subst unat_plus_no_wrap) (simp_all add: l)
  then show "unat (add_halves acc a) = unat acc + le_sum (mem32 a)"
    unfolding add_halves_def le_sum_mem32 using assms m d
    by (subst unat_plus_no_wrap) (simp_all add: h)
qed


lemma le_sum_even: "even (length xs) \<Longrightarrow> le_sum (xs @ ys) = le_sum xs + le_sum ys"
  by (induction xs rule: le_sum.induct) auto

lemma even_headers [simp]:
  "even (length (mem32 a))" "even (length (be16 n))"
  "even (length (pseudo4 src dest proto len))" "even (length (pseudo6 src6 dest6 proto len))"
  by (auto simp: mem32_def be16_def pseudo4_def pseudo6_def split: prod.splits)

lemma le_sum_be16: "le_sum (be16 n) = unat (lwip_htons n)"
proof -
  have "unat n div 256 < 256" using unat_u16_lt [of n] by linarith
  then show ?thesis unfolding unat_lwip_htons
    by (simp add: be16_def unat_ucast_u8 unat_drop_bit)
qed

lemma unat_htons_proto: "unat (lwip_htons (ucast proto)) = 256 * unat proto" for proto :: u8
  using unat_u8_lt [of proto] unfolding unat_lwip_htons by simp

lemma pseudo_finish_ocsum:
  assumes "unat acc \<le> 65535" "rep (unat acc) S"
  shows "pseudo_finish acc proto proto_len
    = NOT (of_nat (ocsum (S + (256 * unat proto + le_sum (be16 proto_len)))))"
proof -
  let ?p = "lwip_htons (ucast proto)" and ?l = "lwip_htons proto_len"
  have "unat (acc + ucast ?p + ucast ?l) = unat acc + (unat ?p + unat ?l)"
  proof -
    have t: "unat acc + unat ?p + unat ?l < 4294967296"
      using assms(1) unat_u16_lt [of ?p] unat_u16_lt [of ?l] by linarith
    then have "unat (acc + ucast ?p) = unat acc + unat ?p" by (subst unat_plus_no_wrap) simp_all
    then show ?thesis using t by (subst unat_plus_no_wrap) simp_all
  qed
  then have "rep (unat (FOLD_U32T (FOLD_U32T (acc + ucast ?p + ucast ?l))))
      (S + (256 * unat proto + le_sum (be16 proto_len)))"
    using assms(2) by (intro rep_FOLD) (simp only: unat_htons_proto le_sum_be16, intro rep_add rep_refl)
  from rep_unique [OF this fold_fold_le]
  show ?thesis by (simp add: pseudo_finish_def Let_def low16_ocsum)
qed

lemma pseudo_base_ocsum:
  assumes "list_all wf_pbuf ps" "unat acc \<le> 65535" "rep (unat acc) S"
  shows "inet_cksum_pseudo_base at_odd ps proto proto_len acc
    = NOT (of_nat (ocsum (S + le_sum (pbytes ps) + (256 * unat proto + le_sum (be16 proto_len)))))"
proof -
  obtain acc' sw where l: "chain_loop at_odd ps acc False = (acc', sw)" by fastforce
  have "acc_inv acc False S" using assms by (simp add: acc_inv_def shift_def)
  from chain_loop_inv [OF assms(1) this l] have "acc_inv acc' sw (S + le_sum (pbytes ps))"
    by (simp add: shift_def)
  from acc_inv_swap [OF this, of sw] pseudo_finish_ocsum show ?thesis
    by (simp add: inet_cksum_pseudo_base_def l Let_def acc_inv_def shift_def)
qed

lemma pseudo_partial_base_ocsum:
  assumes "list_all wf_pbuf ps" "unat acc \<le> 65535" "rep (unat acc) S"
  shows "inet_cksum_pseudo_partial_base at_odd ps proto proto_len n acc
    = NOT (of_nat (ocsum (S + le_sum (take (unat n) (pbytes ps))
        + (256 * unat proto + le_sum (be16 proto_len)))))"
proof -
  obtain acc' sw where l: "partial_loop at_odd ps n acc False = (acc', sw)" by fastforce
  have "acc_inv acc False S" using assms by (simp add: acc_inv_def shift_def)
  from partial_loop_inv [OF assms(1) this l]
  have "acc_inv acc' sw (S + le_sum (take (unat n) (pbytes ps)))" by (simp add: shift_def)
  from acc_inv_swap [OF this, of sw] pseudo_finish_ocsum show ?thesis
    by (simp add: inet_cksum_pseudo_partial_base_def l Let_def acc_inv_def shift_def)
qed

lemma ip4_acc_rep:
  "rep (unat (FOLD_U32T (FOLD_U32T (add_halves (add_halves 0 src) dest)))) (le_sum (mem32 src) + le_sum (mem32 dest))"
proof -
  have "unat (add_halves 0 src) = le_sum (mem32 src)" "le_sum (mem32 src) \<le> 131070"
    using unat_add_halves [of 0 src] by auto
  then have "unat (add_halves (add_halves 0 src) dest) = le_sum (mem32 src) + le_sum (mem32 dest)"
    using unat_add_halves(1) [of "add_halves 0 src" dest] by simp
  then show ?thesis by (intro rep_FOLD) (simp add: rep_refl)
qed

lemma ip6_acc_rep:
  "unat (ip6_acc src dest) \<le> 65535 \<and>
   rep (unat (ip6_acc src dest)) (le_sum (pseudo6 src dest 0 0))"
proof -
  obtain s0 s1 s2 s3 d0 d1 d2 d3 where e: "src = (s0, s1, s2, s3)" "dest = (d0, d1, d2, d3)"
    by (metis prod.exhaust)
  define f where "f = (\<lambda>acc s d. add_halves (add_halves acc s) d)"
  have f: "unat (f acc s d) = unat acc + (le_sum (mem32 s) + le_sum (mem32 d))
      \<and> unat (f acc s d) \<le> unat acc + 262140" if "unat acc \<le> 2000000" for acc s d
    using that unat_add_halves [of acc s] unat_add_halves [of "add_halves acc s" d] by (simp add: f_def)
  let ?a0 = "f 0 s0 d0" and ?a1 = "f (f 0 s0 d0) s1 d1"
  let ?a2 = "f (f (f 0 s0 d0) s1 d1) s2 d2" and ?a3 = "f (f (f (f 0 s0 d0) s1 d1) s2 d2) s3 d3"
  have "unat ?a3 = le_sum (pseudo6 src dest 0 0)"
    using f [of 0 s0 d0] f [of ?a0 s1 d1] f [of ?a1 s2 d2] f [of ?a2 s3 d3]
    by (simp add: e pseudo6_def le_sum_even be16_def)
  moreover have "ip6_acc src dest = FOLD_U32T (FOLD_U32T ?a3)"
    by (simp add: ip6_acc_def e f_def Let_def)
  ultimately show ?thesis using fold_fold_le by (simp add: rep_FOLD rep_refl)
qed

section \<open>Properties\<close>

text \<open>
  C39. The two-bytes-at-a-time sum over a block of up to 128 KiB neither overflows its 32-bit
  accumulator nor depends on whether the block starts at an odd address: it is the one's
  complement sum of the 16-bit words of the block.
\<close>

theorem lwip_standard_chksum_correct:
  assumes "length data \<le> 0x20000"
  shows "unat (lwip_standard_chksum at_odd data) = ocsum (le_sum data)"
  by (rule lwip_standard_chksum_ocsum [OF assms])

lemma lwip_standard_chksum_correct_witness:
  "length [1, 2, 3 :: u8] \<le> 0x20000
   \<and> unat (lwip_standard_chksum True [1, 2, 3]) = ocsum (le_sum [1, 2, 3])"
  using lwip_standard_chksum_correct [of "[1, 2, 3]" True] by simp

text \<open>
  C20. The checksum of a chain is the checksum of its bytes in one block, however the bytes are
  spread over the buffers and wherever the buffers lie in memory.
\<close>

theorem inet_chksum_pbuf_flat:
  assumes "wf_chain ps"
  shows "inet_chksum_pbuf at_odd ps = inet_chksum block_at_odd (pbytes ps)"
proof -
  have le: "length (pbytes ps) \<le> 0x20000"
    using wf_chain_plen_u16 [OF assms] wf_chain_length [OF assms] by simp
  have "inet_chksum block_at_odd (pbytes ps) = NOT (of_nat (ocsum (le_sum (pbytes ps))))"
    by (simp add: inet_chksum_def flip: lwip_standard_chksum_ocsum [OF le, of block_at_odd])
  then show ?thesis using inet_chksum_pbuf_ocsum wf_chain_list_all [OF assms] by simp
qed

lemma inet_chksum_pbuf_flat_witness:
  "wf_chain sample_chain \<and>
   inet_chksum_pbuf (\<lambda>q. True) sample_chain = inet_chksum False (pbytes sample_chain)"
  using inet_chksum_pbuf_flat [OF sample_chain_wf] sample_chain_wf by simp

lemma unat_NOT_u16: "unat (NOT x) = 65535 - unat x" for x :: u16
proof -
  have "NOT x = 0xffff - x" by (simp add: not_eq_complement)
  moreover have "unat x \<le> unat (0xffff :: u16)" by simp
  ultimately show ?thesis by (simp only: unat_minus_no_wrap) simp
qed

lemma filled_chksum:
  assumes "length as = 2 * k" "length (as @ [0, 0] @ bs) \<le> 0x20000"
    and "c = inet_chksum at_odd (as @ [0, 0] @ bs)"
  shows "inet_chksum at_odd' (as @ [ucast c, ucast (drop_bit 8 c)] @ bs) = 0"
proof -
  define S where "S = le_sum (as @ [0, 0] @ bs)"
  have ev: "even (length as)" using assms(1) by simp
  have S: "S = le_sum as + le_sum bs" using ev by (simp add: S_def le_sum_even)
  have c: "unat c = 65535 - ocsum S"
    unfolding assms(3) inet_chksum_def using lwip_standard_chksum_ocsum [OF assms(2), of at_odd]
    by (simp add: S_def unat_NOT_u16)
  have w: "unat (ucast c :: u8) + 256 * unat (ucast (drop_bit 8 c) :: u8) = unat c"
  proof -
    have "unat c div 256 < 256" using unat_u16_lt [of c] by linarith
    then show ?thesis by (simp add: unat_ucast_u8 unat_drop_bit)
  qed
  have sum: "le_sum (as @ [ucast c, ucast (drop_bit 8 c)] @ bs) = S + unat c"
    using w by (simp add: le_sum_even [OF ev] S)
  have "ocsum S \<le> 65535" by (simp add: ocsum_def less_Suc_eq_le [symmetric])
  moreover have "rep (ocsum S) S"
  proof (cases "S = 0")
    case False
    have "((S - 1) mod 65535 + 1) mod 65535 = (S - 1 + 1) mod 65535" by (rule mod_add_left_eq)
    then show ?thesis using False by (simp add: rep_def ocsum_def)
  qed (simp add: rep_def ocsum_def)
  ultimately have "rep 65535 (S + unat c)"
    unfolding c using rep_add [OF _ rep_refl, of "ocsum S" S "65535 - ocsum S"] by simp
  then have "ocsum (S + unat c) = 65535" using rep_unique by fastforce
  moreover have "length (as @ [ucast c, ucast (drop_bit 8 c)] @ bs) \<le> 0x20000" using assms(2) by simp
  ultimately have "unat (lwip_standard_chksum at_odd' (as @ [ucast c, ucast (drop_bit 8 c)] @ bs)) = 65535"
    using lwip_standard_chksum_ocsum sum by metis
  then have "lwip_standard_chksum at_odd' (as @ [ucast c, ucast (drop_bit 8 c)] @ bs) = 0xffff"
    by (intro word_unatI) simp
  then show ?thesis by (simp add: inet_chksum_def)
qed

text \<open>
  C21. A receiver that sums a block whose checksum field, two bytes at an even offset, was filled
  in by \<open>inet_chksum\<close> over the block with a zero field gets 0.
\<close>

theorem inet_chksum_verifies:
  assumes "length as = 2 * k" "length (as @ [0, 0] @ bs) \<le> 0x20000"
    and "c = inet_chksum at_odd (as @ [0, 0] @ bs)"
  shows "inet_chksum at_odd' (as @ [ucast c, ucast (drop_bit 8 c)] @ bs) = 0"
  by (rule filled_chksum [OF assms])

lemma inet_chksum_verifies_witness:
  "inet_chksum False ([0x45, 0] @ [ucast (inet_chksum True [0x45, 0, 0, 0, 7]),
     ucast (drop_bit 8 (inet_chksum True [0x45, 0, 0, 0, 7]))] @ [7]) = 0"
  using inet_chksum_verifies [of "[0x45, 0]" 1 "[7]" _ True False] by simp

text \<open>
  The checksum with a pseudo header is the complement of the one's complement sum over the
  pseudo header of the address family, as the RFCs lay it out in bytes, followed by the payload.
\<close>

lemma ip_chksum_pseudo_correct:
  assumes "list_all wf_pbuf ps"
  shows "ip_chksum_pseudo at_odd ps proto len src dest =
    (case (src, dest) of
       (IPADDR_V4 s, IPADDR_V4 d) \<Rightarrow>
         Some (NOT (of_nat (ocsum (le_sum (pseudo4 s d proto len @ pbytes ps)))))
     | (IPADDR_V6 s, IPADDR_V6 d) \<Rightarrow>
         Some (NOT (of_nat (ocsum (le_sum (pseudo6 s d proto len @ pbytes ps)))))
     | _ \<Rightarrow> None)"
proof -
  have v4: "le_sum (pseudo4 s d proto len @ pbytes ps) = le_sum (mem32 s) + le_sum (mem32 d)
      + le_sum (pbytes ps) + (256 * unat proto + le_sum (be16 len))" for s d
    by (simp add: le_sum_even) (simp add: pseudo4_def le_sum_even)
  have v6: "le_sum (pseudo6 s d proto len @ pbytes ps) = le_sum (pseudo6 s d 0 0)
      + le_sum (pbytes ps) + (256 * unat proto + le_sum (be16 len))" for s d
    by (simp add: le_sum_even) (auto simp: pseudo6_def le_sum_even be16_def split: prod.splits)
  show ?thesis
    using pseudo_base_ocsum [OF assms fold_fold_le ip4_acc_rep]
      pseudo_base_ocsum [OF assms conjunct1 [OF ip6_acc_rep] conjunct2 [OF ip6_acc_rep]]
    by (auto simp: ip_chksum_pseudo_def inet_chksum_pseudo_def ip6_chksum_pseudo_def v4 v6 Let_def
        split: ip_words.splits)
qed

lemma ip_chksum_pseudo_correct_witness:
  "list_all wf_pbuf sample_chain \<and>
   ip_chksum_pseudo (\<lambda>q. False) sample_chain 17 5 (IPADDR_V4 0x0100000a) (IPADDR_V4 0x0200000a)
   = Some (NOT (of_nat (ocsum (le_sum (pseudo4 0x0100000a 0x0200000a 17 5 @ pbytes sample_chain)))))"
  using ip_chksum_pseudo_correct [OF wf_chain_list_all [OF sample_chain_wf]]
    wf_chain_list_all [OF sample_chain_wf] by simp

lemma ip_chksum_pseudo_partial_ocsum:
  assumes "list_all wf_pbuf ps"
  shows "inet_chksum_pseudo_partial at_odd ps proto len n src dest
    = NOT (of_nat (ocsum (le_sum (pseudo4 src dest proto len @ take (unat n) (pbytes ps)))))"
proof -
  have v4: "le_sum (pseudo4 src dest proto len @ take (unat n) (pbytes ps))
      = le_sum (mem32 src) + le_sum (mem32 dest) + le_sum (take (unat n) (pbytes ps))
        + (256 * unat proto + le_sum (be16 len))"
    by (simp add: le_sum_even) (simp add: pseudo4_def le_sum_even)
  show ?thesis using pseudo_partial_base_ocsum [OF assms fold_fold_le ip4_acc_rep]
    by (simp add: inet_chksum_pseudo_partial_def v4 Let_def)
qed

end
