(* ===== verification/Netif.thy ===== *)
theory Netif
  imports Lwip_Def Pbuf_Ops
begin

text \<open>
  \<^verbatim>\<open>externals/lwip/src/core/netif.c\<close>: network interfaces. A
  \<^verbatim>\<open>struct netif\<close> is a record at an address; \<open>nworld\<close> holds the
  interfaces, \<^verbatim>\<open>netif_list\<close>, \<^verbatim>\<open>netif_default\<close> and
  \<^verbatim>\<open>netif_num\<close>. Function pointers are constructors that name the
  function. The calls into the other components (TCP and UDP address changes, ARP, ND6, MLD,
  the queued poll, input and release of packets) are kept in order in \<open>nw_calls\<close>.
  The interface list is linked through the interfaces themselves and may be cyclic: a walk
  along it is a partial function, and not returning is the value \<open>None\<close>.
\<close>

section \<open>State\<close>

record ip6_addr_t =
  i6_0 :: u32
  i6_1 :: u32
  i6_2 :: u32
  i6_3 :: u32
  i6_zone :: u8

datatype ip_addr_t = IP4 u32 | IP6 ip6_addr_t

datatype input_fn = Tcpip_Input
datatype output_fn = Netif_Null_Output_Ip4 | Netif_Loop_Output_Ipv4 | Etharp_Output
datatype output_ip6_fn = Netif_Null_Output_Ip6 | Netif_Loop_Output_Ipv6 | Ethip6_Output
datatype linkoutput_fn = Netif_Linkoutput

record netif =
  nf_next :: "addr option"
  nf_ip_addr :: u32
  nf_netmask :: u32
  nf_gw :: u32
  nf_ip6_addr :: "ip6_addr_t list"
  nf_ip6_addr_state :: "u8 list"
  nf_ip6_addr_valid_life :: "u32 list"
  nf_ip6_addr_pref_life :: "u32 list"
  nf_input :: "input_fn option"
  nf_output :: "output_fn option"
  nf_linkoutput :: "linkoutput_fn option"
  nf_output_ip6 :: "output_ip6_fn option"
  nf_state :: "addr option"
  nf_client_data :: "addr option"
  nf_mtu :: u16
  nf_mtu6 :: u16
  nf_hwaddr :: "u8 list"
  nf_hwaddr_len :: u8
  nf_flags :: u8
  nf_name :: string
  nf_num :: u8
  nf_ip6_autoconfig_enabled :: u8
  nf_rs_count :: u8
  nf_mld_mac_filter :: "addr option"
  nf_hints :: "addr option"
  nf_loop :: "pbuf list"
  nf_loop_cnt_current :: u16

datatype ncall =
    C_ip_addr_changed ip_addr_t "ip_addr_t option"
  | C_etharp_gratuitous addr
  | C_etharp_cleanup_netif addr
  | C_nd6_cleanup_netif addr
  | C_nd6_adjust_mld_membership addr nat u8
  | C_mld6_report_groups addr
  | C_mld6_stop addr
  | C_try_callback_netif_poll addr
  | C_ip_input addr "pbuf list"
  | C_pbuf_free "pbuf list"

record nworld =
  nw_mem :: "addr \<Rightarrow> netif"
  nw_list :: "addr option"
  nw_default :: "addr option"
  nw_num :: u8
  nw_calls :: "ncall list"

abbreviation (input) NETIF_FLAG_UP :: u8 where "NETIF_FLAG_UP \<equiv> 0x01"
abbreviation (input) NETIF_FLAG_BROADCAST :: u8 where "NETIF_FLAG_BROADCAST \<equiv> 0x02"
abbreviation (input) NETIF_FLAG_LINK_UP :: u8 where "NETIF_FLAG_LINK_UP \<equiv> 0x04"
abbreviation (input) NETIF_FLAG_ETHARP :: u8 where "NETIF_FLAG_ETHARP \<equiv> 0x08"
abbreviation (input) NETIF_FLAG_ETHERNET :: u8 where "NETIF_FLAG_ETHERNET \<equiv> 0x10"
abbreviation (input) NETIF_FLAG_MLD6 :: u8 where "NETIF_FLAG_MLD6 \<equiv> 0x40"

abbreviation (input) IP6_ADDR_INVALID :: u8 where "IP6_ADDR_INVALID \<equiv> 0x00"
abbreviation (input) IP6_ADDR_TENTATIVE :: u8 where "IP6_ADDR_TENTATIVE \<equiv> 0x08"
abbreviation (input) IP6_ADDR_VALID :: u8 where "IP6_ADDR_VALID \<equiv> 0x10"

abbreviation (input) NETIF_REPORT_TYPE_IPV4 :: u8 where "NETIF_REPORT_TYPE_IPV4 \<equiv> 0x01"
abbreviation (input) NETIF_REPORT_TYPE_IPV6 :: u8 where "NETIF_REPORT_TYPE_IPV6 \<equiv> 0x02"

definition LWIP_IPV6_NUM_ADDRESSES :: nat where
  "LWIP_IPV6_NUM_ADDRESSES = 3"

definition LWIP_LOOPBACK_MAX_PBUFS :: nat where
  "LWIP_LOOPBACK_MAX_PBUFS = 16"

text \<open>Writing one interface, and noting a call.\<close>

definition upd :: "addr \<Rightarrow> (netif \<Rightarrow> netif) \<Rightarrow> nworld \<Rightarrow> nworld" where
  "upd a f w = w\<lparr>nw_mem := (nw_mem w)(a := f (nw_mem w a))\<rparr>"

definition note_call :: "ncall \<Rightarrow> nworld \<Rightarrow> nworld" where
  "note_call c w = w\<lparr>nw_calls := nw_calls w @ [c]\<rparr>"

text \<open>\<^verbatim>\<open>NETIF_FOREACH\<close> up to the first interface with a property.\<close>

partial_function (option) NETIF_FOREACH ::
    "(addr \<Rightarrow> bool) \<Rightarrow> (addr \<Rightarrow> netif) \<Rightarrow> addr option \<Rightarrow> addr option option" where
  "NETIF_FOREACH P m p =
     (case p of
        None \<Rightarrow> Some None
      | Some a \<Rightarrow> if P a then Some (Some a) else NETIF_FOREACH P m (nf_next (m a)))"

declare NETIF_FOREACH.simps [code]

definition netif_get_index :: "netif \<Rightarrow> u8" where
  "netif_get_index n = nf_num n + 1"

definition netif_set_flags :: "addr \<Rightarrow> u8 \<Rightarrow> nworld \<Rightarrow> nworld" where
  "netif_set_flags a fl = upd a (\<lambda>n. n\<lparr>nf_flags := nf_flags n OR fl\<rparr>)"

definition netif_clear_flags :: "addr \<Rightarrow> u8 \<Rightarrow> nworld \<Rightarrow> nworld" where
  "netif_clear_flags a fl = upd a (\<lambda>n. n\<lparr>nf_flags := nf_flags n AND NOT fl\<rparr>)"

definition netif_is_flag_set :: "netif \<Rightarrow> u8 \<Rightarrow> bool" where
  "netif_is_flag_set n fl \<longleftrightarrow> nf_flags n AND fl \<noteq> 0"

section \<open>Addresses\<close>

definition nd6_restart_netif :: "addr \<Rightarrow> nworld \<Rightarrow> nworld" where
  "nd6_restart_netif a = upd a (\<lambda>n. n\<lparr>nf_rs_count := 3\<rparr>)"

definition netif_do_ip_addr_changed :: "ip_addr_t \<Rightarrow> ip_addr_t option \<Rightarrow> nworld \<Rightarrow> nworld" where
  "netif_do_ip_addr_changed old new = note_call (C_ip_addr_changed old new)"

definition netif_issue_reports :: "addr \<Rightarrow> u8 \<Rightarrow> nworld \<Rightarrow> nworld" where
  "netif_issue_reports a report_type w =
     (let n = nw_mem w a in
      if \<not> netif_is_flag_set n NETIF_FLAG_LINK_UP \<or> \<not> netif_is_flag_set n NETIF_FLAG_UP then w
      else
        let w = (if report_type AND NETIF_REPORT_TYPE_IPV4 \<noteq> 0 \<and> nf_ip_addr n \<noteq> 0
                    \<and> netif_is_flag_set n NETIF_FLAG_ETHARP
                 then note_call (C_etharp_gratuitous a) w else w)
        in if report_type AND NETIF_REPORT_TYPE_IPV6 \<noteq> 0
           then note_call (C_mld6_report_groups a) w else w)"

definition netif_do_set_ipaddr :: "addr \<Rightarrow> u32 \<Rightarrow> nworld \<Rightarrow> bool \<times> nworld" where
  "netif_do_set_ipaddr a ipaddr w =
     (let old = nf_ip_addr (nw_mem w a) in
      if ipaddr \<noteq> old then
        let w = netif_do_ip_addr_changed (IP4 old) (Some (IP4 ipaddr)) w;
            w = upd a (\<lambda>n. n\<lparr>nf_ip_addr := ipaddr\<rparr>) w
        in (True, netif_issue_reports a NETIF_REPORT_TYPE_IPV4 w)
      else (False, w))"

definition netif_do_set_netmask :: "addr \<Rightarrow> u32 \<Rightarrow> nworld \<Rightarrow> bool \<times> nworld" where
  "netif_do_set_netmask a netmask w =
     (if netmask \<noteq> nf_netmask (nw_mem w a) then (True, upd a (\<lambda>n. n\<lparr>nf_netmask := netmask\<rparr>) w)
      else (False, w))"

definition netif_do_set_gw :: "addr \<Rightarrow> u32 \<Rightarrow> nworld \<Rightarrow> bool \<times> nworld" where
  "netif_do_set_gw a gw w =
     (if gw \<noteq> nf_gw (nw_mem w a) then (True, upd a (\<lambda>n. n\<lparr>nf_gw := gw\<rparr>) w) else (False, w))"

text \<open>Addresses are passed by pointer; \<open>None\<close> is \<^verbatim>\<open>NULL\<close>, which stands for 0.0.0.0.\<close>

definition ptr_addr :: "u32 option \<Rightarrow> u32" where
  "ptr_addr p = (case p of None \<Rightarrow> 0 | Some v \<Rightarrow> v)"

definition netif_set_ipaddr :: "addr option \<Rightarrow> u32 option \<Rightarrow> nworld \<Rightarrow> nworld" where
  "netif_set_ipaddr netif ipaddr w =
     (case netif of None \<Rightarrow> w | Some a \<Rightarrow> snd (netif_do_set_ipaddr a (ptr_addr ipaddr) w))"

definition netif_set_netmask :: "addr option \<Rightarrow> u32 option \<Rightarrow> nworld \<Rightarrow> nworld" where
  "netif_set_netmask netif netmask w =
     (case netif of None \<Rightarrow> w | Some a \<Rightarrow> snd (netif_do_set_netmask a (ptr_addr netmask) w))"

definition netif_set_gw :: "addr option \<Rightarrow> u32 option \<Rightarrow> nworld \<Rightarrow> nworld" where
  "netif_set_gw netif gw w =
     (case netif of None \<Rightarrow> w | Some a \<Rightarrow> snd (netif_do_set_gw a (ptr_addr gw) w))"

definition netif_set_addr ::
    "addr \<Rightarrow> u32 option \<Rightarrow> u32 option \<Rightarrow> u32 option \<Rightarrow> nworld \<Rightarrow> nworld" where
  "netif_set_addr a ipaddr netmask gw w =
     (let ipaddr = ptr_addr ipaddr;
          netmask = ptr_addr netmask;
          gw = ptr_addr gw;
          remove = (ipaddr = 0);
          w = (if remove then snd (netif_do_set_ipaddr a ipaddr w) else w);
          w = snd (netif_do_set_netmask a netmask w);
          w = snd (netif_do_set_gw a gw w)
      in if \<not> remove then snd (netif_do_set_ipaddr a ipaddr w) else w)"

section \<open>Administrative and link state\<close>

definition netif_set_default :: "addr option \<Rightarrow> nworld \<Rightarrow> nworld" where
  "netif_set_default netif w = w\<lparr>nw_default := netif\<rparr>"

definition netif_set_up :: "addr option \<Rightarrow> nworld \<Rightarrow> nworld" where
  "netif_set_up netif w =
     (case netif of
        None \<Rightarrow> w
      | Some a \<Rightarrow>
          if \<not> netif_is_flag_set (nw_mem w a) NETIF_FLAG_UP then
            let w = netif_set_flags a NETIF_FLAG_UP w;
                w = netif_issue_reports a (NETIF_REPORT_TYPE_IPV4 OR NETIF_REPORT_TYPE_IPV6) w
            in nd6_restart_netif a w
          else w)"

definition netif_set_down :: "addr option \<Rightarrow> nworld \<Rightarrow> nworld" where
  "netif_set_down netif w =
     (case netif of
        None \<Rightarrow> w
      | Some a \<Rightarrow>
          if netif_is_flag_set (nw_mem w a) NETIF_FLAG_UP then
            let w = netif_clear_flags a NETIF_FLAG_UP w;
                w = (if netif_is_flag_set (nw_mem w a) NETIF_FLAG_ETHARP
                     then note_call (C_etharp_cleanup_netif a) w else w)
            in note_call (C_nd6_cleanup_netif a) w
          else w)"

definition netif_set_link_up :: "addr option \<Rightarrow> nworld \<Rightarrow> nworld" where
  "netif_set_link_up netif w =
     (case netif of
        None \<Rightarrow> w
      | Some a \<Rightarrow>
          if \<not> netif_is_flag_set (nw_mem w a) NETIF_FLAG_LINK_UP then
            let w = netif_set_flags a NETIF_FLAG_LINK_UP w;
                w = netif_issue_reports a (NETIF_REPORT_TYPE_IPV4 OR NETIF_REPORT_TYPE_IPV6) w
            in nd6_restart_netif a w
          else w)"

definition netif_set_link_down :: "addr option \<Rightarrow> nworld \<Rightarrow> nworld" where
  "netif_set_link_down netif w =
     (case netif of
        None \<Rightarrow> w
      | Some a \<Rightarrow>
          if netif_is_flag_set (nw_mem w a) NETIF_FLAG_LINK_UP then
            upd a (\<lambda>n. n\<lparr>nf_mtu6 := nf_mtu n\<rparr>) (netif_clear_flags a NETIF_FLAG_LINK_UP w)
          else w)"

section \<open>Adding and removing\<close>

type_synonym netif_init_fn = "addr \<Rightarrow> nworld \<Rightarrow> err_t \<times> nworld"

definition ip6_zero :: ip6_addr_t where
  "ip6_zero = \<lparr>i6_0 = 0, i6_1 = 0, i6_2 = 0, i6_3 = 0, i6_zone = 0\<rparr>"

text \<open>The fields \<^verbatim>\<open>netif_add\<close> resets before it sets the addresses.\<close>

definition netif_reset :: "addr option \<Rightarrow> u8 \<Rightarrow> input_fn \<Rightarrow> netif \<Rightarrow> netif" where
  "netif_reset state num input n =
     n\<lparr>nf_ip_addr := 0, nf_netmask := 0, nf_gw := 0,
       nf_output := Some Netif_Null_Output_Ip4,
       nf_ip6_addr := replicate LWIP_IPV6_NUM_ADDRESSES ip6_zero,
       nf_ip6_addr_state := replicate LWIP_IPV6_NUM_ADDRESSES IP6_ADDR_INVALID,
       nf_ip6_addr_valid_life := replicate LWIP_IPV6_NUM_ADDRESSES 0,
       nf_ip6_addr_pref_life := replicate LWIP_IPV6_NUM_ADDRESSES 0,
       nf_output_ip6 := Some Netif_Null_Output_Ip6,
       nf_mtu := 0, nf_flags := 0, nf_client_data := None, nf_ip6_autoconfig_enabled := 0,
       nf_mld_mac_filter := None, nf_loop := [],
       nf_state := state, nf_num := num, nf_input := Some input, nf_hints := None,
       nf_loop_cnt_current := 0\<rparr>"

text \<open>
  The \<^verbatim>\<open>do ... while\<close> loop of \<^verbatim>\<open>netif_add\<close> that looks for an unused
  number: \<open>l\<close> is \<^verbatim>\<open>netif_list\<close>. The number is kept in the interface, so if the
  interface is on the list the inner loop compares it with itself.
\<close>

partial_function (option) num_loop ::
    "(addr \<Rightarrow> netif) \<Rightarrow> addr option \<Rightarrow> addr \<Rightarrow> (addr \<Rightarrow> netif) option" where
  "num_loop m l a =
     (let m = (if nf_num (m a) = 255 then m(a := (m a)\<lparr>nf_num := 0\<rparr>) else m) in
      Option.bind (NETIF_FOREACH (\<lambda>b. nf_num (m b) = nf_num (m a)) m l)
        (\<lambda>netif2. if netif2 = None then Some m
                   else num_loop (m(a := (m a)\<lparr>nf_num := nf_num (m a) + 1\<rparr>)) l a))"

declare num_loop.simps [code]

definition netif_add ::
    "addr option \<Rightarrow> u32 option \<Rightarrow> u32 option \<Rightarrow> u32 option \<Rightarrow> addr option
      \<Rightarrow> netif_init_fn option \<Rightarrow> input_fn \<Rightarrow> nworld \<Rightarrow> (addr option \<times> nworld) option" where
  "netif_add netif ipaddr netmask gw state init input w =
     (case (netif, init) of
        (Some a, Some init) \<Rightarrow>
          (let w = nd6_restart_netif a (upd a (netif_reset state (nw_num w) input) w);
               w = netif_set_addr a (Some (ptr_addr ipaddr)) (Some (ptr_addr netmask))
                     (Some (ptr_addr gw)) w;
               (err, w) = init a w
           in if err \<noteq> ERR_OK then Some (None, w)
              else
                let w = upd a (\<lambda>n. n\<lparr>nf_mtu6 := nf_mtu n\<rparr>) w
                in Option.bind (num_loop (nw_mem w) (nw_list w) a) (\<lambda>m.
                     let w = w\<lparr>nw_mem := m\<rparr>;
                         w = w\<lparr>nw_num := (if nf_num (m a) = 254 then 0 else nf_num (m a) + 1)\<rparr>;
                         w = upd a (\<lambda>n. n\<lparr>nf_next := nw_list w\<rparr>) w
                     in Some (Some a, w\<lparr>nw_list := Some a\<rparr>)))
      | _ \<Rightarrow> Some (None, w))"

definition netif_add_noaddr ::
    "addr option \<Rightarrow> addr option \<Rightarrow> netif_init_fn option \<Rightarrow> input_fn \<Rightarrow> nworld
      \<Rightarrow> (addr option \<times> nworld) option" where
  "netif_add_noaddr netif state init input w = netif_add netif None None None state init input w"

text \<open>The notices about the IPv6 addresses that go away, in order of the index.\<close>

definition ip6_addr_isvalid :: "u8 \<Rightarrow> bool" where
  "ip6_addr_isvalid st \<longleftrightarrow> st AND IP6_ADDR_VALID \<noteq> 0"

fun drop_ip6_loop :: "nat list \<Rightarrow> addr \<Rightarrow> nworld \<Rightarrow> nworld" where
  "drop_ip6_loop [] a w = w"
| "drop_ip6_loop (i # is) a w =
     drop_ip6_loop is a
       (if ip6_addr_isvalid (nf_ip6_addr_state (nw_mem w a) ! i)
        then netif_do_ip_addr_changed (IP6 (nf_ip6_addr (nw_mem w a) ! i)) None w else w)"

definition netif_remove :: "addr option \<Rightarrow> nworld \<Rightarrow> nworld option" where
  "netif_remove netif w =
     (case netif of
        None \<Rightarrow> Some w
      | Some a \<Rightarrow>
          let w = (if nf_ip_addr (nw_mem w a) \<noteq> 0
                   then netif_do_ip_addr_changed (IP4 (nf_ip_addr (nw_mem w a))) None w else w);
              w = drop_ip6_loop [0..<LWIP_IPV6_NUM_ADDRESSES] a w;
              w = note_call (C_mld6_stop a) w;
              w = (if netif_is_flag_set (nw_mem w a) NETIF_FLAG_UP
                   then netif_set_down (Some a) w else w);
              w = (if nw_default w = Some a then netif_set_default None w else w)
          in if nw_list w = Some a then Some (w\<lparr>nw_list := nf_next (nw_mem w a)\<rparr>)
             else
               Option.bind
                 (NETIF_FOREACH (\<lambda>b. nf_next (nw_mem w b) = Some a) (nw_mem w) (nw_list w))
                 (\<lambda>tmp_netif. case tmp_netif of
                    None \<Rightarrow> Some w
                  | Some b \<Rightarrow>
                      Some (upd b (\<lambda>n. n\<lparr>nf_next := nf_next (nw_mem w a)\<rparr>) w)))"

section \<open>IPv6 addresses\<close>

text \<open>An index outside the arrays of the interface is the result \<open>None\<close>.\<close>

definition ip6_addr_islinklocal :: "ip6_addr_t \<Rightarrow> bool" where
  "ip6_addr_islinklocal x \<longleftrightarrow> i6_0 x AND lwip_htonl 0xffc00000 = lwip_htonl 0xfe800000"

definition ip6_addr_assign_zone_unicast :: "ip6_addr_t \<Rightarrow> netif \<Rightarrow> ip6_addr_t" where
  "ip6_addr_assign_zone_unicast x n =
     x\<lparr>i6_zone := (if ip6_addr_islinklocal x then netif_get_index n else 0)\<rparr>"

definition ip6_addr_cmp_zoneless :: "ip6_addr_t \<Rightarrow> ip6_addr_t \<Rightarrow> bool" where
  "ip6_addr_cmp_zoneless x y \<longleftrightarrow>
     i6_0 x = i6_0 y \<and> i6_1 x = i6_1 y \<and> i6_2 x = i6_2 y \<and> i6_3 x = i6_3 y"

definition netif_ip6_addr_set_parts ::
    "addr \<Rightarrow> nat \<Rightarrow> u32 \<Rightarrow> u32 \<Rightarrow> u32 \<Rightarrow> u32 \<Rightarrow> nworld \<Rightarrow> nworld option" where
  "netif_ip6_addr_set_parts a idx i0 i1 i2 i3 w =
     (if idx \<ge> LWIP_IPV6_NUM_ADDRESSES then None
      else
        let n = nw_mem w a;
            old = nf_ip6_addr n ! idx;
            valid = ip6_addr_isvalid (nf_ip6_addr_state n ! idx)
        in if i6_0 old \<noteq> i0 \<or> i6_1 old \<noteq> i1 \<or> i6_2 old \<noteq> i2 \<or> i6_3 old \<noteq> i3 then
             let new_ipaddr = ip6_addr_assign_zone_unicast
                   \<lparr>i6_0 = i0, i6_1 = i1, i6_2 = i2, i6_3 = i3, i6_zone = 0\<rparr> n;
                 w = (if valid then netif_do_ip_addr_changed (IP6 old) (Some (IP6 new_ipaddr)) w
                      else w);
                 w = upd a (\<lambda>n. n\<lparr>nf_ip6_addr := (nf_ip6_addr n)[idx := new_ipaddr]\<rparr>) w
             in Some (if valid then netif_issue_reports a NETIF_REPORT_TYPE_IPV6 w else w)
           else Some w)"

definition netif_ip6_addr_set :: "addr \<Rightarrow> nat \<Rightarrow> ip6_addr_t \<Rightarrow> nworld \<Rightarrow> nworld option" where
  "netif_ip6_addr_set a idx x w =
     netif_ip6_addr_set_parts a idx (i6_0 x) (i6_1 x) (i6_2 x) (i6_3 x) w"

definition netif_ip6_addr_set_state :: "addr \<Rightarrow> nat \<Rightarrow> u8 \<Rightarrow> nworld \<Rightarrow> nworld option" where
  "netif_ip6_addr_set_state a idx state w =
     (if idx \<ge> LWIP_IPV6_NUM_ADDRESSES then None
      else
        let n = nw_mem w a;
            old_state = nf_ip6_addr_state n ! idx
        in if old_state \<noteq> state then
             let old_valid = ip6_addr_isvalid old_state;
                 new_valid = ip6_addr_isvalid state;
                 w = (if netif_is_flag_set n NETIF_FLAG_MLD6
                      then note_call (C_nd6_adjust_mld_membership a idx state) w else w);
                 w = (if old_valid \<and> \<not> new_valid
                      then netif_do_ip_addr_changed (IP6 (nf_ip6_addr n ! idx)) None w else w);
                 w = upd a (\<lambda>n. n\<lparr>nf_ip6_addr_state := (nf_ip6_addr_state n)[idx := state]\<rparr>) w
             in Some (if \<not> old_valid \<and> new_valid
                      then netif_issue_reports a NETIF_REPORT_TYPE_IPV6 w else w)
           else Some w)"

text \<open>\<open>None\<close> stands for the result -1.\<close>

definition netif_get_ip6_addr_match :: "netif \<Rightarrow> ip6_addr_t \<Rightarrow> nat option" where
  "netif_get_ip6_addr_match n x =
     (if i6_zone x \<noteq> 0 \<and> i6_zone x \<noteq> netif_get_index n then None
      else List.find (\<lambda>i. nf_ip6_addr_state n ! i \<noteq> IP6_ADDR_INVALID
                          \<and> ip6_addr_cmp_zoneless (nf_ip6_addr n ! i) x)
             [0..<LWIP_IPV6_NUM_ADDRESSES])"

text \<open>The interface identifier from a hardware address that is not a 48-bit MAC.\<close>

fun linklocal_loop :: "nat list \<Rightarrow> netif \<Rightarrow> u32 \<times> u32 \<Rightarrow> u32 \<times> u32" where
  "linklocal_loop [] n acc = acc"
| "linklocal_loop (i # is) n (a2, a3) =
     (if i < unat (nf_hwaddr_len n) then
        let v = lwip_htonl (push_bit (8 * (i mod 4))
                  (ucast (nf_hwaddr n ! (unat (nf_hwaddr_len n) - i - 1))))
        in linklocal_loop is n (if i \<ge> 4 then (a2 OR v, a3) else (a2, a3 OR v))
      else (a2, a3))"

definition linklocal_addr :: "bool \<Rightarrow> netif \<Rightarrow> ip6_addr_t" where
  "linklocal_addr from_mac_48bit n =
     (let h = (\<lambda>i. ucast (nf_hwaddr n ! i) :: u32);
          (a2, a3) =
            (if from_mac_48bit then
               (lwip_htonl (push_bit 24 (ucast (nf_hwaddr n ! 0 XOR 0x02)) OR push_bit 16 (h 1)
                            OR push_bit 8 (h 2) OR 0xff),
                lwip_htonl (push_bit 24 0xfe OR push_bit 16 (h 3) OR push_bit 8 (h 4) OR h 5))
             else linklocal_loop [0..<8] n (0, 0))
      in ip6_addr_assign_zone_unicast
           \<lparr>i6_0 = lwip_htonl 0xfe800000, i6_1 = 0, i6_2 = a2, i6_3 = a3,
            i6_zone = i6_zone (nf_ip6_addr n ! 0)\<rparr> n)"

definition netif_create_ip6_linklocal_address :: "addr \<Rightarrow> bool \<Rightarrow> nworld \<Rightarrow> nworld option" where
  "netif_create_ip6_linklocal_address a from_mac_48bit w =
     (let w = upd a (\<lambda>n. n\<lparr>nf_ip6_addr := (nf_ip6_addr n)[0 := linklocal_addr from_mac_48bit n]\<rparr>) w
      in netif_ip6_addr_set_state a 0 IP6_ADDR_TENTATIVE w)"

text \<open>The result is the status, the chosen index (\<open>None\<close> for -1) and the state.\<close>

definition netif_add_ip6_address ::
    "addr \<Rightarrow> ip6_addr_t \<Rightarrow> nworld \<Rightarrow> (err_t \<times> nat option \<times> nworld) option" where
  "netif_add_ip6_address a x w =
     (case netif_get_ip6_addr_match (nw_mem w a) x of
        Some i \<Rightarrow> Some (ERR_OK, Some i, w)
      | None \<Rightarrow>
          case List.find (\<lambda>i. nf_ip6_addr_state (nw_mem w a) ! i = IP6_ADDR_INVALID)
                 [(if ip6_addr_islinklocal x then 0 else 1)..<LWIP_IPV6_NUM_ADDRESSES] of
            Some i \<Rightarrow>
              map_option (\<lambda>w. (ERR_OK, Some i, w))
                (netif_ip6_addr_set_state a i IP6_ADDR_TENTATIVE
                  (upd a (\<lambda>n. n\<lparr>nf_ip6_addr :=
                     (nf_ip6_addr n)[i := ip6_addr_assign_zone_unicast x n]\<rparr>) w))
          | None \<Rightarrow> Some (ERR_VAL, None, w))"

section \<open>The loopback queue\<close>

text \<open>
  \<open>nf_loop\<close> is the chain from \<^verbatim>\<open>loop_first\<close> to \<^verbatim>\<open>loop_last\<close>.
  The counter and the length of the chain are added as \<^verbatim>\<open>int\<close>.
\<close>

definition netif_loop_output ::
    "allocator \<Rightarrow> addr \<Rightarrow> pbuf list \<Rightarrow> nworld \<Rightarrow> (err_t \<times> nworld) option" where
  "netif_loop_output malloc a p w =
     (case p of
        [] \<Rightarrow> None
      | p0 # _ \<Rightarrow>
          let r = ar_chain (pbuf_alloc malloc PBUF_LINK (p_tot_len p0) PBUF_RAM) in
          if r = [] then Some (ERR_MEM, w)
          else
            let clen = pbuf_clen r;
                cnt = nf_loop_cnt_current (nw_mem w a)
            in if unat cnt + unat clen < unat cnt
                  \<or> unat cnt + unat clen > min LWIP_LOOPBACK_MAX_PBUFS 0xFFFF
               then Some (ERR_MEM, note_call (C_pbuf_free r) w)
               else
                 let w = upd a (\<lambda>n. n\<lparr>nf_loop_cnt_current := cnt + clen\<rparr>) w;
                     (err, r) = pbuf_copy r p
                 in if err \<noteq> ERR_OK then Some (err, note_call (C_pbuf_free r) w)
                    else
                      let schedule_poll = (nf_loop (nw_mem w a) = []);
                          w = upd a (\<lambda>n. n\<lparr>nf_loop := nf_loop n @ r\<rparr>) w
                      in Some (ERR_OK, if schedule_poll
                                       then note_call (C_try_callback_netif_poll a) w else w))"

text \<open>
  \<^verbatim>\<open>in\<close> up to \<^verbatim>\<open>in_end\<close>, the first buffer whose length is its total length,
  and the rest of the queue. Running off the chain dereferences \<^verbatim>\<open>NULL\<close>.
\<close>

fun first_packet :: "pbuf list \<Rightarrow> (pbuf list \<times> pbuf list) option" where
  "first_packet [] = None"
| "first_packet (p # ps) =
     (if p_len p = p_tot_len p then Some ([p], ps)
      else map_option (\<lambda>(q, qs). (p # q, qs)) (first_packet ps))"

text \<open>\<open>ip_input\<close> is the input function of the IP layer.\<close>

partial_function (option) netif_poll ::
    "(pbuf list \<Rightarrow> addr \<Rightarrow> nworld \<Rightarrow> err_t \<times> nworld) \<Rightarrow> addr \<Rightarrow> nworld \<Rightarrow> nworld option" where
  "netif_poll ip_input a w =
     (if nf_loop (nw_mem w a) = [] then Some w
      else Option.bind (first_packet (nf_loop (nw_mem w a))) (\<lambda>(pin, rest).
        let clen = of_nat (length pin) :: u8;
            w = upd a (\<lambda>n. n\<lparr>nf_loop_cnt_current := nf_loop_cnt_current n - ucast clen,
                              nf_loop := rest\<rparr>) w;
            pin = (hd pin)\<lparr>p_if_idx := netif_get_index (nw_mem w a)\<rparr> # tl pin;
            (err, w) = ip_input pin a (note_call (C_ip_input a pin) w);
            w = (if err \<noteq> ERR_OK then note_call (C_pbuf_free pin) w else w)
        in netif_poll ip_input a w))"

declare netif_poll.simps [code]

section \<open>The loopback interface, input and lookup\<close>

definition netif_null_output_ip4 :: "addr \<Rightarrow> pbuf list \<Rightarrow> nworld \<Rightarrow> (err_t \<times> nworld) option" where
  "netif_null_output_ip4 a p w = Some (ERR_IF, w)"

definition netif_null_output_ip6 :: "addr \<Rightarrow> pbuf list \<Rightarrow> nworld \<Rightarrow> (err_t \<times> nworld) option" where
  "netif_null_output_ip6 a p w = Some (ERR_IF, w)"

definition IP4_ADDR :: "u8 \<Rightarrow> u8 \<Rightarrow> u8 \<Rightarrow> u8 \<Rightarrow> u32" where
  "IP4_ADDR a b c d =
     lwip_htonl (push_bit 24 (ucast a) OR push_bit 16 (ucast b) OR push_bit 8 (ucast c) OR ucast d)"

definition LOOP_NETIF :: addr where
  "LOOP_NETIF = 1000"

definition netif_loopif_init :: netif_init_fn where
  "netif_loopif_init a w =
     (ERR_OK, upd a (\<lambda>n. n\<lparr>nf_name := ''lo'', nf_output := Some Netif_Loop_Output_Ipv4,
                            nf_output_ip6 := Some Netif_Loop_Output_Ipv6\<rparr>) w)"

definition netif_init :: "nworld \<Rightarrow> nworld option" where
  "netif_init w =
     map_option (\<lambda>(_, w).
       let w = upd LOOP_NETIF (\<lambda>n. n\<lparr>nf_ip6_addr := (nf_ip6_addr n)[0 :=
                   \<lparr>i6_0 = lwip_htonl 0, i6_1 = lwip_htonl 0, i6_2 = lwip_htonl 0,
                    i6_3 = lwip_htonl 1, i6_zone = 0\<rparr>]\<rparr>) w;
           w = upd LOOP_NETIF (\<lambda>n. n\<lparr>nf_ip6_addr_state :=
                   (nf_ip6_addr_state n)[0 := IP6_ADDR_VALID]\<rparr>) w
       in netif_set_up (Some LOOP_NETIF) (netif_set_link_up (Some LOOP_NETIF) w))
     (netif_add (Some LOOP_NETIF) (Some (IP4_ADDR 127 0 0 1)) (Some (IP4_ADDR 255 0 0 0))
        (Some (IP4_ADDR 127 0 0 1)) None (Some netif_loopif_init) Tcpip_Input w)"

text \<open>The two input functions are parameters.\<close>

definition netif_input ::
    "(pbuf list \<Rightarrow> addr \<Rightarrow> nworld \<Rightarrow> 'r) \<Rightarrow> (pbuf list \<Rightarrow> addr \<Rightarrow> nworld \<Rightarrow> 'r)
      \<Rightarrow> pbuf list \<Rightarrow> addr \<Rightarrow> nworld \<Rightarrow> 'r" where
  "netif_input ethernet_input ip_input p inp w =
     (if nf_flags (nw_mem w inp) AND (NETIF_FLAG_ETHARP OR NETIF_FLAG_ETHERNET) \<noteq> 0
      then ethernet_input p inp w else ip_input p inp w)"

definition netif_get_by_index :: "u8 \<Rightarrow> nworld \<Rightarrow> addr option option" where
  "netif_get_by_index idx w =
     (if idx \<noteq> 0
      then NETIF_FOREACH (\<lambda>b. idx = netif_get_index (nw_mem w b)) (nw_mem w) (nw_list w)
      else Some None)"

text \<open>\<^verbatim>\<open>atoi\<close> on a string of decimal digits up to the first other character.\<close>

fun atoi_digits :: "int \<Rightarrow> string \<Rightarrow> int" where
  "atoi_digits acc [] = acc"
| "atoi_digits acc (c # cs) =
     (if 48 \<le> (of_char c :: int) \<and> (of_char c :: int) \<le> 57 then atoi_digits (10 * acc + (of_char c - 48)) cs
      else acc)"

definition c_isspace :: "char \<Rightarrow> bool" where
  "c_isspace c \<longleftrightarrow> c \<in> {CHR 0x20, CHR 0x09, CHR 0x0A, CHR 0x0B, CHR 0x0C, CHR 0x0D}"

definition atoi :: "string \<Rightarrow> int" where
  "atoi s =
     (case dropWhile c_isspace s of
        [] \<Rightarrow> 0
      | c # cs \<Rightarrow> if c = CHR ''-'' then - atoi_digits 0 cs
                  else if c = CHR ''+'' then atoi_digits 0 cs
                  else atoi_digits 0 (c # cs))"

text \<open>A name of less than two characters is read past its end: the result is \<open>None\<close>.\<close>

definition netif_find :: "string option \<Rightarrow> nworld \<Rightarrow> addr option option" where
  "netif_find name w =
     (case name of
        None \<Rightarrow> Some None
      | Some s \<Rightarrow>
          let num = word_of_int (atoi (drop 2 s)) :: u8 in
          if length s < 2 then None
          else NETIF_FOREACH (\<lambda>b. num = nf_num (nw_mem w b) \<and> s ! 0 = nf_name (nw_mem w b) ! 0
                             \<and> s ! 1 = nf_name (nw_mem w b) ! 1) (nw_mem w) (nw_list w))"

definition netif_name_to_index :: "string option \<Rightarrow> nworld \<Rightarrow> u8 option" where
  "netif_name_to_index name w =
     map_option (\<lambda>r. case r of None \<Rightarrow> 0 | Some a \<Rightarrow> netif_get_index (nw_mem w a)) (netif_find name w)"

text \<open>\<open>name\<close> is the caller's buffer of \<^verbatim>\<open>NETIF_NAMESIZE\<close> characters.\<close>

definition netif_index_to_name :: "u8 \<Rightarrow> string \<Rightarrow> nworld \<Rightarrow> string option option" where
  "netif_index_to_name idx name w =
     Option.bind (netif_get_by_index idx w) (\<lambda>r.
       case r of
         None \<Rightarrow> Some None
       | Some a \<Rightarrow>
           map_option (\<lambda>s. Some (take 2 (nf_name (nw_mem w a)) @ s))
             (lwip_itoa (drop 2 name) (int (unat idx) - 1)))"

end
