(* ===== verification/Netif_List.thy ===== *)
theory Netif_List
  imports Netif
begin

text \<open>
  The list of interfaces. \<open>netif_ok w xs\<close>: \<^verbatim>\<open>netif_list\<close> links
  exactly the interfaces \<open>xs\<close>, each once, their numbers differ and are below 255, and the
  default interface is one of them.
\<close>

section \<open>The list in memory\<close>

fun lseg :: "(addr \<Rightarrow> netif) \<Rightarrow> addr option \<Rightarrow> addr list \<Rightarrow> addr option \<Rightarrow> bool" where
  "lseg m p [] q \<longleftrightarrow> p = q"
| "lseg m p (x # xs) q \<longleftrightarrow> p = Some x \<and> lseg m (nf_next (m x)) xs q"

definition netif_ok :: "nworld \<Rightarrow> addr list \<Rightarrow> bool" where
  "netif_ok w xs \<longleftrightarrow>
     lseg (nw_mem w) (nw_list w) xs None \<and> distinct xs
     \<and> distinct (map (\<lambda>x. nf_num (nw_mem w x)) xs) \<and> (\<forall>x\<in>set xs. nf_num (nw_mem w x) \<noteq> 255)
     \<and> (\<forall>d. nw_default w = Some d \<longrightarrow> d \<in> set xs)"

named_theorems netif_simps \<open>what an operation leaves of the interfaces\<close>

lemma lseg_append: "lseg m p (xs @ ys) q \<longleftrightarrow> (\<exists>r. lseg m p xs r \<and> lseg m r ys q)"
  by (induction xs arbitrary: p) auto

lemma lseg_cong:
  "(\<And>x. x \<in> set xs \<Longrightarrow> nf_next (m x) = nf_next (m' x)) \<Longrightarrow> lseg m p xs q = lseg m' p xs q"
  by (induction xs arbitrary: p) auto

lemma NETIF_FOREACH_lseg: "lseg m p xs None \<Longrightarrow> NETIF_FOREACH P m p = Some (List.find P xs)"
proof (induction xs arbitrary: p)
  case Nil
  then show ?case by (simp add: NETIF_FOREACH.simps)
next
  case (Cons x xs)
  then show ?case by (simp add: NETIF_FOREACH.simps [of P m "Some x"])
qed

section \<open>What the operations write\<close>

lemma upd_simps [netif_simps]:
  "nw_mem (upd a f w) = (nw_mem w)(a := f (nw_mem w a))"
  "nw_list (upd a f w) = nw_list w" "nw_default (upd a f w) = nw_default w"
  "nw_num (upd a f w) = nw_num w" "nw_calls (upd a f w) = nw_calls w"
  "nw_mem (note_call c w) = nw_mem w" "nw_list (note_call c w) = nw_list w"
  "nw_default (note_call c w) = nw_default w" "nw_num (note_call c w) = nw_num w"
  "nw_calls (note_call c w) = nw_calls w @ [c]"
  by (simp_all add: upd_def note_call_def)

lemma changed_simps [netif_simps]:
  "nw_mem (netif_do_ip_addr_changed x y w) = nw_mem w"
  "nw_list (netif_do_ip_addr_changed x y w) = nw_list w"
  "nw_default (netif_do_ip_addr_changed x y w) = nw_default w"
  "nw_num (netif_do_ip_addr_changed x y w) = nw_num w"
  by (simp_all add: netif_do_ip_addr_changed_def netif_simps)

lemma issue_reports_simps [netif_simps]:
  "nw_mem (netif_issue_reports a t w) = nw_mem w"
  "nw_list (netif_issue_reports a t w) = nw_list w"
  "nw_default (netif_issue_reports a t w) = nw_default w"
  "nw_num (netif_issue_reports a t w) = nw_num w"
  by (simp_all add: netif_issue_reports_def Let_def netif_simps)

lemma restart_simps [netif_simps]:
  "nw_mem (nd6_restart_netif a w) = (nw_mem w)(a := (nw_mem w a)\<lparr>nf_rs_count := 3\<rparr>)"
  "nw_list (nd6_restart_netif a w) = nw_list w"
  "nw_default (nd6_restart_netif a w) = nw_default w"
  "nw_num (nd6_restart_netif a w) = nw_num w"
  "nw_calls (nd6_restart_netif a w) = nw_calls w"
  by (simp_all add: nd6_restart_netif_def netif_simps)

lemma set_ipaddr_simps [netif_simps]:
  "nw_mem (snd (netif_do_set_ipaddr a v w)) = (nw_mem w)(a := (nw_mem w a)\<lparr>nf_ip_addr := v\<rparr>)"
  "nw_list (snd (netif_do_set_ipaddr a v w)) = nw_list w"
  "nw_default (snd (netif_do_set_ipaddr a v w)) = nw_default w"
  "nw_num (snd (netif_do_set_ipaddr a v w)) = nw_num w"
  by (auto simp add: netif_do_set_ipaddr_def Let_def netif_simps intro!: ext)

lemma set_netmask_simps [netif_simps]:
  "nw_mem (snd (netif_do_set_netmask a v w)) = (nw_mem w)(a := (nw_mem w a)\<lparr>nf_netmask := v\<rparr>)"
  "nw_list (snd (netif_do_set_netmask a v w)) = nw_list w"
  "nw_default (snd (netif_do_set_netmask a v w)) = nw_default w"
  "nw_num (snd (netif_do_set_netmask a v w)) = nw_num w"
  by (auto simp add: netif_do_set_netmask_def netif_simps intro!: ext)

lemma set_gw_simps [netif_simps]:
  "nw_mem (snd (netif_do_set_gw a v w)) = (nw_mem w)(a := (nw_mem w a)\<lparr>nf_gw := v\<rparr>)"
  "nw_list (snd (netif_do_set_gw a v w)) = nw_list w"
  "nw_default (snd (netif_do_set_gw a v w)) = nw_default w"
  "nw_num (snd (netif_do_set_gw a v w)) = nw_num w"
  by (auto simp add: netif_do_set_gw_def netif_simps intro!: ext)

lemma set_addr_simps [netif_simps]:
  "nw_mem (netif_set_addr a i nm g w) = (nw_mem w)(a := (nw_mem w a)\<lparr>nf_ip_addr := ptr_addr i,
     nf_netmask := ptr_addr nm, nf_gw := ptr_addr g\<rparr>)"
  "nw_list (netif_set_addr a i nm g w) = nw_list w"
  "nw_default (netif_set_addr a i nm g w) = nw_default w"
  "nw_num (netif_set_addr a i nm g w) = nw_num w"
  by (auto simp add: netif_set_addr_def Let_def netif_simps intro!: ext)

lemma flags_simps [netif_simps]:
  "nw_mem (netif_set_flags a fl w)
     = (nw_mem w)(a := (nw_mem w a)\<lparr>nf_flags := nf_flags (nw_mem w a) OR fl\<rparr>)"
  "nw_mem (netif_clear_flags a fl w)
     = (nw_mem w)(a := (nw_mem w a)\<lparr>nf_flags := nf_flags (nw_mem w a) AND NOT fl\<rparr>)"
  "nw_list (netif_set_flags a fl w) = nw_list w" "nw_list (netif_clear_flags a fl w) = nw_list w"
  "nw_default (netif_set_flags a fl w) = nw_default w"
  "nw_default (netif_clear_flags a fl w) = nw_default w"
  "nw_num (netif_set_flags a fl w) = nw_num w" "nw_num (netif_clear_flags a fl w) = nw_num w"
  "nw_calls (netif_set_flags a fl w) = nw_calls w"
  "nw_calls (netif_clear_flags a fl w) = nw_calls w"
  by (simp_all add: netif_set_flags_def netif_clear_flags_def netif_simps)

lemma set_up_simps [netif_simps]:
  "nw_mem (netif_set_up (Some a) w) = (nw_mem w)(a :=
     (if netif_is_flag_set (nw_mem w a) 1 then nw_mem w a
      else (nw_mem w a)\<lparr>nf_flags := nf_flags (nw_mem w a) OR 1, nf_rs_count := 3\<rparr>))"
  "nw_list (netif_set_up p w) = nw_list w" "nw_default (netif_set_up p w) = nw_default w"
  "nw_num (netif_set_up p w) = nw_num w"
  by (auto simp: netif_set_up_def Let_def netif_simps split: option.split intro!: ext)

lemma set_link_up_simps [netif_simps]:
  "nw_mem (netif_set_link_up (Some a) w) = (nw_mem w)(a :=
     (if netif_is_flag_set (nw_mem w a) 4 then nw_mem w a
      else (nw_mem w a)\<lparr>nf_flags := nf_flags (nw_mem w a) OR 4, nf_rs_count := 3\<rparr>))"
  "nw_list (netif_set_link_up p w) = nw_list w" "nw_default (netif_set_link_up p w) = nw_default w"
  "nw_num (netif_set_link_up p w) = nw_num w"
  by (auto simp: netif_set_link_up_def Let_def netif_simps split: option.split intro!: ext)

lemma set_down_simps [netif_simps]:
  "nw_mem (netif_set_down (Some a) w) = (nw_mem w)(a :=
     (nw_mem w a)\<lparr>nf_flags := nf_flags (nw_mem w a) AND NOT 1\<rparr>)"
  "nw_list (netif_set_down p w) = nw_list w" "nw_default (netif_set_down p w) = nw_default w"
  "nw_num (netif_set_down p w) = nw_num w"
proof -
  have "nf_flags (nw_mem w a) AND NOT 1 = nf_flags (nw_mem w a)"
    if "\<not> netif_is_flag_set (nw_mem w a) 1"
  proof -
    have z: "nf_flags (nw_mem w a) AND 1 = 0" using that by (simp add: netif_is_flag_set_def)
    have "nf_flags (nw_mem w a)
        = (nf_flags (nw_mem w a) AND NOT 1) OR (nf_flags (nw_mem w a) AND 1)"
      by (rule bit_eqI) (auto simp: bit_simps)
    then show ?thesis using z by simp
  qed
  then show "nw_mem (netif_set_down (Some a) w) = (nw_mem w)(a :=
     (nw_mem w a)\<lparr>nf_flags := nf_flags (nw_mem w a) AND NOT 1\<rparr>)"
    by (auto simp: netif_set_down_def Let_def netif_simps intro!: ext)
qed (auto simp: netif_set_down_def Let_def netif_simps split: option.split)

lemma set_link_down_simps [netif_simps]:
  "nf_next (nw_mem (netif_set_link_down (Some a) w) b) = nf_next (nw_mem w b)"
  "nf_num (nw_mem (netif_set_link_down (Some a) w) b) = nf_num (nw_mem w b)"
  "b \<noteq> a \<Longrightarrow> nw_mem (netif_set_link_down (Some a) w) b = nw_mem w b"
  "nw_list (netif_set_link_down p w) = nw_list w"
  "nw_default (netif_set_link_down p w) = nw_default w"
  "nw_num (netif_set_link_down p w) = nw_num w"
  by (auto simp: netif_set_link_down_def Let_def netif_simps split: option.split)

lemma drop_ip6_simps [netif_simps]:
  "nw_mem (drop_ip6_loop is a w) = nw_mem w" "nw_list (drop_ip6_loop is a w) = nw_list w"
  "nw_default (drop_ip6_loop is a w) = nw_default w" "nw_num (drop_ip6_loop is a w) = nw_num w"
  by (induction "is" arbitrary: w) (auto simp: netif_simps)

section \<open>The number of a new interface\<close>

definition with_num :: "(addr \<Rightarrow> netif) \<Rightarrow> addr \<Rightarrow> u8 \<Rightarrow> (addr \<Rightarrow> netif)" where
  "with_num m a v = m(a := (m a)\<lparr>nf_num := v\<rparr>)"

lemma with_num_simps [simp]:
  "with_num m a v b = (if b = a then (m a)\<lparr>nf_num := v\<rparr> else m b)"
  "(with_num m a v)(a := (m a)\<lparr>nf_num := u\<rparr>) = with_num m a u"
  "with_num m a (nf_num (m a)) = m"
  by (simp_all add: with_num_def)

lemma num_loop_unfold:
  assumes "lseg m l xs None" "a \<notin> set xs" "v' = (if v = 255 then 0 else v)"
  shows "num_loop (with_num m a v) l a
    = (if v' \<in> (\<lambda>x. nf_num (m x)) ` set xs then num_loop (with_num m a (v' + 1)) l a
       else Some (with_num m a v'))"
proof -
  have s: "lseg (with_num m a v') l xs None"
    using assms(1,2) by (subst lseg_cong [of _ _ m]) auto
  have f: "(List.find (\<lambda>b. nf_num (with_num m a v' b) = v') xs = None)
      \<longleftrightarrow> v' \<notin> (\<lambda>x. nf_num (m x)) ` set xs"
    using assms(2) by (auto simp: find_None_iff)
  have e: "(if nf_num (with_num m a v a) = 255
            then (with_num m a v)(a := (with_num m a v a)\<lparr>nf_num := 0\<rparr>) else with_num m a v)
      = with_num m a v'" using assms(3) by simp
  show ?thesis
    unfolding num_loop.simps [of "with_num m a v"] e Let_def
    using NETIF_FOREACH_lseg [OF s, of "\<lambda>b. nf_num (with_num m a v' b) = v'"] f
    by (simp del: find_None_iff find_None_iff2)
qed

lemma u8_eq_255: "v = 255 \<longleftrightarrow> unat v = 255" for v :: u8
  using word_unatI [of v 255] by auto

lemma u8_lt_255: "v \<noteq> 255 \<Longrightarrow> unat v < 255" for v :: u8
  using unat_u8_lt [of v] u8_eq_255 [of v] by linarith

lemma num_loop_finds:
  assumes "lseg m l xs None" "a \<notin> set xs" "v \<noteq> 255"
    "(unat v + k) mod 255 \<notin> (\<lambda>x. unat (nf_num (m x))) ` set xs"
  shows "\<exists>c. num_loop (with_num m a v) l a = Some (with_num m a c)
    \<and> c \<noteq> 255 \<and> c \<notin> (\<lambda>x. nf_num (m x)) ` set xs"
  using assms(3,4)
proof (induction k arbitrary: v)
  case 0
  have "unat v < 255" by (rule u8_lt_255 [OF 0(1)])
  then have "v \<notin> (\<lambda>x. nf_num (m x)) ` set xs" using 0(2) by auto
  moreover from this have "num_loop (with_num m a v) l a = Some (with_num m a v)"
    using 0(1) num_loop_unfold [OF assms(1,2), of v v] by simp
  ultimately show ?case using 0(1) by blast
next
  case (Suc k)
  show ?case
  proof (cases "v \<in> (\<lambda>x. nf_num (m x)) ` set xs")
    case False
    then have "num_loop (with_num m a v) l a = Some (with_num m a v)"
      using Suc.prems(1) num_loop_unfold [OF assms(1,2), of v v] by simp
    then show ?thesis using False Suc.prems(1) by blast
  next
    case True
    let ?v = "if v + 1 = 255 then 0 else v + 1"
    have lt: "unat v < 255" by (rule u8_lt_255 [OF Suc.prems(1)])
    then have "v < 255" by (simp add: word_less_nat_alt)
    then have u: "unat (v + 1) = Suc (unat v)" by (rule unat_Suc_less)
    have uv: "unat ?v = (unat v + 1) mod 255"
      using u lt u8_eq_255 [of "v + 1"] by auto
    have v: "?v \<noteq> 255" by simp
    have "\<exists>c. num_loop (with_num m a ?v) l a = Some (with_num m a c)
      \<and> c \<noteq> 255 \<and> c \<notin> (\<lambda>x. nf_num (m x)) ` set xs"
      
    proof (rule Suc.IH [OF v])
      show "(unat ?v + k) mod 255 \<notin> (\<lambda>x. unat (nf_num (m x))) ` set xs"
        using Suc.prems(2) unfolding uv by (simp add: mod_simps)
    qed
    moreover have "num_loop (with_num m a v) l a = num_loop (with_num m a (v + 1)) l a"
      using num_loop_unfold [OF assms(1,2), of v v] True Suc.prems by simp
    moreover have "num_loop (with_num m a (v + 1)) l a = num_loop (with_num m a ?v) l a"
      using num_loop_unfold [OF assms(1,2), of ?v "v + 1"] num_loop_unfold [OF assms(1,2), of ?v ?v]
      by (simp split: if_splits)
    ultimately show ?thesis by (simp only:)
  qed
qed

lemma num_loop_ok:
  assumes "lseg m l xs None" "a \<notin> set xs" "length xs < 255"
  shows "\<exists>c. num_loop m l a = Some (with_num m a c)
    \<and> c \<noteq> 255 \<and> c \<notin> (\<lambda>x. nf_num (m x)) ` set xs"
proof -
  let ?U = "(\<lambda>x. unat (nf_num (m x))) ` set xs"
  have "card ?U < 255" using card_image_le [of "set xs" "\<lambda>x. unat (nf_num (m x))"]
      card_length [of xs] assms(3) by simp
  then have "\<not> {..<255} \<subseteq> ?U" using card_mono [of ?U "{..<255 :: nat}"] by fastforce
  then obtain u where u: "u < 255" "u \<notin> ?U" by blast
  define v where "v = (if nf_num (m a) = 255 then 0 else nf_num (m a))"
  have v: "v \<noteq> 255" by (simp add: v_def)
  have lt: "unat v < 255" by (rule u8_lt_255 [OF v])
  have "(unat v + (255 + u - unat v)) mod 255 = u" using u lt by simp
  then obtain c where c: "num_loop (with_num m a v) l a = Some (with_num m a c)" "c \<noteq> 255"
      "c \<notin> (\<lambda>x. nf_num (m x)) ` set xs"
    using num_loop_finds [OF assms(1,2) v, of "255 + u - unat v"] u(2) by auto
  have "num_loop m l a = num_loop (with_num m a (nf_num (m a))) l a" by simp
  also have "\<dots> = num_loop (with_num m a v) l a"
    using num_loop_unfold [OF assms(1,2), of v "nf_num (m a)"] num_loop_unfold [OF assms(1,2), of v v]
      v by (simp add: v_def)
  finally have e: "num_loop m l a = num_loop (with_num m a v) l a" .
  show ?thesis unfolding e using c by blast
qed

lemma num_loop_diverges:
  assumes "lseg m l xs None" "a \<in> set xs"
  shows "num_loop m l a = None"
proof -
  have "\<not> (\<exists>xs. lseg m l xs None \<and> a \<in> set xs)" if h: "num_loop m l a = Some y" for y
  proof (rule num_loop.raw_induct
      [of "\<lambda>m l a y. \<not> (\<exists>xs. lseg m l xs None \<and> a \<in> set xs)", OF _ h], goal_cases)
    case (1 nl m l a y)
    show ?case
    proof
      assume "\<exists>xs. lseg m l xs None \<and> a \<in> set xs"
      then obtain xs where xs: "lseg m l xs None" "a \<in> set xs" by blast
      let ?m = "if nf_num (m a) = 255 then m(a := (m a)\<lparr>nf_num := 0\<rparr>) else m"
      let ?m' = "?m(a := (?m a)\<lparr>nf_num := nf_num (?m a) + 1\<rparr>)"
      have s: "lseg ?m l xs None" "lseg ?m' l xs None"
        using xs by (auto simp: lseg_cong [of _ ?m m] lseg_cong [of _ ?m' m])
      have "List.find (\<lambda>b. nf_num (?m b) = nf_num (?m a)) xs \<noteq> None"
        using xs(2) by (auto simp: find_None_iff)
      then obtain b where "NETIF_FOREACH (\<lambda>b. nf_num (?m b) = nf_num (?m a)) ?m l = Some (Some b)"
        using NETIF_FOREACH_lseg [OF s(1)] by auto
      then have "nl ?m' l a = Some y" using 1(2) by (simp add: Let_def)
      then show False using 1(1) s(2) xs(2) by blast
    qed
  qed
  then show ?thesis using assms by (cases "num_loop m l a") auto
qed

section \<open>Adding an interface\<close>

text \<open>
  What \<open>netif_add\<close> relies on of the initialisation function a driver passes: it reports
  success, writes only its own interface, and leaves the number, the link, the IPv4 settings, the
  state, the input function and the list alone.
\<close>

locale netif_driver =
  fixes init :: netif_init_fn
  assumes init_ok: "fst (init a w) = ERR_OK"
    and init_frame: "b \<noteq> a \<Longrightarrow> nw_mem (snd (init a w)) b = nw_mem w b"
    and init_num: "nf_num (nw_mem (snd (init a w)) a) = nf_num (nw_mem w a)"
    and init_next: "nf_next (nw_mem (snd (init a w)) a) = nf_next (nw_mem w a)"
    and init_addr: "nf_ip_addr (nw_mem (snd (init a w)) a) = nf_ip_addr (nw_mem w a)"
      "nf_netmask (nw_mem (snd (init a w)) a) = nf_netmask (nw_mem w a)"
      "nf_gw (nw_mem (snd (init a w)) a) = nf_gw (nw_mem w a)"
    and init_state: "nf_state (nw_mem (snd (init a w)) a) = nf_state (nw_mem w a)"
      "nf_input (nw_mem (snd (init a w)) a) = nf_input (nw_mem w a)"
    and init_globals: "nw_list (snd (init a w)) = nw_list w"
      "nw_default (snd (init a w)) = nw_default w"
begin

definition prepared :: "addr \<Rightarrow> u32 \<Rightarrow> u32 \<Rightarrow> u32 \<Rightarrow> addr option \<Rightarrow> input_fn \<Rightarrow> nworld \<Rightarrow> nworld" where
  "prepared a ip nm gw st inp w =
     upd a (\<lambda>n. n\<lparr>nf_mtu6 := nf_mtu n\<rparr>) (snd (init a (netif_set_addr a (Some ip) (Some nm) (Some gw)
       (nd6_restart_netif a (upd a (netif_reset st (nw_num w) inp) w)))))"

lemma prepared_simps:
  "b \<noteq> a \<Longrightarrow> nw_mem (prepared a ip nm gw st inp w) b = nw_mem w b"
  "nf_ip_addr (nw_mem (prepared a ip nm gw st inp w) a) = ip"
  "nf_netmask (nw_mem (prepared a ip nm gw st inp w) a) = nm"
  "nf_gw (nw_mem (prepared a ip nm gw st inp w) a) = gw"
  "nf_state (nw_mem (prepared a ip nm gw st inp w) a) = st"
  "nf_input (nw_mem (prepared a ip nm gw st inp w) a) = Some inp"
  "nf_next (nw_mem (prepared a ip nm gw st inp w) b) = nf_next (nw_mem w b)"
  "nw_list (prepared a ip nm gw st inp w) = nw_list w"
  "nw_default (prepared a ip nm gw st inp w) = nw_default w"
  by (cases "b = a"; simp add: prepared_def netif_simps init_frame init_addr init_globals init_next init_state
      ptr_addr_def netif_reset_def)+

lemma netif_add_prepared:
  "netif_add (Some a) ip nm gw st (Some init) inp w =
     (let w = prepared a (ptr_addr ip) (ptr_addr nm) (ptr_addr gw) st inp w in
      Option.bind (num_loop (nw_mem w) (nw_list w) a) (\<lambda>m.
        let w = w\<lparr>nw_mem := m\<rparr>;
            w = w\<lparr>nw_num := (if nf_num (m a) = 254 then 0 else nf_num (m a) + 1)\<rparr>;
            w = upd a (\<lambda>n. n\<lparr>nf_next := nw_list w\<rparr>) w
        in Some (Some a, w\<lparr>nw_list := Some a\<rparr>)))"
  unfolding netif_add_def prepared_def Let_def
  by (simp add: case_prod_beta init_ok Let_def)

lemma add_again_hangs:
  assumes "lseg (nw_mem w) (nw_list w) xs None" "a \<in> set xs"
  shows "netif_add (Some a) ip nm gw st (Some init) inp w = None"
proof -
  let ?w = "prepared a (ptr_addr ip) (ptr_addr nm) (ptr_addr gw) st inp w"
  have "lseg (nw_mem ?w) (nw_list ?w) xs None"
    using assms(1) by (simp add: prepared_simps lseg_cong [of xs "nw_mem ?w" "nw_mem w"])
  then have "num_loop (nw_mem ?w) (nw_list ?w) a = None" using assms(2) by (rule num_loop_diverges)
  then show ?thesis by (simp add: netif_add_prepared)
qed

lemma add_ok:
  assumes "netif_ok w xs" "a \<notin> set xs" "length xs < 255"
  obtains w' where "netif_add (Some a) ip nm gw st (Some init) inp w = Some (Some a, w')"
    "netif_ok w' (a # xs)" "nf_ip_addr (nw_mem w' a) = ptr_addr ip"
    "nf_netmask (nw_mem w' a) = ptr_addr nm" "nf_gw (nw_mem w' a) = ptr_addr gw"
    "nf_state (nw_mem w' a) = st" "nf_input (nw_mem w' a) = Some inp"
    "\<And>b. b \<noteq> a \<Longrightarrow> nw_mem w' b = nw_mem w b" "nw_default w' = nw_default w"
proof -
  let ?w = "prepared a (ptr_addr ip) (ptr_addr nm) (ptr_addr gw) st inp w"
  have neq: "x \<noteq> a" if "x \<in> set xs" for x using that assms(2) by blast
  have s: "lseg (nw_mem ?w) (nw_list ?w) xs None"
    using assms(1) by (simp add: netif_ok_def prepared_simps lseg_cong [of xs "nw_mem ?w" "nw_mem w"])
  obtain c where c: "num_loop (nw_mem ?w) (nw_list ?w) a = Some (with_num (nw_mem ?w) a c)"
      "c \<noteq> 255" "c \<notin> (\<lambda>x. nf_num (nw_mem ?w x)) ` set xs"
    using num_loop_ok [OF s assms(2,3)] by blast
  let ?m = "(with_num (nw_mem ?w) a c)(a := (with_num (nw_mem ?w) a c a)\<lparr>nf_next := nw_list ?w\<rparr>)"
  let ?w' = "?w\<lparr>nw_mem := ?m, nw_num := if c = 254 then 0 else c + 1, nw_list := Some a\<rparr>"
  have add: "netif_add (Some a) ip nm gw st (Some init) inp w = Some (Some a, ?w')"
    using c(1) by (simp add: netif_add_prepared upd_def Let_def)
  have m: "?m b = nw_mem w b" if "b \<noteq> a" for b using that by (simp add: prepared_simps)
  have "lseg ?m (nw_list w) xs None"
    using assms(1) by (subst lseg_cong [of xs ?m "nw_mem w"])
      (simp_all add: netif_ok_def neq prepared_simps)
  then have "netif_ok ?w' (a # xs)"
    using assms(1,2) c(2,3) neq
    by (auto simp: netif_ok_def prepared_simps distinct_map inj_on_def image_iff)
  then show ?thesis using add m by (intro that [of ?w']) (simp_all add: prepared_simps)
qed

end

interpretation loopif: netif_driver netif_loopif_init
  by unfold_locales (simp_all add: netif_loopif_init_def netif_simps)

definition zero_netif :: netif where
  "zero_netif = \<lparr>nf_next = None, nf_ip_addr = 0, nf_netmask = 0, nf_gw = 0,
     nf_ip6_addr = replicate LWIP_IPV6_NUM_ADDRESSES ip6_zero,
     nf_ip6_addr_state = replicate LWIP_IPV6_NUM_ADDRESSES 0,
     nf_ip6_addr_valid_life = replicate LWIP_IPV6_NUM_ADDRESSES 0,
     nf_ip6_addr_pref_life = replicate LWIP_IPV6_NUM_ADDRESSES 0,
     nf_input = None, nf_output = None, nf_linkoutput = None, nf_output_ip6 = None,
     nf_state = None, nf_client_data = None, nf_mtu = 0, nf_mtu6 = 0, nf_hwaddr = replicate 6 0,
     nf_hwaddr_len = 0, nf_flags = 0, nf_name = [CHR 0x00, CHR 0x00], nf_num = 0,
     nf_ip6_autoconfig_enabled = 0, nf_rs_count = 0, nf_mld_mac_filter = None, nf_hints = None,
     nf_loop = [], nf_loop_cnt_current = 0\<rparr>"

definition nworld0 :: nworld where
  "nworld0 = \<lparr>nw_mem = (\<lambda>_. zero_netif), nw_list = None, nw_default = None, nw_num = 0, nw_calls = []\<rparr>"

text \<open>
  C18. Adding an interface that is not on the list while fewer than 255 are registered returns it:
  the search for a number terminates, the new interface comes first on a well-formed list with a
  number no other interface has, carries the addresses given, and no other interface is written.
\<close>

theorem netif_add_correct:
  assumes "netif_driver init" "netif_ok w xs" "a \<notin> set xs" "length xs < 255"
  shows "\<exists>w'. netif_add (Some a) ip nm gw st (Some init) inp w = Some (Some a, w')
    \<and> netif_ok w' (a # xs) \<and> nf_ip_addr (nw_mem w' a) = ptr_addr ip
    \<and> nf_netmask (nw_mem w' a) = ptr_addr nm \<and> nf_gw (nw_mem w' a) = ptr_addr gw
    \<and> nf_state (nw_mem w' a) = st \<and> nf_input (nw_mem w' a) = Some inp
    \<and> (\<forall>b. b \<noteq> a \<longrightarrow> nw_mem w' b = nw_mem w b) \<and> nw_default w' = nw_default w"
  by (rule netif_driver.add_ok [OF assms, of ip nm gw st inp]) blast

lemma netif_ok_empty: "netif_ok nworld0 []"
  by (simp add: netif_ok_def nworld0_def)

lemma netif_add_correct_witness:
  "\<exists>w'. netif_add (Some 7) (Some 1) None None None (Some netif_loopif_init) Tcpip_Input nworld0
     = Some (Some 7, w') \<and> netif_ok w' [7]"
  using netif_add_correct [OF loopif.netif_driver_axioms netif_ok_empty, of 7 "Some 1" None None None
      Tcpip_Input] by auto

text \<open>
  Adding an interface that is already on the list does not return: the search for a number
  meets the interface itself and keeps counting (the assertion that would catch it is compiled
  out).
\<close>

lemma netif_add_twice_hangs:
  assumes "netif_driver init" "netif_ok w xs" "a \<in> set xs"
  shows "netif_add (Some a) ip nm gw st (Some init) inp w = None"
  using assms(2,3) by (intro netif_driver.add_again_hangs [OF assms(1)]) (auto simp: netif_ok_def)

lemma netif_add_twice_hangs_witness:
  "netif_add (Some 7) None None None None (Some netif_loopif_init) Tcpip_Input
     (nworld0\<lparr>nw_list := Some 7\<rparr>) = None"
  by (rule netif_add_twice_hangs [OF loopif.netif_driver_axioms, of _ "[7]"])
    (simp_all add: netif_ok_def nworld0_def zero_netif_def)

section \<open>Removing an interface\<close>

lemma lseg_remove:
  assumes "lseg m p (ys @ b # a # zs) None" "distinct (ys @ b # a # zs)"
  shows "lseg (m(b := (m b)\<lparr>nf_next := nf_next (m a)\<rparr>)) p (ys @ b # zs) None"
proof -
  let ?m = "m(b := (m b)\<lparr>nf_next := nf_next (m a)\<rparr>)"
  have "lseg m p ys (Some b)" "nf_next (m b) = Some a" "lseg m (nf_next (m a)) zs None"
    using assms(1) by (auto simp: lseg_append)
  moreover have "lseg ?m p ys (Some b) = lseg m p ys (Some b)"
    "lseg ?m (nf_next (m a)) zs None = lseg m (nf_next (m a)) zs None"
    using assms(2) by (auto intro!: lseg_cong)
  ultimately show ?thesis by (auto simp: lseg_append)
qed

lemma lseg_next_unique:
  assumes "lseg m p (ys @ b # a # zs) None" "distinct (ys @ b # a # zs)"
  shows "List.find (\<lambda>x. nf_next (m x) = Some a) (ys @ b # a # zs) = Some b"
  using assms
proof (induction ys arbitrary: p)
  case (Cons y ys)
  have "nf_next (m y) \<noteq> Some a"
    using Cons.prems by (cases ys) auto
  then show ?case using Cons by auto
qed auto

lemma and_not_and [simp]: "(x AND NOT y) AND y = 0" for x y :: "'a::len word"
  by (rule bit_word_eqI) (auto simp: bit_simps)

lemma and_minus2_and_1 [simp]: "(x AND - 2) AND 1 = 0" for x :: "'a::len word"
  using and_not_and [of x 1] by simp

lemma lseg_next_in:
  assumes "lseg m p xs None" "x \<in> set xs" "nf_next (m x) = Some a"
  shows "a \<in> set xs"
  using assms
proof (induction xs arbitrary: p)
  case (Cons y ys)
  then show ?case by (cases ys) auto
qed simp

definition removing :: "addr \<Rightarrow> nworld \<Rightarrow> nworld" where
  "removing a w =
     (let w = (if nf_ip_addr (nw_mem w a) \<noteq> 0
               then netif_do_ip_addr_changed (IP4 (nf_ip_addr (nw_mem w a))) None w else w);
          w = drop_ip6_loop [0..<LWIP_IPV6_NUM_ADDRESSES] a w;
          w = note_call (C_mld6_stop a) w;
          w = (if netif_is_flag_set (nw_mem w a) NETIF_FLAG_UP
               then netif_set_down (Some a) w else w)
      in if nw_default w = Some a then netif_set_default None w else w)"

lemma removing_simps:
  "nf_next (nw_mem (removing a w) b) = nf_next (nw_mem w b)"
  "nf_num (nw_mem (removing a w) b) = nf_num (nw_mem w b)"
  "b \<noteq> a \<Longrightarrow> nw_mem (removing a w) b = nw_mem w b"
  "\<not> netif_is_flag_set (nw_mem (removing a w) a) NETIF_FLAG_UP"
  "nw_list (removing a w) = nw_list w"
  "nw_default (removing a w) = (if nw_default w = Some a then None else nw_default w)"
  by (auto simp: removing_def Let_def netif_simps netif_set_default_def netif_is_flag_set_def)

lemma netif_remove_removing:
  "netif_remove (Some a) w =
     (let w = removing a w in
      if nw_list w = Some a then Some (w\<lparr>nw_list := nf_next (nw_mem w a)\<rparr>)
      else Option.bind
             (NETIF_FOREACH (\<lambda>b. nf_next (nw_mem w b) = Some a) (nw_mem w) (nw_list w))
             (\<lambda>tmp. case tmp of
                None \<Rightarrow> Some w
              | Some b \<Rightarrow> Some (upd b (\<lambda>n. n\<lparr>nf_next := nf_next (nw_mem w a)\<rparr>) w)))"
  unfolding netif_remove_def removing_def Let_def by simp


lemma netif_ok_remove1:
  assumes "netif_ok w xs" "lseg (nw_mem w') (nw_list w') (remove1 a xs) None"
    "\<And>x. nf_num (nw_mem w' x) = nf_num (nw_mem w x)"
    "nw_default w' = (if nw_default w = Some a then None else nw_default w)"
  shows "netif_ok w' (remove1 a xs)"
proof -
  have "distinct (map (\<lambda>x. nf_num (nw_mem w x)) (remove1 a xs))"
    using assms(1) set_remove1_subset [of a xs]
    by (auto simp: netif_ok_def distinct_map inj_on_def distinct_remove1)
  then show ?thesis
    using assms set_remove1_subset [of a xs]
    by (auto simp: netif_ok_def distinct_remove1 in_set_remove1)
qed

lemma remove_ok:
  assumes "netif_ok w xs"
  shows "\<exists>w'. netif_remove (Some a) w = Some w' \<and> netif_ok w' (remove1 a xs)
    \<and> \<not> netif_is_flag_set (nw_mem w' a) NETIF_FLAG_UP
    \<and> nw_default w' = (if nw_default w = Some a then None else nw_default w)
    \<and> (\<forall>b. b \<noteq> a \<longrightarrow> (\<exists>nx. nw_mem w' b = (nw_mem w b)\<lparr>nf_next := nx\<rparr>))"
proof -
  let ?r = "removing a w"
  have s: "lseg (nw_mem ?r) (nw_list ?r) xs None"
    using assms by (simp add: netif_ok_def removing_simps lseg_cong [of xs "nw_mem ?r" "nw_mem w"])
  have d: "distinct xs" using assms by (simp add: netif_ok_def)
  have same: "\<exists>nx. nw_mem ?r b = (nw_mem w b)\<lparr>nf_next := nx\<rparr>" if "b \<noteq> a" for b
    using that by (intro exI [of _ "nf_next (nw_mem w b)"]) (simp add: removing_simps)
  consider (out) "a \<notin> set xs" | (first) zs where "xs = a # zs"
    | (later) ys b zs where "xs = ys @ b # a # zs"
  proof (cases "a \<in> set xs")
    case True
    then obtain us zs where u: "xs = us @ a # zs" by (meson split_list)
    then show ?thesis using first later by (cases us rule: rev_cases) auto
  qed (use out in blast)
  then show ?thesis
  proof cases
    case out
    have "nw_list ?r \<noteq> Some a" using s out by (cases xs) auto
    moreover have "List.find (\<lambda>b. nf_next (nw_mem ?r b) = Some a) xs = None"
      using lseg_next_in [OF s] out by (auto simp: find_None_iff)
    ultimately have "netif_remove (Some a) w = Some ?r"
      using NETIF_FOREACH_lseg [OF s] by (simp add: netif_remove_removing Let_def)
    moreover have "netif_ok ?r (remove1 a xs)"
      by (rule netif_ok_remove1 [OF assms]) (use s out in \<open>simp_all add: removing_simps remove1_idem\<close>)
    ultimately show ?thesis using same by (intro exI [of _ ?r]) (simp add: removing_simps)
  next
    case first
    let ?w = "?r\<lparr>nw_list := nf_next (nw_mem ?r a)\<rparr>"
    have "netif_remove (Some a) w = Some ?w"
      using s first by (simp add: netif_remove_removing Let_def)
    moreover have "netif_ok ?w (remove1 a xs)"
      by (rule netif_ok_remove1 [OF assms]) (use s first in \<open>simp_all add: removing_simps\<close>)
    ultimately show ?thesis using same by (intro exI [of _ ?w]) (simp add: removing_simps)
  next
    case later
    let ?w = "upd b (\<lambda>n. n\<lparr>nf_next := nf_next (nw_mem ?r a)\<rparr>) ?r"
    have b: "b \<noteq> a" using d later by auto
    have rm: "remove1 a xs = ys @ b # zs" using d later b by (simp add: remove1_append)
    have "nw_list ?r \<noteq> Some a" using s d later by (cases ys) auto
    then have rem: "netif_remove (Some a) w = Some ?w"
      using NETIF_FOREACH_lseg [OF s] lseg_next_unique [of _ _ ys b a zs] s d later
      by (simp add: netif_remove_removing Let_def)
    have "lseg (nw_mem ?w) (nw_list ?w) (remove1 a xs) None"
      unfolding rm using lseg_remove [of "nw_mem ?r" "nw_list ?r" ys b a zs] s d later
      by (simp add: netif_simps)
    then have "netif_ok ?w (remove1 a xs)"
      by (intro netif_ok_remove1 [OF assms]) (simp_all add: removing_simps netif_simps)
    then show ?thesis using rem same b
      by (intro exI [of _ ?w]) (auto simp: removing_simps netif_simps)
  qed
qed

text \<open>
  Removing an interface that is on the list takes exactly it out: the others stay linked in
  their order with their numbers, the interface is down, and the default is cleared if it was the
  one removed. Removing an interface that is not on the list leaves the list as it is.
\<close>

lemma netif_remove_correct:
  assumes "netif_ok w xs"
  shows "\<exists>w'. netif_remove (Some a) w = Some w' \<and> netif_ok w' (remove1 a xs)
    \<and> \<not> netif_is_flag_set (nw_mem w' a) NETIF_FLAG_UP
    \<and> nw_default w' = (if nw_default w = Some a then None else nw_default w)
    \<and> (\<forall>b. b \<noteq> a \<longrightarrow> (\<exists>nx. nw_mem w' b = (nw_mem w b)\<lparr>nf_next := nx\<rparr>))"
  using assms by (rule remove_ok)

lemma netif_remove_correct_witness:
  "\<exists>w'. netif_remove (Some 7) (nworld0\<lparr>nw_list := Some 7, nw_default := Some 7\<rparr>) = Some w'
     \<and> netif_ok w' [] \<and> nw_default w' = None"
  using netif_remove_correct [of "nworld0\<lparr>nw_list := Some 7, nw_default := Some 7\<rparr>" "[7]" 7]
  by (auto simp: netif_ok_def nworld0_def zero_netif_def)

end
