(* ===== verification/Netif_Props.thy ===== *)
theory Netif_Props
  imports Netif_List
begin

text \<open>
  Further behaviour of the interfaces: names and indexes, the IPv6 addresses, and the loopback
  queue.
\<close>

section \<open>Names and indexes\<close>

lemma of_char_digit: "0 \<le> d \<Longrightarrow> d < 10 \<Longrightarrow> of_char (digit_char d) = (48 + d :: int)"
proof -
  assume d: "0 \<le> d" "d < 10"
  then have "(of_char (digit_char d) :: nat) = nat (48 + d)"
    by (simp add: digit_char_def)
  then have "int (of_char (digit_char d)) = 48 + d" using d by simp
  then show ?thesis by (simp only: of_nat_of_char)
qed

lemma atoi_digits_decimal:
  "atoi_digits acc (decimal n @ rest) = atoi_digits (acc * 10 ^ length (decimal n) + int n) rest"
proof (induction n arbitrary: acc rest rule: decimal.induct)
  case (1 n)
  show ?case
  proof (cases "n < 10")
    case True
    then show ?thesis by (simp add: decimal.simps [of n] of_char_digit algebra_simps)
  next
    case False
    let ?k = "acc * 10 ^ length (decimal (n div 10)) + int (n div 10)"
    have le: "int (n mod 10) \<le> 9" by simp
    then have d: "of_char (digit_char (int (n mod 10))) = (48 + int (n mod 10) :: int)"
      by (intro of_char_digit) auto
    have n: "10 * int (n div 10) + int (n mod 10) = int n"
      by (metis of_nat_add of_nat_mult of_nat_numeral mult_div_mod_eq)
    have "atoi_digits acc (decimal n @ rest) = atoi_digits ?k (digit_char (int (n mod 10)) # rest)"
      using "1.IH" [OF False, of acc "digit_char (int (n mod 10)) # rest"] False
      by (simp add: decimal.simps [of n])
    also have "\<dots> = atoi_digits (10 * ?k + int (n mod 10)) rest"
      unfolding atoi_digits.simps d using le by simp
    also have "10 * ?k + int (n mod 10)
        = acc * 10 ^ Suc (length (decimal (n div 10))) + (10 * int (n div 10) + int (n mod 10))"
      by (simp add: algebra_simps)
    also have "Suc (length (decimal (n div 10))) = length (decimal n)"
      using False by (simp add: decimal.simps [of n])
    finally show ?thesis unfolding n .
  qed
qed

lemma decimal_first: "\<exists>d cs. decimal n = digit_char d # cs \<and> 0 \<le> d \<and> d < 10"
proof (induction n rule: decimal.induct)
  case (1 n)
  then show ?case by (cases "n < 10") (force simp: decimal.simps [of n])+
qed

lemma digit_not_special:
  assumes "0 \<le> d" "d < 10"
  shows "\<not> c_isspace (digit_char d)" "digit_char d \<noteq> CHR ''-''" "digit_char d \<noteq> CHR ''+''"
proof -
  have "48 \<le> (of_char (digit_char d) :: int)" using of_char_digit [OF assms] assms by simp
  then show "\<not> c_isspace (digit_char d)" "digit_char d \<noteq> CHR ''-''" "digit_char d \<noteq> CHR ''+''"
    by (auto simp: c_isspace_def)
qed

lemma atoi_decimal: "atoi (decimal n) = int n"
proof -
  obtain d cs where d: "decimal n = digit_char d # cs" "0 \<le> d" "d < 10" using decimal_first by blast
  have "atoi (decimal n) = atoi_digits 0 (decimal n)"
    using d digit_not_special [of d] by (simp add: atoi_def)
  then show ?thesis using atoi_digits_decimal [of 0 n "[]"] by simp
qed

lemma find_unique:
  assumes "a \<in> set xs" "P a" "\<And>x. x \<in> set xs \<Longrightarrow> P x \<Longrightarrow> x = a"
  shows "List.find P xs = Some a"
  using assms(1,3)
proof (induction xs)
  case (Cons y ys)
  show ?case
  proof (cases "P y")
    case True
    then show ?thesis using Cons.prems(2) [of y] by simp
  next
    case False
    then have "a \<in> set ys" using Cons.prems(1) assms(2) by auto
    then show ?thesis using Cons.IH Cons.prems(2) False by simp
  qed
qed simp

lemma netif_ok_find:
  assumes "netif_ok w xs" "a \<in> set xs" "P a" "\<And>x. x \<in> set xs \<Longrightarrow> P x \<Longrightarrow> nf_num (nw_mem w x) = nf_num (nw_mem w a)"
  shows "NETIF_FOREACH P (nw_mem w) (nw_list w) = Some (Some a)"
proof -
  have inj: "inj_on (\<lambda>x. nf_num (nw_mem w x)) (set xs)"
    using assms(1) by (simp add: netif_ok_def distinct_map)
  have "List.find P xs = Some a"
  proof (rule find_unique [of a xs P, OF assms(2,3)])
    fix x assume "x \<in> set xs" "P x"
    then show "x = a" using inj_onD [OF inj assms(4) _ assms(2)] by blast
  qed
  then show ?thesis using assms(1) NETIF_FOREACH_lseg [of "nw_mem w" "nw_list w" xs P]
    by (simp add: netif_ok_def)
qed

lemma netif_get_by_index_ok:
  assumes "netif_ok w xs" "a \<in> set xs"
  shows "netif_get_by_index (netif_get_index (nw_mem w a)) w = Some (Some a)"
proof -
  have "nf_num (nw_mem w a) \<noteq> 255" using assms by (auto simp: netif_ok_def)
  then have "nf_num (nw_mem w a) < 255" using u8_lt_255 by (simp add: word_less_nat_alt)
  then have "unat (nf_num (nw_mem w a) + 1) \<noteq> 0" by (simp add: unat_Suc_less)
  then have "nf_num (nw_mem w a) + 1 \<noteq> 0" by (metis unsigned_0)
  then show ?thesis using netif_ok_find [OF assms, of "\<lambda>b. netif_get_index (nw_mem w a) = netif_get_index (nw_mem w b)"]
    by (simp add: netif_get_by_index_def netif_get_index_def)
qed

lemma decimal_length: "n < 1000 \<Longrightarrow> length (decimal n) \<le> 3"
  by (simp add: decimal.simps [of n] decimal.simps [of "n div 10"] decimal.simps [of "n div 10 div 10"])

text \<open>
  Names and indexes of registered interfaces are inverse: \<open>netif_index_to_name\<close> fills
  the buffer of six characters with the terminated name of the interface that has the index, and
  looking that name up finds the same interface and the same index.
\<close>

lemma netif_name_roundtrip:
  assumes "netif_ok w xs" "a \<in> set xs" "nf_name (nw_mem w a) = [c, d]" "c \<noteq> CHR 0x00" "d \<noteq> CHR 0x00"
    "length buf = 6"
  shows "\<exists>s. netif_index_to_name (netif_get_index (nw_mem w a)) buf w = Some (Some s)
    \<and> length s = 6 \<and> netif_find (Some (cstr s)) w = Some (Some a)
    \<and> netif_name_to_index (Some (cstr s)) w = Some (netif_get_index (nw_mem w a))"
proof -
  define k where "k = unat (nf_num (nw_mem w a))"
  have n: "nf_num (nw_mem w a) = of_nat k" "nf_num (nw_mem w a) \<noteq> 255"
    using assms(1,2) by (auto simp: netif_ok_def k_def)
  have k: "k < 255" using u8_lt_255 [OF n(2)] by (simp add: k_def)
  have "nf_num (nw_mem w a) < 255" using k by (simp add: word_less_nat_alt k_def)
  then have "unat (netif_get_index (nw_mem w a)) = Suc k"
    by (simp add: netif_get_index_def unat_Suc_less k_def)
  then have idx: "int (unat (netif_get_index (nw_mem w a))) - 1 = int k"
    by (simp only:)
  have l: "length (decimal k) \<le> 3" using k by (intro decimal_length) simp
  have "drop 2 buf \<noteq> []" using assms(6) by simp
  then obtain out where out: "lwip_itoa (drop 2 buf) (int k) = Some out" "length out = 4"
      "cstr out = decimal k"
    using lwip_itoa_writes [of "int k" "drop 2 buf"] assms(6) l
    by (auto simp: decimal_int_def)
  have s: "cstr (c # d # out) = c # d # decimal k"
    using assms(4,5) out(3) by (simp add: cstr_def)
  have "netif_find (Some (c # d # decimal k)) w = Some (Some a)"
    using netif_ok_find [OF assms(1,2), of "\<lambda>b. of_nat k = nf_num (nw_mem w b)
        \<and> c = nf_name (nw_mem w b) ! 0 \<and> d = nf_name (nw_mem w b) ! 1"] assms(3) n(1)
    by (simp add: netif_find_def atoi_decimal)
  then show ?thesis
    using out s netif_get_by_index_ok [OF assms(1,2)] assms(3) idx
    by (intro exI [of _ "c # d # out"])
      (simp add: netif_index_to_name_def netif_name_to_index_def del: of_nat_unat)
qed

lemma netif_name_roundtrip_witness:
  "\<exists>s. netif_index_to_name 1 ''......'' (nworld0\<lparr>nw_list := Some 7, nw_mem := (\<lambda>_. zero_netif\<lparr>nf_name := ''xn''\<rparr>)\<rparr>)
       = Some (Some s)
    \<and> netif_find (Some (cstr s)) (nworld0\<lparr>nw_list := Some 7, nw_mem := (\<lambda>_. zero_netif\<lparr>nf_name := ''xn''\<rparr>)\<rparr>)
       = Some (Some 7)"
  using netif_name_roundtrip [of "nworld0\<lparr>nw_list := Some 7, nw_mem := (\<lambda>_. zero_netif\<lparr>nf_name := ''xn''\<rparr>)\<rparr>"
      "[7]" 7 "CHR ''x''" "CHR ''n''" "''......''"]
  by (auto simp: netif_ok_def nworld0_def zero_netif_def netif_get_index_def)

section \<open>IPv6 addresses\<close>

definition ip6_slots_ok :: "netif \<Rightarrow> bool" where
  "ip6_slots_ok n \<longleftrightarrow> length (nf_ip6_addr n) = LWIP_IPV6_NUM_ADDRESSES
     \<and> length (nf_ip6_addr_state n) = LWIP_IPV6_NUM_ADDRESSES"

lemma ip6_set_state_simps [netif_simps]:
  assumes "idx < LWIP_IPV6_NUM_ADDRESSES"
  obtains w' where "netif_ip6_addr_set_state a idx st w = Some w'"
    "nw_mem w' = (nw_mem w)(a := (nw_mem w a)\<lparr>nf_ip6_addr_state := (nf_ip6_addr_state (nw_mem w a))[idx := st]\<rparr>)"
    "nw_list w' = nw_list w" "nw_default w' = nw_default w" "nw_num w' = nw_num w"
proof -
  let ?r = "netif_ip6_addr_set_state a idx st w"
  have "?r \<noteq> None" using assms by (auto simp: netif_ip6_addr_set_state_def Let_def)
  moreover have "nw_mem (the ?r) = (nw_mem w)(a := (nw_mem w a)\<lparr>nf_ip6_addr_state :=
      (nf_ip6_addr_state (nw_mem w a))[idx := st]\<rparr>)"
    "nw_list (the ?r) = nw_list w" "nw_default (the ?r) = nw_default w" "nw_num (the ?r) = nw_num w"
    using assms by (auto simp: netif_ip6_addr_set_state_def Let_def netif_simps intro!: ext)
  ultimately show ?thesis using that [of "the ?r"] by auto
qed

text \<open>
  \<open>netif_add_ip6_address\<close> on an address whose zone is unset or the interface's own:
  it succeeds exactly when the address is already there or a slot is free, slot 0 being kept for a
  link-local address; afterwards a search for the address gives the reported slot, and the other
  slots are as before.
\<close>

lemma netif_add_ip6_address_correct:
  assumes "ip6_slots_ok (nw_mem w a)" "i6_zone x = 0 \<or> i6_zone x = netif_get_index (nw_mem w a)"
  shows "(\<exists>i w'. netif_add_ip6_address a x w = Some (ERR_OK, Some i, w')
      \<and> i < LWIP_IPV6_NUM_ADDRESSES \<and> netif_get_ip6_addr_match (nw_mem w' a) x = Some i
      \<and> ip6_slots_ok (nw_mem w' a)
      \<and> (netif_get_ip6_addr_match (nw_mem w a) x = None \<longrightarrow> i = 0 \<longrightarrow> ip6_addr_islinklocal x)
      \<and> (\<forall>j<LWIP_IPV6_NUM_ADDRESSES. j \<noteq> i \<longrightarrow>
           nf_ip6_addr (nw_mem w' a) ! j = nf_ip6_addr (nw_mem w a) ! j
           \<and> nf_ip6_addr_state (nw_mem w' a) ! j = nf_ip6_addr_state (nw_mem w a) ! j))
    \<or> netif_add_ip6_address a x w = Some (ERR_VAL, None, w)
      \<and> netif_get_ip6_addr_match (nw_mem w a) x = None
      \<and> (\<forall>j<LWIP_IPV6_NUM_ADDRESSES. (j = 0 \<longrightarrow> ip6_addr_islinklocal x) \<longrightarrow>
           nf_ip6_addr_state (nw_mem w a) ! j \<noteq> IP6_ADDR_INVALID)"
proof (cases "netif_get_ip6_addr_match (nw_mem w a) x")
  case (Some i)
  have "i < LWIP_IPV6_NUM_ADDRESSES"
    using Some by (auto simp: netif_get_ip6_addr_match_def find_Some_iff split: if_splits)
  then show ?thesis using Some assms by (simp add: netif_add_ip6_address_def)
next
  case None
  let ?n = "nw_mem w a"
  let ?s = "[(if ip6_addr_islinklocal x then 0 else 1)..<LWIP_IPV6_NUM_ADDRESSES]"
  show ?thesis
  proof (cases "List.find (\<lambda>i. nf_ip6_addr_state ?n ! i = 0) ?s")
    case None': None
    then have "netif_add_ip6_address a x w = Some (ERR_VAL, None, w)"
      using None by (simp add: netif_add_ip6_address_def)
    moreover have "nf_ip6_addr_state ?n ! j \<noteq> 0"
      if "j < LWIP_IPV6_NUM_ADDRESSES" "j = 0 \<longrightarrow> ip6_addr_islinklocal x" for j
      using None' that by (cases "j = 0") (auto simp: find_None_iff)
    ultimately show ?thesis using None by blast
  next
    case (Some i)
    have i: "i < LWIP_IPV6_NUM_ADDRESSES" "i = 0 \<longrightarrow> ip6_addr_islinklocal x"
      using Some by (auto simp: find_Some_iff nth_append split: if_splits)
    let ?y = "ip6_addr_assign_zone_unicast x ?n"
    let ?w = "upd a (\<lambda>n. n\<lparr>nf_ip6_addr := (nf_ip6_addr n)[i := ip6_addr_assign_zone_unicast x n]\<rparr>) w"
    obtain w' where w': "netif_ip6_addr_set_state a i 8 ?w = Some w'"
        "nw_mem w' = (nw_mem ?w)(a := (nw_mem ?w a)\<lparr>nf_ip6_addr_state := (nf_ip6_addr_state (nw_mem ?w a))[i := 8]\<rparr>)"
      by (rule ip6_set_state_simps [OF i(1), of a 8 ?w])
    have n': "nf_ip6_addr (nw_mem w' a) = (nf_ip6_addr ?n)[i := ?y]"
        "nf_ip6_addr_state (nw_mem w' a) = (nf_ip6_addr_state ?n)[i := 8]"
        "netif_get_index (nw_mem w' a) = netif_get_index ?n"
      by (simp_all add: w'(2) netif_simps netif_get_index_def)
    have nomatch: "\<not> (nf_ip6_addr_state ?n ! j \<noteq> 0 \<and> ip6_addr_cmp_zoneless (nf_ip6_addr ?n ! j) x)"
      if "j < LWIP_IPV6_NUM_ADDRESSES" for j
      using that None assms(2) by (auto simp: netif_get_ip6_addr_match_def find_None_iff)
    have y: "ip6_addr_cmp_zoneless ?y x"
      by (simp add: ip6_addr_cmp_zoneless_def ip6_addr_assign_zone_unicast_def)
    have "List.find (\<lambda>j. (nf_ip6_addr_state ?n)[i := 8] ! j \<noteq> 0
        \<and> ip6_addr_cmp_zoneless ((nf_ip6_addr ?n)[i := ?y] ! j) x) [0..<LWIP_IPV6_NUM_ADDRESSES] = Some i"
    proof (rule find_unique)
      fix j
      assume j: "j \<in> set [0..<LWIP_IPV6_NUM_ADDRESSES]" "(nf_ip6_addr_state ?n)[i := 8] ! j \<noteq> 0
        \<and> ip6_addr_cmp_zoneless ((nf_ip6_addr ?n)[i := ?y] ! j) x"
      then show "j = i" using nomatch [of j] by (cases "j = i") auto
    qed (use i y assms(1) in \<open>auto simp: ip6_slots_ok_def\<close>)
    then have "netif_get_ip6_addr_match (nw_mem w' a) x = Some i"
      unfolding netif_get_ip6_addr_match_def n' using assms(2) by auto
    moreover have "netif_add_ip6_address a x w = Some (ERR_OK, Some i, w')"
      using None Some w'(1) by (simp add: netif_add_ip6_address_def)
    moreover have "ip6_slots_ok (nw_mem w' a)"
      using assms(1) by (simp add: ip6_slots_ok_def n')
    ultimately show ?thesis using i by (auto simp: n')
  qed
qed


lemma netif_add_ip6_address_correct_witness:
  "ip6_slots_ok (nw_mem nworld0 7)
   \<and> (\<exists>w'. netif_add_ip6_address 7 (ip6_zero\<lparr>i6_0 := 1\<rparr>) nworld0 = Some (ERR_OK, Some 1, w')
        \<and> netif_get_ip6_addr_match (nw_mem w' 7) (ip6_zero\<lparr>i6_0 := 1\<rparr>) = Some 1)"
proof -
  have ok: "ip6_slots_ok (nw_mem nworld0 7)"
    by (simp add: ip6_slots_ok_def nworld0_def zero_netif_def)
  have "map_option (\<lambda>(e, i, _). (e, i)) (netif_add_ip6_address 7 (ip6_zero\<lparr>i6_0 := 1\<rparr>) nworld0)
      = Some (ERR_OK, Some 1)"
    by code_simp
  then show ?thesis
    using ok netif_add_ip6_address_correct [of nworld0 7 "ip6_zero\<lparr>i6_0 := 1\<rparr>"]
    by (auto simp: ip6_zero_def)
qed

section \<open>The loopback queue\<close>

text \<open>
  Every buffer on the queue is a packet of its own and the counter is the number of them.
\<close>

definition loop_ok :: "netif \<Rightarrow> bool" where
  "loop_ok n \<longleftrightarrow> list_all (\<lambda>q. wf_pbuf q \<and> p_len q = p_tot_len q) (nf_loop n)
     \<and> unat (nf_loop_cnt_current n) = length (nf_loop n)
     \<and> length (nf_loop n) \<le> LWIP_LOOPBACK_MAX_PBUFS"

fun ip_inputs :: "addr \<Rightarrow> ncall list \<Rightarrow> u8 list list" where
  "ip_inputs a [] = []"
| "ip_inputs a (C_ip_input b p # cs) = (if b = a then pbytes p # ip_inputs a cs else ip_inputs a cs)"
| "ip_inputs a (_ # cs) = ip_inputs a cs"

lemma ip_inputs_append [simp]: "ip_inputs a (cs @ ds) = ip_inputs a cs @ ip_inputs a ds"
  by (induction a cs rule: ip_inputs.induct) auto

text \<open>
  What the delivery relies on of the IP layer's input function: it does not itself send on this
  loopback interface.
\<close>

definition quiet_input :: "(pbuf list \<Rightarrow> addr \<Rightarrow> nworld \<Rightarrow> err_t \<times> nworld) \<Rightarrow> addr \<Rightarrow> bool" where
  "quiet_input ip_input a \<longleftrightarrow>
     (\<forall>p w. nw_mem (snd (ip_input p a w)) a = nw_mem w a
        \<and> ip_inputs a (nw_calls (snd (ip_input p a w))) = ip_inputs a (nw_calls w))"

lemma loop_output_cases:
  assumes "malloc_ok malloc" "wf_chain p" "one_packet p" "p \<noteq> []" "loop_ok (nw_mem w a)"
  obtains (sent) w' r where "netif_loop_output malloc a p w = Some (ERR_OK, w')"
      "nf_loop (nw_mem w' a) = nf_loop (nw_mem w a) @ [r]" "pbytes [r] = pbytes p"
      "loop_ok (nw_mem w' a)" "ip_inputs a (nw_calls w') = ip_inputs a (nw_calls w)"
      "nw_calls w' = nw_calls w @ (if nf_loop (nw_mem w a) = [] then [C_try_callback_netif_poll a] else [])"
  | (nomem) "netif_loop_output malloc a p w = Some (ERR_MEM, w)"
      "ar_chain (pbuf_alloc malloc PBUF_LINK (p_tot_len (hd p)) PBUF_RAM) = []"
  | (full) r where "netif_loop_output malloc a p w = Some (ERR_MEM, note_call (C_pbuf_free [r]) w)"
      "length (nf_loop (nw_mem w a)) = LWIP_LOOPBACK_MAX_PBUFS"
proof -
  obtain p0 ps where p: "p = p0 # ps" using assms(4) by (cases p) auto
  let ?r = "ar_chain (pbuf_alloc malloc PBUF_LINK (p_tot_len p0) PBUF_RAM)"
  show thesis
  proof (cases "?r = []")
    case True
    then show ?thesis using nomem by (simp add: netif_loop_output_def p)
  next
    case False
    then obtain r where r: "?r = [r]"
      by (auto simp: pbuf_alloc_ram pool_ok_def split: if_splits option.splits)
    have ok: "wf_chain [r]" "plen [r] = unat (p_tot_len p0)" "p_tot_len r = p_tot_len p0"
      using pbuf_alloc_ok [OF assms(1) _ r] by auto
    let ?cnt = "nf_loop_cnt_current (nw_mem w a)"
    have clen: "pbuf_clen [r] = 1" by (simp add: pbuf_clen_def)
    have cnt: "unat ?cnt = length (nf_loop (nw_mem w a))" "unat ?cnt \<le> 16"
      using assms(5) by (auto simp: loop_ok_def LWIP_LOOPBACK_MAX_PBUFS_def)
    show ?thesis
    proof (cases "unat ?cnt = 16")
      case True
      then show ?thesis using full [of r] r clen cnt(1)
        by (simp add: netif_loop_output_def p LWIP_LOOPBACK_MAX_PBUFS_def Let_def)
    next
      case False
      have "plen p \<le> plen [r]" using ok(2) assms(2) p by (simp add: chain_simps)
      then obtain qs where qs: "pbuf_copy [r] p = (ERR_OK, qs)" "wf_chain qs" "same_shape qs [r]"
          "pbytes qs = pbytes p @ drop (plen p) (pbytes [r])"
        using pbuf_copy_bytes [OF ok(1) assms(2) _ assms(3,4)] by auto
      then obtain q where q: "qs = [q]" "p_len q = p_len r" "p_tot_len q = p_tot_len r"
        by (auto simp: same_shape_def list_all2_Cons2)
      have pl: "plen p = unat (p_tot_len p0)" using assms(2) p by (simp add: chain_simps)
      have bytes: "pbytes [q] = pbytes p"
        using qs(4) ok pl by (simp add: q(1) chain_simps)
      have len: "p_len q = p_tot_len q" using ok(2,3) q by (simp add: word_unatI)
      have u: "unat (?cnt + 1) = unat ?cnt + 1"
        using cnt(2) by (simp add: unat_plus_no_wrap)
      define w' where "w' = (if nf_loop (nw_mem w a) = [] then note_call (C_try_callback_netif_poll a) else (\<lambda>w. w))
        (upd a (\<lambda>n. n\<lparr>nf_loop := nf_loop n @ [q]\<rparr>) (upd a (\<lambda>n. n\<lparr>nf_loop_cnt_current := ?cnt + 1\<rparr>) w))"
      have "netif_loop_output malloc a p w = Some (ERR_OK, w')"
        using r clen qs(1) cnt False
        by (simp add: netif_loop_output_def p LWIP_LOOPBACK_MAX_PBUFS_def Let_def w'_def q(1) netif_simps)
      moreover have "nw_mem w' a = (nw_mem w a)\<lparr>nf_loop_cnt_current := ?cnt + 1, nf_loop := nf_loop (nw_mem w a) @ [q]\<rparr>"
        by (simp add: w'_def netif_simps)
      moreover have "wf_pbuf q" using qs(2) by (simp add: q(1) wf_chain_def)
      moreover have "nw_calls w' = nw_calls w @ (if nf_loop (nw_mem w a) = [] then [C_try_callback_netif_poll a] else [])"
        by (simp add: w'_def netif_simps)
      ultimately show ?thesis using bytes len u cnt False assms(5)
        by (intro sent [of w' q]) (auto simp: loop_ok_def LWIP_LOOPBACK_MAX_PBUFS_def)
    qed
  qed
qed


lemma poll_drains:
  assumes "quiet_input ip_input a" "loop_ok (nw_mem w a)"
  shows "\<exists>w'. netif_poll ip_input a w = Some w' \<and> nf_loop (nw_mem w' a) = []
    \<and> loop_ok (nw_mem w' a)
    \<and> ip_inputs a (nw_calls w') = ip_inputs a (nw_calls w) @ map pdata (nf_loop (nw_mem w a))"
  using assms(2)
proof (induction "nf_loop (nw_mem w a)" arbitrary: w)
  case Nil
  then show ?case by (intro exI [of _ w]) (simp add: netif_poll.simps [of _ a w])
next
  case (Cons q qs)
  let ?n = "nw_mem w a"
  let ?q = "q\<lparr>p_if_idx := netif_get_index ?n\<rparr>"
  define w1 where "w1 = note_call (C_ip_input a [?q]) (upd a (\<lambda>n. n\<lparr>nf_loop_cnt_current :=
      nf_loop_cnt_current n - 1, nf_loop := qs\<rparr>) w)"
  define w2 where "w2 = snd (ip_input [?q] a w1)"
  define w3 where "w3 = (if fst (ip_input [?q] a w1) \<noteq> ERR_OK then note_call (C_pbuf_free [?q]) w2 else w2)"
  note L = Cons.hyps(2) [symmetric]
  have q: "p_len q = p_tot_len q" "wf_pbuf q" and qs: "list_all (\<lambda>q. wf_pbuf q \<and> p_len q = p_tot_len q) qs"
    and cnt: "unat (nf_loop_cnt_current ?n) = Suc (length qs)" "Suc (length qs) \<le> LWIP_LOOPBACK_MAX_PBUFS"
    using Cons.prems by (simp_all add: loop_ok_def L)
  have "netif_poll ip_input a w = netif_poll ip_input a w3"
    using L q(1)
    by (simp add: netif_poll.simps [of _ a w] Let_def case_prod_beta w1_def w2_def w3_def netif_simps
        netif_get_index_def)
  moreover have n3: "nw_mem w3 a = ?n\<lparr>nf_loop_cnt_current := nf_loop_cnt_current ?n - 1, nf_loop := qs\<rparr>"
    using assms(1) by (simp add: w3_def w2_def w1_def quiet_input_def netif_simps)
  moreover have c3: "ip_inputs a (nw_calls w3) = ip_inputs a (nw_calls w) @ [pdata q]"
    using assms(1) by (simp add: w3_def w2_def w1_def quiet_input_def netif_simps pbytes_def pdata_def
        payload_read_def)
  moreover have "loop_ok (nw_mem w3 a)"
  proof -
    have "unat (nf_loop_cnt_current ?n - 1) = length qs"
      using cnt(1) by (simp add: unat_minus_no_wrap)
    then show ?thesis using qs cnt(2) by (simp add: n3 loop_ok_def)
  qed
  moreover have "qs = nf_loop (nw_mem w3 a)" by (simp add: n3)
  ultimately show ?case using Cons.hyps(1) [of w3] L by auto
qed




end
