(* ===== verification/Xnet_Tap.thy ===== *)
theory Xnet_Tap
  imports Netif_Props
begin

text \<open>
  \<^verbatim>\<open>externals/libzt-jni/xnet_tap.c\<close> with \<^verbatim>\<open>xnet_internal.h\<close>: the bridge
  between the ZeroTier node and lwIP. \<open>xworld\<close> holds the globals of the client:
  the tap registry, the flags and the lwIP interfaces. The interface embedded in
  \<^verbatim>\<open>g_taps[i]\<close> lives at address \<open>i\<close> of \<open>x_net\<close>; a pointer to the tap is
  the index \<open>i\<close>. What leaves the client is kept in order in \<open>x_events\<close>: the calls of
  \<^verbatim>\<open>g_callback\<close>, the frames and packets given to the node and to lwIP, directories
  made, datagrams sent and descriptors closed.
  A call that does not return or dereferences \<^verbatim>\<open>NULL\<close> is the result \<open>None\<close>.
\<close>

section \<open>State\<close>

record xnet_tap =
  t_nwid :: u64
  t_mac :: u64
  t_mtu :: u32
  t_has_ip4 :: bool
  t_has_ip6 :: bool
  t_ip4_addr :: u32
  t_ip6_addr :: "u8 list"
  t_netif_up :: bool

datatype xevent =
    Callback int
  | Node_Frame u64 u64 u64 u16 "u8 list"
  | Netif_Input addr "pbuf list"
  | Pbuf_Free "pbuf list"
  | Mkdir string
  | Sendto int "u8 list"
  | Close int
  | Wire_Packet "u8 list"
  | Background

record xworld =
  x_net :: nworld
  x_taps :: "xnet_tap list"
  x_tap_count :: nat
  x_node :: bool
  x_callback :: bool
  x_running :: bool
  x_lwip_up :: bool
  x_node_online :: bool
  x_home :: string
  x_port :: int
  x_lwip_inited :: bool
  x_udp4 :: int
  x_udp6 :: int
  x_files :: "string \<Rightarrow> u8 list option"
  x_events :: "xevent list"

definition emit :: "xevent \<Rightarrow> xworld \<Rightarrow> xworld" where
  "emit e x = x\<lparr>x_events := x_events x @ [e]\<rparr>"

text \<open>\<^verbatim>\<open>if (g_callback) g_callback(code, NULL)\<close>\<close>

definition notify :: "int \<Rightarrow> xworld \<Rightarrow> xworld" where
  "notify code x = (if x_callback x then emit (Callback code) x else x)"

definition upd_tap :: "nat \<Rightarrow> (xnet_tap \<Rightarrow> xnet_tap) \<Rightarrow> xworld \<Rightarrow> xworld" where
  "upd_tap i f x = x\<lparr>x_taps := (x_taps x)[i := f (x_taps x ! i)]\<rparr>"

abbreviation (input) AF_INET :: int where "AF_INET \<equiv> 2"
abbreviation (input) AF_INET6 :: int where "AF_INET6 \<equiv> 10"

section \<open>Start and stop of the stack\<close>

definition tcpip_init_done :: "xworld \<Rightarrow> xworld" where
  "tcpip_init_done x = notify 230 (x\<lparr>x_lwip_inited := True, x_lwip_up := True\<rparr>)"

text \<open>
  \<^verbatim>\<open>tcpip_init\<close> runs \<^verbatim>\<open>netif_init\<close> and starts the thread that calls
  \<open>tcpip_init_done\<close>, for which the caller waits.
\<close>

definition xnet_lwip_init :: "xworld \<Rightarrow> xworld option" where
  "xnet_lwip_init x =
     (if \<not> x_lwip_inited x
      then map_option (\<lambda>w. tcpip_init_done (x\<lparr>x_net := w\<rparr>)) (netif_init (x_net x))
      else Some x)"

definition xnet_lwip_shutdown :: "xworld \<Rightarrow> xworld" where
  "xnet_lwip_shutdown x = notify 231 (x\<lparr>x_lwip_up := False\<rparr>)"

section \<open>MAC addresses\<close>

definition mac_to_bytes :: "u64 \<Rightarrow> u8 list" where
  "mac_to_bytes mac =
     [ucast (drop_bit 40 mac AND 0xff), ucast (drop_bit 32 mac AND 0xff),
      ucast (drop_bit 24 mac AND 0xff), ucast (drop_bit 16 mac AND 0xff),
      ucast (drop_bit 8 mac AND 0xff), ucast (mac AND 0xff)]"

definition bytes_to_mac :: "u8 list \<Rightarrow> u64" where
  "bytes_to_mac b =
     push_bit 40 (ucast (b ! 0)) OR push_bit 32 (ucast (b ! 1)) OR push_bit 24 (ucast (b ! 2))
     OR push_bit 16 (ucast (b ! 3)) OR push_bit 8 (ucast (b ! 4)) OR ucast (b ! 5)"

section \<open>From lwIP to the node\<close>

text \<open>
  \<open>stack\<close> is what the local buffer of 2048 bytes holds before the copy. The frame given to
  \<^verbatim>\<open>ZT_Node_processVirtualNetworkFrame\<close> is noted with network, source, destination, type
  and data.
\<close>

definition netif_linkoutput ::
    "u8 list \<Rightarrow> addr \<Rightarrow> pbuf list \<Rightarrow> xworld \<Rightarrow> (err_t \<times> xworld) option" where
  "netif_linkoutput stack nif p x =
     (case nf_state (nw_mem (x_net x) nif) of
        None \<Rightarrow> Some (ERR_IF, x)
      | Some tap \<Rightarrow>
          if \<not> x_node x then Some (ERR_IF, x)
          else
            (case p of
               [] \<Rightarrow> None
             | p0 # _ \<Rightarrow>
                 let total = p_tot_len p0 in
                 if total > 2048 \<or> total < 14 then Some (ERR_BUF, x)
                 else
                   Option.bind (pbuf_copy_partial p (Some stack) total 0) (\<lambda>(_, buf).
                     let dst = bytes_to_mac buf;
                         src = bytes_to_mac (drop 6 buf);
                         etype = push_bit 8 (ucast (buf ! 12)) OR ucast (buf ! 13) :: u16
                     in Some (ERR_OK,
                          emit (Node_Frame (t_nwid (x_taps x ! tap)) src dst etype
                                  (take (unat total - 14) (drop 14 buf))) x))))"

section \<open>Setting up and tearing down an interface\<close>

text \<open>
  \<open>tap\<close> is the tap \<^verbatim>\<open>nif->state\<close> points to; \<^verbatim>\<open>netif_add\<close> stores the pointer
  before it calls the function.
\<close>

definition netif_init_cb :: "xnet_tap \<Rightarrow> netif_init_fn" where
  "netif_init_cb tap nif w =
     (let w = upd nif (\<lambda>n. n\<lparr>nf_name := ''xn'', nf_hwaddr_len := 6,
                nf_hwaddr := mac_to_bytes (t_mac tap),
                nf_mtu := ucast (if t_mtu tap \<noteq> 0 then t_mtu tap else 1400),
                nf_linkoutput := Some Netif_Linkoutput, nf_output := Some Etharp_Output,
                nf_output_ip6 := Some Ethip6_Output,
                nf_flags := NETIF_FLAG_BROADCAST OR NETIF_FLAG_ETHARP OR NETIF_FLAG_ETHERNET
                            OR NETIF_FLAG_LINK_UP\<rparr>) w;
          w = netif_set_link_up (Some nif) w;
          w = netif_set_up (Some nif) w
      in (ERR_OK, w))"

text \<open>The 16 bytes of an IPv6 address in memory order; the zone of the local variable is not set.\<close>

definition word_at :: "u8 list \<Rightarrow> nat \<Rightarrow> u32" where
  "word_at bs k = ucast (bs ! k) OR push_bit 8 (ucast (bs ! (k + 1)))
     OR push_bit 16 (ucast (bs ! (k + 2))) OR push_bit 24 (ucast (bs ! (k + 3)))"

definition ip6_of_bytes :: "u8 \<Rightarrow> u8 list \<Rightarrow> ip6_addr_t" where
  "ip6_of_bytes zone bs = \<lparr>i6_0 = word_at bs 0, i6_1 = word_at bs 4, i6_2 = word_at bs 8,
     i6_3 = word_at bs 12, i6_zone = zone\<rparr>"

definition setup_ip4 :: "nat \<Rightarrow> xworld \<Rightarrow> xworld option" where
  "setup_ip4 i x =
     (let tap = x_taps x ! i in
      map_option (\<lambda>(_, w). upd_tap i (\<lambda>t. t\<lparr>t_netif_up := True\<rparr>)
                             (x\<lparr>x_net := netif_set_default (Some i) w\<rparr>))
        (netif_add (Some i) (Some (t_ip4_addr tap)) (Some (IP4_ADDR 255 255 255 0))
           (Some (IP4_ADDR 0 0 0 0)) (Some i) (Some (netif_init_cb tap)) Tcpip_Input (x_net x)))"

definition setup_ip6 :: "u8 \<Rightarrow> nat \<Rightarrow> xworld \<Rightarrow> xworld option" where
  "setup_ip6 zone i x =
     Option.bind (netif_add_ip6_address i (ip6_of_bytes zone (t_ip6_addr (x_taps x ! i))) (x_net x))
       (\<lambda>(_, idx, w).
          Option.bind (case idx of
                         Some k \<Rightarrow> netif_ip6_addr_set_state i k IP6_ADDR_VALID w
                       | None \<Rightarrow> Some w)
            (\<lambda>w. map_option (\<lambda>w. x\<lparr>x_net := w\<rparr>) (netif_create_ip6_linklocal_address i True w)))"

definition xnet_tap_setup_netif :: "u8 \<Rightarrow> nat \<Rightarrow> int \<Rightarrow> xworld \<Rightarrow> xworld option" where
  "xnet_tap_setup_netif zone i family x =
     (if t_netif_up (x_taps x ! i) then Some x
      else
        Option.bind (if family = AF_INET \<and> t_has_ip4 (x_taps x ! i) then setup_ip4 i x else Some x)
          (\<lambda>x. if family = AF_INET6 \<and> t_has_ip6 (x_taps x ! i) \<and> t_netif_up (x_taps x ! i)
               then setup_ip6 zone i x else Some x))"

definition xnet_tap_teardown :: "nat \<Rightarrow> xworld \<Rightarrow> xworld option" where
  "xnet_tap_teardown i x =
     (if \<not> t_netif_up (x_taps x ! i) then Some x
      else
        map_option (\<lambda>w. upd_tap i (\<lambda>t. t\<lparr>t_netif_up := False, t_has_ip4 := False, t_has_ip6 := False\<rparr>)
                          (x\<lparr>x_net := w\<rparr>))
          (netif_remove (Some i)
             (netif_set_link_down (Some i) (netif_set_down (Some i) (x_net x)))))"

section \<open>From the node to lwIP\<close>

text \<open>
  \<open>input\<close> is the answer of the interface's input function and the state it leaves; the packet
  it gets is noted first. \<open>data\<close> holds the \<^verbatim>\<open>len\<close> bytes the node passes; the sum
  14 + \<^verbatim>\<open>len\<close> is cut to 16 bits, and so is \<^verbatim>\<open>len\<close> where it is passed on. The
  results of \<^verbatim>\<open>pbuf_take_at\<close> are not looked at.
\<close>

definition frame_header :: "u64 \<Rightarrow> u64 \<Rightarrow> u32 \<Rightarrow> u8 list" where
  "frame_header srcMac dstMac etherType =
     mac_to_bytes dstMac @ mac_to_bytes srcMac
     @ [ucast (drop_bit 8 etherType AND 0xff), ucast (etherType AND 0xff)]"

definition xnet_tap_rx ::
    "allocator \<Rightarrow> (pbuf list \<Rightarrow> addr \<Rightarrow> xworld \<Rightarrow> err_t \<times> xworld)
      \<Rightarrow> nat \<Rightarrow> u64 \<Rightarrow> u64 \<Rightarrow> u32 \<Rightarrow> u8 list \<Rightarrow> u32 \<Rightarrow> xworld \<Rightarrow> xworld option" where
  "xnet_tap_rx malloc input i srcMac dstMac etherType data len x =
     (if \<not> t_netif_up (x_taps x ! i) \<or> \<not> x_lwip_up x then Some x
      else
        let total = ucast (14 + len) :: u16;
            p = ar_chain (pbuf_alloc malloc PBUF_RAW total PBUF_POOL)
        in if p = [] then Some x
           else
             Option.bind (pbuf_take_at p (frame_header srcMac dstMac etherType) 14 0) (\<lambda>(_, p).
             Option.bind (pbuf_take_at p data (ucast len) 14) (\<lambda>(_, p).
               if nf_input (nw_mem (x_net x) i) = None then None
               else
                 let (err, x) = input p i (emit (Netif_Input i p) x)
                 in Some (if err \<noteq> ERR_OK then emit (Pbuf_Free p) x else x))))"

lemma unat_ucast_u32_u16: "unat (ucast (w :: u32) :: u16) = unat w mod 65536"
proof -
  have "unat (ucast w :: u16) = take_bit 16 (unat w)"
    by (simp add: unsigned_ucast_eq unsigned_take_bit_eq)
  then show ?thesis by (simp add: take_bit_eq_mod)
qed

lemma u8_high_bit: "8 \<le> n \<Longrightarrow> \<not> bit (b :: u8) n"
  using bit_imp_le_length [of b n] by auto

lemma mac_to_bytes_bytes:
  assumes "length b = 6"
  shows "mac_to_bytes (bytes_to_mac b) = b"
proof -
  obtain b0 b1 b2 b3 b4 b5 where b: "b = [b0, b1, b2, b3, b4, b5]"
    using assms by (auto simp: length_Suc_conv numeral_eq_Suc)
  show ?thesis
    unfolding b mac_to_bytes_def bytes_to_mac_def
    by (auto intro!: bit_word_eqI simp: bit_simps byte_masks u8_high_bit)
qed

lemma bytes_to_mac_append: "length b = 6 \<Longrightarrow> bytes_to_mac (b @ r) = bytes_to_mac b"
  by (simp add: bytes_to_mac_def nth_append)

lemma length_mac_to_bytes [simp]: "length (mac_to_bytes m) = 6"
  by (simp add: mac_to_bytes_def)

lemma etype_bytes: "[ucast (drop_bit 8 e AND 0xff), ucast (e AND 0xff)] = [h, l :: u8]"
  if "e = ucast (push_bit 8 (ucast h) OR ucast l :: u16)" for e :: u32
  unfolding that by (auto intro!: bit_word_eqI simp: bit_simps byte_masks u8_high_bit)


lemma chain_put_take_at:
  "chain_put ps bs off = Some qs \<Longrightarrow>
     pbuf_take_at ps bs (of_nat (length bs)) (of_nat off) = Some (ERR_OK, qs)"
  by (auto simp: chain_put_def split: option.splits prod.splits err_t.splits)

lemma length_frame_header [simp]: "length (frame_header s d e) = 14"
  by (simp add: frame_header_def)

lemma take_at_end:
  assumes "wf_chain ps" "plen ps = unat off"
  shows "pbuf_take_at ps bs n off = Some (ERR_MEM, ps)"
proof -
  have "fst (pbuf_skip_const ps off) = []"
    using pbuf_skip_const_Nil [of ps off] assms by (auto simp: wf_chain_def)
  then show ?thesis by (simp add: pbuf_take_at_def pbuf_skip_def case_prod_beta Let_def)
qed

text \<open>What the interface's input function gets for a frame that fits into 16 bits.\<close>

lemma rx_packet:
  assumes "malloc_ok malloc" "unat len \<le> 65521" "length data = unat len"
    "t_netif_up (x_taps x ! i)" "x_lwip_up x" "nf_input (nw_mem (x_net x) i) \<noteq> None"
    "ar_chain (pbuf_alloc malloc PBUF_RAW (ucast (14 + len)) PBUF_POOL) \<noteq> []"
  obtains p where "wf_chain p" "pbytes p = frame_header s d e @ data"
    "xnet_tap_rx malloc input i s d e data len x
      = Some (let (err, x') = input p i (emit (Netif_Input i p) x)
              in if err \<noteq> ERR_OK then emit (Pbuf_Free p) x' else x')"
proof -
  let ?h = "frame_header s d e"
  define total where "total = (ucast (14 + len) :: u16)"
  define p0 where "p0 = ar_chain (pbuf_alloc malloc PBUF_RAW total PBUF_POOL)"
  have "unat (14 + len) = 14 + unat len" using assms(2) by (simp add: unat_plus_no_wrap)
  then have tot: "unat total = 14 + length data"
    using assms(2,3) by (simp add: total_def unat_ucast_u32_u16)
  have "p0 \<noteq> []" using assms(7) by (simp add: p0_def total_def)
  then obtain q qs where "p0 = q # qs" by (cases p0) auto
  then have p0: "wf_chain p0" "length (pbytes p0) = length ?h + length data" "plen p0 = 14 + length data"
    using pbuf_alloc_ok [OF assms(1), of PBUF_POOL PBUF_RAW total q qs] tot
    by (auto simp: p0_def chain_simps)
  have l14: "(of_nat (length ?h) :: u16) = 14" by simp
  have ln: "(of_nat (length data) :: u16) = ucast len"
    using assms(2,3) by (intro word_unatI) (simp add: unat_ucast_u32_u16 unat_of_nat_u16)
  have ne: "?h \<noteq> []" using length_frame_header [of s d e] by force
  obtain s1 where s1: "chain_put p0 ?h 0 = Some s1" "wf_chain s1"
      "data = [] \<longrightarrow> pbytes s1 = ?h"
      "data \<noteq> [] \<longrightarrow> (\<exists>s2. chain_put s1 data (length ?h) = Some s2 \<and> wf_chain s2 \<and> pbytes s2 = ?h @ data)"
    using chain.put_header_body [OF p0(1) ne p0(2)] by blast
  note t1 = chain_put_take_at [OF s1(1), unfolded l14]
  have "\<exists>e2 p. pbuf_take_at s1 data (ucast len) 14 = Some (e2, p) \<and> wf_chain p \<and> pbytes p = ?h @ data"
  proof (cases "data = []")
    case True
    then have "plen s1 = unat (14 :: u16)" using s1(2,3) wf_chain_length [of s1] by simp
    then show ?thesis using take_at_end [OF s1(2), of 14] True s1 by auto
  next
    case False
    then obtain s2 where s2: "chain_put s1 data (length ?h) = Some s2" "wf_chain s2" "pbytes s2 = ?h @ data"
      using s1(4) by blast
    then show ?thesis using chain_put_take_at [OF s2(1)] ln by (simp add: l14)
  qed
  then obtain e2 p where p: "pbuf_take_at s1 data (ucast len) 14 = Some (e2, p)" "wf_chain p"
      "pbytes p = ?h @ data" by blast
  have "xnet_tap_rx malloc input i s d e data len x
      = Some (let (err, x') = input p i (emit (Netif_Input i p) x)
              in if err \<noteq> ERR_OK then emit (Pbuf_Free p) x' else x')"
    using assms(4-6) \<open>p0 \<noteq> []\<close> t1 p(1)
    by (simp add: xnet_tap_rx_def Let_def total_def [symmetric] p0_def [symmetric] case_prod_beta)
  then show thesis using p(2,3) that by blast
qed


text \<open>What the driver hands to the node for a frame in parts.\<close>

lemma linkoutput_frame:
  assumes "wf_chain p" "pbytes p = dst @ src @ [h, lo] @ data" "length dst = 6" "length src = 6"
    "plen p \<le> 2048" "length stack = 2048" "nf_state (nw_mem (x_net x) nif) = Some tap" "x_node x"
  shows "netif_linkoutput stack nif p x = Some (ERR_OK, emit (Node_Frame (t_nwid (x_taps x ! tap))
    (bytes_to_mac src) (bytes_to_mac dst) (push_bit 8 (ucast h) OR ucast lo) data) x)"
proof -
  have "p \<noteq> []" using assms(2) by (auto simp: pbytes_def)
  then obtain p0 ps where p: "p = p0 # ps" by (cases p) auto
  define total where "total = p_tot_len p0"
  have l: "length (pbytes p) = plen p" using assms(1) by (rule wf_chain_length)
  then have n: "plen p = 14 + length data" using assms(2-4) by simp
  have tot: "unat total = plen p" using assms(1) p by (simp add: total_def chain_simps)
  define buf where "buf = dst @ src @ [h, lo] @ data @ drop (plen p) stack"
  have "mem_write stack 0 (pbytes p) = buf"
    using l assms(2,5,6) by (simp add: mem_write_def buf_def)
  then obtain k where k: "pbuf_copy_partial p (Some stack) total 0 = Some (k, buf)"
    using pbuf_copy_partial_bytes [OF assms(1) \<open>p \<noteq> []\<close>, of total stack 0] tot l assms(5,6) by auto
  have d: "bytes_to_mac buf = bytes_to_mac dst" "bytes_to_mac (drop 6 buf) = bytes_to_mac src"
    by (simp_all add: buf_def bytes_to_mac_append assms(3,4))
  have hl: "buf ! 12 = h" "buf ! 13 = lo" "take (unat total - 14) (drop 14 buf) = data"
    by (simp_all add: buf_def nth_append assms(3,4) tot n)
  have "\<not> total > 2048" "\<not> total < 14" using assms(5) tot n by (simp_all add: word_less_nat_alt)
  then show ?thesis
    using assms(7,8) k by (simp add: netif_linkoutput_def p Let_def total_def [symmetric] d hl)
qed

lemma frame_parts:
  assumes "14 \<le> length bs"
  obtains dst src h lo data where "bs = dst @ src @ [h, lo] @ data" "length dst = 6" "length src = 6"
proof
  have e: "drop 12 bs = drop 6 (drop 6 bs)" by simp
  have "bs = take 6 bs @ take 6 (drop 6 bs) @ drop 12 bs"
    unfolding e by (simp only: append_take_drop_id)
  moreover have "drop 12 bs = bs ! 12 # drop 13 bs" "drop 13 bs = bs ! 13 # drop 14 bs"
    using assms Cons_nth_drop_Suc [of 12 bs] Cons_nth_drop_Suc [of 13 bs] by simp_all
  ultimately show "bs = take 6 bs @ take 6 (drop 6 bs) @ [bs ! 12, bs ! 13] @ drop 14 bs" by simp
  show "length (take 6 bs) = 6" "length (take 6 (drop 6 bs)) = 6" using assms by auto
qed

lemma tx_frame:
  assumes "wf_chain p" "p \<noteq> []" "14 \<le> plen p" "plen p \<le> 2048" "length stack = 2048"
    "nf_state (nw_mem (x_net x) nif) = Some tap" "x_node x"
  obtains s d e data where
    "netif_linkoutput stack nif p x = Some (ERR_OK, emit (Node_Frame (t_nwid (x_taps x ! tap)) s d e data) x)"
    "frame_header s d (ucast e) @ data = pbytes p"
proof -
  have "14 \<le> length (pbytes p)" using assms(1,3) by (simp add: wf_chain_length)
  then obtain dst src h lo data where
    parts: "pbytes p = dst @ src @ [h, lo] @ data" "length dst = 6" "length src = 6"
    by (rule frame_parts)
  let ?e = "push_bit 8 (ucast h) OR ucast lo :: u16"
  have "frame_header (bytes_to_mac src) (bytes_to_mac dst) (ucast ?e) @ data = pbytes p"
    unfolding frame_header_def mac_to_bytes_bytes [OF parts(2)] mac_to_bytes_bytes [OF parts(3)]
      etype_bytes [OF refl] by (simp add: parts(1))
  then show thesis by (rule that [OF linkoutput_frame [OF assms(1) parts assms(4-7)]])
qed

text \<open>
  A frame the node passes for a network whose interface is up reaches lwIP unchanged: for up to
  65521 bytes of data the interface's input function is called once, with a well-formed packet that
  holds the Ethernet header made of the addresses and the type, followed by the data; the packet is
  freed exactly if the function reports an error.
\<close>

lemma xnet_tap_rx_delivers:
  assumes "malloc_ok malloc" "unat len \<le> 65521" "length data = unat len"
    "t_netif_up (x_taps x ! i)" "x_lwip_up x" "nf_input (nw_mem (x_net x) i) \<noteq> None"
    "ar_chain (pbuf_alloc malloc PBUF_RAW (ucast (14 + len)) PBUF_POOL) \<noteq> []"
  shows "\<exists>p. wf_chain p \<and> pbytes p = frame_header s d e @ data
    \<and> xnet_tap_rx malloc input i s d e data len x
      = Some (let (err, x') = input p i (emit (Netif_Input i p) x)
              in if err \<noteq> ERR_OK then emit (Pbuf_Free p) x' else x')"
  by (rule rx_packet [OF assms, of s d e input]) blast

definition sample_tap :: xnet_tap where
  "sample_tap = \<lparr>t_nwid = 5, t_mac = 0x020304050607, t_mtu = 1500, t_has_ip4 = True, t_has_ip6 = False,
     t_ip4_addr = 0x0100000A, t_ip6_addr = replicate 16 0, t_netif_up = True\<rparr>"

definition sample_world :: xworld where
  "sample_world = \<lparr>x_net = nworld0\<lparr>nw_mem := (\<lambda>_. zero_netif\<lparr>nf_input := Some Tcpip_Input,
       nf_state := Some 0\<rparr>)\<rparr>,
     x_taps = [sample_tap], x_tap_count = 1, x_node = True, x_callback = True, x_running = True,
     x_lwip_up = True, x_node_online = True, x_home = ''/d'', x_port = 9994, x_lwip_inited = True,
     x_udp4 = 3, x_udp6 = -1,
     x_files = (\<lambda>_. None), x_events = []\<rparr>"

lemma sample_alloc:
  "ar_chain (pbuf_alloc zero_malloc PBUF_RAW 17 PBUF_POOL) \<noteq> []"
  by (simp add: pbuf_alloc_pool pool_loop.simps zero_malloc_def Let_def LWIP_MEM_ALIGN_SIZE_def
      PBUF_POOL_BUFSIZE_def)

lemma xnet_tap_rx_delivers_witness:
  "\<exists>p. pbytes p = frame_header 1 2 0x0800 @ [7, 8, 9]
    \<and> xnet_tap_rx zero_malloc (\<lambda>p a x. (ERR_OK, x)) 0 1 2 0x0800 [7, 8, 9] 3 sample_world
      = Some (emit (Netif_Input 0 p) sample_world)"
  using xnet_tap_rx_delivers [OF zero_malloc_ok, of 3 "[7, 8, 9]" sample_world 0 1 2 "0x0800"
      "\<lambda>p a x. (ERR_OK, x)"] sample_alloc
  by (auto simp: sample_world_def sample_tap_def)



lemma bytes_to_mac_bytes:
  assumes "unat (m :: u64) < 2 ^ 48"
  shows "bytes_to_mac (mac_to_bytes m) = m"
proof (rule bit_word_eqI)
  fix n assume n: "n < LENGTH(64)"
  have "take_bit 48 m = m" using assms by (intro word_unatI) (simp add: unsigned_take_bit_eq take_bit_nat_eq_self)
  then have hi: "48 \<le> n \<Longrightarrow> \<not> bit m n" by (metis bit_take_bit_iff not_less)
  consider "n < 8" | "8 \<le> n" "n < 16" | "16 \<le> n" "n < 24" | "24 \<le> n" "n < 32" | "32 \<le> n" "n < 40"
    | "40 \<le> n" "n < 48" | "48 \<le> n" by linarith
  then show "bit (bytes_to_mac (mac_to_bytes m)) n = bit m n"
    using n hi unfolding bytes_to_mac_def mac_to_bytes_def byte_masks
    by cases (simp_all add: bit_simps less_diff_conv2)
qed

lemma etype_halves:
  fixes e :: u32
  shows "push_bit 8 (ucast (ucast (drop_bit 8 e AND 0xff) :: u8)) OR ucast (ucast (e AND 0xff) :: u8) = (ucast e :: u16)"
  unfolding byte_masks
proof (rule bit_word_eqI)
  fix n assume n: "n < LENGTH(16)"
  then consider "n < 8" | "8 \<le> n" "n < 16" by fastforce
  then show "bit (push_bit 8 (ucast (ucast (drop_bit 8 e AND mask 8) :: u8))
      OR ucast (ucast (e AND mask 8) :: u8) :: u16) n = bit (ucast e :: u16) n"
    using n by cases (simp_all add: bit_simps less_diff_conv2)
qed

text \<open>
  C0. The bridge changes no frame: a frame the node passes for a network, with 48-bit addresses and up
  to 2034 bytes of data, is given to lwIP as one packet, and that packet sent on the interface of a tap
  is handed to the node with the same source, destination, type and data.
\<close>

theorem xnet_frame_roundtrip:
  assumes "unat s < 2 ^ 48" "unat d < 2 ^ 48" "length data \<le> 2034" "length stack = 2048"
    "nf_state (nw_mem (x_net x) nif) = Some tap" "x_node x"
    and "malloc_ok malloc" "t_netif_up (x_taps y ! i)" "x_lwip_up y"
      "nf_input (nw_mem (x_net y) i) \<noteq> None"
      "ar_chain (pbuf_alloc malloc PBUF_RAW (of_nat (14 + length data)) PBUF_POOL) \<noteq> []"
  shows "\<exists>q. xnet_tap_rx malloc (\<lambda>p a x. (ERR_OK, x)) i s d (ucast (e :: u16)) data (of_nat (length data)) y
        = Some (emit (Netif_Input i q) y)
    \<and> netif_linkoutput stack nif q x
        = Some (ERR_OK, emit (Node_Frame (t_nwid (x_taps x ! tap)) s d e data) x)"
proof -
  have n: "unat (of_nat (length data) :: u32) = length data"
    using assms(3) by (simp add: unat_of_nat take_bit_nat_eq_self)
  have "(ucast (14 + of_nat (length data) :: u32) :: u16) = of_nat (14 + length data)"
    using n assms(3) by (intro word_unatI) (simp add: unat_ucast_u32_u16 unat_of_nat_u16 unat_plus_no_wrap)
  then obtain q where q: "wf_chain q" "pbytes q = frame_header s d (ucast e) @ data"
      and rx: "xnet_tap_rx malloc (\<lambda>p a x. (ERR_OK, x)) i s d (ucast e) data (of_nat (length data)) y
        = Some (emit (Netif_Input i q) y)"
    using rx_packet [OF assms(7) _ _ assms(8-10), of "of_nat (length data)" data s d "ucast e"
        "\<lambda>p a x. (ERR_OK, x)"] assms(3,11) n by auto
  have parts: "pbytes q = mac_to_bytes d @ mac_to_bytes s
      @ [ucast (drop_bit 8 (ucast e :: u32) AND 0xff), ucast ((ucast e :: u32) AND 0xff)] @ data"
    by (simp add: q(2) frame_header_def)
  have "plen q \<le> 2048" using wf_chain_length [OF q(1)] q(2) assms(3) by simp
  moreover have "(ucast (ucast e :: u32) :: u16) = e" by (rule bit_word_eqI) (simp add: bit_simps)
  ultimately have "netif_linkoutput stack nif q x
      = Some (ERR_OK, emit (Node_Frame (t_nwid (x_taps x ! tap)) s d e data) x)"
    using linkoutput_frame [OF q(1) parts _ _ _ assms(4-6)]
    by (simp add: bytes_to_mac_bytes [OF assms(1)] bytes_to_mac_bytes [OF assms(2)] etype_halves)
  then show ?thesis using rx by blast
qed

lemma xnet_frame_roundtrip_witness:
  "\<exists>q. xnet_tap_rx zero_malloc (\<lambda>p a x. (ERR_OK, x)) 0 1 2 (ucast (0x0800 :: u16)) [7, 8, 9] 3 sample_world
        = Some (emit (Netif_Input 0 q) sample_world)
    \<and> netif_linkoutput (replicate 2048 0) 0 q sample_world
        = Some (ERR_OK, emit (Node_Frame 5 1 2 0x0800 [7, 8, 9]) sample_world)"
proof -
  have x: "nf_state (nw_mem (x_net sample_world) 0) = Some 0" "x_node sample_world"
      "t_netif_up (x_taps sample_world ! 0)" "x_lwip_up sample_world"
      "nf_input (nw_mem (x_net sample_world) 0) \<noteq> None" "t_nwid (x_taps sample_world ! 0) = 5"
    by (simp_all add: sample_world_def sample_tap_def)
  show ?thesis
    using xnet_frame_roundtrip [OF _ _ _ _ x(1,2) zero_malloc_ok x(3-5), of 1 2 "[7, 8, 9]" "replicate 2048 0" "0x0800"]
      sample_alloc x(6) by simp
qed

end
