(* ===== verification/Xnet_Service.thy ===== *)
theory Xnet_Service
  imports Xnet_Tap
begin

text \<open>
  \<^verbatim>\<open>externals/libzt-jni/xnet_service.c\<close>: the life cycle of the node, the registry of
  taps, state persistence and the I/O thread. The ZeroTier core is not part of the repository:
  the results of its functions, and the callbacks it makes while it runs, are parameters. So are
  the answers of the operating system. The functions run under \<^verbatim>\<open>g_lock\<close> or in one
  thread; a handler is one step from state to state.
\<close>

section \<open>The registry of taps\<close>

definition MAX_TAPS :: nat where "MAX_TAPS = 4"
definition MAX_TAP_ADDRS :: nat where "MAX_TAP_ADDRS = 4"

abbreviation (input) XNET_OK :: int where "XNET_OK \<equiv> 0"
abbreviation (input) XNET_ERR_ARG :: int where "XNET_ERR_ARG \<equiv> - 1"
abbreviation (input) XNET_ERR_SERVICE :: int where "XNET_ERR_SERVICE \<equiv> - 2"
abbreviation (input) XNET_ERR_OP :: int where "XNET_ERR_OP \<equiv> - 3"
abbreviation (input) XNET_ERR_GENERAL :: int where "XNET_ERR_GENERAL \<equiv> - 5"

definition tap_find :: "u64 \<Rightarrow> xworld \<Rightarrow> nat option" where
  "tap_find nwid x = List.find (\<lambda>i. t_nwid (x_taps x ! i) = nwid) [0..<x_tap_count x]"

definition xnet_tap_find :: "u64 \<Rightarrow> xworld \<Rightarrow> nat option" where
  "xnet_tap_find nwid x = tap_find nwid x"

section \<open>State persistence\<close>

datatype ZT_StateObjectType =
    ZT_STATE_OBJECT_IDENTITY_PUBLIC | ZT_STATE_OBJECT_IDENTITY_SECRET | ZT_STATE_OBJECT_PLANET
  | ZT_STATE_OBJECT_NETWORK_CONFIG | ZT_STATE_OBJECT_PEER | ZT_STATE_OBJECT_OTHER

definition hex_digit :: "nat \<Rightarrow> char" where
  "hex_digit d = (if d < 10 then char_of (48 + d) else char_of (87 + d))"

fun hex :: "nat \<Rightarrow> string" where
  "hex n = (if n < 16 then [hex_digit n] else hex (n div 16) @ [hex_digit (n mod 16)])"

declare hex.simps [simp del]

text \<open>\<^verbatim>\<open>%0<width>llx\<close>\<close>

definition hex_pad :: "nat \<Rightarrow> u64 \<Rightarrow> string" where
  "hex_pad width v =
     (let s = hex (unat v) in replicate (width - length s) (CHR ''0'') @ s)"

text \<open>What \<^verbatim>\<open>snprintf\<close> leaves as the string in a buffer of \<open>sz\<close> bytes.\<close>

definition snprintf :: "nat \<Rightarrow> string \<Rightarrow> string" where
  "snprintf sz s = take (sz - 1) s"

definition make_state_path :: "string \<Rightarrow> nat \<Rightarrow> ZT_StateObjectType \<Rightarrow> u64 \<Rightarrow> string" where
  "make_state_path g_home sz type id0 =
     (case type of
        ZT_STATE_OBJECT_IDENTITY_PUBLIC \<Rightarrow> snprintf sz (g_home @ ''/identity.public'')
      | ZT_STATE_OBJECT_IDENTITY_SECRET \<Rightarrow> snprintf sz (g_home @ ''/identity.secret'')
      | ZT_STATE_OBJECT_PLANET \<Rightarrow> snprintf sz (g_home @ ''/planet'')
      | ZT_STATE_OBJECT_NETWORK_CONFIG \<Rightarrow>
          snprintf sz (g_home @ ''/networks.d/'' @ hex_pad 16 id0 @ ''.conf'')
      | ZT_STATE_OBJECT_PEER \<Rightarrow> snprintf sz (g_home @ ''/peers.d/'' @ hex_pad 10 id0 @ ''.peer'')
      | ZT_STATE_OBJECT_OTHER \<Rightarrow> [])"

text \<open>The part of the path before the last slash, as \<^verbatim>\<open>strrchr\<close> cuts it.\<close>

definition parent_dir :: "string \<Rightarrow> string option" where
  "parent_dir path =
     (if CHR ''/'' \<in> set path
      then Some (rev (tl (dropWhile (\<lambda>c. c \<noteq> CHR ''/'') (rev path)))) else None)"

text \<open>
  \<open>fopen path\<close> is whether the file can be opened, \<open>fwrite path data\<close> what it holds after
  the write and \<^verbatim>\<open>fclose\<close>. \<^verbatim>\<open>fwrite\<close> takes the length as a
  \<^verbatim>\<open>size_t\<close>: a negative length reads beyond the data.
\<close>

definition cb_state_put ::
    "(string \<Rightarrow> bool) \<Rightarrow> (string \<Rightarrow> u8 list \<Rightarrow> u8 list) \<Rightarrow> ZT_StateObjectType \<Rightarrow> u64 \<Rightarrow> u8 list
      \<Rightarrow> int \<Rightarrow> xworld \<Rightarrow> xworld option" where
  "cb_state_put fopen fwrite type id0 data len x =
     (let path = make_state_path (x_home x) 512 type id0 in
      if path = [] then Some x
      else
        let x = (case parent_dir path of Some d \<Rightarrow> emit (Mkdir d) x | None \<Rightarrow> x) in
        if \<not> fopen path then Some x
        else if len < 0 \<or> nat len > length data then None
        else Some (x\<lparr>x_files := (x_files x)(path := Some (fwrite path (take (nat len) data)))\<rparr>))"

text \<open>The result is the returned number and the bytes read.\<close>

definition read_file :: "xworld \<Rightarrow> string \<Rightarrow> nat \<Rightarrow> (int \<times> u8 list) option" where
  "read_file x path maxlen =
     map_option (\<lambda>c. (int (min maxlen (length c)), take maxlen c)) (x_files x path)"

definition cb_state_get ::
    "ZT_StateObjectType \<Rightarrow> u64 \<Rightarrow> nat \<Rightarrow> xworld \<Rightarrow> int \<times> u8 list" where
  "cb_state_get type id0 maxlen x =
     (let path = make_state_path (x_home x) 512 type id0;
          from_path = (case read_file x path maxlen of
                         None \<Rightarrow> (- 1, [])
                       | Some (n, data) \<Rightarrow> if n > 0 then (n, data) else (- 1, data))
      in if path = [] then (- 1, [])
         else if type = ZT_STATE_OBJECT_PLANET then
           (case read_file x (snprintf 512 (x_home x @ ''/mars'')) maxlen of
              Some (n, data) \<Rightarrow> if n > 0 then (n, data) else from_path
            | None \<Rightarrow> from_path)
         else from_path)"

section \<open>Wire and frames\<close>

definition cb_wire_send :: "int \<Rightarrow> u8 list \<Rightarrow> xworld \<Rightarrow> int \<times> xworld" where
  "cb_wire_send sa_family data x =
     (let fd = (if sa_family = AF_INET6 then x_udp6 x else x_udp4 x) in
      if fd < 0 then (- 1, x) else (0, emit (Sendto fd data) x))"

definition cb_vframe ::
    "allocator \<Rightarrow> (pbuf list \<Rightarrow> addr \<Rightarrow> xworld \<Rightarrow> err_t \<times> xworld)
      \<Rightarrow> u64 \<Rightarrow> u64 \<Rightarrow> u64 \<Rightarrow> u32 \<Rightarrow> u8 list \<Rightarrow> u32 \<Rightarrow> xworld \<Rightarrow> xworld option" where
  "cb_vframe malloc input nwid srcMac dstMac etherType data len x =
     (case tap_find nwid x of
        Some i \<Rightarrow> xnet_tap_rx malloc input i srcMac dstMac etherType data len x
      | None \<Rightarrow> Some x)"

section \<open>Network configuration\<close>

datatype sockaddr = SA_IN u32 | SA_IN6 "u8 list" | SA_OTHER

datatype net_status =
    ZT_NETWORK_STATUS_OK | ZT_NETWORK_STATUS_ACCESS_DENIED | ZT_NETWORK_STATUS_NOT_FOUND
  | ZT_NETWORK_STATUS_OTHER

record net_config =
  c_mac :: u64
  c_mtu :: u32
  c_assigned :: "sockaddr list"
  c_status :: net_status

datatype config_op =
    OPERATION_UP | OPERATION_CONFIG_UPDATE | OPERATION_DOWN | OPERATION_DESTROY | OPERATION_OTHER

definition zero_tap :: xnet_tap where
  "zero_tap = \<lparr>t_nwid = 0, t_mac = 0, t_mtu = 0, t_has_ip4 = False, t_has_ip6 = False,
     t_ip4_addr = 0, t_ip6_addr = replicate 16 0, t_netif_up = False\<rparr>"

text \<open>\<^verbatim>\<open>memset(tap, 0, sizeof(*tap))\<close> and the assignment of a tap clear and copy the embedded interface.\<close>

definition clear_tap :: "nat \<Rightarrow> xworld \<Rightarrow> xworld" where
  "clear_tap i x = (upd_tap i (\<lambda>_. zero_tap) x)\<lparr>x_net := upd i (\<lambda>_. zero_netif) (x_net x)\<rparr>"

definition copy_tap :: "nat \<Rightarrow> nat \<Rightarrow> xworld \<Rightarrow> xworld" where
  "copy_tap i j x =
     (upd_tap i (\<lambda>_. x_taps x ! j) x)\<lparr>x_net := upd i (\<lambda>_. nw_mem (x_net x) j) (x_net x)\<rparr>"

fun addr_loop :: "u8 \<Rightarrow> nat \<Rightarrow> sockaddr list \<Rightarrow> xworld \<Rightarrow> xworld option" where
  "addr_loop zone i [] x = Some x"
| "addr_loop zone i (sa # sas) x =
     (case sa of
        SA_IN a \<Rightarrow>
          if \<not> t_has_ip4 (x_taps x ! i) then
            Option.bind
              (xnet_tap_setup_netif zone i AF_INET
                 (upd_tap i (\<lambda>t. t\<lparr>t_ip4_addr := a, t_has_ip4 := True\<rparr>) x))
              (\<lambda>x. addr_loop zone i sas (notify 213 (notify 220 x)))
          else addr_loop zone i sas x
      | SA_IN6 a \<Rightarrow>
          if \<not> t_has_ip6 (x_taps x ! i) then
            Option.bind
              (xnet_tap_setup_netif zone i AF_INET6
                 (upd_tap i (\<lambda>t. t\<lparr>t_ip6_addr := a, t_has_ip6 := True\<rparr>) x))
              (\<lambda>x. addr_loop zone i sas (notify 221 x))
          else addr_loop zone i sas x
      | SA_OTHER \<Rightarrow> addr_loop zone i sas x)"

definition notify_status :: "net_status \<Rightarrow> xworld \<Rightarrow> xworld" where
  "notify_status st x =
     (case st of
        ZT_NETWORK_STATUS_OK \<Rightarrow> notify 210 x
      | ZT_NETWORK_STATUS_ACCESS_DENIED \<Rightarrow> notify 211 x
      | ZT_NETWORK_STATUS_NOT_FOUND \<Rightarrow> notify 212 x
      | ZT_NETWORK_STATUS_OTHER \<Rightarrow> x)"

definition config_up :: "u8 \<Rightarrow> u64 \<Rightarrow> net_config option \<Rightarrow> xworld \<Rightarrow> xworld option" where
  "config_up zone nwid cfg x =
     (let (tap, x) =
            (case tap_find nwid x of
               Some i \<Rightarrow> (Some i, x)
             | None \<Rightarrow>
                 if x_tap_count x < MAX_TAPS then
                   let i = x_tap_count x;
                       x = clear_tap i (x\<lparr>x_tap_count := i + 1\<rparr>)
                   in (Some i, upd_tap i (\<lambda>t. t\<lparr>t_nwid := nwid\<rparr>) x)
                 else (None, x))
      in case (tap, cfg) of
           (Some i, Some cfg) \<Rightarrow>
             map_option (notify_status (c_status cfg))
               (addr_loop zone i (take MAX_TAP_ADDRS (c_assigned cfg))
                  (upd_tap i (\<lambda>t. t\<lparr>t_mac := c_mac cfg, t_mtu := c_mtu cfg\<rparr>) x))
         | _ \<Rightarrow> Some x)"

definition config_down :: "u64 \<Rightarrow> xworld \<Rightarrow> xworld option" where
  "config_down nwid x =
     (case tap_find nwid x of
        None \<Rightarrow> Some x
      | Some i \<Rightarrow>
          map_option (\<lambda>x.
            let x = (if i < x_tap_count x - 1 then copy_tap i (x_tap_count x - 1) x else x)
            in notify 215 (x\<lparr>x_tap_count := x_tap_count x - 1\<rparr>))
          (xnet_tap_teardown i x))"

definition cb_vnet_config ::
    "u8 \<Rightarrow> u64 \<Rightarrow> config_op \<Rightarrow> net_config option \<Rightarrow> xworld \<Rightarrow> (int \<times> xworld) option" where
  "cb_vnet_config zone nwid op cfg x =
     map_option (\<lambda>x. (0, x))
       (case op of
          OPERATION_UP \<Rightarrow> config_up zone nwid cfg x
        | OPERATION_CONFIG_UPDATE \<Rightarrow> config_up zone nwid cfg x
        | OPERATION_DOWN \<Rightarrow> config_down nwid x
        | OPERATION_DESTROY \<Rightarrow> config_down nwid x
        | OPERATION_OTHER \<Rightarrow> Some x)"

section \<open>Node events\<close>

datatype zt_event = ZT_EVENT_ONLINE | ZT_EVENT_OFFLINE | ZT_EVENT_OTHER

definition cb_event :: "zt_event \<Rightarrow> xworld \<Rightarrow> xworld" where
  "cb_event event x =
     (case event of
        ZT_EVENT_ONLINE \<Rightarrow> notify 200 (x\<lparr>x_node_online := True\<rparr>)
      | ZT_EVENT_OFFLINE \<Rightarrow> notify 201 (x\<lparr>x_node_online := False\<rparr>)
      | ZT_EVENT_OTHER \<Rightarrow> x)"

definition cb_path_check :: "u64 \<Rightarrow> int" where "cb_path_check addr = 1"
definition cb_path_lookup :: "u64 \<Rightarrow> int" where "cb_path_lookup addr = 0"

section \<open>The I/O thread\<close>

text \<open>\<open>sock\<close> is the descriptor \<^verbatim>\<open>socket\<close> returns, \<open>bound\<close> whether \<^verbatim>\<open>bind\<close> succeeds.\<close>

definition bind_udp :: "int \<Rightarrow> bool \<Rightarrow> xworld \<Rightarrow> int \<times> xworld" where
  "bind_udp sock bound x =
     (if sock < 0 then (- 1, x)
      else if \<not> bound then (- 1, emit (Close sock) x)
      else (sock, x))"

definition svc_wait :: "int \<Rightarrow> int \<Rightarrow> int" where
  "svc_wait deadline now =
     (let wait = deadline - now;
          wait = (if wait < 1 then 1 else wait)
      in if wait > 1000 then 1000 else wait)"

definition svc_fds :: "xworld \<Rightarrow> int list" where
  "svc_fds x = (if x_udp4 x \<ge> 0 then [x_udp4 x] else []) @ (if x_udp6 x \<ge> 0 then [x_udp6 x] else [])"

text \<open>
  \<open>zt\<close> is the node: what \<^verbatim>\<open>ZT_Node_processWirePacket\<close> and
  \<^verbatim>\<open>ZT_Node_processBackgroundTasks\<close> do to the state through the callbacks, and the new
  deadline. \<open>got fd\<close> is what \<^verbatim>\<open>recvfrom\<close> gives on a readable descriptor.
\<close>

type_synonym zt_node = "xevent \<Rightarrow> int \<Rightarrow> xworld \<Rightarrow> (int \<times> xworld) option"

fun svc_packets :: "zt_node \<Rightarrow> (int \<Rightarrow> u8 list option) \<Rightarrow> int list \<Rightarrow> int \<Rightarrow> xworld \<Rightarrow> (int \<times> xworld) option" where
  "svc_packets zt got [] deadline x = Some (deadline, x)"
| "svc_packets zt got (fd # fds) deadline x =
     (case got fd of
        Some (b # bs) \<Rightarrow>
          Option.bind (zt (Wire_Packet (b # bs)) deadline (emit (Wire_Packet (b # bs)) x))
            (\<lambda>(deadline, x). svc_packets zt got fds deadline x)
      | _ \<Rightarrow> svc_packets zt got fds deadline x)"

definition svc_round ::
    "zt_node \<Rightarrow> (int \<Rightarrow> u8 list option) \<Rightarrow> int \<Rightarrow> xworld \<Rightarrow> (int \<times> xworld) option" where
  "svc_round zt got deadline x =
     Option.bind (svc_packets zt got (svc_fds x) deadline x)
       (\<lambda>(deadline, x). zt Background deadline (emit Background x))"

fun svc_loop :: "zt_node \<Rightarrow> (int \<Rightarrow> u8 list option) list \<Rightarrow> int \<Rightarrow> xworld \<Rightarrow> xworld option" where
  "svc_loop zt [] deadline x = Some x"
| "svc_loop zt (got # rounds) deadline x =
     (if \<not> x_running x then Some x
      else Option.bind (svc_round zt got deadline x)
             (\<lambda>(deadline, x). svc_loop zt rounds deadline x))"

definition svc_thread_begin :: "bool \<Rightarrow> int \<times> bool \<Rightarrow> int \<times> bool \<Rightarrow> xworld \<Rightarrow> bool \<times> xworld" where
  "svc_thread_begin node_new sock4 sock6 x =
     (if \<not> node_new then (False, x\<lparr>x_running := False\<rparr>)
      else
        let x = x\<lparr>x_node := True\<rparr>;
            (fd4, x) = bind_udp (fst sock4) (snd sock4) x;
            x = x\<lparr>x_udp4 := fd4\<rparr>;
            (fd6, x) = bind_udp (fst sock6) (snd sock6) x
        in (True, x\<lparr>x_udp6 := fd6\<rparr>))"

text \<open>\<open>del\<close> is what \<^verbatim>\<open>ZT_Node_delete\<close> does through the callbacks.\<close>

definition svc_thread_end :: "(xworld \<Rightarrow> xworld option) \<Rightarrow> xworld \<Rightarrow> xworld option" where
  "svc_thread_end del x =
     map_option (\<lambda>x.
       let x = x\<lparr>x_node := False, x_node_online := False\<rparr>;
           x = (if x_udp4 x \<ge> 0 then (emit (Close (x_udp4 x)) x)\<lparr>x_udp4 := - 1\<rparr> else x)
       in if x_udp6 x \<ge> 0 then (emit (Close (x_udp6 x)) x)\<lparr>x_udp6 := - 1\<rparr> else x)
     (del x)"

section \<open>The public interface\<close>

definition xnet_start ::
    "bool \<Rightarrow> string option \<Rightarrow> bool \<Rightarrow> int \<Rightarrow> xworld \<Rightarrow> (int \<times> xworld) option" where
  "xnet_start created path cb port x =
     (case path of
        None \<Rightarrow> Some (XNET_ERR_ARG, x)
      | Some path \<Rightarrow>
          if \<not> cb then Some (XNET_ERR_ARG, x)
          else if x_running x then Some (XNET_ERR_OP, x)
          else
            let x = x\<lparr>x_home := take 255 path, x_callback := True,
                      x_port := (if port > 0 then port else 9994), x_running := True\<rparr>;
                x = emit (Mkdir (x_home x)) x;
                x = emit (Mkdir (snprintf 512 (x_home x @ ''/networks.d''))) x;
                x = emit (Mkdir (snprintf 512 (x_home x @ ''/peers.d''))) x
            in map_option (\<lambda>x.
                 if \<not> created then (XNET_ERR_GENERAL, x\<lparr>x_running := False\<rparr>) else (XNET_OK, x))
               (xnet_lwip_init x))"

fun teardown_loop :: "nat list \<Rightarrow> xworld \<Rightarrow> xworld option" where
  "teardown_loop [] x = Some x"
| "teardown_loop (i # is) x = Option.bind (xnet_tap_teardown i x) (teardown_loop is)"

text \<open>\<^verbatim>\<open>pthread_join\<close> waits until the I/O thread has left its loop and cleaned up.\<close>

definition xnet_stop :: "(xworld \<Rightarrow> xworld option) \<Rightarrow> xworld \<Rightarrow> (int \<times> xworld) option" where
  "xnet_stop del x =
     (if \<not> x_running x then Some (XNET_ERR_OP, x)
      else
        Option.bind (svc_thread_end del (x\<lparr>x_running := False\<rparr>)) (\<lambda>x.
          let x = xnet_lwip_shutdown x in
          map_option (\<lambda>x. (XNET_OK, x\<lparr>x_tap_count := 0\<rparr>))
            (teardown_loop [0..<x_tap_count x] x)))"

text \<open>\<open>ok\<close> is whether the node answers \<^verbatim>\<open>ZT_RESULT_OK\<close>.\<close>

definition xnet_join :: "bool \<Rightarrow> xworld \<Rightarrow> int" where
  "xnet_join ok x = (if \<not> x_node x then XNET_ERR_SERVICE else if ok then XNET_OK else XNET_ERR_GENERAL)"

definition xnet_leave :: "bool \<Rightarrow> xworld \<Rightarrow> int" where
  "xnet_leave ok x = (if \<not> x_node x then XNET_ERR_SERVICE else if ok then XNET_OK else XNET_ERR_GENERAL)"

definition xnet_node_id :: "u64 \<Rightarrow> xworld \<Rightarrow> u64" where
  "xnet_node_id address x = (if x_node x then address else 0)"

definition xnet_running :: "xworld \<Rightarrow> bool" where
  "xnet_running x \<longleftrightarrow> x_running x \<and> x_node_online x \<and> x_lwip_up x"

definition xnet_has_addr :: "u64 \<Rightarrow> int \<Rightarrow> xworld \<Rightarrow> bool" where
  "xnet_has_addr nwid family x =
     (case tap_find nwid x of
        None \<Rightarrow> False
      | Some i \<Rightarrow> if family = AF_INET then t_has_ip4 (x_taps x ! i) else t_has_ip6 (x_taps x ! i))"

text \<open>\<open>out\<close> is the caller's structure, \<open>None\<close> for \<^verbatim>\<open>NULL\<close>.\<close>

definition xnet_get_addr :: "u64 \<Rightarrow> int \<Rightarrow> sockaddr option \<Rightarrow> xworld \<Rightarrow> int \<times> sockaddr option" where
  "xnet_get_addr nwid family out x =
     (if out = None then (XNET_ERR_ARG, out)
      else
        case tap_find nwid x of
          None \<Rightarrow> (XNET_ERR_GENERAL, out)
        | Some i \<Rightarrow>
            if family = AF_INET \<and> t_has_ip4 (x_taps x ! i)
            then (XNET_OK, Some (SA_IN (t_ip4_addr (x_taps x ! i))))
            else if family = AF_INET6 \<and> t_has_ip6 (x_taps x ! i)
            then (XNET_OK, Some (SA_IN6 (t_ip6_addr (x_taps x ! i))))
            else (XNET_ERR_GENERAL, out))"

end
