(* ===== verification/Xnet_Registry.thy ===== *)
theory Xnet_Registry
  imports Xnet_Service
begin

text \<open>
  The registry of taps and the list of interfaces agree: \<open>reg_ok\<close> and the steps that keep
  it, and what happens when a network other than the last goes down.
\<close>

section \<open>The invariant\<close>

interpretation tapif: netif_driver "netif_init_cb tap" for tap
  by unfold_locales (simp_all add: netif_init_cb_def netif_simps Let_def)

definition reg_ok :: "xworld \<Rightarrow> addr list \<Rightarrow> bool" where
  "reg_ok x xs \<longleftrightarrow>
     netif_ok (x_net x) xs \<and> set xs \<subseteq> insert LOOP_NETIF {..<MAX_TAPS}
     \<and> length (x_taps x) = MAX_TAPS \<and> x_tap_count x \<le> MAX_TAPS
     \<and> distinct (map t_nwid (take (x_tap_count x) (x_taps x)))
     \<and> (\<forall>i<MAX_TAPS. i \<in> set xs \<longleftrightarrow> i < x_tap_count x \<and> t_netif_up (x_taps x ! i))
     \<and> (\<forall>i<MAX_TAPS. i \<in> set xs \<longrightarrow>
          nf_state (nw_mem (x_net x) i) = Some i \<and> nf_input (nw_mem (x_net x) i) \<noteq> None)"

named_theorems x_simps \<open>what an operation leaves of the client's state\<close>

lemma emit_simps [x_simps]:
  "x_net (emit e x) = x_net x" "x_taps (emit e x) = x_taps x" "x_tap_count (emit e x) = x_tap_count x"
  "x_lwip_inited (emit e x) = x_lwip_inited x" "x_lwip_up (emit e x) = x_lwip_up x"
  "x_running (emit e x) = x_running x" "x_callback (emit e x) = x_callback x"
  by (simp_all add: emit_def)

lemma notify_simps [x_simps]:
  "x_net (notify c x) = x_net x" "x_taps (notify c x) = x_taps x"
  "x_tap_count (notify c x) = x_tap_count x" "x_lwip_inited (notify c x) = x_lwip_inited x"
  "x_lwip_up (notify c x) = x_lwip_up x" "x_running (notify c x) = x_running x"
  by (simp_all add: notify_def x_simps)

lemma notify_status_simps [x_simps]:
  "x_net (notify_status st x) = x_net x" "x_taps (notify_status st x) = x_taps x"
  "x_tap_count (notify_status st x) = x_tap_count x"
  "x_lwip_inited (notify_status st x) = x_lwip_inited x"
  "x_lwip_up (notify_status st x) = x_lwip_up x"
  by (simp_all add: notify_status_def x_simps split: net_status.split)

lemma upd_tap_simps [x_simps]:
  "x_net (upd_tap i f x) = x_net x" "x_taps (upd_tap i f x) = (x_taps x)[i := f (x_taps x ! i)]"
  "x_tap_count (upd_tap i f x) = x_tap_count x" "x_lwip_inited (upd_tap i f x) = x_lwip_inited x"
  "x_lwip_up (upd_tap i f x) = x_lwip_up x"
  by (simp_all add: upd_tap_def)

lemma reg_ok_cong:
  assumes "reg_ok x xs" "x_net y = x_net x" "x_taps y = x_taps x" "x_tap_count y = x_tap_count x"
  shows "reg_ok y xs"
  using assms by (simp add: reg_ok_def)

text \<open>Changing fields of a tap that the invariant does not speak of.\<close>

lemma reg_ok_upd_tap:
  assumes "reg_ok x xs" "t_nwid (f (x_taps x ! i)) = t_nwid (x_taps x ! i)"
    "t_netif_up (f (x_taps x ! i)) = t_netif_up (x_taps x ! i)"
  shows "reg_ok (upd_tap i f x) xs"
proof (cases "i < length (x_taps x)")
  case True
  have "map t_nwid ((x_taps x)[i := f (x_taps x ! i)]) = map t_nwid (x_taps x)"
    using assms(2) True by (simp add: map_update list_update_same_conv)
  then have "map t_nwid (take n ((x_taps x)[i := f (x_taps x ! i)])) = map t_nwid (take n (x_taps x))" for n
    by (metis take_map)
  then show ?thesis
    using assms True by (auto simp: reg_ok_def x_simps nth_list_update)
next
  case False
  then show ?thesis using assms by (simp add: reg_ok_def x_simps)
qed

lemma reg_ok_length: "reg_ok x xs \<Longrightarrow> length xs < 255"
proof -
  assume r: "reg_ok x xs"
  have "distinct xs" using r by (simp add: reg_ok_def netif_ok_def)
  then have "length xs = card (set xs)" by (simp add: distinct_card)
  also have "\<dots> \<le> card (insert LOOP_NETIF {..<MAX_TAPS})"
    using r by (intro card_mono) (auto simp: reg_ok_def)
  also have "\<dots> \<le> Suc MAX_TAPS" by (simp add: card_insert_if)
  finally show ?thesis by (simp add: MAX_TAPS_def)
qed

section \<open>Operations that keep it\<close>

lemma netif_ok_default:
  "netif_ok w xs \<Longrightarrow> d \<in> set xs \<Longrightarrow> netif_ok (netif_set_default (Some d) w) xs"
  by (simp add: netif_ok_def netif_set_default_def)

lemma setup_ip4_ok:
  assumes "reg_ok x xs" "i < x_tap_count x" "\<not> t_netif_up (x_taps x ! i)"
  obtains x' where "setup_ip4 i x = Some x'" "reg_ok x' (i # xs)"
    "x_taps x' = (x_taps x)[i := (x_taps x ! i)\<lparr>t_netif_up := True\<rparr>]"
    "x_tap_count x' = x_tap_count x" "x_lwip_inited x' = x_lwip_inited x"
    "x_lwip_up x' = x_lwip_up x"
    "nf_ip_addr (nw_mem (x_net x') i) = t_ip4_addr (x_taps x ! i)"
    "nw_default (x_net x') = Some i"
proof -
  let ?t = "x_taps x ! i"
  have i: "i < MAX_TAPS" "i \<notin> set xs" using assms by (auto simp: reg_ok_def)
  have ok: "netif_ok (x_net x) xs" using assms(1) by (simp add: reg_ok_def)
  obtain w where w: "netif_add (Some i) (Some (t_ip4_addr ?t)) (Some (IP4_ADDR 255 255 255 0))
      (Some (IP4_ADDR 0 0 0 0)) (Some i) (Some (netif_init_cb ?t)) Tcpip_Input (x_net x) = Some (Some i, w)"
      "netif_ok w (i # xs)" "nf_ip_addr (nw_mem w i) = ptr_addr (Some (t_ip4_addr ?t))"
      "nf_state (nw_mem w i) = Some i" "nf_input (nw_mem w i) = Some Tcpip_Input"
      "\<And>b. b \<noteq> i \<Longrightarrow> nw_mem w b = nw_mem (x_net x) b"
    by (rule tapif.add_ok [OF ok i(2) reg_ok_length [OF assms(1)],
          where ip = "Some (t_ip4_addr ?t)" and nm = "Some (IP4_ADDR 255 255 255 0)"
            and gw = "Some (IP4_ADDR 0 0 0 0)" and st = "Some i" and inp = Tcpip_Input and tap = ?t]) blast
  define x' where "x' = upd_tap i (\<lambda>t. t\<lparr>t_netif_up := True\<rparr>) (x\<lparr>x_net := netif_set_default (Some i) w\<rparr>)"
  have s: "setup_ip4 i x = Some x'" using w(1) by (simp add: setup_ip4_def x'_def)
  have n: "x_net x' = netif_set_default (Some i) w" "x_tap_count x' = x_tap_count x"
      "x_taps x' = (x_taps x)[i := ?t\<lparr>t_netif_up := True\<rparr>]" "x_lwip_inited x' = x_lwip_inited x"
      "x_lwip_up x' = x_lwip_up x"
    by (simp_all add: x'_def x_simps)
  have "map t_nwid ((x_taps x)[i := ?t\<lparr>t_netif_up := True\<rparr>]) = map t_nwid (x_taps x)"
    using i assms by (simp add: map_update reg_ok_def list_update_same_conv)
  then have "map t_nwid (take m ((x_taps x)[i := ?t\<lparr>t_netif_up := True\<rparr>])) = map t_nwid (take m (x_taps x))" for m
    by (metis take_map)
  moreover have "nf_state (nw_mem w j) = Some j \<and> nf_input (nw_mem w j) \<noteq> None"
    if "j \<in> set (i # xs)" "j < MAX_TAPS" for j
    using that assms(1) w(4-6) by (cases "j = i") (auto simp: reg_ok_def)
  moreover have "j \<in> set (i # xs) \<longleftrightarrow> j < x_tap_count x \<and> t_netif_up (x_taps x' ! j)" if "j < MAX_TAPS" for j
    using that assms i by (cases "j = i") (auto simp: reg_ok_def n)
  ultimately have "reg_ok x' (i # xs)"
    using assms(1) i netif_ok_default [OF w(2), of i]
    by (simp add: reg_ok_def n) (simp add: netif_set_default_def)
  then show thesis using s n w(3)
    by (intro that [of x']) (simp_all add: netif_set_default_def ptr_addr_def)
qed

lemma setup_netif_ok:
  assumes "reg_ok x xs" "i < x_tap_count x"
  obtains x' xs' where "xnet_tap_setup_netif zone i family x = Some x'" "reg_ok x' xs'"
    "x_tap_count x' = x_tap_count x" "x_lwip_inited x' = x_lwip_inited x" "x_lwip_up x' = x_lwip_up x"
    "set xs \<subseteq> set xs'"
proof (cases "t_netif_up (x_taps x ! i) \<or> \<not> (family = AF_INET \<and> t_has_ip4 (x_taps x ! i))")
  case True
  then have "xnet_tap_setup_netif zone i family x = Some x"
    by (auto simp: xnet_tap_setup_netif_def)
  then show thesis using that assms by blast
next
  case False
  then obtain x' where x': "setup_ip4 i x = Some x'" "reg_ok x' (i # xs)"
      "x_tap_count x' = x_tap_count x" "x_lwip_inited x' = x_lwip_inited x" "x_lwip_up x' = x_lwip_up x"
    using setup_ip4_ok [OF assms] by metis
  moreover have "xnet_tap_setup_netif zone i family x = Some x'"
    using False x'(1) by (simp add: xnet_tap_setup_netif_def)
  ultimately show thesis using that [of x' "i # xs"] by auto
qed

lemma addr_loop_ok:
  assumes "reg_ok x xs" "i < x_tap_count x"
  shows "\<exists>x' xs'. addr_loop zone i sas x = Some x' \<and> reg_ok x' xs' \<and> x_tap_count x' = x_tap_count x
    \<and> x_lwip_inited x' = x_lwip_inited x \<and> x_lwip_up x' = x_lwip_up x \<and> set xs \<subseteq> set xs'"
  using assms
proof (induction sas arbitrary: x xs)
  case (Cons sa sas)
  have step: "\<exists>x' xs'. Option.bind (xnet_tap_setup_netif zone i family (upd_tap i f x))
        (\<lambda>x. addr_loop zone i sas (g x)) = Some x'
      \<and> reg_ok x' xs' \<and> x_tap_count x' = x_tap_count x
      \<and> x_lwip_inited x' = x_lwip_inited x \<and> x_lwip_up x' = x_lwip_up x \<and> set xs \<subseteq> set xs'"
    if f: "\<And>t. t_nwid (f t) = t_nwid t" "\<And>t. t_netif_up (f t) = t_netif_up t"
      and g: "\<And>x. x_net (g x) = x_net x" "\<And>x. x_taps (g x) = x_taps x"
        "\<And>x. x_tap_count (g x) = x_tap_count x" "\<And>x. x_lwip_inited (g x) = x_lwip_inited x"
        "\<And>x. x_lwip_up (g x) = x_lwip_up x" for family f g
  proof -
    have r: "reg_ok (upd_tap i f x) xs" "i < x_tap_count (upd_tap i f x)"
      using reg_ok_upd_tap [OF Cons.prems(1)] f Cons.prems by (simp_all add: x_simps)
    obtain x' xs' where x': "xnet_tap_setup_netif zone i family (upd_tap i f x) = Some x'" "reg_ok x' xs'"
        "x_tap_count x' = x_tap_count x" "x_lwip_inited x' = x_lwip_inited x" "x_lwip_up x' = x_lwip_up x"
        "set xs \<subseteq> set xs'"
      by (rule setup_netif_ok [OF r, of zone family]) (simp add: x_simps)
    have "reg_ok (g x') xs'" by (rule reg_ok_cong [OF x'(2)]) (simp_all add: g)
    then obtain y ys where "addr_loop zone i sas (g x') = Some y" "reg_ok y ys"
        "x_tap_count y = x_tap_count x" "x_lwip_inited y = x_lwip_inited x" "x_lwip_up y = x_lwip_up x"
        "set xs' \<subseteq> set ys"
      using Cons.IH [of "g x'" xs'] Cons.prems(2) x' g by auto
    then show ?thesis using x' by auto
  qed
  show ?case
  proof (cases sa)
    case (SA_IN a)
    then show ?thesis using Cons step [of _ "\<lambda>x. notify 213 (notify 220 x)"] by (auto simp: x_simps)
  next
    case (SA_IN6 a)
    then show ?thesis using Cons step [of _ "\<lambda>x. notify 221 x"] by (auto simp: x_simps)
  next
    case SA_OTHER
    then show ?thesis using Cons by auto
  qed
qed auto

lemma netif_ok_frame:
  assumes "netif_ok w xs" "\<And>b. b \<in> set xs \<Longrightarrow> nw_mem w' b = nw_mem w b"
    "nw_list w' = nw_list w" "nw_default w' = nw_default w"
  shows "netif_ok w' xs"
proof -
  have "lseg (nw_mem w') (nw_list w) xs None = lseg (nw_mem w) (nw_list w) xs None"
    by (rule lseg_cong) (simp add: assms(2))
  moreover have "distinct (map (\<lambda>x. nf_num (nw_mem w' x)) xs)"
    using assms(1,2) by (simp add: netif_ok_def cong: map_cong)
  ultimately show ?thesis using assms by (simp add: netif_ok_def)
qed

lemma netif_ok_same_links:
  assumes "netif_ok w xs" "\<And>b. nf_next (nw_mem w' b) = nf_next (nw_mem w b)"
    "\<And>b. nf_num (nw_mem w' b) = nf_num (nw_mem w b)" "nw_list w' = nw_list w" "nw_default w' = nw_default w"
  shows "netif_ok w' xs"
proof -
  have "lseg (nw_mem w') (nw_list w) xs None = lseg (nw_mem w) (nw_list w) xs None"
    by (rule lseg_cong) (simp add: assms(2))
  then show ?thesis using assms by (simp add: netif_ok_def)
qed

lemma tap_find_Some: "tap_find n x = Some i \<Longrightarrow> i < x_tap_count x \<and> t_nwid (x_taps x ! i) = n"
  by (auto simp: tap_find_def find_Some_iff)

lemma tap_find_None: "tap_find n x = None \<longleftrightarrow> (\<forall>i<x_tap_count x. t_nwid (x_taps x ! i) \<noteq> n)"
  by (auto simp: tap_find_def find_None_iff)

text \<open>A new tap: the next slot, cleared, with the network's number.\<close>

definition new_tap :: "u64 \<Rightarrow> xworld \<Rightarrow> xworld" where
  "new_tap nwid x = upd_tap (x_tap_count x) (\<lambda>t. t\<lparr>t_nwid := nwid\<rparr>)
     (clear_tap (x_tap_count x) (x\<lparr>x_tap_count := x_tap_count x + 1\<rparr>))"

lemma new_tap_simps [x_simps]:
  "x_net (new_tap nwid x) = upd (x_tap_count x) (\<lambda>_. zero_netif) (x_net x)"
  "x_tap_count (new_tap nwid x) = x_tap_count x + 1"
  "x_lwip_inited (new_tap nwid x) = x_lwip_inited x" "x_lwip_up (new_tap nwid x) = x_lwip_up x"
  by (simp_all add: new_tap_def clear_tap_def x_simps)

lemma new_tap_ok:
  assumes "reg_ok x xs" "x_tap_count x < MAX_TAPS" "tap_find nwid x = None"
  shows "reg_ok (new_tap nwid x) xs"
proof -
  let ?i = "x_tap_count x"
  have i: "?i \<notin> set xs" "length (x_taps x) = MAX_TAPS" using assms by (auto simp: reg_ok_def)
  have taps: "x_taps (new_tap nwid x) = (x_taps x)[?i := zero_tap\<lparr>t_nwid := nwid\<rparr>]"
    using assms(2) i(2) by (simp add: new_tap_def clear_tap_def x_simps)
  have "netif_ok (x_net (new_tap nwid x)) xs"
    by (rule netif_ok_frame [of "x_net x"]) (use assms i in \<open>auto simp: reg_ok_def new_tap_simps upd_simps\<close>)
  moreover have "nwid \<notin> t_nwid ` set (take ?i (x_taps x))"
    using assms(3) by (force simp: tap_find_None in_set_conv_nth)
  then have "distinct (map t_nwid (take (Suc ?i) (x_taps (new_tap nwid x))))"
    using assms(1,2) i unfolding taps by (simp add: take_Suc_conv_app_nth reg_ok_def)
  ultimately show ?thesis
    using assms i by (auto simp: reg_ok_def new_tap_simps(1,2) taps nth_list_update zero_tap_def upd_simps less_Suc_eq)
qed

lemma config_up_cases:
  "config_up zone nwid cfg x =
     (let (tap, x) =
            (case tap_find nwid x of
               Some i \<Rightarrow> (Some i, x)
             | None \<Rightarrow> if x_tap_count x < MAX_TAPS then (Some (x_tap_count x), new_tap nwid x)
                       else (None, x))
      in case (tap, cfg) of
           (Some i, Some cfg) \<Rightarrow>
             map_option (notify_status (c_status cfg))
               (addr_loop zone i (take MAX_TAP_ADDRS (c_assigned cfg))
                  (upd_tap i (\<lambda>t. t\<lparr>t_mac := c_mac cfg, t_mtu := c_mtu cfg\<rparr>) x))
         | _ \<Rightarrow> Some x)"
  unfolding config_up_def new_tap_def Let_def by (rule refl)

lemma config_up_ok:
  assumes "reg_ok x xs"
  shows "\<exists>x' xs'. config_up zone nwid cfg x = Some x' \<and> reg_ok x' xs'
    \<and> x_lwip_inited x' = x_lwip_inited x \<and> x_lwip_up x' = x_lwip_up x \<and> set xs \<subseteq> set xs'"
proof -
  obtain tap y where ty: "(case tap_find nwid x of
               Some i \<Rightarrow> (Some i, x)
             | None \<Rightarrow> if x_tap_count x < MAX_TAPS then (Some (x_tap_count x), new_tap nwid x)
                       else (None, x)) = (tap, y)" by (meson prod.exhaust)
  then have y: "reg_ok y xs" "x_lwip_inited y = x_lwip_inited x" "x_lwip_up y = x_lwip_up x"
      "tap = Some i \<Longrightarrow> i < x_tap_count y" for i
    using assms new_tap_ok [OF assms] tap_find_Some [of nwid x]
    by (auto simp: x_simps split: option.splits if_splits)
  show ?thesis
  proof (cases "tap = None \<or> cfg = None")
    case True
    then have "config_up zone nwid cfg x = Some y"
      unfolding config_up_cases ty by (auto split: option.splits)
    then show ?thesis using y by auto
  next
    case False
    then obtain i c where ic: "tap = Some i" "cfg = Some c" by auto
    let ?z = "upd_tap i (\<lambda>t. t\<lparr>t_mac := c_mac c, t_mtu := c_mtu c\<rparr>) y"
    have "reg_ok ?z xs" by (rule reg_ok_upd_tap [OF y(1)]) simp_all
    moreover have "i < x_tap_count ?z" using y(4) ic by (simp add: x_simps)
    ultimately obtain x' xs' where x': "addr_loop zone i (take MAX_TAP_ADDRS (c_assigned c)) ?z = Some x'"
        "reg_ok x' xs'" "x_lwip_inited x' = x_lwip_inited ?z" "x_lwip_up x' = x_lwip_up ?z" "set xs \<subseteq> set xs'"
      using addr_loop_ok by blast
    have "config_up zone nwid cfg x = Some (notify_status (c_status c) x')"
      unfolding config_up_cases ty using x'(1) ic by simp
    moreover have "reg_ok (notify_status (c_status c) x') xs'"
      by (rule reg_ok_cong [OF x'(2)]) (simp_all add: x_simps)
    ultimately show ?thesis using x' y(2,3) by (auto simp: x_simps)
  qed
qed

lemma teardown_ok:
  assumes "reg_ok x xs" "i < x_tap_count x"
  obtains x' where "xnet_tap_teardown i x = Some x'" "reg_ok x' (remove1 i xs)"
    "x_tap_count x' = x_tap_count x" "x_lwip_inited x' = x_lwip_inited x" "x_lwip_up x' = x_lwip_up x"
    "\<not> t_netif_up (x_taps x' ! i)" "\<And>j. t_nwid (x_taps x' ! j) = t_nwid (x_taps x ! j)"
    "\<And>j. j \<noteq> i \<Longrightarrow> x_taps x' ! j = x_taps x ! j"
proof (cases "t_netif_up (x_taps x ! i)")
  case False
  then have "i \<notin> set xs" using assms by (auto simp: reg_ok_def)
  then show thesis using False assms(1) by (intro that [of x]) (simp_all add: xnet_tap_teardown_def remove1_idem)
next
  case True
  have i: "i < MAX_TAPS" "i < length (x_taps x)" using assms by (auto simp: reg_ok_def)
  have ok: "netif_ok (x_net x) xs" using assms(1) by (simp add: reg_ok_def)
  define w1 where "w1 = netif_set_link_down (Some i) (netif_set_down (Some i) (x_net x))"
  have w1: "netif_ok w1 xs"
    by (rule netif_ok_same_links [OF ok]) (simp_all add: w1_def netif_simps)
  obtain w2 where w2: "netif_remove (Some i) w1 = Some w2" "netif_ok w2 (remove1 i xs)"
      "\<And>b. b \<noteq> i \<Longrightarrow> \<exists>nx. nw_mem w2 b = (nw_mem w1 b)\<lparr>nf_next := nx\<rparr>"
    using remove_ok [OF w1, of i] by blast
  define x' where "x' = upd_tap i (\<lambda>t. t\<lparr>t_netif_up := False, t_has_ip4 := False, t_has_ip6 := False\<rparr>)
      (x\<lparr>x_net := w2\<rparr>)"
  have t: "xnet_tap_teardown i x = Some x'"
    using True w2(1) by (simp add: xnet_tap_teardown_def x'_def w1_def)
  have n: "x_net x' = w2" "x_tap_count x' = x_tap_count x" "x_lwip_inited x' = x_lwip_inited x"
      "x_lwip_up x' = x_lwip_up x"
      "x_taps x' = (x_taps x)[i := (x_taps x ! i)\<lparr>t_netif_up := False, t_has_ip4 := False, t_has_ip6 := False\<rparr>]"
    by (simp_all add: x'_def x_simps)
  have nwid: "map t_nwid (x_taps x') = map t_nwid (x_taps x)"
    using i by (simp add: n(5) map_update list_update_same_conv)
  have keep: "nf_state (nw_mem w2 j) = nf_state (nw_mem (x_net x) j)
      \<and> nf_input (nw_mem w2 j) = nf_input (nw_mem (x_net x) j)" if j: "j \<noteq> i" for j
  proof -
    obtain nx where "nw_mem w2 j = (nw_mem w1 j)\<lparr>nf_next := nx\<rparr>" using w2(3) [OF j] by blast
    moreover have "nw_mem w1 j = nw_mem (x_net x) j" using j by (simp add: w1_def netif_simps)
    ultimately show ?thesis by simp
  qed
  have d: "distinct xs" using ok by (simp add: netif_ok_def)
  have "map t_nwid (take m (x_taps x')) = map t_nwid (take m (x_taps x))" for m
    using nwid by (metis take_map)
  then have "reg_ok x' (remove1 i xs)"
    using assms i d w2(2) keep by (auto simp: reg_ok_def n nth_list_update)
  then show thesis
    using t n i nwid by (intro that [of x']) (auto simp: nth_list_update map_eq_conv intro!: arg_cong)
qed

text \<open>
  A network may go down safely when its tap is the last one, or when the last tap, which is moved
  into the freed slot, has no interface.
\<close>

definition down_safe :: "u64 \<Rightarrow> xworld \<Rightarrow> bool" where
  "down_safe nwid x \<longleftrightarrow>
     (case tap_find nwid x of
        None \<Rightarrow> True
      | Some i \<Rightarrow> i = x_tap_count x - 1 \<or> \<not> t_netif_up (x_taps x ! (x_tap_count x - 1)))"

lemma distinct_swap_remove:
  assumes "distinct (map f (take (Suc n) xs))" "n < length xs" "i < n"
  shows "distinct (map f (take n (xs[i := xs ! n])))"
proof -
  have t: "take (Suc n) xs = take n xs @ [xs ! n]" using assms(2) by (rule take_Suc_conv_app_nth)
  have "map f (take n (xs[i := xs ! n])) = (map f (take n xs))[i := f (xs ! n)]"
    by (simp add: take_update_swap map_update)
  moreover have "distinct ((map f (take n xs))[i := f (xs ! n)])"
    using assms(1) unfolding t by (intro distinct_list_update) auto
  ultimately show ?thesis by simp
qed

lemma shrink_ok:
  assumes "reg_ok x xs" "0 < x_tap_count x" "\<not> t_netif_up (x_taps x ! (x_tap_count x - 1))"
  shows "reg_ok (x\<lparr>x_tap_count := x_tap_count x - 1\<rparr>) xs"
proof -
  have "distinct (map t_nwid (take (x_tap_count x) (x_taps x)))" using assms(1) by (simp add: reg_ok_def)
  then have "distinct (take (x_tap_count x - 1) (map t_nwid (take (x_tap_count x) (x_taps x))))"
    by (rule distinct_take)
  then have "distinct (map t_nwid (take (x_tap_count x - 1) (x_taps x)))"
    by (simp add: take_map min_absorb1)
  moreover have "j < x_tap_count x \<and> t_netif_up (x_taps x ! j)
      \<longleftrightarrow> j < x_tap_count x - 1 \<and> t_netif_up (x_taps x ! j)" for j
    using assms(2,3) by (cases "j = x_tap_count x - 1") auto
  ultimately show ?thesis using assms(1) by (auto simp: reg_ok_def)
qed

lemma copy_last_ok:
  assumes "reg_ok x xs" "i < n" "x_tap_count x = Suc n" "\<not> t_netif_up (x_taps x ! n)"
    "\<not> t_netif_up (x_taps x ! i)"
  shows "reg_ok ((copy_tap i n x)\<lparr>x_tap_count := n\<rparr>) xs"
proof -
  have l: "n < length (x_taps x)" "n < MAX_TAPS" "i \<notin> set xs" "n \<notin> set xs"
    using assms by (auto simp: reg_ok_def)
  let ?y = "(copy_tap i n x)\<lparr>x_tap_count := n\<rparr>"
  have y: "x_taps ?y = (x_taps x)[i := x_taps x ! n]" "x_tap_count ?y = n"
      "x_net ?y = upd i (\<lambda>_. nw_mem (x_net x) n) (x_net x)"
    by (simp_all add: copy_tap_def x_simps)
  have "netif_ok (x_net ?y) xs" unfolding y
    by (rule netif_ok_frame [of "x_net x"]) (use assms l in \<open>auto simp: reg_ok_def upd_simps\<close>)
  moreover have "distinct (map t_nwid (take n (x_taps ?y)))"
    unfolding y(1) using assms(1-3) l(1) by (intro distinct_swap_remove) (auto simp: reg_ok_def)
  moreover have "j \<in> set xs \<longleftrightarrow> j < n \<and> t_netif_up (x_taps ?y ! j)" if "j < MAX_TAPS" for j
    unfolding y(1) using assms l that by (cases "j = i"; cases "j = n") (auto simp: reg_ok_def less_Suc_eq)
  moreover have "nw_mem (x_net ?y) j = nw_mem (x_net x) j" if "j \<in> set xs" for j
    unfolding y(3) using that l by (auto simp: upd_simps)
  ultimately show ?thesis using assms(1) l(2) y(1,2) by (simp add: reg_ok_def)
qed

lemma config_down_ok:
  assumes "reg_ok x xs" "down_safe nwid x"
  shows "\<exists>x' xs'. config_down nwid x = Some x' \<and> reg_ok x' xs'
    \<and> x_lwip_inited x' = x_lwip_inited x \<and> x_lwip_up x' = x_lwip_up x \<and> tap_find nwid x' = None
    \<and> (\<forall>a. a \<ge> MAX_TAPS \<longrightarrow> a \<in> set xs \<longrightarrow> a \<in> set xs')"
proof (cases "tap_find nwid x")
  case None
  then show ?thesis using assms by (auto simp: config_down_def)
next
  case (Some i)
  have i: "i < x_tap_count x" "t_nwid (x_taps x ! i) = nwid" using tap_find_Some [OF Some] by auto
  then obtain n where n: "x_tap_count x = Suc n" by (cases "x_tap_count x") auto
  obtain y where y: "xnet_tap_teardown i x = Some y" "reg_ok y (remove1 i xs)"
    "x_tap_count y = Suc n" "x_lwip_inited y = x_lwip_inited x" "x_lwip_up y = x_lwip_up x"
    "\<not> t_netif_up (x_taps y ! i)" "\<And>j. t_nwid (x_taps y ! j) = t_nwid (x_taps x ! j)"
    "\<And>j. j \<noteq> i \<Longrightarrow> x_taps y ! j = x_taps x ! j"
    by (rule teardown_ok [OF assms(1) i(1)]) (use n in auto)
  define z where "z = (if i < n then copy_tap i n y else y)\<lparr>x_tap_count := n\<rparr>"
  have last: "\<not> t_netif_up (x_taps y ! n)"
    using assms(2) y(6,8) n by (cases "n = i") (auto simp: down_safe_def Some)
  have "reg_ok z (remove1 i xs)"
  proof (cases "i < n")
    case True
    then show ?thesis unfolding z_def using copy_last_ok [OF y(2) True y(3) last y(6)] by simp
  next
    case False
    then show ?thesis unfolding z_def using shrink_ok [OF y(2)] y(3) last by simp
  qed
  then have r: "reg_ok (notify 215 z) (remove1 i xs)" by (rule reg_ok_cong) (simp_all add: x_simps)
  have down: "config_down nwid x = Some (notify 215 z)"
    using y(1,3) by (simp add: config_down_def Some z_def Let_def copy_tap_def x_simps)
  have l: "length (x_taps y) = MAX_TAPS" "length (x_taps x) = MAX_TAPS" "Suc n \<le> MAX_TAPS"
    using y(2,3) assms(1) by (auto simp: reg_ok_def)
  have inj: "a = b" if "a \<le> n" "b \<le> n" "t_nwid (x_taps x ! a) = t_nwid (x_taps x ! b)" for a b
  proof -
    have "distinct (map t_nwid (take (Suc n) (x_taps x)))" using assms(1) n by (simp add: reg_ok_def)
    then show ?thesis using that l nth_eq_iff_index_eq [of "map t_nwid (take (Suc n) (x_taps x))" a b] by simp
  qed
  have gone: "t_nwid (x_taps z ! j) \<noteq> nwid" if j: "j < n" for j
  proof -
    have "x_taps z ! j = (if i < n \<and> j = i then x_taps y ! n else x_taps y ! j)"
      using j l by (simp add: z_def copy_tap_def x_simps nth_list_update)
    then have "t_nwid (x_taps z ! j) = t_nwid (x_taps x ! (if j = i then n else j))" using y(7) j by simp
    then show ?thesis using inj [of "if j = i then n else j" i] i n j by (auto split: if_splits)
  qed
  have "tap_find nwid (notify 215 z) = None"
    using gone by (simp add: tap_find_None x_simps z_def)
  moreover have "x_lwip_inited z = x_lwip_inited x" "x_lwip_up z = x_lwip_up x"
    using y by (simp_all add: z_def copy_tap_def x_simps)
  moreover have "\<forall>a\<ge>MAX_TAPS. a \<in> set xs \<longrightarrow> a \<in> set (remove1 i xs)"
  proof (intro allI impI)
    fix a assume "a \<ge> MAX_TAPS" "a \<in> set xs"
    moreover have "i < MAX_TAPS" using i assms(1) by (simp add: reg_ok_def)
    ultimately show "a \<in> set (remove1 i xs)" by (simp add: in_set_remove1)
  qed
  ultimately show ?thesis using down r by (auto simp: x_simps)
qed

end
