(* ===== verification/Xnet_Lifecycle.thy ===== *)
theory Xnet_Lifecycle
  imports Xnet_Registry
begin

text \<open>
  Sequences of calls of the public interface and of the node's callbacks: the registry stays
  consistent while no network but the last goes down, what breaks otherwise, and what stopping
  the service leaves behind.
\<close>

section \<open>Start and stop\<close>

lemma netif_init_ok:
  assumes "netif_ok w []"
  obtains w' where "netif_init w = Some w'" "netif_ok w' [LOOP_NETIF]"
    "nf_ip_addr (nw_mem w' LOOP_NETIF) = IP4_ADDR 127 0 0 1"
proof -
  obtain v where v: "netif_add (Some LOOP_NETIF) (Some (IP4_ADDR 127 0 0 1)) (Some (IP4_ADDR 255 0 0 0))
      (Some (IP4_ADDR 127 0 0 1)) None (Some netif_loopif_init) Tcpip_Input w = Some (Some LOOP_NETIF, v)"
      "netif_ok v [LOOP_NETIF]" "nf_ip_addr (nw_mem v LOOP_NETIF) = ptr_addr (Some (IP4_ADDR 127 0 0 1))"
    by (rule loopif.add_ok [OF assms, where a = LOOP_NETIF and ip = "Some (IP4_ADDR 127 0 0 1)"
          and nm = "Some (IP4_ADDR 255 0 0 0)" and gw = "Some (IP4_ADDR 127 0 0 1)" and st = None
          and inp = Tcpip_Input]) simp_all
  define w' where "w' = netif_set_up (Some LOOP_NETIF) (netif_set_link_up (Some LOOP_NETIF)
      (upd LOOP_NETIF (\<lambda>n. n\<lparr>nf_ip6_addr_state := (nf_ip6_addr_state n)[0 := IP6_ADDR_VALID]\<rparr>)
        (upd LOOP_NETIF (\<lambda>n. n\<lparr>nf_ip6_addr := (nf_ip6_addr n)[0 :=
           \<lparr>i6_0 = lwip_htonl 0, i6_1 = lwip_htonl 0, i6_2 = lwip_htonl 0,
            i6_3 = lwip_htonl 1, i6_zone = 0\<rparr>]\<rparr>) v)))"
  have "netif_init w = Some w'" using v(1) by (simp add: netif_init_def w'_def Let_def)
  moreover have "netif_ok w' [LOOP_NETIF]"
    by (rule netif_ok_same_links [OF v(2)]) (simp_all add: w'_def netif_simps)
  moreover have "nf_ip_addr (nw_mem w' LOOP_NETIF) = IP4_ADDR 127 0 0 1"
    using v(3) by (simp add: w'_def netif_simps ptr_addr_def)
  ultimately show thesis by (rule that)
qed

definition life_ok :: "xworld \<Rightarrow> addr list \<Rightarrow> bool" where
  "life_ok x xs \<longleftrightarrow>
     reg_ok x xs \<and> (if x_lwip_inited x then LOOP_NETIF \<in> set xs else xs = [] \<and> x_tap_count x = 0)"

lemma loop_not_tap: "\<not> LOOP_NETIF < MAX_TAPS"
  by (simp add: LOOP_NETIF_def MAX_TAPS_def)

lemma lwip_init_ok:
  assumes "life_ok x xs"
  shows "\<exists>x' xs'. xnet_lwip_init x = Some x' \<and> life_ok x' xs'"
proof (cases "x_lwip_inited x")
  case True
  then show ?thesis using assms by (auto simp: xnet_lwip_init_def)
next
  case False
  then have e: "xs = []" "x_tap_count x = 0" "reg_ok x []" "netif_ok (x_net x) []"
    using assms by (auto simp: life_ok_def reg_ok_def)
  obtain w where w: "netif_init (x_net x) = Some w" "netif_ok w [LOOP_NETIF]"
    by (rule netif_init_ok [OF e(4)])
  let ?x = "tcpip_init_done (x\<lparr>x_net := w\<rparr>)"
  have "xnet_lwip_init x = Some ?x" using False w(1) by (simp add: xnet_lwip_init_def)
  moreover have "life_ok ?x [LOOP_NETIF]"
    using e w(2) loop_not_tap
    by (auto simp: life_ok_def reg_ok_def tcpip_init_done_def x_simps)
  ultimately show ?thesis by blast
qed

lemma teardown_loop_ok:
  assumes "reg_ok x xs" "\<forall>i\<in>set is. i < x_tap_count x"
  shows "\<exists>x' xs'. teardown_loop is x = Some x' \<and> reg_ok x' xs' \<and> x_tap_count x' = x_tap_count x
    \<and> x_lwip_inited x' = x_lwip_inited x \<and> x_lwip_up x' = x_lwip_up x
    \<and> (\<forall>i. i \<in> set is \<or> \<not> t_netif_up (x_taps x ! i) \<longrightarrow> \<not> t_netif_up (x_taps x' ! i))
    \<and> (\<forall>a\<ge>MAX_TAPS. a \<in> set xs \<longrightarrow> a \<in> set xs') \<and> set xs' \<subseteq> set xs"
  using assms
proof (induction "is" arbitrary: x xs)
  case (Cons i "is")
  have i: "i < x_tap_count x" "i < MAX_TAPS" using Cons.prems by (auto simp: reg_ok_def)
  obtain y where y: "xnet_tap_teardown i x = Some y" "reg_ok y (remove1 i xs)"
      "x_tap_count y = x_tap_count x" "x_lwip_inited y = x_lwip_inited x" "x_lwip_up y = x_lwip_up x"
      "\<not> t_netif_up (x_taps y ! i)" "\<And>j. j \<noteq> i \<Longrightarrow> x_taps y ! j = x_taps x ! j"
    by (rule teardown_ok [OF Cons.prems(1) i(1)]) blast
  obtain z zs where z: "teardown_loop is y = Some z" "reg_ok z zs" "x_tap_count z = x_tap_count x"
      "x_lwip_inited z = x_lwip_inited x" "x_lwip_up z = x_lwip_up x"
      "\<forall>i. i \<in> set is \<or> \<not> t_netif_up (x_taps y ! i) \<longrightarrow> \<not> t_netif_up (x_taps z ! i)"
      "\<forall>a\<ge>MAX_TAPS. a \<in> set (remove1 i xs) \<longrightarrow> a \<in> set zs" "set zs \<subseteq> set (remove1 i xs)"
    using Cons.IH [OF y(2)] Cons.prems(2) y(3-5) by auto
  have "\<not> t_netif_up (x_taps z ! j)" if "j \<in> set (i # is) \<or> \<not> t_netif_up (x_taps x ! j)" for j
    using that z(6) y(6,7) by (cases "j = i") auto
  moreover have "a \<in> set zs" if "a \<ge> MAX_TAPS" "a \<in> set xs" for a
    using that z(7) i(2) by (simp add: in_set_remove1)
  moreover have "set zs \<subseteq> set xs" using z(8) set_remove1_subset by fast
  ultimately show ?case using y(1) z by auto
qed auto

lemma stop_ok:
  assumes "life_ok x xs"
  shows "\<exists>r x' xs'. xnet_stop Some x = Some (r, x') \<and> life_ok x' xs'
    \<and> (x_running x \<longrightarrow> \<not> x_lwip_up x' \<and> x_lwip_inited x' = x_lwip_inited x)"
proof (cases "x_running x")
  case False
  then show ?thesis using assms by (auto simp: xnet_stop_def)
next
  case True
  obtain y where y: "svc_thread_end Some (x\<lparr>x_running := False\<rparr>) = Some y" "x_net y = x_net x"
      "x_taps y = x_taps x" "x_tap_count y = x_tap_count x" "x_lwip_inited y = x_lwip_inited x"
    by (auto simp: svc_thread_end_def Let_def x_simps)
  let ?z = "xnet_lwip_shutdown y"
  have z: "x_net ?z = x_net x" "x_taps ?z = x_taps x" "x_tap_count ?z = x_tap_count x"
      "x_lwip_inited ?z = x_lwip_inited x" "\<not> x_lwip_up ?z"
    using y by (simp_all add: xnet_lwip_shutdown_def x_simps)
  have "reg_ok ?z xs"
    using assms by (intro reg_ok_cong [of x xs ?z]) (simp_all add: life_ok_def z)
  then obtain u us where u: "teardown_loop [0..<x_tap_count ?z] ?z = Some u" "reg_ok u us"
      "x_tap_count u = x_tap_count x" "x_lwip_inited u = x_lwip_inited x" "\<not> x_lwip_up u"
      "\<forall>i<x_tap_count x. \<not> t_netif_up (x_taps u ! i)"
      "\<forall>a\<ge>MAX_TAPS. a \<in> set xs \<longrightarrow> a \<in> set us" "set us \<subseteq> set xs"
    using teardown_loop_ok [of ?z xs "[0..<x_tap_count ?z]"] z by auto
  have "xnet_stop Some x = Some (0, u\<lparr>x_tap_count := 0\<rparr>)"
    using True y(1) u(1) by (simp add: xnet_stop_def Let_def)
  moreover have "life_ok (u\<lparr>x_tap_count := 0\<rparr>) us"
  proof -
    have "i \<notin> set us" if "i < MAX_TAPS" for i using that u(2,3,6) by (auto simp: reg_ok_def)
    then have "reg_ok (u\<lparr>x_tap_count := 0\<rparr>) us" using u(2) by (auto simp: reg_ok_def)
    then show ?thesis
      using assms u(4,7,8) loop_not_tap by (auto simp: life_ok_def not_less split: if_splits)
  qed
  ultimately show ?thesis using u(4,5) by auto
qed

lemma start_ok:
  assumes "life_ok x xs"
  shows "\<exists>r x' xs'. xnet_start created path cb port x = Some (r, x') \<and> life_ok x' xs'"
proof (cases "path = None \<or> \<not> cb \<or> x_running x")
  case True
  then show ?thesis using assms by (auto simp: xnet_start_def split: option.splits)
next
  case False
  then obtain p where p: "path = Some p" by auto
  define y where "y = emit (Mkdir (snprintf 512 (take 255 p @ ''/peers.d'')))
      (emit (Mkdir (snprintf 512 (take 255 p @ ''/networks.d''))) (emit (Mkdir (take 255 p))
        (x\<lparr>x_home := take 255 p, x_callback := True, x_port := (if port > 0 then port else 9994),
           x_running := True\<rparr>)))"
  have "life_ok y xs"
    using assms by (simp add: life_ok_def reg_ok_def y_def x_simps)
  then obtain z zs where z: "xnet_lwip_init y = Some z" "life_ok z zs" using lwip_init_ok by blast
  have "xnet_start created path cb port x
      = Some (if \<not> created then (- 5, z\<lparr>x_running := False\<rparr>) else (0, z))"
    using False p z(1) by (simp add: xnet_start_def y_def Let_def emit_def)
  moreover have "life_ok (z\<lparr>x_running := False\<rparr>) zs"
    using z(2) by (simp add: life_ok_def reg_ok_def)
  ultimately show ?thesis using z(2) by auto
qed

section \<open>The client as a system of steps\<close>

datatype xnet_op =
    Op_Start bool "string option" bool int
  | Op_Stop
  | Op_Config u8 u64 config_op "net_config option"
  | Op_Event zt_event

text \<open>\<open>None\<close> is a client in which some call did not return.\<close>

fun xnet_step :: "xnet_op \<Rightarrow> xworld \<Rightarrow> xworld option" where
  "xnet_step (Op_Start created path cb port) x = map_option snd (xnet_start created path cb port x)"
| "xnet_step Op_Stop x = map_option snd (xnet_stop Some x)"
| "xnet_step (Op_Config zone nwid op cfg) x = map_option snd (cb_vnet_config zone nwid op cfg x)"
| "xnet_step (Op_Event e) x = Some (cb_event e x)"

definition xnet_steps :: "xnet_op \<Rightarrow> xworld option \<Rightarrow> xworld option" where
  "xnet_steps op s = Option.bind s (xnet_step op)"

text \<open>
  The node configures networks only after the service was started; \<open>orderly\<close> clients take
  down the last network first.
\<close>

fun orderly_op :: "xnet_op \<Rightarrow> xworld \<Rightarrow> bool" where
  "orderly_op (Op_Config zone nwid op cfg) x \<longleftrightarrow>
     x_lwip_inited x \<and> (op = OPERATION_DOWN \<or> op = OPERATION_DESTROY \<longrightarrow> down_safe nwid x)"
| "orderly_op _ x \<longleftrightarrow> True"

definition orderly :: "xnet_op \<Rightarrow> xworld option \<Rightarrow> bool" where
  "orderly op s \<longleftrightarrow> (case s of None \<Rightarrow> False | Some x \<Rightarrow> orderly_op op x)"

definition xworld0 :: xworld where
  "xworld0 = \<lparr>x_net = nworld0, x_taps = replicate MAX_TAPS zero_tap, x_tap_count = 0, x_node = False,
     x_callback = False, x_running = False, x_lwip_up = False, x_node_online = False, x_home = [],
     x_port = 9994, x_lwip_inited = False, x_udp4 = - 1, x_udp6 = - 1, x_files = (\<lambda>_. None),
     x_events = []\<rparr>"

definition client_ok :: "xworld option \<Rightarrow> bool" where
  "client_ok s \<longleftrightarrow> (\<exists>x xs. s = Some x \<and> life_ok x xs)"

lemma config_ok:
  assumes "life_ok x xs" "orderly_op (Op_Config zone nwid op cfg) x"
  shows "\<exists>r x' xs'. cb_vnet_config zone nwid op cfg x = Some (r, x') \<and> life_ok x' xs'"
proof -
  have r: "reg_ok x xs" "x_lwip_inited x" "LOOP_NETIF \<in> set xs"
    using assms by (auto simp: life_ok_def)
  have up: "\<exists>x' xs'. config_up zone nwid cfg x = Some x' \<and> life_ok x' xs'"
    using config_up_ok [OF r(1), of zone nwid cfg] r(2,3) unfolding life_ok_def by fastforce
  have down: "\<exists>x' xs'. config_down nwid x = Some x' \<and> life_ok x' xs'" if "down_safe nwid x"
    using config_down_ok [OF r(1) that] r(2,3) loop_not_tap unfolding life_ok_def by (fastforce simp: not_less)
  show ?thesis
    using up down assms by (cases op) (auto simp: cb_vnet_config_def)
qed

interpretation client: invariant_system xnet_steps orderly "\<lambda>s. s = Some xworld0" client_ok
proof unfold_locales
  fix s assume "s = Some xworld0"
  moreover have "life_ok xworld0 []"
    by (simp add: life_ok_def reg_ok_def xworld0_def netif_ok_empty)
  ultimately show "client_ok s" by (auto simp: client_ok_def)
next
  fix s op assume "client_ok s" "orderly op s"
  then obtain x xs where x: "s = Some x" "life_ok x xs" "orderly_op op x"
    by (auto simp: client_ok_def orderly_def)
  show "client_ok (xnet_steps op s)"
  proof (cases op)
    case (Op_Start created path cb port)
    then show ?thesis using start_ok [OF x(2), of created path cb port] x
      by (auto simp: client_ok_def xnet_steps_def)
  next
    case Op_Stop
    then show ?thesis using stop_ok [OF x(2)] x by (auto simp: client_ok_def xnet_steps_def)
  next
    case (Op_Config zone nwid o' cfg)
    then show ?thesis using config_ok [OF x(2), of zone nwid o' cfg] x
      by (auto simp: client_ok_def xnet_steps_def)
  next
    case (Op_Event e)
    have "life_ok (cb_event e x) xs"
      using x(2) by (cases e) (simp_all add: cb_event_def life_ok_def reg_ok_def x_simps)
    then show ?thesis using Op_Event x by (auto simp: client_ok_def xnet_steps_def)
  qed
qed

text \<open>
  C1. Every sequence of starts, stops, network configurations and node events in which networks go
  down last first runs to the end, and after it the registry is consistent: the interfaces lwIP has
  on its list are exactly those of the registered taps that are up, each linked to its own tap,
  with different numbers, and networks are registered once.
\<close>

theorem xnet_orderly_run_ok:
  assumes "client.run_ok ops (Some xworld0)"
  shows "\<exists>x xs. client.run ops (Some xworld0) = Some x \<and> reg_ok x xs"
  using client.run_inv [OF client.start_inv [OF refl] assms] by (auto simp: client_ok_def life_ok_def)

definition sample_config :: net_config where
  "sample_config = \<lparr>c_mac = 0x020304050607, c_mtu = 2800, c_assigned = [SA_IN 0x0100000A],
     c_status = ZT_NETWORK_STATUS_OK\<rparr>"

lemma sample_started:
  "\<exists>x. xnet_steps (Op_Start True (Some ''/d'') True 0) (Some xworld0) = Some x \<and> x_lwip_inited x"
proof -
  have "map_option x_lwip_inited (xnet_steps (Op_Start True (Some ''/d'') True 0) (Some xworld0)) = Some True"
    by code_simp
  then show ?thesis by auto
qed

lemma xnet_orderly_run_ok_witness:
  "\<exists>x xs. client.run [Op_Start True (Some ''/d'') True 0, Op_Config 0 5 OPERATION_UP (Some sample_config)]
     (Some xworld0) = Some x \<and> reg_ok x xs"
proof (rule xnet_orderly_run_ok)
  obtain x where "xnet_steps (Op_Start True (Some ''/d'') True 0) (Some xworld0) = Some x" "x_lwip_inited x"
    using sample_started by blast
  then show "client.run_ok [Op_Start True (Some ''/d'') True 0,
      Op_Config 0 5 OPERATION_UP (Some sample_config)] (Some xworld0)"
    by (simp add: orderly_def)
qed

section \<open>Taking down a network that is not the last\<close>

lemma lseg_cut:
  assumes "lseg m p (ys @ a # zs) None" "a \<notin> set ys" "nf_next z = None"
  shows "lseg (m(a := z)) p (ys @ [a]) None"
proof -
  have "lseg m p ys (Some a)" using assms(1) by (auto simp: lseg_append)
  moreover have "lseg (m(a := z)) p ys (Some a) = lseg m p ys (Some a)"
    using assms(2) by (intro lseg_cong) auto
  ultimately show ?thesis using assms(3) by (simp add: lseg_append)
qed

lemma setup_cleared_hangs:
  assumes "lseg (nw_mem (x_net x)) (nw_list (x_net x)) xs None" "i \<in> set xs"
  shows "setup_ip4 i x = None"
  by (simp add: setup_ip4_def Let_def tapif.add_again_hangs [OF assms])

text \<open>
  C29. When two or more networks are up and one other than the last goes down, the interface that
  lwIP has on its list stays in the slot the last tap was moved out of; bringing up the next network
  with an IPv4 address clears that slot and registers it again, and the call never returns (it
  holds the core lock and the registry's lock).
\<close>

theorem xnet_down_up_hangs:
  assumes "reg_ok x xs" "tap_find nwid x = Some i" "i < x_tap_count x - 1"
    "t_netif_up (x_taps x ! (x_tap_count x - 1))"
    and "c_assigned cfg = SA_IN a # sas"
  shows "\<exists>y. config_down nwid x = Some y
    \<and> (tap_find new y = None \<longrightarrow> config_up zone new (Some cfg) y = None)"
proof -
  define n where "n = x_tap_count x - 1"
  have i: "i < x_tap_count x" and n: "i < n" "x_tap_count x = Suc n" "n < MAX_TAPS"
    using tap_find_Some [OF assms(2)] assms(1,3) by (auto simp: n_def reg_ok_def)
  obtain y where y: "xnet_tap_teardown i x = Some y" "reg_ok y (remove1 i xs)" "x_tap_count y = Suc n"
      "\<And>j. j \<noteq> i \<Longrightarrow> x_taps y ! j = x_taps x ! j"
    by (rule teardown_ok [OF assms(1) i]) (use n(2) in auto)
  have up: "t_netif_up (x_taps y ! n)" using y(4) n(1) assms(4) by (auto simp: n_def)
  have mem: "n \<in> set (remove1 i xs)" using y(2,3) up n(3) by (simp add: reg_ok_def)
  have links: "lseg (nw_mem (x_net y)) (nw_list (x_net y)) (remove1 i xs) None" "distinct (remove1 i xs)"
    "i \<notin> set (remove1 i xs)"
    using y(2) assms(1) by (auto simp: reg_ok_def netif_ok_def)
  define z where "z = notify 215 ((copy_tap i n y)\<lparr>x_tap_count := n\<rparr>)"
  have down: "config_down nwid x = Some z"
    using y(1,3) n by (simp add: config_down_def assms(2) z_def Let_def copy_tap_def x_simps)
  have z: "x_tap_count z = n" "nw_list (x_net z) = nw_list (x_net y)"
      "nw_mem (x_net z) = (nw_mem (x_net y))(i := nw_mem (x_net y) n)" "length (x_taps z) = MAX_TAPS"
    using y(2) by (simp_all add: z_def copy_tap_def x_simps upd_simps reg_ok_def)
  have "lseg (nw_mem (x_net z)) (nw_list (x_net z)) (remove1 i xs) None"
    using links unfolding z by (subst lseg_cong [of _ _ "nw_mem (x_net y)"]) auto
  moreover obtain ys zs where "remove1 i xs = ys @ n # zs" using mem by (meson split_list)
  ultimately have cut: "lseg ((nw_mem (x_net z))(n := zero_netif)) (nw_list (x_net z)) (ys @ [n]) None"
    using links(2) by (intro lseg_cut [of _ _ _ _ zs]) (auto simp: zero_netif_def)
  have "config_up zone new (Some cfg) z = None" if none: "tap_find new z = None"
  proof -
    define u where "u = upd_tap n (\<lambda>t. t\<lparr>t_mac := c_mac cfg, t_mtu := c_mtu cfg\<rparr>) (new_tap new z)"
    define v where "v = upd_tap n (\<lambda>t. t\<lparr>t_ip4_addr := a, t_has_ip4 := True\<rparr>) u"
    have net: "nw_mem (x_net v) = (nw_mem (x_net z))(n := zero_netif)" "nw_list (x_net v) = nw_list (x_net z)"
      by (simp_all add: v_def u_def x_simps z(1) upd_simps)
    have t: "\<not> t_has_ip4 (x_taps u ! n)" "t_has_ip4 (x_taps v ! n)" "\<not> t_netif_up (x_taps v ! n)"
      using n(3) z(1,4) by (simp_all add: v_def u_def new_tap_def clear_tap_def x_simps zero_tap_def)
    have "setup_ip4 n v = None" using cut by (intro setup_cleared_hangs [of _ "ys @ [n]"]) (simp_all add: net)
    then have "xnet_tap_setup_netif zone n AF_INET v = None"
      using t by (simp add: xnet_tap_setup_netif_def)
    then have "addr_loop zone n (take MAX_TAP_ADDRS (c_assigned cfg)) u = None"
      using t by (simp add: assms(5) MAX_TAP_ADDRS_def numeral_eq_Suc v_def)
    then show ?thesis using none n(3) z(1) by (simp add: config_up_cases u_def)
  qed
  then show ?thesis using down by (intro exI [of _ z]) simp
qed

definition sample_pair :: xworld where
  "sample_pair = xworld0\<lparr>x_lwip_inited := True, x_lwip_up := True, x_running := True, x_tap_count := 2,
     x_taps := [zero_tap\<lparr>t_nwid := 5, t_netif_up := True\<rparr>, zero_tap\<lparr>t_nwid := 6, t_netif_up := True\<rparr>,
                zero_tap, zero_tap],
     x_net := nworld0\<lparr>nw_list := Some 1, nw_mem := (\<lambda>a. zero_netif\<lparr>nf_state := Some a,
       nf_input := Some Tcpip_Input, nf_num := of_nat a,
       nf_next := (if a = 1 then Some 0 else None)\<rparr>)\<rparr>\<rparr>"

lemma sample_pair_ok: "reg_ok sample_pair [1, 0]"
proof -
  have "netif_ok (x_net sample_pair) [1, 0]"
    by (simp add: sample_pair_def netif_ok_def nworld0_def zero_netif_def xworld0_def)
  moreover have "t_netif_up (x_taps sample_pair ! i) \<longleftrightarrow> i < 2" if "i < 4" for i
    using that by (auto simp: sample_pair_def zero_tap_def less_Suc_eq numeral_eq_Suc)
  ultimately show ?thesis
    by (auto simp: reg_ok_def sample_pair_def zero_tap_def MAX_TAPS_def)
qed

lemma sample_pair_state:
  "tap_find 5 sample_pair = Some 0" "map_option (\<lambda>y. tap_find 7 y = None) (config_down 5 sample_pair) = Some True"
  by code_simp+

lemma xnet_down_up_hangs_witness:
  "config_down 5 sample_pair \<noteq> None
   \<and> Option.bind (config_down 5 sample_pair) (config_up 0 7 (Some sample_config)) = None"
proof -
  have s: "x_tap_count sample_pair = 2" "t_netif_up (x_taps sample_pair ! 1)"
    by (simp_all add: sample_pair_def)
  have "c_assigned sample_config = SA_IN 0x0100000A # []" by (simp add: sample_config_def)
  then obtain y where "config_down 5 sample_pair = Some y"
      "tap_find 7 y = None \<longrightarrow> config_up 0 7 (Some sample_config) y = None"
    using xnet_down_up_hangs [OF sample_pair_ok sample_pair_state(1), of sample_config "0x0100000A" "[]" 7 0]
      s by auto
  then show ?thesis using sample_pair_state(2) by simp
qed

section \<open>After a stop\<close>

definition stack_flags :: "xworld \<Rightarrow> bool \<times> bool" where
  "stack_flags x = (x_lwip_inited x, x_lwip_up x)"

lemma stack_flags_simps [simp]:
  "stack_flags (emit e x) = stack_flags x" "stack_flags (notify c x) = stack_flags x"
  "stack_flags (notify_status st x) = stack_flags x" "stack_flags (upd_tap i f x) = stack_flags x"
  "stack_flags (new_tap nwid x) = stack_flags x" "stack_flags (copy_tap i j x) = stack_flags x"
  "stack_flags (x\<lparr>x_net := w\<rparr>) = stack_flags x" "stack_flags (x\<lparr>x_tap_count := k\<rparr>) = stack_flags x"
  by (simp_all add: stack_flags_def x_simps copy_tap_def)

lemma setup_flags: "xnet_tap_setup_netif zone i family x = Some y \<Longrightarrow> stack_flags y = stack_flags x"
  by (auto simp: xnet_tap_setup_netif_def setup_ip4_def setup_ip6_def Let_def bind_eq_Some_conv split: if_splits)

lemma teardown_flags: "xnet_tap_teardown i x = Some y \<Longrightarrow> stack_flags y = stack_flags x"
  by (auto simp: xnet_tap_teardown_def split: if_splits)

lemma addr_loop_flags: "addr_loop zone i sas x = Some y \<Longrightarrow> stack_flags y = stack_flags x"
proof (induction sas arbitrary: x)
  case (Cons sa sas)
  then show ?case
    by (cases sa) (auto simp: bind_eq_Some_conv dest!: setup_flags split: if_splits)
qed auto

lemma config_flags: "cb_vnet_config zone nwid op cfg x = Some (r, y) \<Longrightarrow> stack_flags y = stack_flags x"
  by (cases op) (auto simp: cb_vnet_config_def config_up_cases config_down_def Let_def
      dest!: addr_loop_flags teardown_flags split: option.splits if_splits)

lemma teardown_loop_flags: "teardown_loop is x = Some y \<Longrightarrow> stack_flags y = stack_flags x"
  by (induction "is" arbitrary: x) (auto simp: bind_eq_Some_conv dest: teardown_flags)

definition stack_dead :: "xworld option \<Rightarrow> bool" where
  "stack_dead s \<longleftrightarrow> (\<forall>x. s = Some x \<longrightarrow> x_lwip_inited x \<and> \<not> x_lwip_up x)"

lemma stop_flags:
  "xnet_stop Some x = Some (r, y) \<Longrightarrow>
     x_lwip_inited y = x_lwip_inited x \<and> x_lwip_up y = (x_lwip_up x \<and> \<not> x_running x)"
  by (auto simp: xnet_stop_def svc_thread_end_def Let_def xnet_lwip_shutdown_def stack_flags_def x_simps
      dest!: teardown_loop_flags split: if_splits)

interpretation dead: invariant_system xnet_steps "\<lambda>op s. True" stack_dead stack_dead
proof unfold_locales
  fix op s assume d: "stack_dead s"
  show "stack_dead (xnet_steps op s)"
  proof (cases s)
    case (Some x)
    have f: "x_lwip_inited x" "\<not> x_lwip_up x" using d Some by (auto simp: stack_dead_def)
    show ?thesis
    proof (cases op)
      case (Op_Start created path cb port)
      then show ?thesis using f Some
        by (auto simp: stack_dead_def xnet_steps_def xnet_start_def xnet_lwip_init_def Let_def x_simps
            split: option.splits if_splits)
    next
      case Op_Stop
      then show ?thesis using f Some by (auto simp: stack_dead_def xnet_steps_def dest!: stop_flags)
    next
      case (Op_Config zone nwid o' cfg)
      then show ?thesis using f Some
        by (auto simp: stack_dead_def xnet_steps_def stack_flags_def dest!: config_flags)
    next
      case (Op_Event e)
      then show ?thesis using f Some
        by (cases e) (auto simp: stack_dead_def xnet_steps_def cb_event_def x_simps)
    qed
  qed (simp add: stack_dead_def xnet_steps_def)
qed auto

text \<open>
  C30. The service cannot be restarted: once it was stopped, no sequence of starts, configurations
  and events brings the flag of the network stack up again, so the client never reports running
  (the stack is initialised once and the flag is set only there).
\<close>

theorem xnet_restart_dead:
  assumes "x_running x" "x_lwip_inited x" "xnet_stop Some x = Some (r, y)"
    "dead.run ops (Some y) = Some z"
  shows "\<not> x_lwip_up z \<and> \<not> xnet_running z"
proof -
  have s: "stack_dead (Some y)" using stop_flags [OF assms(3)] assms(1,2) by (simp add: stack_dead_def)
  have "dead.run_ok ops s'" for s' by (induction ops arbitrary: s') simp_all
  then have "stack_dead (dead.run ops (Some y))" by (rule dead.run_inv [OF s])
  then show ?thesis using assms(4) by (auto simp: stack_dead_def xnet_running_def)
qed


lemma xnet_restart_dead_witness:
  "\<exists>y z. xnet_stop Some (xworld0\<lparr>x_running := True, x_lwip_inited := True, x_lwip_up := True\<rparr>) = Some (0, y)
     \<and> dead.run [Op_Start True (Some ''/d'') True 0] (Some y) = Some z \<and> x_running z \<and> \<not> xnet_running z"
proof -
  let ?x = "xworld0\<lparr>x_running := True, x_lwip_inited := True, x_lwip_up := True\<rparr>"
  obtain y where y: "xnet_stop Some ?x = Some (0, y)" "\<not> x_running y" "x_lwip_inited y"
    by (simp add: xnet_stop_def svc_thread_end_def xnet_lwip_shutdown_def notify_def xworld0_def)
  then obtain z where "dead.run [Op_Start True (Some ''/d'') True 0] (Some y) = Some z" "x_running z"
    by (simp add: xnet_steps_def xnet_start_def xnet_lwip_init_def Let_def x_simps)
  then show ?thesis using xnet_restart_dead [of ?x 0 y] y(1) by fastforce
qed

end
