(* ===== verification/Xnet_State.thy ===== *)
theory Xnet_State
  imports Xnet_Lifecycle
begin

text \<open>
  The files that keep the node's state: every object has a path of its own that fits into the
  buffer, and what was stored is what is loaded.
\<close>

section \<open>Paths\<close>

definition digit_value :: "char \<Rightarrow> nat" where
  "digit_value c = (if of_char c < (58 :: nat) then of_char c - 48 else of_char c - 87)"

definition hex_value :: "string \<Rightarrow> nat" where
  "hex_value s = foldl (\<lambda>a c. 16 * a + digit_value c) 0 s"

lemma hex_value_digit: "d < 16 \<Longrightarrow> digit_value (hex_digit d) = d"
  by (auto simp: hex_digit_def digit_value_def)

lemma hex_value_append: "hex_value (s @ [c]) = 16 * hex_value s + digit_value c"
  by (simp add: hex_value_def)

lemma hex_value_hex: "hex_value (hex n) = n"
proof (induction n rule: hex.induct)
  case (1 n)
  show ?case
  proof (cases "n < 16")
    case True
    then show ?thesis using hex_value_append [of "[]" "hex_digit n"] hex_value_digit [OF True]
      by (simp add: hex.simps [of n] hex_value_def)
  next
    case False
    have "n mod 16 < 16" by simp
    then show ?thesis using 1 [OF False] False hex_value_digit [of "n mod 16"]
      by (simp add: hex.simps [of n] hex_value_append)
  qed
qed

lemma hex_value_zeros: "hex_value (replicate k (CHR ''0'') @ s) = hex_value s"
proof -
  have "foldl (\<lambda>a c. 16 * a + digit_value c) 0 (replicate k (CHR ''0'')) = 0"
    by (induction k) (simp_all add: digit_value_def)
  then show ?thesis by (simp add: hex_value_def)
qed

lemma hex_pad_inj: "hex_pad w i = hex_pad w j \<longleftrightarrow> i = j"
proof
  assume "hex_pad w i = hex_pad w j"
  then have "hex_value (hex_pad w i) = hex_value (hex_pad w j)" by simp
  then have "unat i = unat j" by (simp add: hex_pad_def Let_def hex_value_zeros hex_value_hex)
  then show "i = j" by (rule word_unatI)
qed simp

lemma length_hex: "n < 16 ^ Suc k \<Longrightarrow> length (hex n) \<le> Suc k"
proof (induction k arbitrary: n)
  case 0
  then show ?case by (simp add: hex.simps [of n])
next
  case (Suc k)
  show ?case
  proof (cases "n < 16")
    case False
    have "n div 16 < 16 ^ Suc k" using Suc.prems by (simp add: less_mult_imp_div_less mult.commute)
    then show ?thesis using Suc.IH [of "n div 16"] False by (simp add: hex.simps [of n])
  qed (simp add: hex.simps [of n])
qed

lemma length_hex_pad: "w \<le> 16 \<Longrightarrow> length (hex_pad w v) \<le> 16"
proof -
  assume w: "w \<le> 16"
  have "unat v < 16 ^ Suc 15" using unsigned_less [of v, where ?'a = nat] by simp
  then have "length (hex (unat v)) \<le> 16" using length_hex [of "unat v" 15] by simp
  then show ?thesis using w by (simp add: hex_pad_def Let_def)
qed

text \<open>The path without the size of the buffer.\<close>

fun object_name :: "ZT_StateObjectType \<Rightarrow> u64 \<Rightarrow> string" where
  "object_name ZT_STATE_OBJECT_IDENTITY_PUBLIC i = ''/identity.public''"
| "object_name ZT_STATE_OBJECT_IDENTITY_SECRET i = ''/identity.secret''"
| "object_name ZT_STATE_OBJECT_PLANET i = ''/planet''"
| "object_name ZT_STATE_OBJECT_NETWORK_CONFIG i = ''/networks.d/'' @ hex_pad 16 i @ ''.conf''"
| "object_name ZT_STATE_OBJECT_PEER i = ''/peers.d/'' @ hex_pad 10 i @ ''.peer''"
| "object_name ZT_STATE_OBJECT_OTHER i = []"

fun same_object :: "ZT_StateObjectType \<Rightarrow> u64 \<Rightarrow> ZT_StateObjectType \<Rightarrow> u64 \<Rightarrow> bool" where
  "same_object ZT_STATE_OBJECT_NETWORK_CONFIG i t j \<longleftrightarrow> t = ZT_STATE_OBJECT_NETWORK_CONFIG \<and> i = j"
| "same_object ZT_STATE_OBJECT_PEER i t j \<longleftrightarrow> t = ZT_STATE_OBJECT_PEER \<and> i = j"
| "same_object t' i t j \<longleftrightarrow> t = t'"

lemma object_name_length: "length (object_name t i) \<le> 33"
  using length_hex_pad [of 16 i] length_hex_pad [of 10 i] by (cases t) auto

lemma object_name_inj: "object_name t i = object_name u j \<longleftrightarrow> same_object t i u j"
  by (cases t; cases u) (auto simp: hex_pad_inj)

lemma object_name_mars: "object_name t i \<noteq> ''/mars''"
  by (cases t) auto

lemma path_fits:
  assumes "length home \<le> 255" "t \<noteq> ZT_STATE_OBJECT_OTHER"
  shows "make_state_path home 512 t i = home @ object_name t i"
  using assms object_name_length [of t i] by (cases t) (auto simp: make_state_path_def snprintf_def)


section \<open>Storing and loading\<close>

text \<open>
  What the node stores is what it loads: if the file can be opened and written, an object of at
  most \<^verbatim>\<open>maxlen\<close> bytes comes back unchanged, and no other object changes. The planet is
  the exception when a file \<^verbatim>\<open>mars\<close> is there, which takes its place.
\<close>

lemma cb_state_put_get:
  assumes "length (x_home x) \<le> 255" "t \<noteq> ZT_STATE_OBJECT_OTHER" "data \<noteq> []" "length data \<le> maxlen"
    "fopen (x_home x @ object_name t i)" "fwrite (x_home x @ object_name t i) data = data"
    "t = ZT_STATE_OBJECT_PLANET \<longrightarrow> x_files x (x_home x @ ''/mars'') = None"
  shows "\<exists>y. cb_state_put fopen fwrite t i data (int (length data)) x = Some y
    \<and> cb_state_get t i maxlen y = (int (length data), data)
    \<and> (\<forall>u j m. \<not> same_object t i u j \<longrightarrow> cb_state_get u j m y = cb_state_get u j m x)"
proof -
  let ?p = "x_home x @ object_name t i"
  note path = path_fits [OF assms(1,2), of i]
  define x1 where "x1 = (case parent_dir ?p of Some d \<Rightarrow> emit (Mkdir d) x | None \<Rightarrow> x)"
  have x1: "x_files x1 = x_files x" "x_home x1 = x_home x"
    by (simp_all add: x1_def emit_def split: option.split)
  define y where "y = x1\<lparr>x_files := (x_files x1)(?p := Some data)\<rparr>"
  have y: "x_files y = (x_files x)(?p := Some data)" "x_home y = x_home x" by (simp_all add: y_def x1)
  have ne: "object_name t i \<noteq> []" using assms(2) by (cases t) auto
  have put: "cb_state_put fopen fwrite t i data (int (length data)) x = Some y"
    using assms(5,6) ne by (simp add: cb_state_put_def path x1_def [symmetric] y_def Let_def)
  have mars: "snprintf 512 (x_home x @ ''/mars'') = x_home x @ ''/mars''"
    using assms(1) by (simp add: snprintf_def)
  have get: "cb_state_get t i maxlen y = (int (length data), data)"
    using assms(3,4,7) ne object_name_mars [of t i]
    by (auto simp: cb_state_get_def y path mars read_file_def Let_def)
  have other: "cb_state_get u j m y = cb_state_get u j m x" if "\<not> same_object t i u j" for u j m
  proof (cases "u = ZT_STATE_OBJECT_OTHER")
    case True
    then show ?thesis by (simp add: cb_state_get_def make_state_path_def)
  next
    case False
    have "object_name u j \<noteq> object_name t i" using that object_name_inj [of t i u j] by auto
    then show ?thesis
      using object_name_mars [of t i] path_fits [OF assms(1) False, of j]
      by (simp add: cb_state_get_def y mars read_file_def Let_def)
  qed
  show ?thesis using put get other by blast
qed

lemma cb_state_put_get_witness:
  "\<exists>y. cb_state_put (\<lambda>_. True) (\<lambda>_ d. d) ZT_STATE_OBJECT_PEER 0xabc [1, 2] 2
        (xworld0\<lparr>x_home := ''/d''\<rparr>) = Some y
    \<and> cb_state_get ZT_STATE_OBJECT_PEER 0xabc 16 y = (2, [1, 2])"
  using cb_state_put_get [of "xworld0\<lparr>x_home := ''/d''\<rparr>" ZT_STATE_OBJECT_PEER "[1, 2]" 16
      "\<lambda>_. True" "0xabc" "\<lambda>_ d. d"] by auto

text \<open>
  A negative length is not guarded: the file is opened for writing and \<^verbatim>\<open>fwrite\<close>, whose
  length is unsigned, reads outside the data.
\<close>

lemma cb_state_put_negative:
  assumes "length (x_home x) \<le> 255" "t \<noteq> ZT_STATE_OBJECT_OTHER" "len < 0"
    "fopen (x_home x @ object_name t i)"
  shows "cb_state_put fopen fwrite t i data len x = None"
  using assms by (cases t) (auto simp: cb_state_put_def path_fits Let_def)

lemma cb_state_put_negative_witness:
  "cb_state_put (\<lambda>_. True) (\<lambda>_ d. d) ZT_STATE_OBJECT_NETWORK_CONFIG 5 [] (- 1)
     (xworld0\<lparr>x_home := ''/d''\<rparr>) = None"
  by (rule cb_state_put_negative) simp_all

end
