(* ===== verification/Xnet_Socket.thy ===== *)
theory Xnet_Socket
  imports Xnet_Lifecycle
begin

text \<open>
  \<^verbatim>\<open>externals/libzt-jni/xnet_socket.c\<close>: the socket calls of the client. The lwIP call
  behind each is a parameter: it takes its arguments and the state of the socket layer and gives
  the returned number and the new state. A \<^verbatim>\<open>NULL\<close> pointer is \<open>None\<close>.
\<close>

definition not_ready :: "xworld \<Rightarrow> bool" where
  "not_ready x \<longleftrightarrow> \<not> x_running x \<or> \<not> x_lwip_up x"

definition xnet_socket ::
    "(int \<Rightarrow> int \<Rightarrow> int \<Rightarrow> 's \<Rightarrow> int \<times> 's) \<Rightarrow> int \<Rightarrow> int \<Rightarrow> int \<Rightarrow> xworld \<Rightarrow> 's \<Rightarrow> int \<times> 's" where
  "xnet_socket lwip_socket domain type protocol x s =
     (if not_ready x then (XNET_ERR_SERVICE, s) else lwip_socket domain type protocol s)"

definition xnet_connect ::
    "(int \<Rightarrow> 'a \<Rightarrow> nat \<Rightarrow> 's \<Rightarrow> int \<times> 's) \<Rightarrow> int \<Rightarrow> 'a option \<Rightarrow> nat \<Rightarrow> xworld \<Rightarrow> 's \<Rightarrow> int \<times> 's" where
  "xnet_connect lwip_connect fd addr len x s =
     (if not_ready x then (XNET_ERR_SERVICE, s)
      else case addr of None \<Rightarrow> (XNET_ERR_ARG, s) | Some a \<Rightarrow> lwip_connect fd a len s)"

definition xnet_bind ::
    "(int \<Rightarrow> 'a \<Rightarrow> nat \<Rightarrow> 's \<Rightarrow> int \<times> 's) \<Rightarrow> int \<Rightarrow> 'a option \<Rightarrow> nat \<Rightarrow> xworld \<Rightarrow> 's \<Rightarrow> int \<times> 's" where
  "xnet_bind lwip_bind fd addr len x s =
     (if not_ready x then (XNET_ERR_SERVICE, s)
      else case addr of None \<Rightarrow> (XNET_ERR_ARG, s) | Some a \<Rightarrow> lwip_bind fd a len s)"

definition xnet_listen ::
    "(int \<Rightarrow> int \<Rightarrow> 's \<Rightarrow> int \<times> 's) \<Rightarrow> int \<Rightarrow> int \<Rightarrow> xworld \<Rightarrow> 's \<Rightarrow> int \<times> 's" where
  "xnet_listen lwip_listen fd backlog x s =
     (if not_ready x then (XNET_ERR_SERVICE, s) else lwip_listen fd backlog s)"

definition xnet_accept ::
    "(int \<Rightarrow> 'a option \<Rightarrow> 'l option \<Rightarrow> 's \<Rightarrow> int \<times> 's) \<Rightarrow> int \<Rightarrow> 'a option \<Rightarrow> 'l option
      \<Rightarrow> xworld \<Rightarrow> 's \<Rightarrow> int \<times> 's" where
  "xnet_accept lwip_accept fd addr len x s =
     (if not_ready x then (XNET_ERR_SERVICE, s) else lwip_accept fd addr len s)"

definition xnet_send ::
    "(int \<Rightarrow> 'b \<Rightarrow> nat \<Rightarrow> int \<Rightarrow> 's \<Rightarrow> int \<times> 's) \<Rightarrow> int \<Rightarrow> 'b option \<Rightarrow> nat \<Rightarrow> int
      \<Rightarrow> xworld \<Rightarrow> 's \<Rightarrow> int \<times> 's" where
  "xnet_send lwip_send fd buf len flags x s =
     (if not_ready x then (XNET_ERR_SERVICE, s)
      else case buf of
             None \<Rightarrow> (XNET_ERR_ARG, s)
           | Some b \<Rightarrow> if len = 0 then (XNET_ERR_ARG, s) else lwip_send fd b len flags s)"

definition xnet_sendto ::
    "(int \<Rightarrow> 'b \<Rightarrow> nat \<Rightarrow> int \<Rightarrow> 'a option \<Rightarrow> nat \<Rightarrow> 's \<Rightarrow> int \<times> 's) \<Rightarrow> int \<Rightarrow> 'b option \<Rightarrow> nat \<Rightarrow> int
      \<Rightarrow> 'a option \<Rightarrow> nat \<Rightarrow> xworld \<Rightarrow> 's \<Rightarrow> int \<times> 's" where
  "xnet_sendto lwip_sendto fd buf len flags addr addrlen x s =
     (if not_ready x then (XNET_ERR_SERVICE, s)
      else case buf of
             None \<Rightarrow> (XNET_ERR_ARG, s)
           | Some b \<Rightarrow> if len = 0 then (XNET_ERR_ARG, s)
                       else lwip_sendto fd b len flags addr addrlen s)"

definition xnet_recv ::
    "(int \<Rightarrow> 'b \<Rightarrow> nat \<Rightarrow> int \<Rightarrow> 's \<Rightarrow> int \<times> 's) \<Rightarrow> int \<Rightarrow> 'b option \<Rightarrow> nat \<Rightarrow> int
      \<Rightarrow> xworld \<Rightarrow> 's \<Rightarrow> int \<times> 's" where
  "xnet_recv lwip_recv fd buf len flags x s =
     (if not_ready x then (XNET_ERR_SERVICE, s)
      else case buf of None \<Rightarrow> (XNET_ERR_ARG, s) | Some b \<Rightarrow> lwip_recv fd b len flags s)"

definition xnet_recvfrom ::
    "(int \<Rightarrow> 'b \<Rightarrow> nat \<Rightarrow> int \<Rightarrow> 'a option \<Rightarrow> 'l option \<Rightarrow> 's \<Rightarrow> int \<times> 's) \<Rightarrow> int \<Rightarrow> 'b option \<Rightarrow> nat
      \<Rightarrow> int \<Rightarrow> 'a option \<Rightarrow> 'l option \<Rightarrow> xworld \<Rightarrow> 's \<Rightarrow> int \<times> 's" where
  "xnet_recvfrom lwip_recvfrom fd buf len flags addr addrlen x s =
     (if not_ready x then (XNET_ERR_SERVICE, s)
      else case buf of
             None \<Rightarrow> (XNET_ERR_ARG, s)
           | Some b \<Rightarrow> lwip_recvfrom fd b len flags addr addrlen s)"

definition xnet_close :: "(int \<Rightarrow> 's \<Rightarrow> int \<times> 's) \<Rightarrow> int \<Rightarrow> 's \<Rightarrow> int \<times> 's" where
  "xnet_close lwip_close fd s = lwip_close fd s"

definition xnet_setsockopt ::
    "(int \<Rightarrow> int \<Rightarrow> int \<Rightarrow> 'v option \<Rightarrow> nat \<Rightarrow> 's \<Rightarrow> int \<times> 's) \<Rightarrow> int \<Rightarrow> int \<Rightarrow> int \<Rightarrow> 'v option \<Rightarrow> nat
      \<Rightarrow> xworld \<Rightarrow> 's \<Rightarrow> int \<times> 's" where
  "xnet_setsockopt lwip_setsockopt fd level optname optval optlen x s =
     (if not_ready x then (XNET_ERR_SERVICE, s) else lwip_setsockopt fd level optname optval optlen s)"

definition xnet_getsockopt ::
    "(int \<Rightarrow> int \<Rightarrow> int \<Rightarrow> 'v option \<Rightarrow> 'l option \<Rightarrow> 's \<Rightarrow> int \<times> 's) \<Rightarrow> int \<Rightarrow> int \<Rightarrow> int \<Rightarrow> 'v option
      \<Rightarrow> 'l option \<Rightarrow> xworld \<Rightarrow> 's \<Rightarrow> int \<times> 's" where
  "xnet_getsockopt lwip_getsockopt fd level optname optval optlen x s =
     (if not_ready x then (XNET_ERR_SERVICE, s) else lwip_getsockopt fd level optname optval optlen s)"

definition xnet_shutdown :: "(int \<Rightarrow> int \<Rightarrow> 's \<Rightarrow> int \<times> 's) \<Rightarrow> int \<Rightarrow> int \<Rightarrow> 's \<Rightarrow> int \<times> 's" where
  "xnet_shutdown lwip_shutdown fd how s = lwip_shutdown fd how s"

text \<open>\<^verbatim>\<open>F_SETFL\<close> is 4 in lwIP; the flags are an \<^verbatim>\<open>int\<close> of 32 bits.\<close>

definition xnet_fcntl ::
    "(int \<Rightarrow> int \<Rightarrow> u32 \<Rightarrow> 's \<Rightarrow> int \<times> 's) \<Rightarrow> int \<Rightarrow> int \<Rightarrow> u32 \<Rightarrow> xworld \<Rightarrow> 's \<Rightarrow> int \<times> 's" where
  "xnet_fcntl lwip_fcntl fd cmd flags x s =
     (if not_ready x then (XNET_ERR_SERVICE, s)
      else
        let flags = (if cmd = 4 \<and> flags AND 2048 \<noteq> 0 then (flags AND NOT 2048) OR 1 else flags)
        in lwip_fcntl fd cmd flags s)"

section \<open>The gate\<close>

text \<open>A call that is refused, with the socket layer untouched, while the service is not ready.\<close>

locale gated_call =
  fixes call :: "xworld \<Rightarrow> 's \<Rightarrow> int \<times> 's"
  assumes gate: "not_ready x \<Longrightarrow> call x s = (XNET_ERR_SERVICE, s)"
begin

lemma refused_after_stop:
  assumes "x_running x" "x_lwip_inited x" "xnet_stop Some x = Some (r, y)" "dead.run ops (Some y) = Some z"
  shows "call z s = (XNET_ERR_SERVICE, s)"
proof -
  have "stack_dead (Some y)" using stop_flags [OF assms(3)] assms(1,2) by (simp add: stack_dead_def)
  moreover have "dead.run_ok ops s'" for s' by (induction ops arbitrary: s') simp_all
  ultimately have "stack_dead (Some z)" using dead.run_inv [of "Some y" ops] assms(4) by simp
  then show ?thesis by (intro gate) (simp add: stack_dead_def not_ready_def)
qed

end

interpretation g_socket: gated_call "xnet_socket f d t p" for f d t p
  by unfold_locales (simp add: xnet_socket_def)
interpretation g_connect: gated_call "xnet_connect f fd a l" for f fd a l
  by unfold_locales (simp add: xnet_connect_def)
interpretation g_bind: gated_call "xnet_bind f fd a l" for f fd a l
  by unfold_locales (simp add: xnet_bind_def)
interpretation g_listen: gated_call "xnet_listen f fd b" for f fd b
  by unfold_locales (simp add: xnet_listen_def)
interpretation g_accept: gated_call "xnet_accept f fd a l" for f fd a l
  by unfold_locales (simp add: xnet_accept_def)
interpretation g_send: gated_call "xnet_send f fd b n fl" for f fd b n fl
  by unfold_locales (simp add: xnet_send_def)
interpretation g_sendto: gated_call "xnet_sendto f fd b n fl a l" for f fd b n fl a l
  by unfold_locales (simp add: xnet_sendto_def)
interpretation g_recv: gated_call "xnet_recv f fd b n fl" for f fd b n fl
  by unfold_locales (simp add: xnet_recv_def)
interpretation g_recvfrom: gated_call "xnet_recvfrom f fd b n fl a l" for f fd b n fl a l
  by unfold_locales (simp add: xnet_recvfrom_def)
interpretation g_setsockopt: gated_call "xnet_setsockopt f fd l n v vl" for f fd l n v vl
  by unfold_locales (simp add: xnet_setsockopt_def)
interpretation g_getsockopt: gated_call "xnet_getsockopt f fd l n v vl" for f fd l n v vl
  by unfold_locales (simp add: xnet_getsockopt_def)
interpretation g_fcntl: gated_call "xnet_fcntl f fd c fl" for f fd c fl
  by unfold_locales (simp add: xnet_fcntl_def)

lemmas gated = g_socket.gate g_connect.gate g_bind.gate g_listen.gate g_accept.gate g_send.gate
  g_sendto.gate g_recv.gate g_recvfrom.gate g_setsockopt.gate g_getsockopt.gate g_fcntl.gate

text \<open>
  After a stop the socket calls stay shut however often the service is started again: opening,
  connecting, sending and receiving all fail with the service error and never reach lwIP.
\<close>

lemma xnet_sockets_refused_after_stop:
  assumes "x_running x" "x_lwip_inited x" "xnet_stop Some x = Some (r, y)" "dead.run ops (Some y) = Some z"
  shows "xnet_socket f1 d t p z s = (XNET_ERR_SERVICE, s)
    \<and> xnet_connect f2 fd a l z s = (XNET_ERR_SERVICE, s)
    \<and> xnet_send f3 fd b n fl z s = (XNET_ERR_SERVICE, s)
    \<and> xnet_recv f4 fd b' n fl z s = (XNET_ERR_SERVICE, s)"
  by (intro conjI g_socket.refused_after_stop [OF assms] g_connect.refused_after_stop [OF assms]
      g_send.refused_after_stop [OF assms] g_recv.refused_after_stop [OF assms])

lemma xnet_sockets_refused_after_stop_witness:
  "\<exists>y z. xnet_stop Some (xworld0\<lparr>x_running := True, x_lwip_inited := True, x_lwip_up := True\<rparr>) = Some (0, y)
     \<and> dead.run [Op_Start True (Some ''/d'') True 0] (Some y) = Some z \<and> x_running z
     \<and> xnet_socket (\<lambda>_ _ _ s. (3, s)) 2 1 0 z () = (- 2, ())"
proof -
  let ?x = "xworld0\<lparr>x_running := True, x_lwip_inited := True, x_lwip_up := True\<rparr>"
  obtain y where y: "xnet_stop Some ?x = Some (0, y)" "\<not> x_running y" "x_lwip_inited y"
    by (simp add: xnet_stop_def svc_thread_end_def xnet_lwip_shutdown_def notify_def xworld0_def)
  then obtain z where z: "dead.run [Op_Start True (Some ''/d'') True 0] (Some y) = Some z" "x_running z"
    by (simp add: xnet_steps_def xnet_start_def xnet_lwip_init_def Let_def x_simps)
  moreover have "xnet_socket (\<lambda>_ _ _ s. (3, s)) 2 1 0 z () = (- 2, ())"
    by (rule xnet_sockets_refused_after_stop [OF _ _ y(1) z(1), THEN conjunct1]) simp_all
  ultimately show ?thesis using y(1) by blast
qed

text \<open>
  Setting the file status flags with the platform's non-blocking bit 2048 passes lwIP its own
  bit 1 in its place and every other bit unchanged; without it, and for every other command, the
  flags are passed as they are.
\<close>

lemma xnet_fcntl_flags:
  assumes "x_running x" "x_lwip_up x"
  shows "\<exists>fl. xnet_fcntl lwip_fcntl fd cmd flags x s = lwip_fcntl fd cmd fl s
    \<and> (if cmd = 4 \<and> bit flags 11
       then \<forall>k<32. bit fl k = (k = 0 \<or> k \<noteq> 11 \<and> bit flags k)
       else fl = flags)"
proof -
  have "(2048 :: int) = 2 ^ 11" by simp
  then have m: "bit (2048 :: int) k \<longleftrightarrow> k = 11" for k
    by (auto simp only: bit_exp_iff) simp_all
  have "(- 2049 :: int) = NOT 2048" by (simp add: not_int_def)
  then have n: "bit (- 2049 :: int) k \<longleftrightarrow> k \<noteq> 11" for k
    by (simp only: bit_not_int_iff m)
  have b: "flags AND 2048 \<noteq> 0 \<longleftrightarrow> bit flags 11"
    by (auto simp: bit_eq_iff [of "flags AND _"] bit_and_iff m)
  let ?fl = "if cmd = 4 \<and> flags AND 2048 \<noteq> 0 then (flags AND NOT 2048) OR 1 else flags"
  have "xnet_fcntl lwip_fcntl fd cmd flags x s = lwip_fcntl fd cmd ?fl s"
    using assms by (simp add: xnet_fcntl_def not_ready_def Let_def)
  moreover have "if cmd = 4 \<and> bit flags 11
      then \<forall>k<32. bit ?fl k = (k = 0 \<or> k \<noteq> 11 \<and> bit flags k) else ?fl = flags"
    by (auto simp: b bit_and_iff bit_or_iff bit_not_iff bit_1_iff m n)
  ultimately show ?thesis by blast
qed

lemma xnet_fcntl_flags_witness:
  "\<exists>fl. xnet_fcntl (\<lambda>_ _ fl s. (0, fl)) 3 4 2050 sample_world 0 = (0, fl) \<and> bit fl 0 \<and> \<not> bit fl 11 \<and> bit fl 1"
  using xnet_fcntl_flags [of sample_world "\<lambda>_ _ fl s. (0, fl)" 3 4 2050 0]
  by (auto simp: sample_world_def)

end
