(* ===== verification/Java_Base.thy ===== *)
theory Java_Base
  imports Inet_Chksum "HOL-Library.Monad_Syntax"
begin

text \<open>
  What the Java sources under \<^verbatim>\<open>src/app\<close> use of their language and its library.
  A call that throws is \<open>None\<close>; a value that may be \<^verbatim>\<open>null\<close> is an \<open>option\<close> of its
  own. A \<^verbatim>\<open>byte\<close> is a word of 8 bits, an \<^verbatim>\<open>int\<close> one of 32 and a
  \<^verbatim>\<open>long\<close> one of 64, whose order and shift are taken as signed where the code compares or
  shifts them; lengths and offsets of arrays are natural numbers.
\<close>

named_theorems java \<open>array accesses and conversions of the Java model\<close>

section \<open>Arrays\<close>

definition aget :: "'a list \<Rightarrow> nat \<Rightarrow> 'a option" where
  "aget bs i = (if i < length bs then Some (bs ! i) else None)"

definition aput :: "'a list \<Rightarrow> nat \<Rightarrow> 'a \<Rightarrow> 'a list option" where
  "aput bs i v = (if i < length bs then Some (bs[i := v]) else None)"

text \<open>\<^verbatim>\<open>System.arraycopy\<close>; the copies of the sources are between different arrays.\<close>

definition arraycopy :: "'a list \<Rightarrow> nat \<Rightarrow> 'a list \<Rightarrow> nat \<Rightarrow> nat \<Rightarrow> 'a list option" where
  "arraycopy src srcPos dst dstPos len =
     (if srcPos + len \<le> length src \<and> dstPos + len \<le> length dst
      then Some (mem_write dst dstPos (take len (drop srcPos src))) else None)"

text \<open>\<^verbatim>\<open>Arrays.copyOf\<close>: cut off or filled with zeros.\<close>

definition copyOf :: "u8 list \<Rightarrow> nat \<Rightarrow> u8 list" where
  "copyOf bs n = take n bs @ replicate (n - length bs) 0"

section \<open>Byte buffers\<close>

definition be_word :: "u8 list \<Rightarrow> 'a::len word" where
  "be_word bs = foldl (\<lambda>a b. push_bit 8 a OR ucast b) 0 bs"

definition getInt :: "u8 list \<Rightarrow> u32 option" where
  "getInt bs = (if length bs < 4 then None else Some (be_word (take 4 bs)))"

definition getLong :: "u8 list \<Rightarrow> u64 option" where
  "getLong bs = (if length bs < 8 then None else Some (be_word (take 8 bs)))"

definition putShort :: "u16 \<Rightarrow> u8 list" where
  "putShort w = [ucast (drop_bit 8 w), ucast w]"

definition putInt :: "u32 \<Rightarrow> u8 list" where
  "putInt w = [ucast (drop_bit 24 w), ucast (drop_bit 16 w), ucast (drop_bit 8 w), ucast w]"

definition putLong :: "u64 \<Rightarrow> u8 list" where
  "putLong w = [ucast (drop_bit 56 w), ucast (drop_bit 48 w), ucast (drop_bit 40 w),
     ucast (drop_bit 32 w), ucast (drop_bit 24 w), ucast (drop_bit 16 w), ucast (drop_bit 8 w), ucast w]"

section \<open>Integers\<close>

text \<open>The shifts of \<^verbatim>\<open>int\<close> use the low five bits of the distance.\<close>

definition ishl :: "u32 \<Rightarrow> int \<Rightarrow> u32" where
  "ishl x n = push_bit (nat (n mod 32)) x"

definition ishr :: "u32 \<Rightarrow> int \<Rightarrow> u32" where
  "ishr x n = signed_drop_bit (nat (n mod 32)) x"

text \<open>\<^verbatim>\<open>BigInteger\<close>: two's complement bytes, most significant first, and shifts.\<close>

definition bigInteger :: "u8 list \<Rightarrow> int" where
  "bigInteger bs =
     (let u = foldl (\<lambda>a b. a * 256 + uint b) 0 bs
      in case bs of [] \<Rightarrow> 0 | b # _ \<Rightarrow> if b \<ge> 128 then u - 256 ^ length bs else u)"

definition shiftLeft :: "int \<Rightarrow> int \<Rightarrow> int" where
  "shiftLeft x n = (if 0 \<le> n then x * 2 ^ nat n else x div 2 ^ nat (- n))"

definition shiftRight :: "int \<Rightarrow> int \<Rightarrow> int" where
  "shiftRight x n = shiftLeft x (- n)"

function toByteArray :: "int \<Rightarrow> u8 list" where
  "toByteArray x =
     (if - 128 \<le> x \<and> x < 128 then [of_int x] else toByteArray (x div 256) @ [of_int x])"
  by auto
termination
proof (relation "measure (\<lambda>x. nat \<bar>x\<bar>)", simp)
  fix x :: int
  assume "\<not> (- 128 \<le> x \<and> x < 128)"
  then have "\<bar>x div 256\<bar> < \<bar>x\<bar>" by linarith
  then show "(x div 256, x) \<in> measure (\<lambda>x. nat \<bar>x\<bar>)" by simp
qed

declare toByteArray.simps [simp del]

section \<open>Internet addresses\<close>

datatype InetAddress = Inet4Address "u8 list" | Inet6Address "u8 list"

primrec getAddress :: "InetAddress \<Rightarrow> u8 list" where
  "getAddress (Inet4Address bs) = bs"
| "getAddress (Inet6Address bs) = bs"

primrec is_inet4 :: "InetAddress \<Rightarrow> bool" where
  "is_inet4 (Inet4Address _) = True"
| "is_inet4 (Inet6Address _) = False"

text \<open>The addresses a program can have.\<close>

definition v4_mapped :: "u8 list \<Rightarrow> bool" where
  "v4_mapped bs \<longleftrightarrow> take 12 bs = replicate 10 0 @ [0xff, 0xff]"

definition inet_ok :: "InetAddress \<Rightarrow> bool" where
  "inet_ok a = (case a of Inet4Address bs \<Rightarrow> length bs = 4
                        | Inet6Address bs \<Rightarrow> length bs = 16 \<and> \<not> v4_mapped bs)"

text \<open>\<^verbatim>\<open>InetAddress.getByAddress\<close>: an IPv4-mapped address of 16 bytes gives an IPv4 address.\<close>

definition getByAddress :: "u8 list \<Rightarrow> InetAddress option" where
  "getByAddress bs =
     (if length bs = 4 then Some (Inet4Address bs)
      else if length bs = 16 then
        Some (if v4_mapped bs then Inet4Address (drop 12 bs) else Inet6Address bs)
      else None)"

section \<open>Library\<close>

lemma aget_Some [java]: "i < length bs \<Longrightarrow> aget bs i = Some (bs ! i)"
  by (simp add: aget_def)

lemma aput_Some [java]: "i < length bs \<Longrightarrow> aput bs i v = Some (bs[i := v])"
  by (simp add: aput_def)

lemma arraycopy_Some [java]:
  "srcPos + len \<le> length src \<Longrightarrow> dstPos + len \<le> length dst
    \<Longrightarrow> arraycopy src srcPos dst dstPos len = Some (mem_write dst dstPos (take len (drop srcPos src)))"
  by (simp add: arraycopy_def)

lemma length_put [simp]: "length (putShort w) = 2" "length (putInt v) = 4" "length (putLong u) = 8"
  by (simp_all add: putShort_def putInt_def putLong_def)

lemma be_word_snoc: "be_word (bs @ [b]) = push_bit 8 (be_word bs) OR ucast b"
  by (simp add: be_word_def)

lemma bit_be_word:
  "bit (be_word bs :: 'a::len word) k \<longleftrightarrow>
     k < LENGTH('a) \<and> k div 8 < length bs \<and> bit (bs ! (length bs - 1 - k div 8)) (k mod 8)"
proof (induction bs arbitrary: k rule: rev_induct)
  case Nil
  then show ?case by (simp add: be_word_def)
next
  case (snoc b bs)
  show ?case
  proof (cases "k < 8")
    case True
    then show ?thesis
      by (auto simp: be_word_snoc bit_or_iff bit_push_bit_iff bit_ucast_iff)
  next
    case False
    then have k: "k = 8 + (k - 8)" and q: "k div 8 = Suc ((k - 8) div 8)" "k mod 8 = (k - 8) mod 8"
      by (simp, metis Suc_eq_plus1 add.commute div_add_self1 le_add_diff_inverse not_less zero_neq_numeral,
          metis False le_add_diff_inverse mod_add_self1 not_less)
    have b: "\<not> bit (ucast b :: 'a word) k" using False bit_imp_le_length [of b k]
      by (auto simp: bit_ucast_iff)
    show ?thesis using False b
      by (auto simp: be_word_snoc bit_or_iff bit_push_bit_iff snoc.IH q nth_append)
  qed
qed

lemma bit_putInt: "i < 4 \<Longrightarrow> j < 8 \<Longrightarrow> bit (putInt w ! i) j \<longleftrightarrow> bit w (24 - 8 * i + j)"
  by (auto simp: putInt_def bit_ucast_iff bit_drop_bit_eq less_Suc_eq numeral_eq_Suc)

lemma getAddress_length [simp]:
  "inet_ok a \<Longrightarrow> length (getAddress a) = (if is_inet4 a then 4 else 16)"
  by (cases a) (simp_all add: inet_ok_def)

lemma getByAddress_ok: "getByAddress bs = Some a \<Longrightarrow> inet_ok a"
  by (auto simp: getByAddress_def inet_ok_def split: if_splits)

end
