(* ===== verification/Inet_Utils.thy ===== *)
theory Inet_Utils
  imports Java_Base
begin

text \<open>
  \<^verbatim>\<open>InetAddressUtils.java\<close>, \<^verbatim>\<open>IPPacketUtils.java\<close> and \<^verbatim>\<open>Route.java\<close>: netmasks and network
  prefixes, the addresses and the checksum of a packet, and routes.
\<close>

section \<open>Netmasks and prefixes\<close>

definition BROADCAST_MAC_ADDRESS :: u64 where
  "BROADCAST_MAC_ADDRESS = 0xffffffffffff"

definition addressToNetmask :: "InetAddress \<Rightarrow> int \<Rightarrow> u8 list option" where
  "addressToNetmask address cidr =
     (let len = length (getAddress address);
          subnetLength = int len * 8 - cidr;
          fullMasked = replicate len (- 1)
      in if len = 4 then
           do { m \<leftarrow> getInt fullMasked;
                Some (putInt (ishl (ishr m subnetLength) subnetLength)) }
         else if cidr = 0 then Some (replicate len 0)
         else
           let shiftedAddress =
                 toByteArray (shiftLeft (shiftRight (bigInteger fullMasked) subnetLength) subnetLength)
           in if length shiftedAddress = len then Some shiftedAddress
              else
                let offset = nat \<bar>int len - int (length shiftedAddress)\<bar>
                in do { netmask \<leftarrow> arraycopy (replicate offset (hd shiftedAddress)) 0
                                    (replicate len 0) 0 offset;
                        arraycopy shiftedAddress 0 netmask offset (length shiftedAddress) })"

definition addressToRouteNo0Route :: "InetAddress \<Rightarrow> int \<Rightarrow> InetAddress option option" where
  "addressToRouteNo0Route address cidr =
     do { netmask \<leftarrow> addressToNetmask address cidr;
          if length (getAddress address) < length netmask then None
          else
            let rawAddress = map (\<lambda>i. getAddress address ! i AND netmask ! i) [0..<length netmask]
            in Some (getByAddress rawAddress) }"

definition addressToRoute :: "InetAddress \<Rightarrow> int \<Rightarrow> InetAddress option option" where
  "addressToRoute inetAddress i =
     (if i = 0 then
        (case inetAddress of
           Inet4Address _ \<Rightarrow> Some (getByAddress (replicate 4 0))
         | Inet6Address _ \<Rightarrow> Some (getByAddress (replicate 16 0)))
      else addressToRouteNo0Route inetAddress i)"

definition ipv6ToMulticastAddress :: "InetAddress \<Rightarrow> u64 option" where
  "ipv6ToMulticastAddress inetAddress =
     (let address = getAddress inetAddress
      in if length address \<noteq> 16 then Some 0
         else getLong [0, 0, 51, 51, - 1, address ! 13, address ! 14, address ! 15])"

section \<open>Packets\<close>

definition getIPVersion :: "u8 list \<Rightarrow> u8 option" where
  "getIPVersion bArr = do { b \<leftarrow> aget bArr 0; Some (signed_drop_bit 4 b) }"

definition getSourceIP :: "u8 list \<Rightarrow> InetAddress option option" where
  "getSourceIP bArr =
     do { iPVersion \<leftarrow> getIPVersion bArr;
          if iPVersion = 4 then
            do { bArr2 \<leftarrow> arraycopy bArr 12 (replicate 4 0) 0 4; Some (getByAddress bArr2) }
          else if iPVersion = 6 then
            do { bArr3 \<leftarrow> arraycopy bArr 8 (replicate 16 0) 0 16; Some (getByAddress bArr3) }
          else Some None }"

definition getDestIP :: "u8 list \<Rightarrow> InetAddress option option" where
  "getDestIP bArr =
     do { iPVersion \<leftarrow> getIPVersion bArr;
          if iPVersion = 4 then
            do { bArr2 \<leftarrow> arraycopy bArr 16 (replicate 4 0) 0 4; Some (getByAddress bArr2) }
          else if iPVersion = 6 then
            do { bArr3 \<leftarrow> arraycopy bArr 24 (replicate 16 0) 0 16; Some (getByAddress bArr3) }
          else Some None }"

text \<open>One carry of the checksum: \<open>j\<close> is a \<^verbatim>\<open>long\<close>, so the test is signed.\<close>

definition carry :: "u64 \<Rightarrow> u64" where
  "carry j = (if 0 <s (- 65536 AND j) then (j AND 65535) + 1 else j)"

function checksum_loop :: "u8 list \<Rightarrow> u64 \<Rightarrow> nat \<Rightarrow> nat \<Rightarrow> (u64 \<times> nat \<times> nat) option" where
  "checksum_loop bArr j i i3 =
     (if i3 > 1 then
        do { a \<leftarrow> aget bArr i;
             b \<leftarrow> aget bArr (i + 1);
             let w = ((65280 AND push_bit 8 (scast a)) OR (scast b AND 255) :: u32)
             in checksum_loop bArr (carry (j + scast w)) (i + 2) (i3 - 2) }
      else Some (j, i, i3))"
  by pat_completeness auto
termination by (relation "measure (\<lambda>(_, _, _, i3). i3)") auto

declare checksum_loop.simps [simp del]

definition calculateChecksum :: "u8 list \<Rightarrow> u64 \<Rightarrow> nat \<Rightarrow> nat \<Rightarrow> u64 option" where
  "calculateChecksum bArr j i i2 =
     do { (j, i, i3) \<leftarrow> checksum_loop bArr j i (i2 - i);
          j \<leftarrow> (if i3 > 0 then
                 do { a \<leftarrow> aget bArr i;
                      Some (carry (j + scast (push_bit 8 (scast a) AND 65280 :: u32))) }
               else Some j);
          Some (NOT j AND 65535) }"

section \<open>Routes\<close>

record Route =
  r_address :: InetAddress
  r_prefix :: int
  r_gateway :: "InetAddress option"

definition belongsToRoute :: "Route \<Rightarrow> InetAddress \<Rightarrow> bool option" where
  "belongsToRoute r inetAddress =
     map_option (\<lambda>a. a = Some (r_address r)) (addressToRoute inetAddress (r_prefix r))"

section \<open>Netmasks: correctness\<close>

text \<open>Bit \<open>k\<close> of an address, counted from the front, and the netmask of a prefix length.\<close>

definition addr_bit :: "u8 list \<Rightarrow> nat \<Rightarrow> bool" where
  "addr_bit bs k = bit (bs ! (k div 8)) (7 - k mod 8)"

definition netmask_ok :: "u8 list \<Rightarrow> nat \<Rightarrow> bool" where
  "netmask_ok m n \<longleftrightarrow> (\<forall>k < 8 * length m. addr_bit m k \<longleftrightarrow> k < n)"

lemma ishr_minus_1: "ishr (- 1) n = - 1"
  by (simp add: ishr_def)

lemma getInt_full: "getInt (replicate 4 (- 1)) = Some (- 1)"
  by code_simp

lemma netmask4:
  assumes "length (getAddress a) = 4"
  shows "addressToNetmask a c = Some (putInt (push_bit (nat ((32 - c) mod 32)) (- 1)))"
  using assms by (simp add: addressToNetmask_def getInt_full ishr_minus_1 ishl_def)

lemma addr_bit_putInt: "k < 32 \<Longrightarrow> addr_bit (putInt w) k \<longleftrightarrow> bit w (31 - k)"
proof -
  assume k: "k < 32"
  have "24 - 8 * (k div 8) + (7 - k mod 8) = 31 - k"
    using k by presburger
  then show ?thesis using bit_putInt [of "k div 8" "7 - k mod 8" w] k by (simp add: addr_bit_def)
qed

lemma netmask4_ok:
  assumes "length (getAddress a) = 4" "c \<le> 32" "0 < c"
  shows "\<exists>m. addressToNetmask a (int c) = Some m \<and> length m = 4 \<and> netmask_ok m c"
proof -
  have "(32 - int c) mod 32 = 32 - int c" using assms(2,3) by (intro mod_pos_pos_trivial) auto
  then have s: "nat ((32 - int c) mod 32) = 32 - c" using assms(2) by linarith
  have "netmask_ok (putInt (push_bit (32 - c) (- 1))) c"
    using assms(2,3) by (auto simp: netmask_ok_def addr_bit_putInt bit_not_iff bit_mask_iff)
  then show ?thesis unfolding netmask4 [OF assms(1)] s by simp
qed

lemma toByteArray_minus_power:
  "toByteArray (- (2 ^ s)) = of_int (- (2 ^ (s mod 8))) # replicate (s div 8) 0"
proof (induction s rule: less_induct)
  case (less s)
  show ?case
  proof (cases "s < 8")
    case True
    then have "(2::int) ^ s \<le> 2 ^ 7" by (intro power_increasing) auto
    moreover have "- ((2::int) ^ s) < 128" by (rule order.strict_trans1 [of _ 0]) simp_all
    ultimately show ?thesis using True by (simp add: toByteArray.simps [of "- (2 ^ s)"])
  next
    case False
    then obtain t where t: "s = t + 8" by (metis add.commute le_Suc_ex not_less)
    have e: "- ((2::int) ^ s) = - (2 ^ t) * 256" by (simp add: t power_add)
    have "(2::int) ^ s \<ge> 2 ^ 8" using False by (intro power_increasing) auto
    then have "toByteArray (- (2 ^ s)) = toByteArray (- (2 ^ s) div 256) @ [of_int (- (2 ^ s))]"
      by (subst toByteArray.simps) simp
    also have "- ((2::int) ^ s) div 256 = - (2 ^ t)" unfolding e by simp
    also have "(of_int (- (2 ^ s)) :: u8) = 0"
    proof -
      have "(of_int (- (2 ^ t) * 256) :: u8) = of_int (- (2 ^ t)) * of_int 256" by (rule of_int_mult)
      also have "(of_int 256 :: u8) = 0" by simp
      finally show ?thesis unfolding e by simp
    qed
    finally have "toByteArray (- (2 ^ s)) = toByteArray (- (2 ^ t)) @ [0]" .
    moreover have "toByteArray (- (2 ^ t)) = of_int (- (2 ^ (t mod 8))) # replicate (t div 8) 0"
      using less.IH [of t] by (simp add: t)
    moreover have "s div 8 = Suc (t div 8)" "s mod 8 = t mod 8" by (simp_all add: t div_add_self2)
    ultimately show ?thesis by (simp add: replicate_append_same)
  qed
qed

lemma bigInteger_full: "bigInteger (replicate 16 (- 1)) = - 1"
  by code_simp

lemma netmask6:
  assumes "length (getAddress a) = 16" "0 < c" "c \<le> 128"
  defines "s \<equiv> 128 - c"
  defines "b \<equiv> (of_int (- (2 ^ (s mod 8))) :: u8)"
  shows "addressToNetmask a (int c) = Some (replicate (16 - s div 8) b @ replicate (s div 8) 0)"
proof -
  have s: "int 16 * 8 - int c = int s" and sd: "s div 8 < 16" using assms(2,3) by (auto simp: s_def)
  have "shiftRight (- 1) (int s) = - 1"
    by (cases s) (simp_all add: shiftRight_def shiftLeft_def minus_1_div_exp_eq_int)
  then have sh: "shiftLeft (shiftRight (- 1) (int s)) (int s) = - (2 ^ s)"
    by (simp add: shiftLeft_def)
  have tb: "toByteArray (- (2 ^ s)) = b # replicate (s div 8) 0"
    by (simp add: toByteArray_minus_power b_def)
  show ?thesis
  proof (cases "Suc (s div 8) = 16")
    case True
    then have "16 - s div 8 = 1" by simp
    then show ?thesis using True assms(1,2)
      by (simp add: addressToNetmask_def bigInteger_full s [simplified] sh tb)
  next
    case False
    define k where "k = 15 - s div 8"
    have k: "nat \<bar>int 16 - int (Suc (s div 8))\<bar> = k" "16 - s div 8 = Suc k" "k + Suc (s div 8) = 16"
      using sd by (auto simp: k_def)
    have "mem_write (replicate 16 0) 0 (replicate k b) = replicate k b @ replicate (Suc (s div 8)) 0"
    proof -
      have "16 - k = Suc (s div 8)" using k(3) by simp
      then show ?thesis by (simp add: mem_write_def)
    qed
    moreover have "mem_write (replicate k b @ replicate (Suc (s div 8)) 0) k (b # replicate (s div 8) 0)
        = replicate k b @ b # replicate (s div 8) 0"
      by (simp add: mem_write_def)
    ultimately show ?thesis using False assms(1,2) k
      by (simp add: addressToNetmask_def bigInteger_full s [simplified] sh tb arraycopy_def
          replicate_app_Cons_same)
  qed
qed


lemma bit_minus_power_u8: "p < 8 \<Longrightarrow> bit (of_int (- (2 ^ r)) :: u8) p \<longleftrightarrow> r \<le> p"
proof -
  assume p: "p < 8"
  have "(of_int (- (2 ^ r)) :: u8) = push_bit r (- 1)" by (simp add: push_bit_eq_mult)
  then show ?thesis using p by (simp add: bit_push_bit_iff bit_not_iff bit_mask_iff not_less)
qed

lemma addr_bit_replicate:
  assumes "k < 8 * (i + j)"
  shows "addr_bit (replicate i b @ replicate j 0) k \<longleftrightarrow> k < 8 * i \<and> bit b (7 - k mod 8)"
  using assms by (auto simp: addr_bit_def nth_append div_less_iff_less_mult not_less)

lemma netmask6_iff:
  assumes "length (getAddress a) = 16" "c \<le> 128"
  shows "\<exists>m. addressToNetmask a (int c) = Some m \<and> length m = 16
    \<and> (netmask_ok m c \<longleftrightarrow> c < 8 \<or> 8 dvd c)"
proof (cases "c = 0")
  case True
  then show ?thesis using assms
    by (simp add: addressToNetmask_def netmask_ok_def addr_bit_def)
next
  case False
  define s where "s = 128 - c"
  define b where "b = (of_int (- (2 ^ (s mod 8))) :: u8)"
  define m where "m = replicate (16 - s div 8) b @ replicate (s div 8) 0"
  have s: "s div 8 < 16" "s < 128" using False by (auto simp: s_def)
  have len: "length m = 16" using s by (simp add: m_def)
  have eq: "addressToNetmask a (int c) = Some m"
    using netmask6 [of a c] assms False by (simp add: m_def b_def s_def)
  have bit: "addr_bit m k \<longleftrightarrow> k < 8 * (16 - s div 8) \<and> s mod 8 \<le> 7 - k mod 8" if "k < 128" for k
    using that s bit_minus_power_u8 [of "7 - k mod 8" "s mod 8"]
    unfolding m_def by (subst addr_bit_replicate) (auto simp: b_def)
  have "netmask_ok m c \<longleftrightarrow> c < 8 \<or> 8 dvd c"
  proof
    assume ok: "netmask_ok m c"
    show "c < 8 \<or> 8 dvd c"
    proof (rule ccontr)
      assume *: "\<not> (c < 8 \<or> 8 dvd c)"
      then have "s mod 8 \<noteq> 0" using assms(2) unfolding s_def by presburger
      then have "\<not> addr_bit m 7" by (subst bit) auto
      moreover have "addr_bit m 7" using ok * len by (auto simp: netmask_ok_def)
      ultimately show False by blast
    qed
  next
    assume c: "c < 8 \<or> 8 dvd c"
    show "netmask_ok m c"
      unfolding netmask_ok_def len
    proof (intro allI impI)
      fix k :: nat
      assume k: "k < 8 * 16"
      have "(k < 8 * (16 - s div 8) \<and> s mod 8 \<le> 7 - k mod 8) = (k < c)"
      proof (cases "8 dvd c")
        case True
        then obtain d where "c = 8 * d" by blast
        then have "s div 8 = 16 - d" "s mod 8 = 0" "d \<le> 16" "c = 8 * d"
          using assms(2) by (auto simp: s_def diff_mult_distrib2 [symmetric, of 8 16 d, simplified])
        then show ?thesis by simp
      next
        case ndvd: False
        then have "s div 8 = 15" "s mod 8 = 8 - c" "c < 8"
          using c False by (auto simp: s_def div_nat_eqI mod_nat_eqI)
        then show ?thesis using False by (cases "k < 8") auto
      qed
      then show "addr_bit m k = (k < c)" using k by (subst bit) auto
    qed
  qed
  then show ?thesis using eq len by blast
qed

lemma netmask6_ok:
  assumes "length (getAddress a) = 16" "c \<le> 128" "c < 8 \<or> 8 dvd c"
  shows "\<exists>m. addressToNetmask a (int c) = Some m \<and> length m = 16 \<and> netmask_ok m c"
  using netmask6_iff [OF assms(1,2)] assms(3) by blast

text \<open>
  C36. The netmask of an IPv6 address is right exactly for the prefix lengths below 8 and the
  multiples of 8: for any other length the fill byte is the partial byte of the prefix.
\<close>

theorem addressToNetmask_v6:
  assumes "inet_ok a" "\<not> is_inet4 a" "c \<le> 128"
  shows "\<exists>m. addressToNetmask a (int c) = Some m \<and> length m = 16
    \<and> (netmask_ok m c \<longleftrightarrow> c < 8 \<or> 8 dvd c)"
  using netmask6_iff [of a c] assms by simp

lemma addressToNetmask_v6_witness:
  "\<exists>m. addressToNetmask (Inet6Address (0xfd # replicate 15 0)) 60 = Some m \<and> \<not> netmask_ok m 60"
proof -
  have "inet_ok (Inet6Address (0xfd # replicate 15 0))" by code_simp
  then show ?thesis using addressToNetmask_v6 [of "Inet6Address (0xfd # replicate 15 0)" 60] by auto
qed

section \<open>Routes: correctness\<close>

lemma addr_bit_nth: "i < length bs \<Longrightarrow> j < 8 \<Longrightarrow> bit (bs ! i) j \<longleftrightarrow> addr_bit bs (8 * i + (7 - j))"
proof -
  assume "j < 8"
  then have j: "7 - (7 - j) = j" and "7 - j < 8" by auto
  have "(8 * i + q) div 8 = i" "(8 * i + q) mod 8 = q" if "q < 8" for q using that by auto
  from this [OF \<open>7 - j < 8\<close>] show ?thesis by (simp only: addr_bit_def j)
qed

lemma addr_bits_eqI:
  assumes "length xs = length ys" "\<And>k. k < 8 * length xs \<Longrightarrow> addr_bit xs k = addr_bit ys k"
  shows "xs = ys"
proof (rule nth_equalityI [OF assms(1)])
  fix i
  assume i: "i < length xs"
  show "xs ! i = ys ! i"
  proof (rule bit_word_eqI)
    fix j
    assume "j < LENGTH(8)"
    then show "bit (xs ! i) j = bit (ys ! i) j"
      using i assms by (simp add: addr_bit_nth)
  qed
qed

lemma masked_bits:
  assumes "netmask_ok m c" "length m = length bs" "k < 8 * length bs"
  shows "addr_bit (map (\<lambda>i. bs ! i AND m ! i) [0..<length m]) k \<longleftrightarrow> k < c \<and> addr_bit bs k"
  using assms by (auto simp: addr_bit_def netmask_ok_def bit_and_iff)

lemma getByAddress_eq:
  assumes "inet_ok a" "length bs = length (getAddress a)"
  shows "getByAddress bs = Some a \<longleftrightarrow> bs = getAddress a"
  using assms by (cases a) (auto simp: inet_ok_def getByAddress_def)

text \<open>The prefix lengths whose netmask is right, by the address family.\<close>

definition prefix_ok :: "InetAddress \<Rightarrow> nat \<Rightarrow> bool" where
  "prefix_ok a c \<longleftrightarrow> (if is_inet4 a then c \<le> 32 else c \<le> 128 \<and> (c < 8 \<or> 8 dvd c))"

lemma masked_prefix:
  assumes "inet_ok a" "prefix_ok a c" "0 < c"
  shows "\<exists>bs. addressToRouteNo0Route a (int c) = Some (getByAddress bs)
    \<and> length bs = length (getAddress a)
    \<and> (\<forall>k < 8 * length bs. addr_bit bs k \<longleftrightarrow> k < c \<and> addr_bit (getAddress a) k)"
proof -
  obtain m where m: "addressToNetmask a (int c) = Some m" "length m = length (getAddress a)" "netmask_ok m c"
  proof (cases "is_inet4 a")
    case True
    then show ?thesis using netmask4_ok [of a c] assms that by (auto simp: prefix_ok_def)
  next
    case False
    then show ?thesis using netmask6_ok [of a c] assms that by (auto simp: prefix_ok_def)
  qed
  then show ?thesis
    using masked_bits [OF m(3,2)] by (auto simp: addressToRouteNo0Route_def Let_def)
qed

lemma addressToRoute_prefix:
  assumes "inet_ok a" "prefix_ok a c"
  shows "\<exists>bs. addressToRoute a (int c) = Some (getByAddress bs)
    \<and> length bs = length (getAddress a)
    \<and> (\<forall>k < 8 * length bs. addr_bit bs k \<longleftrightarrow> k < c \<and> addr_bit (getAddress a) k)"
proof (cases "c = 0")
  case True
  show ?thesis
    using assms(1) True
    by (cases a) (auto simp: addressToRoute_def addr_bit_def inet_ok_def intro!: exI [of _ "replicate (length (getAddress a)) 0"])
next
  case False
  then show ?thesis using masked_prefix [OF assms] by (simp add: addressToRoute_def)
qed

text \<open>
  An address belongs to a route of its family exactly when it agrees with the route's address on
  the prefix and the route's address is zero behind it.
\<close>

lemma belongsToRoute_bits:
  assumes "inet_ok a" "inet_ok (r_address r)" "is_inet4 a = is_inet4 (r_address r)"
    "r_prefix r = int c" "prefix_ok a c"
  shows "belongsToRoute r a = Some (\<forall>k < 8 * length (getAddress a).
    addr_bit (getAddress (r_address r)) k \<longleftrightarrow> k < c \<and> addr_bit (getAddress a) k)"
proof -
  obtain bs where bs: "addressToRoute a (int c) = Some (getByAddress bs)"
      "length bs = length (getAddress a)"
      "\<And>k. k < 8 * length bs \<Longrightarrow> addr_bit bs k \<longleftrightarrow> k < c \<and> addr_bit (getAddress a) k"
    using addressToRoute_prefix [OF assms(1,5)] by blast
  have len: "length bs = length (getAddress (r_address r))" using bs(2) assms(1-3) by simp
  have "bs = getAddress (r_address r) \<longleftrightarrow>
      (\<forall>k < 8 * length bs. addr_bit (getAddress (r_address r)) k = addr_bit bs k)"
    using addr_bits_eqI [OF len] by auto
  then show ?thesis
    using bs getByAddress_eq [OF assms(2) len] by (auto simp: belongsToRoute_def assms(4))
qed

end
