(* ===== verification/Ip_Sum.thy ===== *)
theory Ip_Sum
  imports Inet_Utils
begin

text \<open>
  The one's complement sum of 16-bit words in network byte order, against which the checksum code
  of the Java sources is stated, and \<^verbatim>\<open>calculateChecksum\<close> of \<^verbatim>\<open>IPPacketUtils.java\<close>.
\<close>

fun be_sum :: "u8 list \<Rightarrow> nat" where
  "be_sum (a # b # bs) = 256 * unat a + unat b + be_sum bs"
| "be_sum [a] = 256 * unat a"
| "be_sum [] = 0"

text \<open>A block carries a right checksum when its one's complement sum is all ones.\<close>

definition sum_ok :: "nat \<Rightarrow> bool" where
  "sum_ok S \<longleftrightarrow> ocsum S = 65535"

lemma sum_ok_iff: "sum_ok S \<longleftrightarrow> 0 < S \<and> 65535 dvd S"
proof (cases S)
  case (Suc n)
  have "n mod 65535 + 1 = 65535 \<longleftrightarrow> 65535 dvd Suc n"
    by (auto simp: dvd_eq_mod_eq_0 mod_Suc)
  then show ?thesis by (simp add: sum_ok_def ocsum_def Suc)
qed (simp add: sum_ok_def ocsum_def)

lemma be_sum_append: "even (length xs) \<Longrightarrow> be_sum (xs @ ys) = be_sum xs + be_sum ys"
  by (induction xs rule: be_sum.induct) auto

lemma be_sum_replicate_0 [simp]: "be_sum (replicate n 0) = 0"
  by (induction n rule: nat_induct2) (auto simp: numeral_2_eq_2)

lemma be_sum_update:
  assumes "i < length bs"
  shows "int (be_sum (bs[i := v])) =
    int (be_sum bs) + (if even i then 256 else 1) * (uint v - uint (bs ! i))"
  using assms
proof (induction bs arbitrary: i rule: be_sum.induct)
  case (1 a b bs)
  show ?case
  proof (cases "i < 2")
    case True
    then have "i = 0 \<or> i = 1" by auto
    then show ?thesis by auto
  next
    case False
    then obtain k where "i = Suc (Suc k)" by (metis add_2_eq_Suc le_Suc_ex not_less)
    then show ?thesis using "1.IH" [of k] "1.prems" by simp
  qed
qed auto

lemma rep_ocsum: "rep (ocsum x) x"
  by (cases x) (simp_all add: rep_def ocsum_def mod_simps)

lemma ocsum_le: "ocsum x \<le> 65535"
proof -
  have "(x - 1) mod 65535 < 65535" by (rule mod_less_divisor) simp
  then show ?thesis by (simp only: ocsum_def split: if_split) linarith
qed

lemma ocsum_rep: "rep x S \<Longrightarrow> ocsum x = ocsum S"
  by (rule rep_unique [OF rep_trans [OF rep_ocsum] ocsum_le])

text \<open>A checksum in its field makes the sum all ones.\<close>

lemma checksum_verifies: "sum_ok (S + (65535 - ocsum S))"
proof (cases "S = 0")
  case True
  then show ?thesis by (simp add: sum_ok_def ocsum_def)
next
  case False
  obtain n where n: "S = Suc n" using False by (cases S) auto
  have lt: "n mod 65535 < 65535" by simp
  have "S + (65535 - ocsum S) = n + (65535 - n mod 65535)" using n lt by (simp add: ocsum_def)
  also have "\<dots> = n div 65535 * 65535 + 65535" using div_mult_mod_eq [of n 65535] lt by linarith
  finally show ?thesis using n by (simp add: sum_ok_iff)
qed

lemma dvd_shift_iff:
  fixes a b r m :: nat
  assumes "m dvd a + r"
  shows "m dvd b + r \<longleftrightarrow> a mod m = b mod m"
proof -
  have "int (b + r) = int (a + r) + (int b - int a)" by simp
  moreover have "int m dvd int (a + r)" using assms by presburger
  ultimately have "int m dvd int (b + r) \<longleftrightarrow> int m dvd int b - int a" by (metis dvd_add_right_iff)
  also have "\<dots> \<longleftrightarrow> int b mod int m = int a mod int m" by (simp only: mod_eq_dvd_iff)
  finally show ?thesis by (metis of_nat_dvd_iff of_nat_eq_iff zmod_int)
qed

lemma sum_ok_change:
  assumes "sum_ok S" "(int S' - int S) mod 65535 = 0" "0 < S'"
  shows "sum_ok S'"
proof -
  have "65535 dvd int S" using assms(1) by (simp add: sum_ok_iff) presburger
  moreover have "65535 dvd int S' - int S" using assms(2) by (simp add: dvd_eq_mod_eq_0)
  ultimately have "65535 dvd int S'" by (metis add.commute diff_add_cancel dvd_add)
  then have "65535 dvd S'" by presburger
  then show ?thesis using assms(3) by (simp add: sum_ok_iff)
qed

lemma be_sum_pos: "i < length bs \<Longrightarrow> bs ! i \<noteq> 0 \<Longrightarrow> 0 < be_sum bs"
proof (induction bs arbitrary: i rule: be_sum.induct)
  case (1 a b bs)
  show ?case
  proof (cases "i < 2")
    case True
    then have "i = 0 \<or> i = 1" by auto
    then show ?thesis using 1(3) by (auto simp: unat_gt_0)
  next
    case False
    then obtain k where "i = Suc (Suc k)" by (metis add_2_eq_Suc le_Suc_ex not_less)
    then show ?thesis using "1.IH" [of k] "1.prems" by simp
  qed
qed (auto simp: unat_gt_0)

section \<open>The checksum of IPPacketUtils\<close>

lemma carry_sum:
  assumes "unat j \<le> 65535" "n \<le> 65535"
  shows "unat (carry (j + of_nat n)) \<le> 65535" "rep (unat (carry (j + of_nat n))) (unat j + n)"
proof -
  define x where "x = j + of_nat n"
  have x: "unat x = unat j + n" using assms by (simp add: x_def unat_word_ariths unat_of_nat)
  have "NOT (mask 16) AND x = push_bit 16 (drop_bit 16 x)"
    by (auto intro!: bit_word_eqI simp: bit_and_iff bit_not_iff bit_mask_iff bit_push_bit_iff bit_drop_bit_eq)
  moreover have "(- 65536 :: u64) = NOT (mask 16)" by (simp add: mask_eq_exp_minus_1)
  ultimately have m: "- 65536 AND x = push_bit 16 (drop_bit 16 x)" by (simp only:)
  have "(unat j + n) div 65536 < 18446744073709551616" using assms by linarith
  then have d: "drop_bit 16 x = of_nat (unat x div 65536)"
    by (intro word_unatI) (simp add: unat_drop_bit unat_of_nat x)
  have a: "x AND 65535 = take_bit 16 x" by (simp add: take_bit_eq_mask mask_eq_exp_minus_1)
  have t: "unat (take_bit 16 x + 1) = unat x mod 65536 + 1"
    by (simp add: unat_word_ariths unat_take_bit)
  consider (low) "unat x div 65536 = 0" | (high) "unat x div 65536 = 1"
    using x assms by linarith
  then have "unat (carry x) \<le> 65535 \<and> rep (unat (carry x)) (unat x)"
  proof cases
    case low
    then have "carry x = x" by (simp add: carry_def m d)
    then show ?thesis using low by (simp add: rep_refl div_eq_0_iff)
  next
    case high
    moreover have "0 <s (65536 :: u64)" by code_simp
    ultimately have c: "unat (carry x) = unat x mod 65536 + 1" by (simp add: carry_def m d a t)
    have "unat x = 65536 + unat x mod 65536" using div_mult_mod_eq [of "unat x" 65536] high by simp
    then have "unat x mod 65536 + 1 \<le> 65535" using x assms by linarith
    then show ?thesis using rep_fold [of "unat x"] high by (simp add: c)
  qed
  then show "unat (carry (j + of_nat n)) \<le> 65535" "rep (unat (carry (j + of_nat n))) (unat j + n)"
    by (simp_all add: x_def [symmetric] x)
qed

lemma low_byte: "(scast (b::u8) :: u32) AND 255 = ucast b"
proof -
  have "(scast b :: u32) AND mask 8 = ucast b"
  proof (rule bit_word_eqI)
    fix n :: nat
    assume "n < LENGTH(32)"
    moreover have "bit b n \<Longrightarrow> n < 8" using bit_imp_le_length [of b n] by simp
    moreover have "n < 8 \<Longrightarrow> min 7 n = n" by simp
    ultimately show "bit ((scast b :: u32) AND mask 8) n = bit (ucast b :: u32) n"
      by (auto simp: bit_simps)
  qed
  then show ?thesis by (simp add: mask_eq_exp_minus_1)
qed
lemma high_byte: "(65280 AND push_bit 8 (scast (a::u8)) :: u32) = push_bit 8 (ucast a)"
proof -
  have "(65280 :: u32) = push_bit 8 255" by (simp add: push_bit_eq_mult)
  then have "65280 AND push_bit 8 (scast a) = push_bit 8 (255 AND scast a :: u32)"
    by (simp only: push_bit_and)
  then show ?thesis by (simp add: low_byte and.commute)
qed
lemma unat_two_bytes: "unat (push_bit 8 (ucast (a::u8)) OR ucast (b::u8) :: u32) = 256 * unat a + unat b"
proof -
  have "push_bit 8 (ucast a) OR ucast b = (push_bit 8 (ucast a) + ucast b :: u32)"
    by (rule disjunctive_add [symmetric]) (auto simp: bit_simps dest: bit_imp_le_length)
  moreover have p: "unat (push_bit 8 (ucast a :: u32)) = 256 * unat a"
    by (subst unat_push_bit) (simp_all add: order.strict_trans [OF unat_u8_lt])
  moreover have "256 * unat a + unat b < 2 ^ LENGTH(32)"
    using add_strict_mono [of "256 * unat a" "256 * 256" "unat b" 256] by simp
  ultimately show ?thesis by (simp add: unat_plus_no_wrap)
qed

lemma scast_u64: "\<not> bit w 31 \<Longrightarrow> scast w = (ucast w :: u64)" for w :: u32
proof (rule bit_word_eqI)
  fix n :: nat
  assume "\<not> bit w 31" "n < LENGTH(64)"
  moreover have "bit w n \<Longrightarrow> n < 32" using bit_imp_le_length [of w n] by simp
  moreover have "n < 32 \<Longrightarrow> min 31 n = n" "\<not> n < 32 \<Longrightarrow> min 31 n = 31" by simp_all
  ultimately show "bit (scast w :: u64) n = bit (ucast w :: u64) n"
    by (cases "n < 32") (auto simp: bit_simps)
qed

lemma word_of_bytes:
  "scast ((65280 AND push_bit 8 (scast a)) OR (scast b AND 255) :: u32)
     = (of_nat (256 * unat a + unat b) :: u64)" for a b :: u8
proof -
  have "\<not> bit (push_bit 8 (ucast a) OR ucast b :: u32) 31"
    by (auto simp: bit_simps dest: bit_imp_le_length)
  then have "scast (push_bit 8 (ucast a) OR ucast b :: u32) = (ucast (push_bit 8 (ucast a) OR ucast b :: u32) :: u64)"
    by (rule scast_u64)
  also have "\<dots> = of_nat (256 * unat a + unat b)"
    unfolding unat_two_bytes [symmetric] by simp
  finally show ?thesis by (simp add: high_byte low_byte)
qed

lemma two_bytes_le: "256 * unat a + unat b \<le> 65535" for a b :: u8
  using unat_u8_lt [of a] unat_u8_lt [of b] by linarith

lemma checksum_loop_sum:
  assumes "i + n \<le> length bs" "unat j \<le> 65535"
  shows "\<exists>j'. checksum_loop bs j i n = Some (j', i + 2 * (n div 2), n mod 2)
    \<and> unat j' \<le> 65535 \<and> rep (unat j') (unat j + be_sum (take (2 * (n div 2)) (drop i bs)))"
  using assms
proof (induction bs j i n rule: checksum_loop.induct)
  case (1 bs j i n)
  show ?case
  proof (cases "n > 1")
    case False
    then have "checksum_loop bs j i n = Some (j, i, n)" by (subst checksum_loop.simps) simp
    moreover have "n = 0 \<or> n = 1" using False by auto
    ultimately show ?thesis using "1.prems"(2) rep_refl [of "unat j"] by (elim disjE) simp_all
  next
    case True
    then obtain k where k: "n = Suc (Suc k)" using True by (auto simp: less_iff_Suc_add)
    let ?w = "256 * unat (bs ! i) + unat (bs ! Suc i)"
    define j1 where "j1 = carry (j + of_nat ?w)"
    have j1: "unat j1 \<le> 65535" "rep (unat j1) (unat j + ?w)"
      using carry_sum [OF "1.prems"(2) two_bytes_le] by (simp_all only: j1_def)
    have d: "drop i bs = bs ! i # bs ! Suc i # drop (i + 2) bs"
      using "1.prems"(1) k by (simp add: Cons_nth_drop_Suc)
    have step: "checksum_loop bs j i n = checksum_loop bs j1 (i + 2) (n - 2)"
      unfolding checksum_loop.simps [of bs j i n] j1_def using "1.prems"(1) True
      by (simp add: aget_Some Let_def word_of_bytes del: of_nat_add of_nat_mult)
    have "\<exists>j'. checksum_loop bs j1 (i + 2) (n - 2) = Some (j', i + 2 + 2 * ((n - 2) div 2), (n - 2) mod 2)
        \<and> unat j' \<le> 65535 \<and> rep (unat j') (unat j1 + be_sum (take (2 * ((n - 2) div 2)) (drop (i + 2) bs)))"
      using "1.IH" [OF True, of "bs ! i" "bs ! Suc i"] j1(1) "1.prems"(1) k
      by (simp add: aget_Some Let_def word_of_bytes j1_def del: of_nat_add of_nat_mult)
    then obtain j' where j': "checksum_loop bs j i n = Some (j', i + 2 + 2 * (k div 2), k mod 2)"
        "unat j' \<le> 65535" "rep (unat j') (unat j1 + be_sum (take (2 * (k div 2)) (drop (i + 2) bs)))"
      using step k by auto
    have "rep (unat j') (unat j + ?w + be_sum (take (2 * (k div 2)) (drop (i + 2) bs)))"
      by (rule rep_trans [OF j'(3)]) (intro rep_add j1(2) rep_refl)
    then show ?thesis using j'(1,2) k by (simp add: d algebra_simps)
  qed
qed

lemma complement_16:
  assumes "unat j = ocsum S"
  shows "NOT j AND 65535 = (of_nat (65535 - ocsum S) :: u64)"
proof -
  note le = ocsum_le [of S]
  have t: "take_bit 16 j = j"
    by (rule word_unatI) (use le assms in \<open>simp add: unat_take_bit\<close>)
  have "NOT j AND 65535 = take_bit 16 (NOT j)" by (simp add: take_bit_eq_mask mask_eq_exp_minus_1)
  also have "\<dots> = mask 16 - j" by (simp only: take_bit_not_eq_mask_diff t)
  also have "\<dots> = of_nat (65535 - ocsum S)"
    using le assms by (intro word_unatI) (simp add: mask_eq_exp_minus_1 unat_minus_no_wrap unat_of_nat)
  finally show ?thesis .
qed

text \<open>
  The checksum of a range of an array is the complement of the one's complement sum of its 16-bit
  words, an odd last byte being the high one, added to the given start value.
\<close>

lemma calculateChecksum_sum:
  assumes "i \<le> i2" "i2 \<le> length bArr" "unat j \<le> 65535"
  shows "calculateChecksum bArr j i i2 =
    Some (of_nat (65535 - ocsum (unat j + be_sum (take (i2 - i) (drop i bArr)))))"
proof -
  define n where "n = i2 - i"
  define e where "e = 2 * (n div 2)"
  define S where "S = unat j + be_sum (take n (drop i bArr))"
  have n: "i + n \<le> length bArr" using assms by (simp add: n_def)
  obtain j1 where j1: "checksum_loop bArr j i n = Some (j1, i + e, n mod 2)"
      "unat j1 \<le> 65535" "rep (unat j1) (unat j + be_sum (take e (drop i bArr)))"
    using checksum_loop_sum [OF n assms(3)] by (auto simp: e_def)
  have "\<exists>j2. calculateChecksum bArr j i i2 = Some (NOT j2 AND 65535) \<and> unat j2 \<le> 65535 \<and> rep (unat j2) S"
  proof (cases "n mod 2 = 0")
    case True
    then have "e = n" by (auto simp: e_def)
    then show ?thesis using j1 True by (auto simp: calculateChecksum_def n_def [symmetric] S_def)
  next
    case False
    then have odd: "n = Suc e" by (simp add: e_def) presburger
    let ?a = "bArr ! (i + e)"
    have "take n (drop i bArr) = take e (drop i bArr) @ [?a]"
      using n by (simp add: odd take_Suc_conv_app_nth)
    moreover have "even (length (take e (drop i bArr)))" using n by (simp add: odd) (simp add: e_def)
    ultimately have S: "S = unat j + be_sum (take e (drop i bArr)) + 256 * unat ?a"
      by (simp add: S_def be_sum_append)
    have w: "scast (push_bit 8 (scast ?a) AND 65280 :: u32) = (of_nat (256 * unat ?a) :: u64)"
      using word_of_bytes [of ?a 0] by (simp add: and.commute)
    have le: "256 * unat ?a \<le> 65535" using two_bytes_le [of ?a 0] by simp
    have "rep (unat (carry (j1 + of_nat (256 * unat ?a)))) S"
      unfolding S by (rule rep_trans [OF carry_sum(2) [OF j1(2) le]]) (intro rep_add j1(3) rep_refl)
    moreover have "calculateChecksum bArr j i i2 = Some (NOT (carry (j1 + of_nat (256 * unat ?a))) AND 65535)"
      using j1(1) n odd False
      by (simp add: calculateChecksum_def n_def [symmetric] aget_Some w del: of_nat_mult)
    ultimately show ?thesis using carry_sum(1) [OF j1(2) le] by blast
  qed
  then show ?thesis using rep_unique [of _ S] complement_16 [of _ S] by (auto simp: S_def n_def)
qed

end
