(* ===== verification/Neighbour_Table.thy ===== *)
theory Neighbour_Table
  imports Ip_Sum
begin

text \<open>
  \<^verbatim>\<open>ARPTable.java\<close> and \<^verbatim>\<open>NDPTable.java\<close>: the tables of neighbours and the packets that
  query them. Both classes hold the same four maps. The entry objects are shared between two of
  the maps and have a mutable time, so they live in a store and the maps hold references to them.
  The clock is an argument; a pass of the timeout thread reads it once, and takes the iteration
  order of the hash map as an argument.
\<close>

record Entry =
  e_mac :: u64
  e_address :: InetAddress
  e_time :: int

record NTable =
  n_entriesMap :: "u64 \<rightharpoonup> nat"
  n_inetAddressToMacAddress :: "InetAddress \<rightharpoonup> u64"
  n_ipEntriesMap :: "InetAddress \<rightharpoonup> nat"
  n_macAddressToInetAddress :: "u64 \<rightharpoonup> InetAddress"
  n_store :: "nat \<Rightarrow> Entry"
  n_next :: nat

abbreviation ENTRY_TIMEOUT :: int where
  "ENTRY_TIMEOUT \<equiv> 120000"

section \<open>Table operations (NDPTable)\<close>

definition updateTime :: "int \<Rightarrow> nat \<Rightarrow> NTable \<Rightarrow> NTable" where
  "updateTime now e t = t\<lparr>n_store := (n_store t)(e := (n_store t e)\<lparr>e_time := now\<rparr>)\<rparr>"

definition setAddress :: "int \<Rightarrow> InetAddress \<Rightarrow> u64 \<Rightarrow> NTable \<Rightarrow> NTable" where
  "setAddress now inetAddress j t =
     (let t = t\<lparr>n_inetAddressToMacAddress := (n_inetAddressToMacAddress t)(inetAddress \<mapsto> j)\<rparr>;
          t = t\<lparr>n_macAddressToInetAddress := (n_macAddressToInetAddress t)(j \<mapsto> inetAddress)\<rparr>;
          e = n_next t;
          t = t\<lparr>n_store := (n_store t)(e := \<lparr>e_mac = j, e_address = inetAddress, e_time = now\<rparr>),
                n_next := Suc e\<rparr>;
          t = t\<lparr>n_entriesMap := (n_entriesMap t)(j \<mapsto> e)\<rparr>
      in t\<lparr>n_ipEntriesMap := (n_ipEntriesMap t)(inetAddress \<mapsto> e)\<rparr>)"

definition hasMacForAddress :: "InetAddress \<Rightarrow> NTable \<Rightarrow> bool" where
  "hasMacForAddress inetAddress t \<longleftrightarrow> n_inetAddressToMacAddress t inetAddress \<noteq> None"

definition hasAddressForMac :: "u64 \<Rightarrow> NTable \<Rightarrow> bool" where
  "hasAddressForMac j t \<longleftrightarrow> n_macAddressToInetAddress t j \<noteq> None"

definition updateEntryTime_mac :: "int \<Rightarrow> u64 \<Rightarrow> NTable \<Rightarrow> NTable" where
  "updateEntryTime_mac now j t =
     (case n_entriesMap t j of None \<Rightarrow> t | Some e \<Rightarrow> updateTime now e t)"

definition updateEntryTime_ip :: "int \<Rightarrow> InetAddress \<Rightarrow> NTable \<Rightarrow> NTable" where
  "updateEntryTime_ip now inetAddress t =
     (case n_ipEntriesMap t inetAddress of None \<Rightarrow> t | Some e \<Rightarrow> updateTime now e t)"

definition getMacForAddress :: "int \<Rightarrow> InetAddress \<Rightarrow> NTable \<Rightarrow> u64 \<times> NTable" where
  "getMacForAddress now inetAddress t =
     (case n_inetAddressToMacAddress t inetAddress of
        None \<Rightarrow> (- 1, t)
      | Some m \<Rightarrow> (m, updateEntryTime_mac now m t))"

definition getAddressForMac :: "int \<Rightarrow> u64 \<Rightarrow> NTable \<Rightarrow> InetAddress option \<times> NTable" where
  "getAddressForMac now j t =
     (case n_macAddressToInetAddress t j of
        None \<Rightarrow> (None, t)
      | Some a \<Rightarrow> (Some a, updateEntryTime_ip now a t))"

definition timeout_entry :: "int \<Rightarrow> nat \<Rightarrow> NTable \<Rightarrow> NTable" where
  "timeout_entry now e t =
     (if e_time (n_store t e) + ENTRY_TIMEOUT < now then
        let m = e_mac (n_store t e); a = e_address (n_store t e);
            t = t\<lparr>n_macAddressToInetAddress := (n_macAddressToInetAddress t)(m := None)\<rparr>;
            t = t\<lparr>n_inetAddressToMacAddress := (n_inetAddressToMacAddress t)(a := None)\<rparr>;
            t = t\<lparr>n_entriesMap := (n_entriesMap t)(m := None)\<rparr>
        in t\<lparr>n_ipEntriesMap := (n_ipEntriesMap t)(a := None)\<rparr>
      else t)"

definition timeout_pass :: "u64 list \<Rightarrow> int \<Rightarrow> NTable \<Rightarrow> NTable" where
  "timeout_pass order now t =
     fold (timeout_entry now) (List.map_filter (n_entriesMap t) order) t"

section \<open>The ARP table\<close>

text \<open>The ARP table also mirrors its IPv4 entries to the native layer, whose calls are recorded.\<close>

record ARPTable =
  a_table :: NTable
  a_nativeArpSet :: "(u32 \<times> u64) list"

definition arp_setAddress :: "int \<Rightarrow> InetAddress \<Rightarrow> u64 \<Rightarrow> ARPTable \<Rightarrow> ARPTable" where
  "arp_setAddress now inetAddress j t =
     (let t = t\<lparr>a_table := setAddress now inetAddress j (a_table t)\<rparr>
      in case inetAddress of
           Inet4Address raw \<Rightarrow>
             (case getInt raw of
                None \<Rightarrow> t
              | Some ip \<Rightarrow> t\<lparr>a_nativeArpSet := a_nativeArpSet t @ [(ip, j)]\<rparr>)
         | Inet6Address _ \<Rightarrow> t)"

definition arp_getMacForAddress :: "int \<Rightarrow> InetAddress \<Rightarrow> ARPTable \<Rightarrow> u64 \<times> ARPTable" where
  "arp_getMacForAddress now inetAddress t =
     (let (m, n) = getMacForAddress now inetAddress (a_table t) in (m, t\<lparr>a_table := n\<rparr>))"

definition arp_getAddressForMac :: "int \<Rightarrow> u64 \<Rightarrow> ARPTable \<Rightarrow> InetAddress option \<times> ARPTable" where
  "arp_getAddressForMac now j t =
     (let (a, n) = getAddressForMac now j (a_table t) in (a, t\<lparr>a_table := n\<rparr>))"

definition arp_hasMacForAddress :: "InetAddress \<Rightarrow> ARPTable \<Rightarrow> bool" where
  "arp_hasMacForAddress inetAddress t = hasMacForAddress inetAddress (a_table t)"

definition arp_timeout_pass :: "u64 list \<Rightarrow> int \<Rightarrow> ARPTable \<Rightarrow> ARPTable" where
  "arp_timeout_pass order now t = t\<lparr>a_table := timeout_pass order now (a_table t)\<rparr>"

definition getARPPacket ::
    "u8 \<Rightarrow> u64 \<Rightarrow> u64 \<Rightarrow> InetAddress \<Rightarrow> InetAddress \<Rightarrow> u8 list option" where
  "getARPPacket i j j2 inetAddress inetAddress2 =
     do { let bArr = [0, 1, 8, 0, 6, 4, 0, i] @ replicate 20 0;
          bArr \<leftarrow> arraycopy (putLong j) 2 bArr 8 6;
          bArr \<leftarrow> arraycopy (getAddress inetAddress) 0 bArr 14 4;
          bArr \<leftarrow> arraycopy (putLong j2) 2 bArr 18 6;
          arraycopy (getAddress inetAddress2) 0 bArr 24 4 }"

definition getRequestPacket :: "u64 \<Rightarrow> InetAddress \<Rightarrow> InetAddress \<Rightarrow> u8 list option" where
  "getRequestPacket j inetAddress inetAddress2 = getARPPacket 1 j 0 inetAddress inetAddress2"

definition getReplyPacket :: "u64 \<Rightarrow> InetAddress \<Rightarrow> u64 \<Rightarrow> InetAddress \<Rightarrow> u8 list option" where
  "getReplyPacket j inetAddress j2 inetAddress2 = getARPPacket 2 j j2 inetAddress inetAddress2"

record ARPReplyData =
  rd_destMac :: u64
  rd_destAddress :: "InetAddress option"

definition processARPPacket ::
    "int \<Rightarrow> u8 list \<Rightarrow> ARPTable \<Rightarrow> (ARPReplyData option \<times> ARPTable) option" where
  "processARPPacket now packetData t =
     do { rawSrcMac \<leftarrow> arraycopy packetData 8 (replicate 8 0) 2 6;
          rawSrcAddress \<leftarrow> arraycopy packetData 14 (replicate 4 0) 0 4;
          rawDstMac \<leftarrow> arraycopy packetData 18 (replicate 8 0) 2 6;
          rawDstAddress \<leftarrow> arraycopy packetData 24 (replicate 4 0) 0 4;
          let srcAddress = getByAddress rawSrcAddress;
          let dstAddress = getByAddress rawDstAddress;
          srcMac \<leftarrow> getLong rawSrcMac;
          dstMac \<leftarrow> getLong rawDstMac;
          let t = (case srcAddress of
                     Some a \<Rightarrow> if srcMac \<noteq> 0 then arp_setAddress now a srcMac t else t
                   | None \<Rightarrow> t);
          let t = (case dstAddress of
                     Some a \<Rightarrow> if dstMac \<noteq> 0 then arp_setAddress now a dstMac t else t
                   | None \<Rightarrow> t);
          packetType \<leftarrow> aget packetData 7;
          Some (if packetType = 1 then Some \<lparr>rd_destMac = srcMac, rd_destAddress = srcAddress\<rparr> else None, t) }"

section \<open>Neighbour solicitation\<close>

definition getNeighborSolicitationPacket :: "InetAddress \<Rightarrow> InetAddress \<Rightarrow> u64 \<Rightarrow> u8 list option" where
  "getNeighborSolicitationPacket inetAddress inetAddress2 j =
     do { let bArr = replicate 72 0;
          bArr \<leftarrow> arraycopy (getAddress inetAddress) 0 bArr 0 16;
          bArr \<leftarrow> arraycopy (getAddress inetAddress2) 0 bArr 16 16;
          bArr \<leftarrow> arraycopy (putInt 32) 0 bArr 32 4;
          bArr \<leftarrow> aput bArr 39 58;
          bArr \<leftarrow> aput bArr 40 (- 121);
          bArr \<leftarrow> arraycopy (getAddress inetAddress2) 0 bArr 48 16;
          let array = putLong j;
          bArr \<leftarrow> aput bArr 64 1;
          bArr \<leftarrow> aput bArr 65 1;
          bArr \<leftarrow> arraycopy array 2 bArr 66 6;
          checksum \<leftarrow> calculateChecksum bArr 0 0 72;
          bArr \<leftarrow> arraycopy (putShort (ucast checksum)) 0 bArr 42 2;
          bArr \<leftarrow> arraycopy (replicate 40 0) 0 bArr 0 40;
          bArr \<leftarrow> aput bArr 0 96;
          bArr \<leftarrow> arraycopy (putShort 32) 0 bArr 4 2;
          bArr \<leftarrow> aput bArr 6 58;
          bArr \<leftarrow> aput bArr 7 (- 1);
          bArr \<leftarrow> arraycopy (getAddress inetAddress) 0 bArr 8 16;
          arraycopy (getAddress inetAddress2) 0 bArr 24 16 }"

end
