(* ===== verification/Neighbour_Props.thy ===== *)
theory Neighbour_Props
  imports Neighbour_Table
begin

text \<open>
  The neighbour tables: the invariant of their four maps, what a timeout pass drops and what it
  never drops, and the ARP and neighbour solicitation packets.
\<close>

section \<open>The maps of a table\<close>

text \<open>
  Each direction agrees with the entries it is kept for, and every entry is filed under its own
  address in the one map and its own MAC in the other. The two directions need not agree with each
  other: an address may be resolved to a MAC that is resolved to a later address.
\<close>

definition nt_ok :: "NTable \<Rightarrow> bool" where
  "nt_ok t \<longleftrightarrow>
     (\<forall>a. n_inetAddressToMacAddress t a = map_option (\<lambda>e. e_mac (n_store t e)) (n_ipEntriesMap t a))
   \<and> (\<forall>m. n_macAddressToInetAddress t m = map_option (\<lambda>e. e_address (n_store t e)) (n_entriesMap t m))
   \<and> (\<forall>a e. n_ipEntriesMap t a = Some e \<longrightarrow> e < n_next t \<and> e_address (n_store t e) = a)
   \<and> (\<forall>m e. n_entriesMap t m = Some e \<longrightarrow> e < n_next t \<and> e_mac (n_store t e) = m)"

datatype nt_op =
    N_setAddress int InetAddress u64
  | N_getMacForAddress int InetAddress
  | N_getAddressForMac int u64
  | N_timeout "u64 list" int

fun nt_step :: "nt_op \<Rightarrow> NTable \<Rightarrow> NTable" where
  "nt_step (N_setAddress now a m) t = setAddress now a m t"
| "nt_step (N_getMacForAddress now a) t = snd (getMacForAddress now a t)"
| "nt_step (N_getAddressForMac now m) t = snd (getAddressForMac now m t)"
| "nt_step (N_timeout order now) t = timeout_pass order now t"

definition nt_empty :: NTable where
  "nt_empty = \<lparr>n_entriesMap = Map.empty, n_inetAddressToMacAddress = Map.empty,
     n_ipEntriesMap = Map.empty, n_macAddressToInetAddress = Map.empty,
     n_store = (\<lambda>_. \<lparr>e_mac = 0, e_address = Inet4Address [], e_time = 0\<rparr>), n_next = 0\<rparr>"

lemma setAddress_ok: "nt_ok t \<Longrightarrow> nt_ok (setAddress now a m t)"
proof -
  assume ok: "nt_ok t"
  define st where "st = (n_store t)(n_next t := \<lparr>e_mac = m, e_address = a, e_time = now\<rparr>)"
  have st: "st (n_next t) = \<lparr>e_mac = m, e_address = a, e_time = now\<rparr>"
    and old: "e < n_next t \<Longrightarrow> st e = n_store t e" for e by (simp_all add: st_def)
  have ip: "map_option (\<lambda>e. e_mac (st e)) (n_ipEntriesMap t b) = n_inetAddressToMacAddress t b" for b
    using ok old by (cases "n_ipEntriesMap t b") (auto simp: nt_ok_def)
  have mac: "map_option (\<lambda>e. e_address (st e)) (n_entriesMap t k) = n_macAddressToInetAddress t k" for k
    using ok old by (cases "n_entriesMap t k") (auto simp: nt_ok_def)
  have "setAddress now a m t = t\<lparr>n_entriesMap := (n_entriesMap t)(m \<mapsto> n_next t),
      n_inetAddressToMacAddress := (n_inetAddressToMacAddress t)(a \<mapsto> m),
      n_ipEntriesMap := (n_ipEntriesMap t)(a \<mapsto> n_next t),
      n_macAddressToInetAddress := (n_macAddressToInetAddress t)(m \<mapsto> a),
      n_store := st, n_next := Suc (n_next t)\<rparr>"
    by (simp add: setAddress_def Let_def st_def)
  then show ?thesis
    using ok old by (auto simp: nt_ok_def st ip [unfolded nt_ok_def] mac less_Suc_eq)
qed

text \<open>What a lookup may change: only the time of entries.\<close>

definition same_but_times :: "NTable \<Rightarrow> NTable \<Rightarrow> bool" where
  "same_but_times t u \<longleftrightarrow>
     n_entriesMap u = n_entriesMap t \<and> n_inetAddressToMacAddress u = n_inetAddressToMacAddress t
   \<and> n_ipEntriesMap u = n_ipEntriesMap t \<and> n_macAddressToInetAddress u = n_macAddressToInetAddress t
   \<and> n_next u = n_next t
   \<and> (\<forall>e. e_mac (n_store u e) = e_mac (n_store t e) \<and> e_address (n_store u e) = e_address (n_store t e))"

lemma same_but_times_get:
  "same_but_times t (snd (getMacForAddress now a t))" "same_but_times t (snd (getAddressForMac now m t))"
  by (auto simp: same_but_times_def getMacForAddress_def getAddressForMac_def updateEntryTime_mac_def
      updateEntryTime_ip_def updateTime_def split: option.splits)

lemma same_but_times_ok: "same_but_times t u \<Longrightarrow> nt_ok t \<Longrightarrow> nt_ok u"
  by (simp add: same_but_times_def nt_ok_def)

lemma timeout_entry_store [simp]:
  "n_store (timeout_entry now e t) = n_store t" "n_next (timeout_entry now e t) = n_next t"
  by (simp_all add: timeout_entry_def Let_def)

lemma timeout_fold_store [simp]:
  "n_store (fold (timeout_entry now) es t) = n_store t" "n_next (fold (timeout_entry now) es t) = n_next t"
  by (induction es arbitrary: t) simp_all

lemma timeout_entry_ok: "nt_ok t \<Longrightarrow> nt_ok (timeout_entry now e t)"
  by (auto simp: nt_ok_def timeout_entry_def Let_def)

lemma timeout_fold_ok: "nt_ok t \<Longrightarrow> nt_ok (fold (timeout_entry now) es t)"
  by (induction es arbitrary: t) (simp_all add: timeout_entry_ok)

interpretation nt: invariant_system nt_step "\<lambda>_ _. True" "\<lambda>t. t = nt_empty" nt_ok
proof
  show "nt_ok s" if "s = nt_empty" for s using that by (simp add: nt_ok_def nt_empty_def)
  show "nt_ok (nt_step e s)" if "nt_ok s" for e s
    using that by (cases e) (simp_all add: setAddress_ok same_but_times_ok [OF same_but_times_get(1)]
        same_but_times_ok [OF same_but_times_get(2)] timeout_pass_def timeout_fold_ok)
qed

lemma nt_run_ok: "nt_ok (nt.run ops nt_empty)"
proof -
  have "nt.run_ok ops t" for t by (induction ops arbitrary: t) simp_all
  then show ?thesis using nt.run_inv nt.start_inv by blast
qed


section \<open>Timeouts\<close>

definition expired :: "int \<Rightarrow> NTable \<Rightarrow> nat \<Rightarrow> bool" where
  "expired now t e \<longleftrightarrow> e_time (n_store t e) + ENTRY_TIMEOUT < now"

lemma timeout_fold_entries:
  "n_entriesMap (fold (timeout_entry now) es t) m =
     (if \<exists>e \<in> set es. expired now t e \<and> e_mac (n_store t e) = m then None else n_entriesMap t m)"
proof (induction es arbitrary: t)
  case (Cons e es)
  have "expired now (timeout_entry now e t) = expired now t" by (simp add: expired_def fun_eq_iff)
  then show ?case
    by (auto simp: Cons.IH) (auto simp: timeout_entry_def expired_def Let_def split: if_splits)
qed simp

lemma in_map_filter: "y \<in> set (List.map_filter f xs) \<longleftrightarrow> (\<exists>x \<in> set xs. f x = Some y)"
  by (induction xs) (auto simp: map_filter_simps split: option.splits)

lemma timeout_pass_entries:
  assumes "nt_ok t" "dom (n_entriesMap t) \<subseteq> set order"
  shows "n_entriesMap (timeout_pass order now t) m =
    Option.bind (n_entriesMap t m) (\<lambda>e. if expired now t e then None else Some e)"
proof (cases "n_entriesMap t m")
  case None
  then show ?thesis by (simp add: timeout_pass_def timeout_fold_entries)
next
  case (Some e)
  have "e \<in> set (List.map_filter (n_entriesMap t) order)"
    using Some assms(2) by (auto simp: in_map_filter)
  moreover have "e' = e" if e': "e' \<in> set (List.map_filter (n_entriesMap t) order)" and m: "e_mac (n_store t e') = m" for e'
  proof -
    obtain k where "n_entriesMap t k = Some e'" using e' by (auto simp: in_map_filter)
    then show ?thesis using assms(1) m Some by (auto simp: nt_ok_def)
  qed
  moreover have "e_mac (n_store t e) = m" using Some assms(1) by (simp add: nt_ok_def)
  ultimately have "(\<exists>e' \<in> set (List.map_filter (n_entriesMap t) order).
      expired now t e' \<and> e_mac (n_store t e') = m) \<longleftrightarrow> expired now t e" by blast
  then show ?thesis using Some by (simp add: timeout_pass_def timeout_fold_entries)
qed


text \<open>
  In every state of a neighbour table the two directions agree with the entries kept for them,
  and a pass of the timeout thread drops exactly the MAC addresses whose entry is older than two
  minutes.
\<close>

lemma neighbour_timeout_exact:
  assumes "dom (n_entriesMap (nt.run ops nt_empty)) \<subseteq> set order"
  defines "t \<equiv> nt.run ops nt_empty"
  shows "n_macAddressToInetAddress (timeout_pass order now t) m =
    (case n_entriesMap t m of
       None \<Rightarrow> None
     | Some e \<Rightarrow> if e_time (n_store t e) + 120000 < now then None else Some (e_address (n_store t e)))"
proof -
  have ok: "nt_ok t" by (simp add: t_def nt_run_ok)
  then have "nt_ok (timeout_pass order now t)" by (simp add: timeout_pass_def timeout_fold_ok)
  then have "n_macAddressToInetAddress (timeout_pass order now t) m =
      map_option (\<lambda>e. e_address (n_store t e)) (n_entriesMap (timeout_pass order now t) m)" for m
    by (simp add: nt_ok_def) (simp add: timeout_pass_def)
  then show ?thesis
    using ok timeout_pass_entries [OF ok] assms(1) by (simp add: t_def expired_def split: option.split)
qed

lemma neighbour_timeout_exact_witness:
  "\<exists>t. t = nt.run [N_setAddress 0 (Inet4Address [10, 0, 0, 1]) 7, N_setAddress 100000 (Inet4Address [10, 0, 0, 2]) 8] nt_empty
     \<and> n_macAddressToInetAddress (timeout_pass [7, 8] 130000 t) 7 = None
     \<and> n_macAddressToInetAddress (timeout_pass [7, 8] 130000 t) 8 = Some (Inet4Address [10, 0, 0, 2])"
proof -
  let ?ops = "[N_setAddress 0 (Inet4Address [10, 0, 0, 1]) 7, N_setAddress 100000 (Inet4Address [10, 0, 0, 2]) 8]"
  have "dom (n_entriesMap (nt.run ?ops nt_empty)) \<subseteq> set [7, 8]"
    by (simp add: setAddress_def nt_empty_def)
  from neighbour_timeout_exact [OF this, of 130000] show ?thesis
    by (simp add: setAddress_def nt_empty_def)
qed

section \<open>Entries that are never dropped\<close>

text \<open>An address whose MAC is known although no entry of the timeout thread is about it.\<close>

definition orphan :: "InetAddress \<Rightarrow> u64 \<Rightarrow> NTable \<Rightarrow> bool" where
  "orphan a m t \<longleftrightarrow> n_inetAddressToMacAddress t a = Some m
     \<and> (\<forall>k e. n_entriesMap t k = Some e \<longrightarrow> e < n_next t \<and> e_address (n_store t e) \<noteq> a)"

fun sets_address :: "InetAddress \<Rightarrow> nt_op \<Rightarrow> bool" where
  "sets_address a (N_setAddress _ b _) = (a = b)"
| "sets_address a _ = False"

lemma orphan_timeout:
  assumes "orphan a m t" "\<And>e. e \<in> set es \<Longrightarrow> e_address (n_store t e) \<noteq> a"
  shows "orphan a m (fold (timeout_entry now) es t)"
  using assms
proof (induction es arbitrary: t)
  case (Cons e es)
  have "orphan a m (timeout_entry now e t)"
    using Cons.prems by (auto simp: orphan_def timeout_entry_def Let_def split: if_splits)
  then show ?case using Cons by simp
qed simp

interpretation leak: invariant_system nt_step "\<lambda>op _. \<not> sets_address a op" "orphan a m" "orphan a m" for a m
proof
  show "orphan a m (nt_step op t)" if t: "orphan a m t" and op: "\<not> sets_address a op" for op t
  proof (cases op)
    case (N_setAddress now b k)
    then show ?thesis using t op by (auto simp: orphan_def setAddress_def Let_def less_Suc_eq)
  next
    case (N_getMacForAddress now b)
    then show ?thesis using t same_but_times_get(1) [of t now b]
      by (auto simp: orphan_def same_but_times_def)
  next
    case (N_getAddressForMac now k)
    then show ?thesis using t same_but_times_get(2) [of t now k]
      by (auto simp: orphan_def same_but_times_def)
  next
    case (N_timeout order now)
    have "e_address (n_store t e) \<noteq> a" if "e \<in> set (List.map_filter (n_entriesMap t) order)" for e
      using that t by (auto simp: in_map_filter orphan_def)
    then show ?thesis using orphan_timeout [OF t] N_timeout by (simp add: timeout_pass_def)
  qed
qed



section \<open>Packets\<close>

lemma bit_putLong: "i < 8 \<Longrightarrow> q < 8 \<Longrightarrow> bit (putLong w ! i) q \<longleftrightarrow> bit w (56 - 8 * i + q)"
  by (auto simp: putLong_def bit_ucast_iff bit_drop_bit_eq less_Suc_eq numeral_eq_Suc)

text \<open>The six low bytes of a number, as a MAC address has them.\<close>

lemma getLong_mac:
  assumes "unat m < 2 ^ 48"
  shows "getLong (0 # 0 # drop 2 (putLong m)) = Some m"
proof -
  have hi: "\<not> bit m k" if "48 \<le> k" for k
  proof -
    have "take_bit 48 m = m" by (rule word_unatI) (use assms in \<open>simp add: unat_take_bit\<close>)
    then show ?thesis using that by (metis bit_take_bit_iff not_less)
  qed
  have "be_word (0 # 0 # drop 2 (putLong m)) = m"
  proof (rule bit_word_eqI)
    fix k :: nat
    assume "k < LENGTH(64)"
    then have k: "k div 8 < 8" "k = 8 * (k div 8) + k mod 8" "k < 64" by auto
    show "bit (be_word (0 # 0 # drop 2 (putLong m)) :: u64) k = bit m k"
    proof (cases "k div 8 < 6")
      case True
      then have i: "7 - k div 8 = Suc (Suc (5 - k div 8))" "2 + (5 - k div 8) = 7 - k div 8" by auto
      have "bit (be_word (0 # 0 # drop 2 (putLong m)) :: u64) k \<longleftrightarrow> bit (putLong m ! (7 - k div 8)) (k mod 8)"
        using k True by (simp add: bit_be_word i)
      also have "\<dots> \<longleftrightarrow> bit m (56 - 8 * (7 - k div 8) + k mod 8)"
        using k by (intro bit_putLong) auto
      also have "56 - 8 * (7 - k div 8) + k mod 8 = k" using k(1,2) by linarith
      finally show ?thesis .
    next
      case False
      then have "7 - k div 8 = 0 \<or> 7 - k div 8 = 1" "48 \<le> k" using k by auto
      then show ?thesis using hi by (auto simp: bit_be_word)
    qed
  qed
  then show ?thesis by (simp add: getLong_def)
qed

lemma arp_packet:
  assumes "inet_ok a" "inet_ok b" "is_inet4 a" "is_inet4 b"
  shows "getARPPacket op j j2 a b =
    Some ([0, 1, 8, 0, 6, 4, 0, op] @ drop 2 (putLong j) @ getAddress a @ drop 2 (putLong j2) @ getAddress b)"
proof -
  have "length (getAddress a) = 4" "length (getAddress b) = 4" using assms by auto
  moreover have r: "replicate 20 (0::u8) = replicate 6 0 @ replicate 4 0 @ replicate 6 0 @ replicate 4 0"
    by (simp add: replicate_add [symmetric])
  ultimately show ?thesis
    unfolding getARPPacket_def Let_def r by (simp add: arraycopy_def mem_write_def)
qed

definition arp_learn :: "int \<Rightarrow> InetAddress \<Rightarrow> u64 \<Rightarrow> ARPTable \<Rightarrow> ARPTable" where
  "arp_learn now a m t = (if m \<noteq> 0 then arp_setAddress now a m t else t)"

lemma process_arp_packet:
  assumes "inet_ok a" "inet_ok b" "is_inet4 a" "is_inet4 b" "unat j < 2 ^ 48" "unat j2 < 2 ^ 48"
    "getARPPacket op j j2 a b = Some p"
  shows "processARPPacket now p t =
    Some (if op = 1 then Some \<lparr>rd_destMac = j, rd_destAddress = Some a\<rparr> else None, arp_learn now b j2 (arp_learn now a j t))"
proof -
  obtain as bs where ab: "a = Inet4Address as" "b = Inet4Address bs" "length as = 4" "length bs = 4"
    using assms(1-4) by (cases a; cases b) (auto simp: inet_ok_def)
  have p: "p = [0, 1, 8, 0, 6, 4, 0, op] @ drop 2 (putLong j) @ as @ drop 2 (putLong j2) @ bs"
    using assms(7) arp_packet [OF assms(1-4)] by (simp add: ab)
  have "length p = 28" using ab by (simp add: p)
  moreover have "take 6 (drop 8 p) = drop 2 (putLong j)" "take 4 (drop 14 p) = as"
      "take 6 (drop 18 p) = drop 2 (putLong j2)" "take 4 (drop 24 p) = bs" "p ! 7 = op"
    using ab by (simp_all add: p)
  moreover have "mem_write (replicate 8 0) 2 (drop 2 (putLong m)) = 0 # 0 # drop 2 (putLong m)" for m
    by (simp add: mem_write_def numeral_2_eq_2)
  moreover have "mem_write (replicate 4 0) 0 xs = xs" if "length xs = 4" for xs :: "u8 list"
    using that by (simp add: mem_write_def)
  ultimately show ?thesis
    using ab getLong_mac [OF assms(5)] getLong_mac [OF assms(6)]
    by (simp add: processARPPacket_def arraycopy_def aget_def getByAddress_def arp_learn_def Let_def)
qed

text \<open>
  An ARP packet built by one table and processed by another teaches it the sender's address,
  and the target's when the packet has it; a request asks for a reply to its sender.
\<close>

lemma arp_packet_roundtrip:
  assumes "inet_ok a" "inet_ok b" "is_inet4 a" "is_inet4 b" "unat j < 2 ^ 48" "j \<noteq> 0"
  shows "\<exists>p. getRequestPacket j a b = Some p \<and> length p = 28
    \<and> processARPPacket now p t = Some (Some \<lparr>rd_destMac = j, rd_destAddress = Some a\<rparr>, arp_setAddress now a j t)
    \<and> (\<forall>k u. unat k < 2 ^ 48 \<and> k \<noteq> 0 \<longrightarrow> (\<exists>q. getReplyPacket k b j a = Some q
         \<and> processARPPacket now q u = Some (None, arp_setAddress now a j (arp_setAddress now b k u))))"
proof -
  obtain p where p: "getARPPacket 1 j 0 a b = Some p" "length p = 28"
    using arp_packet [OF assms(1-4), of 1 j 0] assms(1-4) by simp
  have "processARPPacket now p t = Some (Some \<lparr>rd_destMac = j, rd_destAddress = Some a\<rparr>, arp_setAddress now a j t)"
    using process_arp_packet [OF assms(1-5) _ p(1)] assms(6) by (simp add: arp_learn_def)
  moreover have "\<exists>q. getReplyPacket k b j a = Some q
      \<and> processARPPacket now q u = Some (None, arp_setAddress now a j (arp_setAddress now b k u))"
    if k: "unat k < 2 ^ 48" "k \<noteq> 0" for k u
  proof -
    obtain q where q: "getARPPacket 2 k j b a = Some q"
      using arp_packet [OF assms(2,1,4,3), of 2 k j] by simp
    then show ?thesis
      using process_arp_packet [OF assms(2,1,4,3) k(1) assms(5) q, of now u] k(2) assms(6)
      by (simp add: arp_learn_def getReplyPacket_def)
  qed
  ultimately show ?thesis using p by (auto simp: getRequestPacket_def)
qed

lemma arp_packet_roundtrip_witness:
  "\<exists>p t. getRequestPacket 0x020000000001 (Inet4Address [10, 0, 0, 1]) (Inet4Address [10, 0, 0, 2]) = Some p
    \<and> map_option fst (processARPPacket 0 p t)
       = Some (Some \<lparr>rd_destMac = 0x020000000001, rd_destAddress = Some (Inet4Address [10, 0, 0, 1])\<rparr>)"
  using arp_packet_roundtrip [of "Inet4Address [10, 0, 0, 1]" "Inet4Address [10, 0, 0, 2]" "0x020000000001"]
  by (fastforce simp: inet_ok_def)

section \<open>Neighbour solicitations\<close>

text \<open>The pseudo header of RFC 4443 that the checksum of an ICMPv6 message covers.\<close>

definition icmp6_pseudo :: "u8 list \<Rightarrow> u8 list \<Rightarrow> nat \<Rightarrow> u8 list" where
  "icmp6_pseudo src dst len = src @ dst @ putInt (of_nat len) @ [0, 0, 0, 58]"

lemma be_sum_putShort: "be_sum (putShort w) = unat w"
proof -
  have "unat w div 256 < 256" using unat_u16_lt [of w] by linarith
  then have "unat (ucast (drop_bit 8 w) :: u8) = unat w div 256"
    by (simp add: unsigned_ucast_eq unat_drop_bit unsigned_take_bit_eq take_bit_eq_mod)
  moreover have "unat (ucast w :: u8) = unat w mod 256"
    by (simp add: unsigned_ucast_eq unsigned_take_bit_eq take_bit_eq_mod)
  ultimately show ?thesis by (simp add: putShort_def)
qed

definition ns_message :: "u16 \<Rightarrow> u8 list \<Rightarrow> u64 \<Rightarrow> u8 list" where
  "ns_message c target mac = [135, 0] @ putShort c @ [0, 0, 0, 0] @ target @ [1, 1] @ drop 2 (putLong mac)"

lemma length_ns_message [simp]: "length bs = 16 \<Longrightarrow> length (ns_message c bs j) = 32"
  by (simp add: ns_message_def)

lemma ns_packet:
  fixes j :: u64
  assumes "length (getAddress a) = 16" "length (getAddress b) = 16"
  defines "S \<equiv> be_sum (icmp6_pseudo (getAddress a) (getAddress b) 32 @ ns_message 0 (getAddress b) j)"
  shows "getNeighborSolicitationPacket a b j =
    Some ([96, 0, 0, 0, 0, 32, 58, 255] @ getAddress a @ getAddress b
          @ ns_message (of_nat (65535 - ocsum S)) (getAddress b) j)"
proof -
  let ?as = "getAddress a" and ?bs = "getAddress b"
  let ?z = "replicate 16 0 @ replicate 16 0 @ replicate 4 0 @ [0, 0, 0, 0] @ [0, 0] @ [0, 0] @ [0, 0, 0, 0]
    @ replicate 16 0 @ [0, 0] @ replicate 6 (0 :: u8)"
  have z: "replicate 72 0 = ?z" by (simp add: eval_nat_numeral)
  define h where "h = icmp6_pseudo ?as ?bs 32 @ ns_message 0 ?bs j"
  have h: "length h = 72" "h = ?as @ ?bs @ putInt 32 @ [0, 0, 0, 58] @ [135, 0] @ [0, 0] @ [0, 0, 0, 0]
      @ ?bs @ [1, 1] @ drop 2 (putLong j)"
    using assms(1,2) by (simp_all add: h_def icmp6_pseudo_def ns_message_def putShort_def)
  have c: "calculateChecksum h 0 0 72 = Some (of_nat (65535 - ocsum S))"
    using calculateChecksum_sum [of 0 72 h 0] h(1) by (simp add: S_def h_def)
  have u: "ucast (of_nat (65535 - ocsum S) :: u64) = (of_nat (65535 - ocsum S) :: u16)"
    by (rule word_unatI) (simp add: unsigned_ucast_eq unsigned_of_nat)
  have n: "(- 121 :: u8) = 135" "(- 1 :: u8) = 255" by simp_all
  have r: "take 4 ((replicate 40 (0 :: u8))[0 := 96]) = [96, 0, 0, 0]"
      "take 2 ((replicate 34 (0 :: u8))[0 := 58, Suc 0 := 255]) = [58, 255]"
    by (simp_all add: eval_nat_numeral)
  show ?thesis
    unfolding getNeighborSolicitationPacket_def Let_def z n using assms(1,2) c [unfolded h(2)]
    by (simp add: arraycopy_def mem_write_def aput_def list_update_append putShort_def u ns_message_def r)
qed

lemma be_sum_ns_message:
  assumes "even (length xs)"
  shows "be_sum (xs @ ns_message c target mac) = be_sum (xs @ ns_message 0 target mac) + unat c"
proof -
  have "be_sum (putShort w @ ys) = unat w + be_sum ys" for w ys
    by (simp add: be_sum_append be_sum_putShort)
  then show ?thesis using assms by (simp add: be_sum_append ns_message_def)
qed

text \<open>
  C25. A neighbour solicitation is a well-formed IPv6 packet of 72 bytes for the target, with the
  sender's MAC as its option, and its ICMPv6 checksum is right for the receiver.
\<close>

theorem neighbor_solicitation_correct:
  assumes "inet_ok a" "inet_ok b" "\<not> is_inet4 a" "\<not> is_inet4 b"
  shows "\<exists>c. getNeighborSolicitationPacket a b j =
      Some ([0x60, 0, 0, 0, 0, 32, 58, 255] @ getAddress a @ getAddress b @ ns_message c (getAddress b) j)
    \<and> sum_ok (be_sum (icmp6_pseudo (getAddress a) (getAddress b) 32 @ ns_message c (getAddress b) j))"
proof -
  have len: "length (getAddress a) = 16" "length (getAddress b) = 16" using assms by simp_all
  let ?h = "icmp6_pseudo (getAddress a) (getAddress b) 32"
  define S where "S = be_sum (?h @ ns_message 0 (getAddress b) j)"
  have "unat (of_nat (65535 - ocsum S) :: u16) = 65535 - ocsum S"
    by (simp add: unat_of_nat_u16)
  moreover have "even (length ?h)" using len by (simp add: icmp6_pseudo_def)
  ultimately have "be_sum (?h @ ns_message (of_nat (65535 - ocsum S)) (getAddress b) j) = S + (65535 - ocsum S)"
    by (subst be_sum_ns_message) (simp_all add: S_def)
  then show ?thesis using ns_packet [OF len, of j] checksum_verifies [of S] by (auto simp: S_def)
qed

lemma neighbor_solicitation_correct_witness:
  "\<exists>p. getNeighborSolicitationPacket (Inet6Address (0xfe # 0x80 # replicate 14 0))
     (Inet6Address (0xfe # 0x80 # replicate 14 1)) 0x020000000001 = Some p"
proof -
  have "inet_ok (Inet6Address (0xfe # 0x80 # replicate 14 0))"
      "inet_ok (Inet6Address (0xfe # 0x80 # replicate 14 1))" by code_simp+
  then show ?thesis
    using neighbor_solicitation_correct [of "Inet6Address (0xfe # 0x80 # replicate 14 0)"
        "Inet6Address (0xfe # 0x80 # replicate 14 1)" "0x020000000001"] by auto
qed

end
