(* ===== verification/Nat_Engine.thy ===== *)
theory Nat_Engine
  imports Neighbour_Table
begin

text \<open>
  \<^verbatim>\<open>NatEngine.java\<close>, \<^verbatim>\<open>TetherL3Bridge.java\<close> and the subnet tests of
  \<^verbatim>\<open>TetherBridge.java\<close>: traffic of tethered clients. The node's
  \<^verbatim>\<open>processVirtualNetworkFrame\<close> is an argument: it gives the deadline when it succeeds.
\<close>

section \<open>Subnets (TetherBridge)\<close>

definition isInSubnet :: "u8 list \<Rightarrow> u8 list \<Rightarrow> int \<Rightarrow> bool option" where
  "isInSubnet addr subnet prefix =
     (let mask = (if prefix = 0 then 0 else ishl 0xffffffff (32 - prefix))
      in do { a \<leftarrow> getInt addr; s \<leftarrow> getInt subnet; Some (a AND mask = s AND mask) })"

record TetherInterface =
  i_address :: InetAddress
  i_prefixLength :: int

fun isTetherSubnetAddress :: "TetherInterface list \<Rightarrow> u8 list \<Rightarrow> bool option" where
  "isTetherSubnetAddress [] ipv4Bytes = Some False"
| "isTetherSubnetAddress (iface # ifaces) ipv4Bytes =
     do { b \<leftarrow> isInSubnet ipv4Bytes (getAddress (i_address iface)) (i_prefixLength iface);
          if b then Some True else isTetherSubnetAddress ifaces ipv4Bytes }"

section \<open>The NAT engine\<close>

record ConnectionEntry =
  c_srcAddr :: "u8 list"
  c_dstAddr :: "u8 list"
  c_srcPort :: u32
  c_dstPort :: u32
  c_protocol :: u32
  c_lastSeen :: int
  c_bytesOut :: u64
  c_bytesIn :: u64

record NatEngine =
  nat_ttlFixEnabled :: bool
  nat_bytesForwarded :: u64
  nat_packetsForwarded :: u64
  nat_connectionTable :: "u32 \<rightharpoonup> ConnectionEntry"

text \<open>\<^verbatim>\<open>packet[i] \& 0xFF\<close> as an \<^verbatim>\<open>int\<close>.\<close>

definition ubyte :: "u8 list \<Rightarrow> nat \<Rightarrow> u32 option" where
  "ubyte packet i = do { b \<leftarrow> aget packet i; Some (scast b AND 0xff) }"

definition fixTtl :: "u8 list \<Rightarrow> u8 list option" where
  "fixTtl packet =
     do { oldTtl \<leftarrow> ubyte packet 8;
          if oldTtl = 64 then Some packet
          else do {
            packet \<leftarrow> aput packet 8 64;
            h \<leftarrow> ubyte packet 10;
            l \<leftarrow> ubyte packet 11;
            let oldChecksum = push_bit 8 h OR l;
            let diff = oldTtl - 64;
            let newChecksum = oldChecksum + push_bit 8 diff;
            let newChecksum = (newChecksum AND 0xffff) + ishr newChecksum 16;
            let newChecksum = (newChecksum AND 0xffff) + ishr newChecksum 16;
            packet \<leftarrow> aput packet 10 (ucast (ishr newChecksum 8 AND 0xff));
            aput packet 11 (ucast (newChecksum AND 0xff)) } }"

fun hash_bytes :: "u8 list \<Rightarrow> nat list \<Rightarrow> u32 \<Rightarrow> u32 option" where
  "hash_bytes packet [] h = Some h"
| "hash_bytes packet (i # is) h =
     do { b \<leftarrow> aget packet i; hash_bytes packet is (h * 31 + scast b) }"

definition hashConnection :: "u8 list \<Rightarrow> u32 \<Rightarrow> u32 \<Rightarrow> u32 \<Rightarrow> u32 option" where
  "hashConnection packet srcPort dstPort protocol =
     do { h \<leftarrow> hash_bytes packet [12..<20] protocol;
          let h = h * 31 + srcPort;
          Some (h * 31 + dstPort) }"

definition trackConnection ::
    "int \<Rightarrow> u8 list \<Rightarrow> nat \<Rightarrow> bool \<Rightarrow> NatEngine \<Rightarrow> NatEngine option" where
  "trackConnection now packet len outbound n =
     do { b \<leftarrow> aget packet 0;
          let ihl = unat (b AND 0xf) * 4;
          if len < ihl + 4 then Some n
          else do {
            protocol \<leftarrow> ubyte packet 9;
            if protocol \<noteq> 6 \<and> protocol \<noteq> 17 then Some n
            else do {
              p0 \<leftarrow> ubyte packet ihl; p1 \<leftarrow> ubyte packet (ihl + 1);
              let srcPort = push_bit 8 p0 OR p1;
              q0 \<leftarrow> ubyte packet (ihl + 2); q1 \<leftarrow> ubyte packet (ihl + 3);
              let dstPort = push_bit 8 q0 OR q1;
              key \<leftarrow> hashConnection packet srcPort dstPort protocol;
              entry \<leftarrow> (case nat_connectionTable n key of
                         Some entry \<Rightarrow> Some entry
                       | None \<Rightarrow>
                           do { src \<leftarrow> arraycopy packet 12 (replicate 4 0) 0 4;
                                dst \<leftarrow> arraycopy packet 16 (replicate 4 0) 0 4;
                                Some \<lparr>c_srcAddr = src, c_dstAddr = dst, c_srcPort = srcPort,
                                  c_dstPort = dstPort, c_protocol = protocol, c_lastSeen = now,
                                  c_bytesOut = 0, c_bytesIn = 0\<rparr> });
              let entry = entry\<lparr>c_lastSeen := now\<rparr>;
              let entry = (if outbound then entry\<lparr>c_bytesOut := c_bytesOut entry + of_nat len\<rparr>
                           else entry\<lparr>c_bytesIn := c_bytesIn entry + of_nat len\<rparr>);
              Some (n\<lparr>nat_connectionTable := (nat_connectionTable n)(key \<mapsto> entry)\<rparr>) } } }"

text \<open>The packet is changed in place: the new contents of the array are part of the result.\<close>

definition nat_processOutbound ::
    "TetherInterface list \<Rightarrow> int \<Rightarrow> u8 list \<Rightarrow> nat \<Rightarrow> NatEngine
      \<Rightarrow> (bool \<times> u8 list \<times> NatEngine) option" where
  "nat_processOutbound ifaces now packet len n =
     (if len < 20 then Some (False, packet, n)
      else do {
        b \<leftarrow> aget packet 0;
        if signed_drop_bit 4 b AND 0xf \<noteq> 4 then Some (False, packet, n)
        else do {
          srcIp \<leftarrow> arraycopy packet 12 (replicate 4 0) 0 4;
          tether \<leftarrow> isTetherSubnetAddress ifaces srcIp;
          if \<not> tether then Some (False, packet, n)
          else do {
            packet \<leftarrow> (if nat_ttlFixEnabled n then fixTtl packet else Some packet);
            n \<leftarrow> trackConnection now packet len True n;
            Some (True, packet,
              n\<lparr>nat_packetsForwarded := nat_packetsForwarded n + 1,
                nat_bytesForwarded := nat_bytesForwarded n + of_nat len\<rparr>) } } })"

definition nat_processInbound ::
    "TetherInterface list \<Rightarrow> int \<Rightarrow> u8 list \<Rightarrow> nat \<Rightarrow> NatEngine \<Rightarrow> (bool \<times> NatEngine) option" where
  "nat_processInbound ifaces now packet len n =
     (if len < 20 then Some (False, n)
      else do {
        b \<leftarrow> aget packet 0;
        if signed_drop_bit 4 b AND 0xf \<noteq> 4 then Some (False, n)
        else do {
          dstIp \<leftarrow> arraycopy packet 16 (replicate 4 0) 0 4;
          tether \<leftarrow> isTetherSubnetAddress ifaces dstIp;
          if \<not> tether then Some (False, n)
          else do {
            n \<leftarrow> trackConnection now packet len False n;
            Some (True, n\<lparr>nat_bytesForwarded := nat_bytesForwarded n + of_nat len\<rparr>) } } })"

definition evictStale :: "int \<Rightarrow> NatEngine \<Rightarrow> NatEngine" where
  "evictStale now n =
     n\<lparr>nat_connectionTable := (\<lambda>k. case nat_connectionTable n k of
         Some e \<Rightarrow> if c_lastSeen e < now - 300000 then None else Some e
       | None \<Rightarrow> None)\<rparr>"

definition nat_reset :: "NatEngine \<Rightarrow> NatEngine" where
  "nat_reset n = n\<lparr>nat_bytesForwarded := 0, nat_packetsForwarded := 0, nat_connectionTable := Map.empty\<rparr>"

definition setTtlFixEnabled :: "bool \<Rightarrow> NatEngine \<Rightarrow> NatEngine" where
  "setTtlFixEnabled enabled n = n\<lparr>nat_ttlFixEnabled := enabled\<rparr>"

section \<open>The L3 bridge\<close>

record Frame =
  f_networkId :: u64
  f_srcMac :: u64
  f_dstMac :: u64
  f_etherType :: nat
  f_data :: "u8 list"

record TetherL3Bridge =
  b_node :: bool
  b_networkId :: u64
  b_localMac :: u64
  b_gatewayMac :: u64
  b_localZtIp :: "u8 list"
  b_tetherSubnet :: "u8 list"
  b_tetherPrefix :: int
  b_active :: bool

definition l3_configure ::
    "bool \<Rightarrow> u64 \<Rightarrow> u64 \<Rightarrow> u64 \<Rightarrow> InetAddress \<Rightarrow> InetAddress \<Rightarrow> int \<Rightarrow> TetherL3Bridge \<Rightarrow> TetherL3Bridge" where
  "l3_configure node networkId localMac gatewayMac localZtAddr tetherAddr tetherPrefix b =
     b\<lparr>b_node := node, b_networkId := networkId, b_localMac := localMac, b_gatewayMac := gatewayMac,
       b_localZtIp := getAddress localZtAddr, b_tetherSubnet := getAddress tetherAddr,
       b_tetherPrefix := tetherPrefix, b_active := True\<rparr>"

definition l3_stop :: "TetherL3Bridge \<Rightarrow> TetherL3Bridge" where
  "l3_stop b = b\<lparr>b_active := False\<rparr>"

definition isInTetherSubnet :: "TetherL3Bridge \<Rightarrow> u8 list \<Rightarrow> nat \<Rightarrow> bool option" where
  "isInTetherSubnet b pkt offset =
     (if offset + 4 > length pkt then Some False
      else
        let mask = (if b_tetherPrefix b = 0 then 0 else ishl 0xffffffff (32 - b_tetherPrefix b))
        in do { addr \<leftarrow> getInt (drop offset pkt);
                subnet \<leftarrow> getInt (b_tetherSubnet b);
                Some (addr AND mask = subnet AND mask) })"

fun header_sum :: "u8 list \<Rightarrow> nat list \<Rightarrow> nat \<Rightarrow> nat option" where
  "header_sum pkt [] acc = Some acc"
| "header_sum pkt (i # is) acc =
     do { h \<leftarrow> ubyte pkt i; l \<leftarrow> ubyte pkt (i + 1);
          header_sum pkt is (acc + unat (push_bit 8 h OR l)) }"

function fold_carries :: "nat \<Rightarrow> nat" where
  "fold_carries acc = (if acc div 65536 \<noteq> 0 then fold_carries (acc mod 65536 + acc div 65536) else acc)"
  by auto
termination
proof (relation "measure id", simp)
  fix acc :: nat
  assume "acc div 65536 \<noteq> 0"
  then have "acc mod 65536 + acc div 65536 < acc" using div_mult_mod_eq [of acc 65536] by linarith
  then show "(acc mod 65536 + acc div 65536, acc) \<in> measure id" by simp
qed

declare fold_carries.simps [simp del]

definition fixIpChecksum :: "u8 list \<Rightarrow> u8 list option" where
  "fixIpChecksum pkt =
     do { b \<leftarrow> aget pkt 0;
          let ihl = unat (b AND 0xf) * 4;
          pkt \<leftarrow> aput pkt 10 0;
          pkt \<leftarrow> aput pkt 11 0;
          acc \<leftarrow> header_sum pkt (map (\<lambda>k. 2 * k) [0..<ihl div 2]) 0;
          let checksum = (NOT (of_nat (fold_carries acc)) AND 0xffff :: u32);
          pkt \<leftarrow> aput pkt 10 (ucast (ishr checksum 8 AND 0xff));
          aput pkt 11 (ucast (checksum AND 0xff)) }"

definition l3_processOutbound ::
    "(Frame \<Rightarrow> int option) \<Rightarrow> TetherL3Bridge \<Rightarrow> u8 list \<Rightarrow> nat \<Rightarrow> (bool \<times> Frame list) option" where
  "l3_processOutbound node b packet len =
     (if \<not> b_active b \<or> \<not> b_node b then Some (False, [])
      else if len < 20 then Some (False, [])
      else do {
        tether \<leftarrow> isInTetherSubnet b packet 12;
        if \<not> tether then Some (False, [])
        else do {
          pkt \<leftarrow> arraycopy packet 0 (replicate len 0) 0 len;
          pkt \<leftarrow> arraycopy (b_localZtIp b) 0 pkt 12 4;
          pkt \<leftarrow> fixIpChecksum pkt;
          let frame = \<lparr>f_networkId = b_networkId b, f_srcMac = b_localMac b, f_dstMac = b_gatewayMac b,
                       f_etherType = 0x0800, f_data = pkt\<rparr>;
          Some (node frame \<noteq> None, [frame]) } })"

end
