(* ===== verification/Nat_Props.thy ===== *)
theory Nat_Props
  imports Nat_Engine
begin

text \<open>
  Tethered traffic: the TTL fix keeps the header checksum, the connection table confuses
  connections, and the L3 bridge rewrites the source address and the header checksum but not the
  checksum of the transport protocol.
\<close>

section \<open>Small signed numbers in words\<close>

lemma sint_small:
  assumes "- 2147483648 \<le> z" "z < 2147483648"
  shows "sint (word_of_int z :: u32) = z"
  using assms by (simp add: signed_of_int signed_take_bit_int_eq_self)

lemma ishr_small:
  assumes "- 2147483648 \<le> z" "z < 2147483648" "k < 32"
  shows "ishr (word_of_int z) (int k) = word_of_int (z div 2 ^ k)"
proof -
  have "sint (signed_drop_bit k (word_of_int z :: u32)) = z div 2 ^ k"
    by (simp only: sint_signed_drop_bit_eq sint_small [OF assms(1,2)] drop_bit_eq_div)
  then have "signed_drop_bit k (word_of_int z :: u32) = word_of_int (z div 2 ^ k)"
    using of_int_sint [of "signed_drop_bit k (word_of_int z :: u32)", where ?'a = u32] by simp
  then show ?thesis using assms(3) by (simp add: ishr_def)
qed

lemma and_ffff_small: "word_of_int z AND 0xffff = (word_of_int (z mod 65536) :: u32)"
proof -
  have "word_of_int z AND mask 16 = (word_of_int (take_bit 16 z) :: u32)"
    by (rule bit_word_eqI) (auto simp: bit_simps)
  then show ?thesis by (simp add: mask_eq_exp_minus_1 take_bit_eq_mod)
qed


definition ifold :: "int \<Rightarrow> int" where
  "ifold z = z mod 65536 + z div 65536"

lemma fold_small:
  assumes "- 2147483648 \<le> z" "z < 2147483648"
  shows "(word_of_int z AND 0xffff) + ishr (word_of_int z) 16 = (word_of_int (ifold z) :: u32)"
  using ishr_small [OF assms, of 16] by (simp add: and_ffff_small ifold_def)

lemma ifold_mod: "ifold z mod 65535 = z mod 65535"
proof -
  have "z = 65535 * (z div 65536) + ifold z"
    using div_mult_mod_eq [of z 65536] by (simp add: ifold_def)
  then show ?thesis by (metis mod_mult_self4)
qed

lemma ifold_ifold_range:
  assumes "- 65536 \<le> z" "z < 131071"
  shows "0 \<le> ifold (ifold z)" "ifold (ifold z) \<le> 65535"
proof -
  have "z div 65536 = - 1 \<or> z div 65536 = 0 \<or> z div 65536 = 1" using assms by linarith
  then have "0 \<le> ifold z \<and> ifold z \<le> 65535 \<or> ifold z = - 1"
    using assms div_mult_mod_eq [of z 65536] unfolding ifold_def by (elim disjE) linarith+
  moreover have "ifold (- 1) = 65534" "\<And>y. 0 \<le> y \<Longrightarrow> y \<le> 65535 \<Longrightarrow> ifold y = y"
    by (simp_all add: ifold_def)
  ultimately show "0 \<le> ifold (ifold z)" "ifold (ifold z) \<le> 65535" by auto
qed

text \<open>The two bytes of a 16-bit number in an \<^verbatim>\<open>int\<close>.\<close>

lemma checksum_bytes:
  assumes "0 \<le> z" "z \<le> 65535"
  shows "ucast (ishr (word_of_int z) 8 AND 0xff) = (word_of_int (z div 256) :: u8)"
    "ucast (word_of_int z AND 0xff :: u32) = (word_of_int (z mod 256) :: u8)"
proof -
  have b: "ucast (word_of_int y AND 0xff :: u32) = (word_of_int y :: u8)" for y
  proof -
    have "ucast (word_of_int y AND mask 8 :: u32) = (word_of_int y :: u8)"
      by (rule bit_word_eqI) (auto simp: bit_simps)
    then show ?thesis by (simp add: mask_eq_exp_minus_1)
  qed
  show "ucast (ishr (word_of_int z) 8 AND 0xff) = (word_of_int (z div 256) :: u8)"
    using b [of "z div 256"] ishr_small [of z 8] assms by simp
  have "(word_of_int (z mod 256) :: u8) = word_of_int z"
    by (rule word_uint_eqI) (simp add: uint_word_of_int)
  then show "ucast (word_of_int z AND 0xff :: u32) = (word_of_int (z mod 256) :: u8)"
    by (simp only: b)
qed

lemma uint_checksum_bytes:
  assumes "0 \<le> z" "z \<le> 65535"
  shows "uint (word_of_int (z div 256) :: u8) = z div 256" "uint (word_of_int (z mod 256) :: u8) = z mod 256"
  using assms by (simp_all add: uint_word_of_int)

section \<open>The TTL fix\<close>

lemma ubyte_Some: "i < length bs \<Longrightarrow> ubyte bs i = Some (ucast (bs ! i))"
  by (simp add: ubyte_def aget_Some low_byte)

lemma word_two_bytes:
  "push_bit 8 (ucast a) OR ucast b = (word_of_int (256 * uint a + uint b) :: u32)"
  for a b :: u8
proof -
  have "push_bit 8 (ucast a) OR ucast b = (push_bit 8 (ucast a) + ucast b :: u32)"
    by (rule disjunctive_add [symmetric]) (auto simp: bit_simps dest: bit_imp_le_length)
  then show ?thesis by (simp add: push_bit_eq_mult)
qed

text \<open>What the fix writes into the checksum field, from the old field and the old TTL.\<close>

definition ttl_checksum :: "int \<Rightarrow> int \<Rightarrow> int" where
  "ttl_checksum c ttl = ifold (ifold (c + 256 * (ttl - 64)))"

lemma fixTtl_writes:
  assumes "12 \<le> length p" "p ! 8 \<noteq> 64"
  defines "c \<equiv> ttl_checksum (256 * uint (p ! 10) + uint (p ! 11)) (uint (p ! 8))"
  shows "fixTtl p = Some (p[8 := 64, 10 := word_of_int (c div 256), 11 := word_of_int (c mod 256)])"
proof -
  define z where "z = 256 * uint (p ! 10) + uint (p ! 11) + 256 * (uint (p ! 8) - 64)"
  have u: "0 \<le> uint x" "uint x < 256" for x :: u8 using uint_lt2p [of x] by simp_all
  have z: "- 65536 \<le> z" "z < 131071"
    using u [of "p ! 10"] u [of "p ! 11"] u [of "p ! 8"] by (auto simp: z_def)
  have z': "- 2147483648 \<le> z" "z < 2147483648" using z by auto
  have "- 65536 \<le> ifold z" "ifold z \<le> 65535 * 2"
    using z div_mult_mod_eq [of z 65536] pos_mod_bound [of 65536 z] pos_mod_sign [of 65536 z]
    unfolding ifold_def by linarith+
  then have f': "- 2147483648 \<le> ifold z" "ifold z < 2147483648" by auto
  have c: "c = ifold (ifold z)" "0 \<le> c" "c \<le> 65535"
    using ifold_ifold_range [OF z] by (simp_all add: c_def ttl_checksum_def z_def algebra_simps)
  have old: "(ucast (p ! 8) :: u32) \<noteq> 64"
  proof
    assume "(ucast (p ! 8) :: u32) = 64"
    then have "unat (ucast (p ! 8) :: u32) = unat (64 :: u32)" by (rule arg_cong)
    then have "p ! 8 = 64" by (intro word_unatI) simp
    then show False using assms(2) by simp
  qed
  have new: "(push_bit 8 (ucast (p ! 10)) OR ucast (p ! 11)) + push_bit 8 (ucast (p ! 8) - 64) = (word_of_int z :: u32)"
    unfolding word_two_bytes by (simp add: z_def push_bit_eq_mult algebra_simps)
  note b = checksum_bytes [OF c(2,3)]
  show ?thesis
    using assms(1) old
    by (simp add: fixTtl_def ubyte_Some aput_Some Let_def new fold_small [OF z'] fold_small [OF f']
        c(1) [symmetric] b)
qed

text \<open>
  C22. Setting the TTL of a packet to 64 keeps its header checksum right, and changes nothing but
  the TTL and the checksum.
\<close>

theorem fixTtl_keeps_checksum:
  assumes "20 \<le> h" "h \<le> length p" "sum_ok (be_sum (take h p))"
  shows "\<exists>q. fixTtl p = Some q \<and> length q = length p \<and> q ! 8 = 64
    \<and> (\<forall>i. i \<noteq> 8 \<and> i \<noteq> 10 \<and> i \<noteq> 11 \<longrightarrow> q ! i = p ! i) \<and> sum_ok (be_sum (take h q))"
proof (cases "p ! 8 = 64")
  case True
  then have "fixTtl p = Some p" using assms(1,2) by (simp add: fixTtl_def ubyte_Some)
  then show ?thesis using assms(3) True by auto
next
  case False
  define c0 where "c0 = 256 * uint (p ! 10) + uint (p ! 11)"
  define c where "c = ttl_checksum c0 (uint (p ! 8))"
  define q where "q = p[8 := 64, 10 := word_of_int (c div 256), 11 := word_of_int (c mod 256)]"
  have eq: "fixTtl p = Some q"
    using fixTtl_writes [of p] False assms(1,2) by (simp add: q_def c_def c0_def)
  have u: "0 \<le> uint x" "uint x < 256" for x :: u8 using uint_lt2p [of x] by simp_all
  have "- 65536 \<le> c0 + 256 * (uint (p ! 8) - 64)" "c0 + 256 * (uint (p ! 8) - 64) < 131071"
    using u [of "p ! 10"] u [of "p ! 11"] u [of "p ! 8"] by (auto simp: c0_def)
  from ifold_ifold_range [OF this] have c: "0 \<le> c" "c \<le> 65535" by (simp_all add: c_def ttl_checksum_def)
  note ub = uint_checksum_bytes [OF c]
  have t: "take h q = (take h p)[8 := 64, 10 := word_of_int (c div 256), 11 := word_of_int (c mod 256)]"
    by (simp add: q_def take_update_swap)
  have "int (be_sum (take h q)) - int (be_sum (take h p)) = 256 * (64 - uint (p ! 8)) + (c - c0)"
    using assms(1,2) div_mult_mod_eq [of c 256]
    by (simp add: t be_sum_update ub c0_def)
  moreover have "(c - (c0 + 256 * (uint (p ! 8) - 64))) mod 65535 = 0"
    using ifold_mod [of "ifold (c0 + 256 * (uint (p ! 8) - 64))"] ifold_mod [of "c0 + 256 * (uint (p ! 8) - 64)"]
    by (simp add: c_def ttl_checksum_def mod_eq_dvd_iff [symmetric] dvd_eq_mod_eq_0 [symmetric])
  moreover have "256 * (64 - uint (p ! 8)) + (c - c0) = c - (c0 + 256 * (uint (p ! 8) - 64))" by simp
  ultimately have "(int (be_sum (take h q)) - int (be_sum (take h p))) mod 65535 = 0" by (simp only:)
  moreover have "0 < be_sum (take h q)"
    using assms(1,2) by (intro be_sum_pos [of 8]) (simp_all add: t)
  ultimately have "sum_ok (be_sum (take h q))" by (rule sum_ok_change [OF assms(3)])
  then show ?thesis using eq assms(1,2) by (auto simp: q_def)
qed

lemma fixTtl_keeps_checksum_witness:
  "\<exists>q. fixTtl [0x45, 0, 0, 20, 0, 0, 0, 0, 128, 17, 0x46, 0x29, 10, 0, 0, 1, 192, 168, 42, 7] = Some q \<and> q ! 8 = 64"
proof -
  have "sum_ok (be_sum (take 20 [0x45, 0, 0, 20, 0, 0, 0, 0, 128, 17, 0x46, 0x29, 10, 0, 0, 1, 192, 168, 42, 7]))"
    by (simp add: sum_ok_iff)
  then show ?thesis
    using fixTtl_keeps_checksum [of 20 "[0x45, 0, 0, 20, 0, 0, 0, 0, 128, 17, 0x46, 0x29, 10, 0, 0, 1, 192, 168, 42, 7]"]
    by auto
qed

section \<open>Connections\<close>

lemma word_of_putShort:
  "push_bit 8 (ucast (ucast (drop_bit 8 s) :: u8)) OR ucast (ucast s :: u8) = (ucast s :: u32)" for s :: u16
proof (rule bit_word_eqI)
  fix n :: nat
  assume "n < LENGTH(32)"
  have "bit s n \<Longrightarrow> n < 16" using bit_imp_le_length [of s n] by simp
  then show "bit (push_bit 8 (ucast (ucast (drop_bit 8 s) :: u8)) OR ucast (ucast s :: u8) :: u32) n = bit (ucast s :: u32) n"
    using \<open>n < LENGTH(32)\<close> by (cases "n < 8") (auto simp: bit_simps)
qed

lemma hash_bytes_append:
  "\<forall>i \<in> set is. i < length hdr \<Longrightarrow> hash_bytes (hdr @ xs) is h = hash_bytes hdr is h"
  by (induction "is" arbitrary: h) (simp_all add: aget_def nth_append trans_less_add1)

lemma hash_bytes_Some:
  "\<forall>i \<in> set is. i < length bs \<Longrightarrow> \<exists>k. hash_bytes bs is h = Some k"
  by (induction "is" arbitrary: h) (simp_all add: aget_def)

lemma nth_hdr: "length hdr = 20 \<Longrightarrow> i < 20 \<Longrightarrow> (hdr @ xs) ! i = hdr ! i"
  by (simp add: nth_append)

text \<open>A packet of a connection: a header without options, the two ports, and the rest.\<close>

lemma trackConnection_cases:
  fixes s d :: u16
  assumes "length hdr = 20" "hdr ! 0 AND 0xf = 5" "hdr ! 9 = 6 \<or> hdr ! 9 = 17" "24 \<le> len"
    and h: "hash_bytes hdr [12..<20] (ucast (hdr ! 9)) = Some h"
  defines "key \<equiv> (h * 31 + ucast s) * 31 + ucast d"
  shows "trackConnection now (hdr @ putShort s @ putShort d @ xs) len True n =
    (let entry = (case nat_connectionTable n key of
                    Some entry \<Rightarrow> entry
                  | None \<Rightarrow> \<lparr>c_srcAddr = take 4 (drop 12 hdr), c_dstAddr = take 4 (drop 16 hdr),
                      c_srcPort = ucast s, c_dstPort = ucast d, c_protocol = ucast (hdr ! 9),
                      c_lastSeen = now, c_bytesOut = 0, c_bytesIn = 0\<rparr>);
         entry = entry\<lparr>c_lastSeen := now, c_bytesOut := c_bytesOut entry + of_nat len\<rparr>
     in Some (n\<lparr>nat_connectionTable := (nat_connectionTable n)(key \<mapsto> entry)\<rparr>))"
proof -
  let ?p = "hdr @ putShort s @ putShort d @ xs"
  have b: "?p ! 0 = hdr ! 0" "?p ! 9 = hdr ! 9" using assms(1) by (simp_all add: nth_append)
  have ihl: "unat (hdr ! 0 AND 0xf) * 4 = 20" using assms(2) by simp
  have port: "ubyte ?p 20 = Some (ucast (ucast (drop_bit 8 s) :: u8))" "ubyte ?p 21 = Some (ucast (ucast s :: u8))"
      "ubyte ?p 22 = Some (ucast (ucast (drop_bit 8 d) :: u8))" "ubyte ?p 23 = Some (ucast (ucast d :: u8))"
    using assms(1) by (simp_all add: ubyte_Some nth_append putShort_def)
  have proto: "ubyte ?p 9 = Some (ucast (hdr ! 9))" using assms(1) b by (simp add: ubyte_Some)
  have pr: "(ucast (hdr ! 9) :: u32) = 6 \<or> (ucast (hdr ! 9) :: u32) = 17" using assms(3) by auto
  have key: "hashConnection ?p (ucast s) (ucast d) (ucast (hdr ! 9)) = Some key"
    using hash_bytes_append [of "[12..<20]" hdr] assms(1) h by (simp add: hashConnection_def key_def)
  have cp: "arraycopy ?p 12 (replicate 4 0) 0 4 = Some (take 4 (drop 12 hdr))"
      "arraycopy ?p 16 (replicate 4 0) 0 4 = Some (take 4 (drop 16 hdr))"
    using assms(1) by (simp_all add: arraycopy_def mem_write_def)
  have "aget ?p 0 = Some (hdr ! 0)" using b assms(1) by (simp add: aget_def)
  then show ?thesis
    unfolding trackConnection_def
    using assms(4) pr proto port key cp
    by (auto simp: ihl word_of_putShort Let_def split: option.split)
qed

text \<open>
  Connections are told apart by a 32-bit hash only: the connection from port \<open>s\<close> to port \<open>d\<close> and
  the one from \<open>s - 1\<close> to \<open>d + 31\<close> between the same hosts share one entry, which keeps the ports
  of the first and counts the bytes of both.
\<close>

lemma nat_connections_collide:
  fixes s d :: u16
  assumes "length hdr = 20" "hdr ! 0 AND 0xf = 5" "hdr ! 9 = 6 \<or> hdr ! 9 = 17"
    "0 < s" "unat d + 31 < 65536" "24 \<le> len1" "24 \<le> len2" "nat_connectionTable n = Map.empty"
  shows "\<exists>n1 k e. trackConnection t1 (hdr @ putShort s @ putShort d @ xs) len1 True n = Some n1
    \<and> trackConnection t2 (hdr @ putShort (s - 1) @ putShort (d + 31) @ ys) len2 True n1
        = Some (n\<lparr>nat_connectionTable := [k \<mapsto> e]\<rparr>)
    \<and> c_srcPort e = ucast s \<and> c_dstPort e = ucast d \<and> c_bytesOut e = of_nat len1 + of_nat len2"
proof -
  obtain h where h: "hash_bytes hdr [12..<20] (ucast (hdr ! 9)) = Some h"
    using hash_bytes_Some [of "[12..<20]" hdr] assms(1) by auto
  have "1 \<le> unat s" using assms(4) by (simp add: word_less_nat_alt)
  then have s: "(ucast (s - 1) :: u32) = ucast s - 1"
    by (intro word_unatI) (simp add: unat_minus_no_wrap)
  have d: "(ucast (d + 31) :: u32) = ucast d + 31"
    using assms(5) by (intro word_unatI) (simp add: unat_plus_no_wrap unat_word_ariths)
  define key where "key = (h * 31 + ucast s) * 31 + ucast d"
  have key: "(h * 31 + ucast (s - 1)) * 31 + ucast (d + 31) = key"
    unfolding s d key_def by (simp add: algebra_simps)
  define e where "e = \<lparr>c_srcAddr = take 4 (drop 12 hdr), c_dstAddr = take 4 (drop 16 hdr),
    c_srcPort = ucast s, c_dstPort = ucast d, c_protocol = ucast (hdr ! 9), c_lastSeen = t1,
    c_bytesOut = of_nat len1, c_bytesIn = 0\<rparr>"
  have 1: "trackConnection t1 (hdr @ putShort s @ putShort d @ xs) len1 True n
      = Some (n\<lparr>nat_connectionTable := [key \<mapsto> e]\<rparr>)"
    using trackConnection_cases [OF assms(1-3,6) h, where s = s and d = d, folded key_def] assms(8)
    by (simp add: e_def)
  have 2: "trackConnection t2 (hdr @ putShort (s - 1) @ putShort (d + 31) @ ys) len2 True
        (n\<lparr>nat_connectionTable := [key \<mapsto> e]\<rparr>)
      = Some (n\<lparr>nat_connectionTable := [key \<mapsto> e\<lparr>c_lastSeen := t2, c_bytesOut := of_nat len1 + of_nat len2\<rparr>]\<rparr>)"
    using trackConnection_cases [OF assms(1-3,7) h, where s = "s - 1" and d = "d + 31", unfolded key]
    by (simp add: e_def)
  show ?thesis by (intro exI conjI, rule 1, rule 2) (simp_all add: e_def)
qed

definition sample_nat :: NatEngine where
  "sample_nat = \<lparr>nat_ttlFixEnabled = True, nat_bytesForwarded = 0, nat_packetsForwarded = 0,
     nat_connectionTable = Map.empty\<rparr>"

definition sample_header :: "u8 list" where
  "sample_header = [0x45, 0, 0, 24, 0, 0, 0, 0, 64, 6, 0, 0, 10, 0, 0, 1, 10, 0, 0, 2]"

lemma nat_connections_collide_witness:
  "\<exists>n1 k e. trackConnection 0 (sample_header @ putShort 5000 @ putShort 80 @ []) 24 True sample_nat = Some n1
    \<and> trackConnection 1 (sample_header @ putShort 4999 @ putShort 111 @ []) 24 True n1
        = Some (sample_nat\<lparr>nat_connectionTable := [k \<mapsto> e]\<rparr>)
    \<and> c_srcPort e = 5000 \<and> c_bytesOut e = 48"
proof -
  have "length sample_header = 20" "sample_header ! 0 AND 0xf = 5" "sample_header ! 9 = 6 \<or> sample_header ! 9 = 17"
    by (simp_all add: sample_header_def)
  moreover have "nat_connectionTable sample_nat = Map.empty" by (simp add: sample_nat_def)
  ultimately show ?thesis
    using nat_connections_collide [of sample_header 5000 80 24 24 sample_nat 0 "[]" 1 "[]"] by (simp, blast)
qed

section \<open>The header checksum of the L3 bridge\<close>

lemma fold_carries_ocsum: "fold_carries S = ocsum S"
proof (induction S rule: fold_carries.induct)
  case (1 S)
  show ?case
  proof (cases "S div 65536 = 0")
    case True
    then have "fold_carries S = S" by (subst fold_carries.simps) simp
    moreover have "S \<le> 65535" using True by (simp add: div_eq_0_iff)
    ultimately show ?thesis using rep_unique [OF rep_refl, of S] by simp
  next
    case False
    then have "fold_carries S = ocsum (S mod 65536 + S div 65536)"
      using 1 by (subst fold_carries.simps) simp
    also have "\<dots> = ocsum S"
      by (rule ocsum_rep) (use rep_fold [of S] in \<open>simp add: add.commute\<close>)
    finally show ?thesis .
  qed
qed

lemma header_sum_correct:
  assumes "2 * k \<le> length pkt"
  shows "header_sum pkt (map (\<lambda>k. 2 * k) [0..<k]) a = Some (a + be_sum (take (2 * k) pkt))"
  using assms
proof (induction k)
  case (Suc k)
  have snoc: "header_sum pkt (is @ [i]) a = Option.bind (header_sum pkt is a) (header_sum pkt [i])" for "is" i a
    by (induction "is" arbitrary: a) (auto simp: bind_assoc split: bind_splits)
  have i: "2 * k < length pkt" "2 * k + 1 < length pkt" using Suc.prems by auto
  have "take (2 * Suc k) pkt = take (2 * k) pkt @ [pkt ! (2 * k), pkt ! (2 * k + 1)]"
    using i by (simp add: take_Suc_conv_app_nth)
  then have "be_sum (take (2 * Suc k) pkt) = be_sum (take (2 * k) pkt) + (256 * unat (pkt ! (2 * k)) + unat (pkt ! (2 * k + 1)))"
    using i by (simp add: be_sum_append min_absorb2)
  moreover have "header_sum pkt [2 * k] b = Some (b + (256 * unat (pkt ! (2 * k)) + unat (pkt ! (2 * k + 1))))" for b
    using i by (simp add: ubyte_Some unat_two_bytes)
  ultimately show ?case using Suc by (simp add: snoc)
qed simp


text \<open>The header with its checksum field filled in.\<close>

lemma fixIpChecksum_writes:
  assumes "12 \<le> h" "h \<le> length pkt" "h = unat (pkt ! 0 AND 0xf) * 4"
  defines "z \<equiv> pkt[10 := 0, 11 := 0]"
  defines "c \<equiv> 65535 - int (ocsum (be_sum (take h z)))"
  shows "fixIpChecksum pkt = Some (pkt[10 := word_of_int (c div 256), 11 := word_of_int (c mod 256)])"
proof -
  have h: "h = 2 * (h div 2)" using assms(3) by simp
  have len: "length z = length pkt" by (simp add: z_def)
  have sum: "header_sum z (map (\<lambda>k. 2 * k) [0..<h div 2]) 0 = Some (be_sum (take h z))"
    using header_sum_correct [of "h div 2" z 0] h assms(2) len by simp
  have c: "0 \<le> c" "c \<le> 65535" using ocsum_le [of "be_sum (take h z)"] by (auto simp: c_def)
  have ck: "(NOT (of_nat (ocsum S)) AND 0xffff :: u32) = word_of_int (65535 - int (ocsum S))" for S
  proof -
    have t: "take_bit 16 (of_nat (ocsum S) :: u32) = of_nat (ocsum S)"
      using ocsum_le [of S] by (intro word_unatI) (simp add: unat_take_bit unat_of_nat)
    have "(NOT (of_nat (ocsum S)) AND 0xffff :: u32) = take_bit 16 (NOT (of_nat (ocsum S)))"
      by (simp add: take_bit_eq_mask mask_eq_exp_minus_1)
    also have "\<dots> = mask 16 - of_nat (ocsum S)" by (simp only: take_bit_not_eq_mask_diff t)
    finally show ?thesis by (simp add: mask_eq_exp_minus_1)
  qed
  have u: "pkt[10 := 0, 11 := 0, 10 := x, 11 := y] = pkt[10 := x, 11 := y]" for x y
    by (metis list_update_overwrite list_update_swap numeral_eq_iff semiring_norm(88,89))
  define w where "w = (NOT (of_nat (ocsum (be_sum (take h z)))) AND 0xffff :: u32)"
  have w: "ucast (ishr w 8 AND 0xff) = (word_of_int (c div 256) :: u8)" "ucast (w AND 0xff) = (word_of_int (c mod 256) :: u8)"
    using checksum_bytes [OF c] by (simp_all only: w_def ck c_def)
  have l: "0 < length pkt" "10 < length pkt" "11 < length pkt" using assms(1,2) by linarith+
  have "fixIpChecksum pkt = Option.bind (header_sum z (map (\<lambda>k. 2 * k) [0..<h div 2]) 0) (\<lambda>acc.
      let checksum = (NOT (of_nat (fold_carries acc)) AND 0xffff :: u32) in
      Option.bind (aput z 10 (ucast (ishr checksum 8 AND 0xff))) (\<lambda>pkt.
        aput pkt 11 (ucast (checksum AND 0xff))))"
    unfolding fixIpChecksum_def z_def using l by (simp add: aget_Some aput_Some Let_def assms(3))
  also have "\<dots> = Some (z[10 := word_of_int (c div 256), 11 := word_of_int (c mod 256)])"
    using l len by (simp add: sum Let_def fold_carries_ocsum w_def [symmetric] w aput_Some)
  finally show ?thesis by (simp only: z_def u)
qed

lemma header_sum_None:
  assumes "length pkt < 2 * k"
  shows "header_sum pkt (map (\<lambda>k. 2 * k) [0..<k]) a = None"
proof -
  have bad: "header_sum pkt is a = None" if "i \<in> set is" "length pkt \<le> i + 1" for "is" a i
    using that
  proof (induction "is" arbitrary: a)
    case (Cons j js)
    then show ?case
      by (cases "j = i") (auto simp: ubyte_def aget_def split: bind_splits)
  qed simp
  have "2 * (k - 1) \<in> set (map (\<lambda>k. 2 * k) [0..<k])" "length pkt \<le> 2 * (k - 1) + 1"
    using assms by auto
  then show ?thesis by (rule bad)
qed

lemma fixIpChecksum_None:
  assumes "12 \<le> length pkt" "length pkt < unat (pkt ! 0 AND 0xf) * 4"
  shows "fixIpChecksum pkt = None"
proof -
  have "0 < length pkt" "10 < length pkt" "11 < length pkt" using assms(1) by linarith+
  then show ?thesis
    using header_sum_None [of "pkt[10 := 0, 11 := 0]" "unat (pkt ! 0 AND 0xf) * 4 div 2" 0] assms(2)
    by (simp add: fixIpChecksum_def aget_Some aput_Some Let_def)
qed

lemma fixIpChecksum_ok:
  assumes "12 \<le> h" "h \<le> length pkt" "h = unat (pkt ! 0 AND 0xf) * 4"
  shows "\<exists>q. fixIpChecksum pkt = Some q \<and> length q = length pkt
    \<and> (\<forall>i. i \<noteq> 10 \<and> i \<noteq> 11 \<longrightarrow> q ! i = pkt ! i) \<and> sum_ok (be_sum (take h q))"
proof -
  define z where "z = pkt[10 := 0, 11 := 0]"
  define S where "S = be_sum (take h z)"
  define c where "c = 65535 - int (ocsum S)"
  define q where "q = pkt[10 := word_of_int (c div 256), 11 := word_of_int (c mod 256)]"
  have c: "0 \<le> c" "c \<le> 65535" using ocsum_le [of S] by (auto simp: c_def)
  have "q = z[10 := word_of_int (c div 256), 11 := word_of_int (c mod 256)]"
    by (simp add: q_def z_def list_update_swap [of 11 10])
  then have "take h q = (take h z)[10 := word_of_int (c div 256), 11 := word_of_int (c mod 256)]"
    by (simp add: take_update_swap)
  then have "int (be_sum (take h q)) = int S + c"
    using assms(1,2) div_mult_mod_eq [of c 256]
    by (simp add: be_sum_update uint_checksum_bytes [OF c] S_def z_def)
  then have "be_sum (take h q) = S + (65535 - ocsum S)" using ocsum_le [of S] by (simp add: c_def)
  then have "sum_ok (be_sum (take h q))" by (simp only: checksum_verifies)
  moreover have "fixIpChecksum pkt = Some q"
    using fixIpChecksum_writes [OF assms] by (simp add: q_def c_def S_def z_def)
  ultimately show ?thesis by (auto simp: q_def)
qed

text \<open>The packet of a tethered client before its header checksum is set.\<close>

definition natted :: "TetherL3Bridge \<Rightarrow> u8 list \<Rightarrow> nat \<Rightarrow> u8 list" where
  "natted b packet len = mem_write (take len packet) 12 (b_localZtIp b)"

definition bridge_frame :: "TetherL3Bridge \<Rightarrow> u8 list \<Rightarrow> Frame" where
  "bridge_frame b pkt = \<lparr>f_networkId = b_networkId b, f_srcMac = b_localMac b, f_dstMac = b_gatewayMac b,
     f_etherType = 0x0800, f_data = pkt\<rparr>"

lemma l3_outbound:
  assumes "b_active b" "b_node b" "length (b_localZtIp b) = 4" "20 \<le> len" "len \<le> length packet"
    "isInTetherSubnet b packet 12 = Some True"
  shows "l3_processOutbound node b packet len =
    map_option (\<lambda>pkt. (node (bridge_frame b pkt) \<noteq> None, [bridge_frame b pkt])) (fixIpChecksum (natted b packet len))"
proof -
  have "arraycopy packet 0 (replicate len 0) 0 len = Some (take len packet)"
    using assms(5) by (simp add: arraycopy_def mem_write_def)
  moreover have "arraycopy (b_localZtIp b) 0 (take len packet) 12 4 = Some (natted b packet len)"
    using assms(3-5) by (simp add: arraycopy_def natted_def)
  ultimately show ?thesis
    using assms(1,2,4,6)
    by (cases "fixIpChecksum (natted b packet len)") (simp_all add: l3_processOutbound_def bridge_frame_def Let_def)
qed

lemma natted_simps:
  assumes "length (b_localZtIp b) = 4" "20 \<le> len" "len \<le> length packet"
  shows "length (natted b packet len) = len" "take 4 (drop 12 (natted b packet len)) = b_localZtIp b"
    "i < len \<Longrightarrow> i < 12 \<or> 16 \<le> i \<Longrightarrow> natted b packet len ! i = packet ! i"
  using assms by (auto simp: natted_def mem_write_def nth_append)

lemma bridged_packet:
  assumes "length (b_localZtIp b) = 4" "20 \<le> len" "len \<le> length packet"
    "h = unat (packet ! 0 AND 0xf) * 4" "20 \<le> h" "h \<le> len"
  obtains q where "fixIpChecksum (natted b packet len) = Some q" "length q = len"
    "take 4 (drop 12 q) = b_localZtIp b" "sum_ok (be_sum (take h q))"
    "\<And>i. i < len \<Longrightarrow> i < 10 \<or> 16 \<le> i \<Longrightarrow> q ! i = packet ! i"
proof -
  note n = natted_simps [OF assms(1-3)]
  have "natted b packet len ! 0 = packet ! 0" using n(3) [of 0] assms(2) by simp
  then obtain q where q: "fixIpChecksum (natted b packet len) = Some q" "length q = len"
      "\<And>i. i \<noteq> 10 \<and> i \<noteq> 11 \<Longrightarrow> q ! i = natted b packet len ! i" "sum_ok (be_sum (take h q))"
    using fixIpChecksum_ok [of h "natted b packet len"] assms n(1) by auto
  have "take 4 (drop 12 q) = take 4 (drop 12 (natted b packet len))"
    using q(2,3) n(1) assms(2) by (intro nth_equalityI) auto
  then have src: "take 4 (drop 12 q) = b_localZtIp b" by (simp only: n(2))
  have "q ! i = packet ! i" if "i < len" "i < 10 \<or> 16 \<le> i" for i
    using that q(3) [of i] n(3) [of i] by auto
  from that [OF q(1,2) src q(4) this] show ?thesis .
qed

text \<open>
  C23. A packet of a tethered client is sent to the gateway with the phone's address as its source
  and a right header checksum, and is otherwise unchanged; a header that claims to be longer than
  the packet makes the bridge throw.
\<close>

theorem tether_bridge_outbound:
  assumes "b_active b" "b_node b" "length (b_localZtIp b) = 4" "20 \<le> len" "len \<le> length packet"
    "isInTetherSubnet b packet 12 = Some True" "h = unat (packet ! 0 AND 0xf) * 4" "20 \<le> h"
  shows "if h \<le> len
    then \<exists>f. l3_processOutbound node b packet len = Some (node f \<noteq> None, [f])
      \<and> f_srcMac f = b_localMac b \<and> f_dstMac f = b_gatewayMac b \<and> f_etherType f = 0x0800
      \<and> length (f_data f) = len \<and> take 4 (drop 12 (f_data f)) = b_localZtIp b
      \<and> sum_ok (be_sum (take h (f_data f)))
      \<and> (\<forall>i < len. i < 10 \<or> 16 \<le> i \<longrightarrow> f_data f ! i = packet ! i)
    else l3_processOutbound node b packet len = None"
proof (cases "h \<le> len")
  case True
  from bridged_packet [OF assms(3,4,5,7,8) True] obtain q where
      "fixIpChecksum (natted b packet len) = Some q" "length q = len"
      "take 4 (drop 12 q) = b_localZtIp b" "sum_ok (be_sum (take h q))"
      "\<And>i. i < len \<Longrightarrow> i < 10 \<or> 16 \<le> i \<Longrightarrow> q ! i = packet ! i" by blast
  then show ?thesis
    using True l3_outbound [OF assms(1-6), of node]
    by (auto simp: bridge_frame_def intro!: exI [of _ "bridge_frame b q"])
next
  case False
  note n = natted_simps [OF assms(3-5)]
  have "natted b packet len ! 0 = packet ! 0" using n(3) [of 0] assms(4) by simp
  then have "fixIpChecksum (natted b packet len) = None"
    using False assms(4,7) n(1) by (intro fixIpChecksum_None) auto
  then show ?thesis using False l3_outbound [OF assms(1-6), of node] by simp
qed

definition sample_bridge :: TetherL3Bridge where
  "sample_bridge = \<lparr>b_node = True, b_networkId = 1, b_localMac = 2, b_gatewayMac = 3, b_localZtIp = [10, 147, 17, 5],
     b_tetherSubnet = [192, 168, 42, 0], b_tetherPrefix = 24, b_active = True\<rparr>"

text \<open>A UDP datagram of one byte, with right checksums, from a tethered client.\<close>

definition sample_udp :: "u8 list" where
  "sample_udp = [0x45, 0, 0, 29, 0, 0, 0, 0, 64, 17, 0x86, 0x20, 192, 168, 42, 7, 10, 0, 0, 1,
     0, 53, 0, 53, 0, 9, 0xc9, 0xc1, 0x41]"

lemma sample_tethered: "isInTetherSubnet sample_bridge sample_udp 12 = Some True"
  by code_simp

lemma sample_facts:
  "b_active sample_bridge" "b_node sample_bridge" "length (b_localZtIp sample_bridge) = 4"
  "(20 :: nat) \<le> 29" "29 \<le> length sample_udp" "20 = unat (sample_udp ! 0 AND 0xf) * 4" "(20 :: nat) \<le> 20"
  "(20 :: nat) \<le> 29" "sample_udp ! 9 = 6 \<or> sample_udp ! 9 = 17"
  "be_sum (take 4 (drop 12 sample_udp)) mod 65535 \<noteq> be_sum (b_localZtIp sample_bridge) mod 65535"
  by (simp_all add: sample_bridge_def sample_udp_def)

lemma tether_bridge_outbound_witness:
  "\<exists>f. l3_processOutbound (\<lambda>_. Some 0) sample_bridge sample_udp 29 = Some (True, [f]) \<and> sum_ok (be_sum (take 20 (f_data f)))"
  using tether_bridge_outbound [OF sample_facts(1-5) sample_tethered sample_facts(6,7), of "\<lambda>_. Some 0"] by auto

section \<open>Transport checksums behind the bridge\<close>

text \<open>The sum a receiver takes over the pseudo header and the segment behind a header of \<open>h\<close> bytes.\<close>

definition transport_sum :: "u8 list \<Rightarrow> nat \<Rightarrow> nat" where
  "transport_sum p h = be_sum (take 4 (drop 12 p)) + be_sum (take 4 (drop 16 p)) + unat (p ! 9)
     + (length p - h) + be_sum (drop h p)"

text \<open>
  The bridge does not adjust the checksum of TCP and UDP, which covers the source address: a
  segment whose checksum was right arrives with a right checksum only when the client's address
  and the phone's have the same one's complement sum.
\<close>

lemma tether_bridge_transport:
  assumes "b_active b" "b_node b" "length (b_localZtIp b) = 4" "20 \<le> len" "len \<le> length packet"
    "isInTetherSubnet b packet 12 = Some True" "h = unat (packet ! 0 AND 0xf) * 4" "20 \<le> h" "h \<le> len"
    "packet ! 9 = 6 \<or> packet ! 9 = 17" "sum_ok (transport_sum (take len packet) h)"
  shows "\<exists>f. l3_processOutbound node b packet len = Some (node f \<noteq> None, [f])
    \<and> (sum_ok (transport_sum (f_data f) h)
       \<longleftrightarrow> be_sum (take 4 (drop 12 packet)) mod 65535 = be_sum (b_localZtIp b) mod 65535)"
proof -
  from bridged_packet [OF assms(3,4,5,7,8,9)] obtain q where
      q: "fixIpChecksum (natted b packet len) = Some q" "length q = len"
      "take 4 (drop 12 q) = b_localZtIp b" "sum_ok (be_sum (take h q))"
      "\<And>i. i < len \<Longrightarrow> i < 10 \<or> 16 \<le> i \<Longrightarrow> q ! i = packet ! i" by blast
  let ?p = "take len packet"
  have same: "q ! 9 = ?p ! 9" "take 4 (drop 16 q) = take 4 (drop 16 ?p)" "drop h q = drop h ?p"
    using q(2,5) assms(4,5,8,9) by (auto intro!: nth_equalityI)
  have src: "take 4 (drop 12 ?p) = take 4 (drop 12 packet)" using assms(4) by (simp add: take_drop min_def)
  define R where "R = be_sum (take 4 (drop 16 ?p)) + unat (?p ! 9) + (len - h) + be_sum (drop h ?p)"
  have old: "transport_sum ?p h = be_sum (take 4 (drop 12 packet)) + R"
    using assms(5) by (simp add: transport_sum_def src R_def min_def)
  have new: "transport_sum q h = be_sum (b_localZtIp b) + R"
    using q(2,3) same by (simp add: transport_sum_def R_def)
  have "0 < R" using assms(4,10) by (auto simp: R_def)
  then have "sum_ok (transport_sum q h) \<longleftrightarrow> 65535 dvd be_sum (b_localZtIp b) + R"
    by (simp add: sum_ok_iff new)
  moreover have "65535 dvd be_sum (take 4 (drop 12 packet)) + R" using assms(11) by (simp add: sum_ok_iff old)
  ultimately have "sum_ok (transport_sum q h) \<longleftrightarrow>
      be_sum (take 4 (drop 12 packet)) mod 65535 = be_sum (b_localZtIp b) mod 65535"
    by (simp only: dvd_shift_iff)
  then show ?thesis
    using q(1) l3_outbound [OF assms(1-6), of node]
    by (auto simp: bridge_frame_def intro!: exI [of _ "bridge_frame b q"])
qed

lemma tether_bridge_transport_witness:
  "\<exists>f. l3_processOutbound (\<lambda>_. Some 0) sample_bridge sample_udp 29 = Some (True, [f])
     \<and> \<not> sum_ok (transport_sum (f_data f) 20)"
proof -
  have "sum_ok (transport_sum (take 29 sample_udp) 20)"
    by (simp add: sum_ok_iff transport_sum_def sample_udp_def)
  from tether_bridge_transport [OF sample_facts(1-5) sample_tethered sample_facts(6-9) this, of "\<lambda>_. Some 0"]
  show ?thesis using sample_facts(10) by auto
qed

end
