(* ===== verification/Tun_Tap.thy ===== *)
theory Tun_Tap
  imports Nat_Engine
begin

text \<open>
  \<^verbatim>\<open>TunTapAdapter.java\<close>: packets of the TUN device go out as Ethernet frames of a ZeroTier
  network, and frames come in. Calls into the node and the service, and writes to the device, are
  the events of a trace. What a handler reads from outside is in the environment: the clock, the
  node's answer to a frame (the next deadline when it accepts it), and the configuration of the
  network as the service and the node give it. Log output and timing counters are left out.
\<close>

record Config =
  cfg_mac :: u64
  cfg_assigned :: "(InetAddress \<times> int) list"

record Env =
  env_now :: int
  env_node :: "Frame \<Rightarrow> int option"
  env_config :: "Config option"
  env_nodeConfig :: "u64 \<Rightarrow> Config option"
  env_tethers :: "TetherInterface list"

datatype tevent =
    T_Frame Frame
  | T_Deadline int
  | T_Subscribe u64 u64
  | T_Write "u8 list"

text \<open>
  The routes are in the iteration order of their hash map; the neighbour tables are \<^verbatim>\<open>null\<close>
  after the receive thread has ended.
\<close>

record Adapter =
  ta_networkId :: u64
  ta_routeMap :: "(Route \<times> u64) list"
  ta_arp :: "ARPTable option"
  ta_ndp :: "NTable option"
  ta_bridge :: "TetherL3Bridge option"
  ta_nat :: "NatEngine option"
  ta_vpnSocket :: bool
  ta_streams :: bool
  ta_nativeTxActive :: bool
  ta_cachedConfig :: "Config option"
  ta_cachedConfigNetworkId :: u64
  ta_cachedLocalMac :: u64
  ta_cachedLocalV4 :: "InetAddress option"
  ta_cachedCidr :: int
  ta_cachedDestIpRaw :: u32
  ta_cachedDestMac :: u64
  ta_cachedDestValid :: bool
  ta_events :: "tevent list"

abbreviation ARP_PACKET :: nat where
  "ARP_PACKET \<equiv> 2054"

abbreviation IPV4_PACKET :: nat where
  "IPV4_PACKET \<equiv> 2048"

abbreviation IPV6_PACKET :: nat where
  "IPV6_PACKET \<equiv> 34525"

definition tell :: "tevent \<Rightarrow> Adapter \<Rightarrow> Adapter" where
  "tell e a = a\<lparr>ta_events := ta_events a @ [e]\<rparr>"

text \<open>\<^verbatim>\<open>processVirtualNetworkFrame\<close>, and the deadline it gives when it accepts the frame.\<close>

definition send :: "Env \<Rightarrow> u64 \<Rightarrow> u64 \<Rightarrow> u64 \<Rightarrow> nat \<Rightarrow> u8 list \<Rightarrow> Adapter \<Rightarrow> Adapter" where
  "send env nwid srcMac dstMac etherType pkt a =
     (let f = \<lparr>f_networkId = nwid, f_srcMac = srcMac, f_dstMac = dstMac, f_etherType = etherType, f_data = pkt\<rparr>;
          a = tell (T_Frame f) a
      in case env_node env f of None \<Rightarrow> a | Some deadline \<Rightarrow> tell (T_Deadline deadline) a)"

section \<open>Addresses and routes\<close>

definition multicastAddressToMAC :: "InetAddress \<Rightarrow> u64 option" where
  "multicastAddressToMAC inetAddress =
     (case inetAddress of
        Inet4Address address \<Rightarrow>
          do { b1 \<leftarrow> aget address 1; b2 \<leftarrow> aget address 2; b3 \<leftarrow> aget address 3;
               getLong [0, 0, 1, 0, 94, b1 AND 127, b2, b3] }
      | Inet6Address address2 \<Rightarrow>
          do { b12 \<leftarrow> aget address2 12; b13 \<leftarrow> aget address2 13; b14 \<leftarrow> aget address2 14; b15 \<leftarrow> aget address2 15;
               getLong [0, 0, 51, 51, b12, b13, b14, b15] })"

definition isIPv4Multicast :: "InetAddress \<Rightarrow> bool option" where
  "isIPv4Multicast inetAddress = do { b \<leftarrow> aget (getAddress inetAddress) 0; Some (b AND 0xf0 = 224) }"

definition isIPv6Multicast :: "InetAddress \<Rightarrow> bool option" where
  "isIPv6Multicast inetAddress = do { b \<leftarrow> aget (getAddress inetAddress) 0; Some (b AND 0xff = 0xff) }"

definition setNode :: "Adapter \<Rightarrow> Adapter option" where
  "setNode a =
     do { m \<leftarrow> multicastAddressToMAC (Inet4Address [224, 224, 224, 224]);
          Some (tell (T_Subscribe (ta_networkId a) m) a) }"

text \<open>\<^verbatim>\<open>HashMap.put\<close>: an equal key keeps its place; \<^verbatim>\<open>Route\<close> compares all its fields.\<close>

definition addRouteAndNetwork :: "Route \<Rightarrow> u64 \<Rightarrow> Adapter \<Rightarrow> Adapter" where
  "addRouteAndNetwork route nwid a =
     a\<lparr>ta_routeMap := (if route \<in> fst ` set (ta_routeMap a)
        then map (\<lambda>(r, n). if r = route then (r, nwid) else (r, n)) (ta_routeMap a)
        else ta_routeMap a @ [(route, nwid)])\<rparr>"

definition clearRouteMap :: "Adapter \<Rightarrow> Adapter" where
  "clearRouteMap a = a\<lparr>ta_routeMap := []\<rparr>"

fun best_route :: "InetAddress \<Rightarrow> Route list \<Rightarrow> Route option \<Rightarrow> Route option option" where
  "best_route destAddress [] best = Some best"
| "best_route destAddress (route # routes) best =
     do { b \<leftarrow> belongsToRoute route destAddress;
          best_route destAddress routes
            (if b then (case best of
                          None \<Rightarrow> Some route
                        | Some best \<Rightarrow> if r_prefix route > r_prefix best then Some route else Some best)
             else best) }"

definition routeForDestination :: "InetAddress \<Rightarrow> Adapter \<Rightarrow> Route option option" where
  "routeForDestination destAddress a = best_route destAddress (map fst (ta_routeMap a)) None"

fun first_route :: "InetAddress \<Rightarrow> (Route \<times> u64) list \<Rightarrow> u64 option" where
  "first_route destAddress [] = Some 0"
| "first_route destAddress ((route, nwid) # routes) =
     do { b \<leftarrow> belongsToRoute route destAddress;
          if b then Some nwid else first_route destAddress routes }"

definition networkIdForDestination :: "InetAddress \<Rightarrow> Adapter \<Rightarrow> u64 option" where
  "networkIdForDestination destAddress a = first_route destAddress (ta_routeMap a)"

text \<open>The first assigned address of a family, with its prefix length.\<close>

fun first_v4 :: "(InetAddress \<times> int) list \<Rightarrow> (InetAddress \<times> int) option" where
  "first_v4 [] = None"
| "first_v4 (x # xs) = (if is_inet4 (fst x) then Some x else first_v4 xs)"

fun first_v6 :: "(InetAddress \<times> int) list \<Rightarrow> (InetAddress \<times> int) option" where
  "first_v6 [] = None"
| "first_v6 (x # xs) = (if \<not> is_inet4 (fst x) then Some x else first_v6 xs)"

section \<open>IPv4 packets from the device\<close>

text \<open>The next hop: the gateway of the route unless source and destination share the prefix.\<close>

definition next_hop ::
    "Route option \<Rightarrow> InetAddress \<Rightarrow> InetAddress \<Rightarrow> int \<Rightarrow> InetAddress option" where
  "next_hop route sourceIP destIP cidr =
     do { destRoute \<leftarrow> addressToRouteNo0Route destIP cidr;
          sourceRoute \<leftarrow> addressToRouteNo0Route sourceIP cidr;
          Some (case Option.bind route r_gateway of
                  None \<Rightarrow> destIP
                | Some gateway \<Rightarrow> if destRoute \<noteq> sourceRoute then gateway else destIP) }"

definition send_arp_request ::
    "Env \<Rightarrow> u64 \<Rightarrow> InetAddress \<Rightarrow> InetAddress \<Rightarrow> Adapter \<Rightarrow> Adapter option" where
  "send_arp_request env localMac localV4Address destIP a =
     do { packetData \<leftarrow> getRequestPacket localMac localV4Address destIP;
          Some (send env (ta_networkId a) localMac BROADCAST_MAC_ADDRESS ARP_PACKET packetData a) }"

definition handleIPv4PacketArp :: "Env \<Rightarrow> InetAddress \<Rightarrow> Adapter \<Rightarrow> Adapter option" where
  "handleIPv4PacketArp env destIP a =
     do { localV4 \<leftarrow> ta_cachedLocalV4 a;
          send_arp_request env (ta_cachedLocalMac a) localV4 destIP a }"

text \<open>The general path, for a packet in an array of its own length.\<close>

definition handleIPv4Packet :: "Env \<Rightarrow> u8 list \<Rightarrow> Adapter \<Rightarrow> Adapter option" where
  "handleIPv4Packet env packetData a =
     do { destIP \<leftarrow> getDestIP packetData;
          sourceIP \<leftarrow> getSourceIP packetData;
          case (env_config env, destIP, sourceIP) of
            (Some cfg, Some destIP, Some sourceIP) \<Rightarrow>
              do { isMulticast \<leftarrow> isIPv4Multicast destIP;
                   a \<leftarrow> (if isMulticast then
                          do { m \<leftarrow> multicastAddressToMAC destIP;
                               Some (tell (T_Subscribe (ta_networkId a) m) a) }
                        else Some a);
                   route \<leftarrow> routeForDestination destIP a;
                   let v4 = first_v4 (cfg_assigned cfg);
                   let cidr = (case v4 of None \<Rightarrow> 0 | Some (_, c) \<Rightarrow> c);
                   destIP \<leftarrow> next_hop route sourceIP destIP cidr;
                   case v4 of
                     None \<Rightarrow> Some a
                   | Some (localV4Address, _) \<Rightarrow>
                       do { known \<leftarrow> (if isMulticast then Some True
                                      else map_option (arp_hasMacForAddress destIP) (ta_arp a));
                            if known then
                              do { multi \<leftarrow> isIPv4Multicast destIP;
                                   if multi then
                                     do { destMac \<leftarrow> multicastAddressToMAC destIP;
                                          Some (send env (ta_networkId a) (cfg_mac cfg) destMac IPV4_PACKET packetData a) }
                                   else
                                     do { arp \<leftarrow> ta_arp a;
                                          let (destMac, arp) = arp_getMacForAddress (env_now env) destIP arp;
                                          Some (send env (ta_networkId a) (cfg_mac cfg) destMac IPV4_PACKET packetData
                                                 (a\<lparr>ta_arp := Some arp\<rparr>)) } }
                            else send_arp_request env (cfg_mac cfg) localV4Address destIP a } }
          | _ \<Rightarrow> Some a }"

text \<open>The cached configuration; \<open>None\<close> when there is none yet and the packet is dropped.\<close>

definition cache_config :: "Env \<Rightarrow> Adapter \<Rightarrow> Adapter option" where
  "cache_config env a =
     (if ta_cachedConfig a = None \<or> ta_cachedConfigNetworkId a \<noteq> ta_networkId a then
        (case env_config env of
           None \<Rightarrow> None
         | Some cfg \<Rightarrow>
             let a = a\<lparr>ta_cachedConfig := Some cfg, ta_cachedConfigNetworkId := ta_networkId a,
                       ta_cachedLocalMac := cfg_mac cfg\<rparr>
             in Some (case first_v4 (cfg_assigned cfg) of
                        None \<Rightarrow> a
                      | Some (v4, cidr) \<Rightarrow> a\<lparr>ta_cachedLocalV4 := Some v4, ta_cachedCidr := cidr\<rparr>))
      else Some a)"

text \<open>The lookup after a miss of the destination cache.\<close>

definition lookup_and_send :: "Env \<Rightarrow> u8 list \<Rightarrow> nat \<Rightarrow> u32 \<Rightarrow> InetAddress \<Rightarrow> Adapter \<Rightarrow> Adapter option" where
  "lookup_and_send env buffer len destIpRaw destIP a =
     do { arp \<leftarrow> ta_arp a;
          if arp_hasMacForAddress destIP arp then
            let (destMac, arp) = arp_getMacForAddress (env_now env) destIP arp;
                a = a\<lparr>ta_arp := Some arp, ta_cachedDestIpRaw := destIpRaw, ta_cachedDestMac := destMac,
                      ta_cachedDestValid := True\<rparr>
            in Some (send env (ta_networkId a) (ta_cachedLocalMac a) destMac IPV4_PACKET (copyOf buffer len) a)
          else handleIPv4PacketArp env destIP a }"

definition unicast_ipv4 :: "Env \<Rightarrow> u8 list \<Rightarrow> nat \<Rightarrow> Adapter \<Rightarrow> Adapter option" where
  "unicast_ipv4 env buffer len a =
     do { destIpRaw \<leftarrow> getInt (drop 16 buffer);
          if ta_cachedDestValid a \<and> destIpRaw = ta_cachedDestIpRaw a then
            Some (send env (ta_networkId a) (ta_cachedLocalMac a) (ta_cachedDestMac a) IPV4_PACKET
                   (copyOf buffer len) a)
          else do {
            ipBuf4 \<leftarrow> arraycopy buffer 16 (replicate 4 0) 0 4;
            case getByAddress ipBuf4 of
              None \<Rightarrow> Some a
            | Some destIP \<Rightarrow>
                do { route \<leftarrow> routeForDestination destIP a;
                     case Option.bind route r_gateway of
                       Some gateway \<Rightarrow>
                         do { ipBuf4 \<leftarrow> arraycopy buffer 12 (replicate 4 0) 0 4;
                              case getByAddress ipBuf4 of
                                None \<Rightarrow> Some a
                              | Some sourceIP \<Rightarrow>
                                  do { destIP \<leftarrow> next_hop route sourceIP destIP (ta_cachedCidr a);
                                       lookup_and_send env buffer len destIpRaw destIP a } }
                     | None \<Rightarrow>
                         if route = None then Some a
                         else lookup_and_send env buffer len destIpRaw destIP a } } }"

text \<open>
  The fast path, for a packet of the first \<open>len\<close> bytes of a buffer; the NAT engine changes the
  buffer.
\<close>

definition handleIPv4Packet_fast :: "Env \<Rightarrow> u8 list \<Rightarrow> nat \<Rightarrow> Adapter \<Rightarrow> (u8 list \<times> Adapter) option" where
  "handleIPv4Packet_fast env buffer len a =
     do { (handled, a) \<leftarrow>
            (case ta_bridge a of
               None \<Rightarrow> Some (False, a)
             | Some b \<Rightarrow>
                 if b_active b then
                   do { (r, fs) \<leftarrow> l3_processOutbound (env_node env) b buffer len;
                        Some (r, fold (\<lambda>f. tell (T_Frame f)) fs a) }
                 else Some (False, a));
          if handled then Some (buffer, a)
          else do {
            (buffer, a) \<leftarrow>
              (case ta_nat a of
                 None \<Rightarrow> Some (buffer, a)
               | Some n \<Rightarrow>
                   do { (_, buffer, n) \<leftarrow> nat_processOutbound (env_tethers env) (env_now env) buffer len n;
                        Some (buffer, a\<lparr>ta_nat := Some n\<rparr>) });
            case cache_config env a of
              None \<Rightarrow> Some (buffer, a)
            | Some a \<Rightarrow>
                if ta_cachedLocalV4 a = None then Some (buffer, a)
                else do {
                  b16 \<leftarrow> aget buffer 16;
                  a \<leftarrow> (if b16 AND 0xf0 = 0xe0 then handleIPv4Packet env (copyOf buffer len) a
                       else unicast_ipv4 env buffer len a);
                  Some (buffer, a) } } }"

section \<open>IPv6 packets from the device\<close>

definition icmp6_type :: "u8 \<Rightarrow> u8 list \<Rightarrow> bool option" where
  "icmp6_type t packetData =
     do { b6 \<leftarrow> aget packetData 6;
          if b6 = 58 then do { b40 \<leftarrow> aget packetData 40; Some (b40 = t) } else Some False }"

definition isNeighborSolicitation :: "u8 list \<Rightarrow> bool option" where
  "isNeighborSolicitation packetData = icmp6_type (- 121) packetData"

definition isNeighborAdvertisement :: "u8 list \<Rightarrow> bool option" where
  "isNeighborAdvertisement packetData = icmp6_type (- 120) packetData"

text \<open>The MAC of a neighbour, when the table has it.\<close>

definition ndp_lookup :: "Env \<Rightarrow> InetAddress \<Rightarrow> Adapter \<Rightarrow> (u64 option \<times> Adapter) option" where
  "ndp_lookup env destIP a =
     do { ndp \<leftarrow> ta_ndp a;
          if hasMacForAddress destIP ndp then
            let (m, ndp) = getMacForAddress (env_now env) destIP ndp in Some (Some m, a\<lparr>ta_ndp := Some ndp\<rparr>)
          else Some (None, a) }"

text \<open>The destination MAC of an IPv6 packet, 0 when unknown, and whether to solicit the neighbour.\<close>

definition ipv6_dest :: "Env \<Rightarrow> u8 list \<Rightarrow> InetAddress \<Rightarrow> Adapter \<Rightarrow> (u64 \<times> bool \<times> Adapter) option" where
  "ipv6_dest env packetData destIP a =
     do { ns \<leftarrow> isNeighborSolicitation packetData;
          if ns then
            do { (m, a) \<leftarrow> ndp_lookup env destIP a;
                 case m of
                   Some m \<Rightarrow> Some (m, False, a)
                 | None \<Rightarrow> do { m \<leftarrow> ipv6ToMulticastAddress destIP; Some (m, False, a) } }
          else do {
            multi \<leftarrow> isIPv6Multicast destIP;
            if multi then do { m \<leftarrow> multicastAddressToMAC destIP; Some (m, False, a) }
            else do {
              na \<leftarrow> isNeighborAdvertisement packetData;
              (m, a) \<leftarrow> ndp_lookup env destIP a;
              Some (case m of None \<Rightarrow> (0, True, a) | Some m \<Rightarrow> (m, na, a)) } } }"

definition handleIPv6Packet :: "Env \<Rightarrow> u8 list \<Rightarrow> Adapter \<Rightarrow> Adapter option" where
  "handleIPv6Packet env packetData a =
     do { destIP \<leftarrow> getDestIP packetData;
          sourceIP \<leftarrow> getSourceIP packetData;
          case (env_config env, destIP, sourceIP) of
            (Some cfg, Some destIP, Some sourceIP) \<Rightarrow>
              do { multi \<leftarrow> isIPv6Multicast destIP;
                   a \<leftarrow> (if multi then
                          do { m \<leftarrow> multicastAddressToMAC destIP;
                               Some (tell (T_Subscribe (ta_networkId a) m) a) }
                        else Some a);
                   route \<leftarrow> routeForDestination destIP a;
                   let v6 = first_v6 (cfg_assigned cfg);
                   let cidr = (case v6 of None \<Rightarrow> 0 | Some (_, c) \<Rightarrow> c);
                   destIP \<leftarrow> next_hop route sourceIP destIP cidr;
                   case v6 of
                     None \<Rightarrow> Some a
                   | Some _ \<Rightarrow>
                       do { (destMac, sendNSPacket, a) \<leftarrow> ipv6_dest env packetData destIP a;
                            let a = (if destMac \<noteq> 0
                                     then send env (ta_networkId a) (cfg_mac cfg) destMac IPV6_PACKET packetData a
                                     else a);
                            if sendNSPacket then
                              do { destMac \<leftarrow> (if destMac = 0 then ipv6ToMulticastAddress destIP else Some destMac);
                                   packetData \<leftarrow> getNeighborSolicitationPacket sourceIP destIP (cfg_mac cfg);
                                   Some (send env (ta_networkId a) (cfg_mac cfg) destMac IPV6_PACKET packetData a) }
                            else Some a } }
          | _ \<Rightarrow> Some a }"

section \<open>The receive thread\<close>

text \<open>One packet of \<open>len\<close> bytes in the buffer.\<close>

definition tun_packet :: "Env \<Rightarrow> u8 list \<Rightarrow> nat \<Rightarrow> Adapter \<Rightarrow> (u8 list \<times> Adapter) option" where
  "tun_packet env buffer len a =
     do { b \<leftarrow> aget buffer 0;
          let iPVersion = signed_drop_bit 4 b;
          if iPVersion = 4 then handleIPv4Packet_fast env buffer len a
          else if iPVersion = 6 then
            do { a \<leftarrow> handleIPv6Packet env (copyOf buffer len) a; Some (buffer, a) }
          else Some (buffer, a) }"

text \<open>
  The loop over the reads of the device: the bytes of each read go to the front of the buffer, an
  empty read is ignored, and the thread ends when the reads end or a handler throws. It drops the
  neighbour tables when it ends.
\<close>

fun receive_loop :: "(Env \<times> u8 list) list \<Rightarrow> u8 list \<Rightarrow> Adapter \<Rightarrow> Adapter" where
  "receive_loop [] buffer a = a"
| "receive_loop ((env, bytes) # reads) buffer a =
     (if bytes = [] then receive_loop reads buffer a
      else case tun_packet env (mem_write buffer 0 bytes) (length bytes) a of
             None \<Rightarrow> a
           | Some (buffer, a) \<Rightarrow> receive_loop reads buffer a)"

definition startThreads :: "NTable \<Rightarrow> (Env \<times> u8 list) list \<Rightarrow> Adapter \<Rightarrow> Adapter" where
  "startThreads new_table reads a =
     (if ta_nativeTxActive a then a
      else
        let a = (if ta_ndp a = None then a\<lparr>ta_ndp := Some new_table\<rparr> else a);
            a = (if ta_arp a = None then a\<lparr>ta_arp := Some \<lparr>a_table = new_table, a_nativeArpSet = []\<rparr>\<rparr> else a);
            a = receive_loop reads (replicate 1500 0) a
        in a\<lparr>ta_ndp := None, ta_arp := None\<rparr>)"

section \<open>Frames from the network\<close>

definition receive_arp :: "Env \<Rightarrow> u64 \<Rightarrow> u64 \<Rightarrow> u8 list \<Rightarrow> Adapter \<Rightarrow> Adapter option" where
  "receive_arp env nwid srcMac frameData a =
     do { arp \<leftarrow> ta_arp a;
          (arpReply, arp) \<leftarrow> processARPPacket (env_now env) frameData arp;
          let a = a\<lparr>ta_arp := Some arp\<rparr>;
          case map_option (\<lambda>r. (rd_destMac r, rd_destAddress r)) arpReply of
            Some (dm, Some da) \<Rightarrow>
              if dm = 0 then Some a
              else do {
                cfg \<leftarrow> env_nodeConfig env nwid;
                case first_v4 (cfg_assigned cfg) of
                  None \<Rightarrow> Some a
                | Some (localV4Address, _) \<Rightarrow>
                    do { packetData \<leftarrow> getReplyPacket (cfg_mac cfg) localV4Address dm da;
                         Some (send env nwid (cfg_mac cfg) srcMac ARP_PACKET packetData a) } }
          | _ \<Rightarrow> Some a }"

definition receive_ipv4 :: "Env \<Rightarrow> u64 \<Rightarrow> u8 list \<Rightarrow> Adapter \<Rightarrow> Adapter option" where
  "receive_ipv4 env srcMac frameData a =
     do { sourceIP \<leftarrow> getSourceIP frameData;
          a \<leftarrow> (case sourceIP of
                 None \<Rightarrow> Some a
               | Some sourceIP \<Rightarrow>
                   do { multi \<leftarrow> isIPv4Multicast sourceIP;
                        if multi then
                          do { m \<leftarrow> multicastAddressToMAC sourceIP;
                               Some (tell (T_Subscribe (ta_networkId a) m) a) }
                        else
                          do { arp \<leftarrow> ta_arp a;
                               Some (a\<lparr>ta_arp := Some (arp_setAddress (env_now env) sourceIP srcMac arp)\<rparr>) } });
          Some (tell (T_Write frameData) a) }"

definition receive_ipv6 :: "Env \<Rightarrow> u64 \<Rightarrow> u8 list \<Rightarrow> Adapter \<Rightarrow> Adapter option" where
  "receive_ipv6 env srcMac frameData a =
     do { sourceIP \<leftarrow> getSourceIP frameData;
          a \<leftarrow> (case sourceIP of
                 None \<Rightarrow> Some a
               | Some sourceIP \<Rightarrow>
                   do { multi \<leftarrow> isIPv6Multicast sourceIP;
                        if multi then
                          do { m \<leftarrow> multicastAddressToMAC sourceIP;
                               Some (tell (T_Subscribe (ta_networkId a) m) a) }
                        else
                          do { ndp \<leftarrow> ta_ndp a;
                               Some (a\<lparr>ta_ndp := Some (setAddress (env_now env) sourceIP srcMac ndp)\<rparr>) } });
          Some (tell (T_Write frameData) a) }"

text \<open>An exception of the IPv4 and IPv6 branches is caught and logged; one of the ARP branch is not.\<close>

definition onVirtualNetworkFrame ::
    "Env \<Rightarrow> u64 \<Rightarrow> u64 \<Rightarrow> nat \<Rightarrow> u8 list \<Rightarrow> Adapter \<Rightarrow> Adapter option" where
  "onVirtualNetworkFrame env nwid srcMac etherType frameData a =
     (if \<not> ta_vpnSocket a \<or> \<not> ta_streams a then Some a
      else if etherType = ARP_PACKET then receive_arp env nwid srcMac frameData a
      else if etherType = IPV4_PACKET then
        Some (case receive_ipv4 env srcMac frameData a of None \<Rightarrow> a | Some a \<Rightarrow> a)
      else if etherType = IPV6_PACKET then
        Some (case receive_ipv6 env srcMac frameData a of None \<Rightarrow> a | Some a \<Rightarrow> a)
      else Some a)"

end
