(* ===== verification/Tun_Routes.thy ===== *)
theory Tun_Routes
  imports Tun_Tap
begin

text \<open>The route of a destination is the longest matching prefix.\<close>

definition route_ok :: "Route \<Rightarrow> bool" where
  "route_ok r \<longleftrightarrow> inet_ok (r_address r) \<and> 0 \<le> r_prefix r \<and> prefix_ok (r_address r) (nat (r_prefix r))"

text \<open>A route matches an address of its family that agrees with it on the prefix.\<close>

definition matches :: "Route \<Rightarrow> InetAddress \<Rightarrow> bool" where
  "matches r d \<longleftrightarrow> is_inet4 d = is_inet4 (r_address r)
     \<and> (\<forall>k < 8 * length (getAddress d). addr_bit (getAddress (r_address r)) k
          \<longleftrightarrow> k < nat (r_prefix r) \<and> addr_bit (getAddress d) k)"

lemma getByAddress_family:
  "getByAddress bs = Some a \<Longrightarrow> length bs = 4 \<Longrightarrow> is_inet4 a"
  "getByAddress bs = Some a \<Longrightarrow> length bs = 16 \<Longrightarrow> \<not> v4_mapped bs \<Longrightarrow> \<not> is_inet4 a"
  by (auto simp: getByAddress_def)

lemma v6_not_mapped:
  assumes "length bs = 16" "bs ! 10 = 0"
  shows "\<not> v4_mapped bs"
proof
  assume "v4_mapped bs"
  then have "take 12 bs ! 10 = (replicate 10 0 @ [0xff, 0xff]) ! 10" by (simp add: v4_mapped_def)
  then show False using assms by (simp add: nth_append)
qed

lemma masked_v4_route_of_v6:
  assumes "length (getAddress d) = 16" "0 < c" "c \<le> 32"
  shows "\<exists>x. addressToRouteNo0Route d (int c) = Some (Some x) \<and> \<not> is_inet4 x"
proof -
  define s where "s = 128 - c"
  define b where "b = (of_int (- (2 ^ (s mod 8))) :: u8)"
  define m where "m = replicate (16 - s div 8) b @ replicate (s div 8) 0"
  have s: "12 \<le> s div 8" "s div 8 < 16" using assms(2,3) by (auto simp: s_def)
  have m: "addressToNetmask d (int c) = Some m" "length m = 16"
    using netmask6 [OF assms(1,2)] assms(3) s by (simp_all add: m_def b_def s_def)
  have "\<not> 10 < 16 - s div 8" "10 - (16 - s div 8) < s div 8" using s by linarith+
  then have "m ! 10 = 0" by (simp add: m_def nth_append)
  then have z: "map (\<lambda>i. getAddress d ! i AND m ! i) [0..<16] ! 10 = 0" by simp
  let ?bs = "map (\<lambda>i. getAddress d ! i AND m ! i) [0..<16]"
  have "getByAddress ?bs = Some (Inet6Address ?bs)"
    using v6_not_mapped [of ?bs] z by (simp add: getByAddress_def)
  then show ?thesis using m assms(1) by (simp add: addressToRouteNo0Route_def)
qed

lemma belongs_other_family:
  assumes "inet_ok d" "route_ok r" "is_inet4 d \<noteq> is_inet4 (r_address r)"
  shows "belongsToRoute r d = Some False"
proof -
  have "\<exists>x. addressToRoute d (r_prefix r) = Some (Some x) \<and> is_inet4 x = is_inet4 d"
  proof (cases "is_inet4 d")
    case True
    then have l: "length (getAddress d) = 4" using assms(1) by simp
    have x: "\<exists>x. getByAddress bs = Some x \<and> is_inet4 x" if "length bs = 4" for bs
      using that by (simp add: getByAddress_def)
    have "\<exists>x. addressToRouteNo0Route d p = Some (Some x) \<and> is_inet4 x" for p
      using x l by (simp add: addressToRouteNo0Route_def netmask4)
    then show ?thesis
      using True x [of "replicate 4 0"] by (cases d) (auto simp: addressToRoute_def)
  next
    case False
    then have l: "length (getAddress d) = 16" using assms(1) by simp
    have p: "nat (r_prefix r) \<le> 32" "0 \<le> r_prefix r"
      using assms(2,3) False by (simp_all add: route_ok_def prefix_ok_def)
    show ?thesis
    proof (cases "r_prefix r = 0")
      case True
      have "getByAddress (replicate 16 0) = Some (Inet6Address (replicate 16 0))"
        using v6_not_mapped [of "replicate 16 0"] by (simp add: getByAddress_def)
      then show ?thesis using True False by (cases d) (simp_all add: addressToRoute_def)
    next
      case nz: False
      then show ?thesis
        using masked_v4_route_of_v6 [OF l, of "nat (r_prefix r)"] p False by (simp add: addressToRoute_def)
    qed
  qed
  then show ?thesis using assms(3) by (auto simp: belongsToRoute_def)
qed

lemma belongs_matches: "inet_ok d \<Longrightarrow> route_ok r \<Longrightarrow> belongsToRoute r d = Some (matches r d)"
  using belongs_other_family [of d r] belongsToRoute_bits [of d r "nat (r_prefix r)"]
  by (cases "is_inet4 d = is_inet4 (r_address r)") (auto simp: matches_def route_ok_def prefix_ok_def)

lemma best_route_longest:
  assumes "inet_ok d" "\<forall>r \<in> set rs. route_ok r"
  shows "\<exists>res. best_route d rs best = Some res
    \<and> (res = None \<longleftrightarrow> best = None \<and> (\<forall>r \<in> set rs. \<not> matches r d))
    \<and> (\<forall>r. res = Some r \<longrightarrow> (best = Some r \<or> r \<in> set rs \<and> matches r d)
         \<and> (\<forall>r' \<in> set rs. matches r' d \<longrightarrow> r_prefix r' \<le> r_prefix r)
         \<and> (\<forall>b. best = Some b \<longrightarrow> r_prefix b \<le> r_prefix r))"
  using assms(2)
proof (induction rs arbitrary: best)
  case (Cons r rs)
  let ?best = "if matches r d then (case best of None \<Rightarrow> Some r
      | Some b \<Rightarrow> if r_prefix r > r_prefix b then Some r else Some b) else best"
  have "best_route d (r # rs) best = best_route d rs ?best"
    using belongs_matches [OF assms(1), of r] Cons.prems by simp
  moreover obtain res where "best_route d rs ?best = Some res"
      "res = None \<longleftrightarrow> ?best = None \<and> (\<forall>r \<in> set rs. \<not> matches r d)"
      "\<And>q. res = Some q \<Longrightarrow> (?best = Some q \<or> q \<in> set rs \<and> matches q d)
         \<and> (\<forall>r' \<in> set rs. matches r' d \<longrightarrow> r_prefix r' \<le> r_prefix q)
         \<and> (\<forall>b. ?best = Some b \<longrightarrow> r_prefix b \<le> r_prefix q)"
    using Cons.IH [of ?best] Cons.prems by auto
  ultimately show ?case
    by (cases best) (auto split: if_splits)
qed simp


definition sample_adapter :: Adapter where
  "sample_adapter = \<lparr>ta_networkId = 1,
     ta_routeMap = [(\<lparr>r_address = Inet4Address [10, 0, 0, 0], r_prefix = 8, r_gateway = Some (Inet4Address [10, 147, 17, 1])\<rparr>, 1),
                    (\<lparr>r_address = Inet4Address [10, 147, 0, 0], r_prefix = 16, r_gateway = None\<rparr>, 1)],
     ta_arp = Some \<lparr>a_table = \<lparr>n_entriesMap = Map.empty, n_inetAddressToMacAddress = Map.empty,
       n_ipEntriesMap = Map.empty, n_macAddressToInetAddress = Map.empty,
       n_store = (\<lambda>_. \<lparr>e_mac = 0, e_address = Inet4Address [], e_time = 0\<rparr>), n_next = 0\<rparr>, a_nativeArpSet = []\<rparr>,
     ta_ndp = None, ta_bridge = None, ta_nat = None, ta_vpnSocket = True, ta_streams = True,
     ta_nativeTxActive = False, ta_cachedConfig = None, ta_cachedConfigNetworkId = 0, ta_cachedLocalMac = 0,
     ta_cachedLocalV4 = None, ta_cachedCidr = 0, ta_cachedDestIpRaw = 0, ta_cachedDestMac = 0,
     ta_cachedDestValid = False, ta_events = []\<rparr>"

lemma sample_routes:
  "\<forall>r \<in> fst ` set (ta_routeMap sample_adapter). route_ok r"
  "matches (fst (ta_routeMap sample_adapter ! 1)) (Inet4Address [10, 147, 9, 9])"
proof -
  show "\<forall>r \<in> fst ` set (ta_routeMap sample_adapter). route_ok r"
    by (simp add: sample_adapter_def route_ok_def prefix_ok_def inet_ok_def)
  have "\<forall>k < 32. addr_bit [10, 147, 0, 0] k \<longleftrightarrow> k < 16 \<and> addr_bit [10, 147, 9, 9] k"
    by code_simp
  then show "matches (fst (ta_routeMap sample_adapter ! 1)) (Inet4Address [10, 147, 9, 9])"
    by (simp add: matches_def sample_adapter_def)
qed


end
