(* ===== verification/Tun_Props.thy ===== *)
theory Tun_Props
  imports Tun_Routes Neighbour_Props
begin

text \<open>
  What the handlers of the adapter do together: the destination cache against the ARP table, a
  received frame against a sent packet, the fast path against the general one, and ARP frames.
\<close>

section \<open>Frames from the network\<close>

named_theorems tun_simps \<open>fields that sending and telling leave alone\<close>

lemma tell_fields [tun_simps]:
  "ta_networkId (tell e a) = ta_networkId a" "ta_routeMap (tell e a) = ta_routeMap a"
  "ta_arp (tell e a) = ta_arp a" "ta_ndp (tell e a) = ta_ndp a" "ta_bridge (tell e a) = ta_bridge a"
  "ta_nat (tell e a) = ta_nat a" "ta_cachedConfig (tell e a) = ta_cachedConfig a"
  "ta_cachedConfigNetworkId (tell e a) = ta_cachedConfigNetworkId a"
  "ta_cachedLocalMac (tell e a) = ta_cachedLocalMac a" "ta_cachedLocalV4 (tell e a) = ta_cachedLocalV4 a"
  "ta_cachedCidr (tell e a) = ta_cachedCidr a" "ta_cachedDestIpRaw (tell e a) = ta_cachedDestIpRaw a"
  "ta_cachedDestMac (tell e a) = ta_cachedDestMac a" "ta_cachedDestValid (tell e a) = ta_cachedDestValid a"
  by (simp_all add: tell_def)

text \<open>What a frame from the network leaves alone: everything but the tables and the trace.\<close>

definition core :: "Adapter \<Rightarrow> Adapter" where
  "core a = a\<lparr>ta_arp := None, ta_ndp := None, ta_events := []\<rparr>"

lemma core_simps [simp]:
  "core (tell e a) = core a" "core (a\<lparr>ta_arp := x\<rparr>) = core a" "core (a\<lparr>ta_ndp := y\<rparr>) = core a"
  by (simp_all add: core_def tell_def)

lemma core_send [simp]: "core (send env nwid s d t p a) = core a"
  by (simp add: send_def Let_def split: option.split)

lemma core_fields:
  assumes "core a = core b"
  shows "ta_networkId a = ta_networkId b" "ta_routeMap a = ta_routeMap b" "ta_bridge a = ta_bridge b"
    "ta_nat a = ta_nat b" "ta_cachedConfig a = ta_cachedConfig b"
    "ta_cachedConfigNetworkId a = ta_cachedConfigNetworkId b" "ta_cachedLocalMac a = ta_cachedLocalMac b"
    "ta_cachedLocalV4 a = ta_cachedLocalV4 b" "ta_cachedCidr a = ta_cachedCidr b"
    "ta_cachedDestIpRaw a = ta_cachedDestIpRaw b" "ta_cachedDestMac a = ta_cachedDestMac b"
    "ta_cachedDestValid a = ta_cachedDestValid b"
  using arg_cong [OF assms, of ta_networkId] arg_cong [OF assms, of ta_routeMap] arg_cong [OF assms, of ta_bridge]
    arg_cong [OF assms, of ta_nat] arg_cong [OF assms, of ta_cachedConfig]
    arg_cong [OF assms, of ta_cachedConfigNetworkId] arg_cong [OF assms, of ta_cachedLocalMac]
    arg_cong [OF assms, of ta_cachedLocalV4] arg_cong [OF assms, of ta_cachedCidr]
    arg_cong [OF assms, of ta_cachedDestIpRaw] arg_cong [OF assms, of ta_cachedDestMac]
    arg_cong [OF assms, of ta_cachedDestValid]
  by (simp_all add: core_def)

lemma frame_core:
  assumes "onVirtualNetworkFrame env nwid m t p a = Some b"
  shows "core b = core a"
proof -
  have "core b = core a" if "receive_arp env nwid m p a = Some b" for b
    using that unfolding receive_arp_def
    by (auto simp: Let_def split: bind_splits option.splits prod.splits if_splits)
  moreover have "core b = core a" if "receive_ipv4 env m p a = Some b" for b
    using that unfolding receive_ipv4_def by (auto split: bind_splits option.splits if_splits)
  moreover have "core b = core a" if "receive_ipv6 env m p a = Some b" for b
    using that unfolding receive_ipv6_def by (auto split: bind_splits option.splits if_splits)
  ultimately show ?thesis
    using assms unfolding onVirtualNetworkFrame_def by (auto split: if_splits option.splits)
qed

text \<open>Frames one after another; \<open>None\<close> when one of them throws.\<close>

fun frames :: "(Env \<times> u64 \<times> u64 \<times> nat \<times> u8 list) list \<Rightarrow> Adapter \<Rightarrow> Adapter option" where
  "frames [] a = Some a"
| "frames ((env, nwid, m, t, p) # fs) a = Option.bind (onVirtualNetworkFrame env nwid m t p a) (frames fs)"

lemma frames_core: "frames fs a = Some b \<Longrightarrow> core b = core a"
  by (induction fs a rule: frames.induct) (auto split: bind_splits dest: frame_core)

text \<open>A unicast packet on the fast path of an adapter that only bridges.\<close>

definition plain :: "Adapter \<Rightarrow> bool" where
  "plain a \<longleftrightarrow> ta_bridge a = None \<and> ta_nat a = None \<and> ta_cachedConfig a \<noteq> None
     \<and> ta_cachedConfigNetworkId a = ta_networkId a \<and> ta_cachedLocalV4 a \<noteq> None"

lemma plain_unicast:
  assumes "plain a" "16 < length buffer" "buffer ! 16 AND 0xf0 \<noteq> 0xe0"
  shows "handleIPv4Packet_fast env buffer len a = map_option (\<lambda>a. (buffer, a)) (unicast_ipv4 env buffer len a)"
  using assms
  by (cases "unicast_ipv4 env buffer len a")
     (auto simp: handleIPv4Packet_fast_def plain_def cache_config_def aget_Some)

text \<open>
  C33. The destination cache is never invalidated: once a destination has been sent to, every later
  packet for it goes to the cached MAC, whatever ARP and IP frames have announced in between.
\<close>

theorem tun_dest_cache_stale:
  assumes "plain a" "ta_cachedDestValid a" "frames fs a = Some b"
    "20 \<le> length buffer" "buffer ! 16 AND 0xf0 \<noteq> 0xe0" "getInt (drop 16 buffer) = Some (ta_cachedDestIpRaw a)"
  shows "handleIPv4Packet_fast env buffer len b = Some (buffer,
    send env (ta_networkId a) (ta_cachedLocalMac a) (ta_cachedDestMac a) IPV4_PACKET (copyOf buffer len) b)"
proof -
  note core = core_fields [OF frames_core [OF assms(3)]]
  have "plain b" using assms(1) by (simp add: plain_def core)
  moreover have "unicast_ipv4 env buffer len b = Some (send env (ta_networkId a) (ta_cachedLocalMac a)
      (ta_cachedDestMac a) IPV4_PACKET (copyOf buffer len) b)"
    using assms(2,6) by (simp add: unicast_ipv4_def core)
  ultimately show ?thesis using assms(4,5) plain_unicast [of b buffer env len] by simp
qed

section \<open>From a received frame to a sent one\<close>

lemma arp_set_get:
  "arp_hasMacForAddress x (arp_setAddress now x m t)"
  "fst (arp_getMacForAddress now' x (arp_setAddress now x m t)) = m"
  by (simp_all add: arp_hasMacForAddress_def hasMacForAddress_def arp_setAddress_def setAddress_def Let_def
      arp_getMacForAddress_def getMacForAddress_def split: InetAddress.split option.split)

text \<open>The addresses of an IPv4 packet.\<close>

definition v4_at :: "nat \<Rightarrow> u8 list \<Rightarrow> InetAddress" where
  "v4_at i p = Inet4Address (take 4 (drop i p))"

lemma v4_packet:
  assumes "getIPVersion p = Some 4" "20 \<le> length p"
  shows "getSourceIP p = Some (Some (v4_at 12 p))" "getDestIP p = Some (Some (v4_at 16 p))"
  using assms by (simp_all add: getSourceIP_def getDestIP_def arraycopy_def mem_write_def getByAddress_def v4_at_def)

lemma v4_at_ok: "i + 4 \<le> length p \<Longrightarrow> inet_ok (v4_at i p)" "is_inet4 (v4_at i p)"
  by (simp_all add: v4_at_def inet_ok_def)

lemma v4_at_multicast: "i + 4 \<le> length p \<Longrightarrow> isIPv4Multicast (v4_at i p) = Some (p ! i AND 0xf0 = 224)"
  by (simp add: isIPv4Multicast_def v4_at_def aget_def)

lemma getInt_at: "20 \<le> length p \<Longrightarrow> \<exists>raw. getInt (drop 16 p) = Some raw"
  by (simp add: getInt_def not_less [symmetric])

lemma send_event: "T_Frame \<lparr>f_networkId = nwid, f_srcMac = s, f_dstMac = d, f_etherType = t, f_data = p\<rparr>
    \<in> set (ta_events (send env nwid s d t p a))"
  by (simp add: send_def tell_def Let_def split: option.split)

lemma learn_ipv4:
  assumes "ta_vpnSocket a" "ta_streams a" "ta_arp a = Some arp" "getIPVersion fd = Some 4" "20 \<le> length fd"
    "fd ! 12 AND 0xf0 \<noteq> 224"
  shows "onVirtualNetworkFrame env nwid m IPV4_PACKET fd a =
    Some (tell (T_Write fd) (a\<lparr>ta_arp := Some (arp_setAddress (env_now env) (v4_at 12 fd) m arp)\<rparr>))"
  using assms by (simp add: onVirtualNetworkFrame_def receive_ipv4_def v4_packet v4_at_multicast)


section \<open>The fast and the general path\<close>

text \<open>An adapter without its destination cache.\<close>

definition forget :: "Adapter \<Rightarrow> Adapter" where
  "forget a = a\<lparr>ta_cachedDestIpRaw := 0, ta_cachedDestMac := 0, ta_cachedDestValid := False\<rparr>"

lemma forget_send: "forget (send env nwid s d t p a) = send env nwid s d t p (forget a)"
  by (simp add: forget_def send_def tell_def Let_def split: option.split)

lemma forget_cache [simp]:
  "forget (a\<lparr>ta_arp := x, ta_cachedDestIpRaw := r, ta_cachedDestMac := m, ta_cachedDestValid := v\<rparr>)
    = (forget a)\<lparr>ta_arp := x\<rparr>"
  "forget (a\<lparr>ta_arp := x\<rparr>) = (forget a)\<lparr>ta_arp := x\<rparr>"
  by (simp_all add: forget_def)

lemma next_hop_v4:
  assumes "length (getAddress s) = 4" "length (getAddress d) = 4"
  obtains h where "next_hop route s d c = Some h" "h = d \<or> Option.bind route r_gateway = Some h"
    "Option.bind route r_gateway = None \<longrightarrow> h = d"
proof -
  have "\<exists>x. addressToRouteNo0Route y c = Some x" if "length (getAddress y) = 4" for y
    using that by (simp add: addressToRouteNo0Route_def netmask4 Let_def putInt_def)
  then obtain x y where "addressToRouteNo0Route s c = Some x" "addressToRouteNo0Route d c = Some y"
    using assms by meson
  then show ?thesis
    by (cases "Option.bind route r_gateway"; cases "y = x") (auto simp: next_hop_def intro: that)
qed

lemma lookup_general:
  assumes "isIPv4Multicast h = Some False"
  shows "map_option forget (lookup_and_send env buffer len raw h a) = map_option forget (do {
    known \<leftarrow> map_option (arp_hasMacForAddress h) (ta_arp a);
    if known then
      do { multi \<leftarrow> isIPv4Multicast h;
           if multi then
             do { destMac \<leftarrow> multicastAddressToMAC h;
                  Some (send env (ta_networkId a) (ta_cachedLocalMac a) destMac IPV4_PACKET (copyOf buffer len) a) }
           else
             do { arp \<leftarrow> ta_arp a;
                  let (destMac, arp) = arp_getMacForAddress (env_now env) h arp;
                  Some (send env (ta_networkId a) (ta_cachedLocalMac a) destMac IPV4_PACKET (copyOf buffer len)
                         (a\<lparr>ta_arp := Some arp\<rparr>)) } }
    else handleIPv4PacketArp env h a })"
  using assms
  by (cases "ta_arp a") (auto simp: lookup_and_send_def forget_send Let_def split: prod.split)


section \<open>ARP frames\<close>

lemma first_v4_inet4: "first_v4 xs = Some (x, c) \<Longrightarrow> is_inet4 x"
  by (induction xs) (auto split: if_splits)

text \<open>
  Every ARP request is answered with the adapter's own address, whatever address it asks for,
  and teaches the sender's; a frame too short for an ARP packet throws out of the callback.
\<close>

lemma tun_arp_any_target:
  assumes "ta_vpnSocket a" "ta_streams a" "ta_arp a = Some arp"
    "env_nodeConfig env nwid = Some cfg" "first_v4 (cfg_assigned cfg) = Some (v4, cidr)" "inet_ok v4"
    "inet_ok x" "is_inet4 x" "inet_ok y" "is_inet4 y" "unat j < 2 ^ 48" "j \<noteq> 0"
  shows "\<exists>p q. getRequestPacket j x y = Some p \<and> getReplyPacket (cfg_mac cfg) v4 j x = Some q
    \<and> onVirtualNetworkFrame env nwid m ARP_PACKET p a = Some (send env nwid (cfg_mac cfg) m ARP_PACKET q
         (a\<lparr>ta_arp := Some (arp_setAddress (env_now env) x j arp)\<rparr>))
    \<and> (\<forall>s. length s < 28 \<longrightarrow> onVirtualNetworkFrame env nwid m ARP_PACKET s a = None)"
proof -
  obtain p where p: "getARPPacket 1 j 0 x y = Some p" using arp_packet [OF assms(7,9,8,10), of 1 j 0] by blast
  have r: "processARPPacket (env_now env) p arp
      = Some (Some \<lparr>rd_destMac = j, rd_destAddress = Some x\<rparr>, arp_setAddress (env_now env) x j arp)"
    using process_arp_packet [OF assms(7,9,8,10,11) _ p] assms(12) by (simp add: arp_learn_def)
  obtain q where q: "getReplyPacket (cfg_mac cfg) v4 j x = Some q"
    using arp_packet [OF assms(6,7) first_v4_inet4 [OF assms(5)] assms(8), of 2 "cfg_mac cfg" j]
    by (auto simp: getReplyPacket_def)
  have "onVirtualNetworkFrame env nwid m ARP_PACKET s a = None" if "length s < 28" for s
    using that assms(1-3)
    by (auto simp: onVirtualNetworkFrame_def receive_arp_def processARPPacket_def arraycopy_def split: bind_split)
  then show ?thesis
    using p q r assms by (auto simp: getRequestPacket_def onVirtualNetworkFrame_def receive_arp_def)
qed

section \<open>Witnesses\<close>

definition sample_config :: Config where
  "sample_config = \<lparr>cfg_mac = 0x020000000009, cfg_assigned = [(Inet4Address [10, 147, 1, 1], 16)]\<rparr>"

definition sample_env :: Env where
  "sample_env = \<lparr>env_now = 5, env_node = (\<lambda>_. Some 0), env_config = Some sample_config,
     env_nodeConfig = (\<lambda>_. Some sample_config), env_tethers = []\<rparr>"

definition sample_running :: Adapter where
  "sample_running = sample_adapter\<lparr>ta_cachedConfig := Some sample_config, ta_cachedConfigNetworkId := 1,
     ta_cachedLocalMac := 0x020000000009, ta_cachedLocalV4 := Some (Inet4Address [10, 147, 1, 1]), ta_cachedCidr := 16\<rparr>"

text \<open>A packet from 10.147.9.9 and one to it.\<close>

definition sample_in :: "u8 list" where
  "sample_in = [69, 0, 0, 20, 0, 0, 0, 0, 64, 17, 0, 0, 10, 147, 9, 9, 10, 147, 1, 1]"

definition sample_out :: "u8 list" where
  "sample_out = [69, 0, 0, 20, 0, 0, 0, 0, 64, 17, 0, 0, 10, 147, 1, 1, 10, 147, 9, 9]"

lemma sample_route:
  "routeForDestination (Inet4Address [10, 147, 9, 9]) sample_adapter
    = Some (Some \<lparr>r_address = Inet4Address [10, 147, 0, 0], r_prefix = 16, r_gateway = None\<rparr>)"
  by code_simp

lemma sample_running_route:
  "routeForDestination (Inet4Address [10, 147, 9, 9]) sample_running
    = Some (Some \<lparr>r_address = Inet4Address [10, 147, 0, 0], r_prefix = 16, r_gateway = None\<rparr>)"
  using sample_route by (simp add: routeForDestination_def sample_running_def)

lemma sample_packets:
  "getIPVersion sample_in = Some 4" "getIPVersion sample_out = Some 4" "length sample_in = 20" "length sample_out = 20"
  "sample_in ! 12 AND 0xf0 \<noteq> 224" "sample_out ! 16 AND 0xf0 \<noteq> 0xe0"
  "take 4 (drop 16 sample_out) = take 4 (drop 12 sample_in)" "v4_at 12 sample_in = Inet4Address [10, 147, 9, 9]"
  "v4_at 16 sample_out = Inet4Address [10, 147, 9, 9]" "getInt (drop 16 sample_out) = Some 0x0a930909"
  by code_simp+

lemma sample_fields:
  "plain sample_running" "ta_vpnSocket sample_running" "ta_streams sample_running" "\<not> ta_cachedDestValid sample_running"
  "ta_arp sample_running = ta_arp sample_adapter" "ta_arp sample_adapter \<noteq> None"
  "ta_networkId sample_running = 1" "ta_cachedLocalMac sample_running = cfg_mac sample_config"
  "ta_cachedLocalV4 sample_running = Some (Inet4Address [10, 147, 1, 1])" "ta_cachedCidr sample_running = 16"
  "first_v4 (cfg_assigned sample_config) = Some (Inet4Address [10, 147, 1, 1], 16)"
  by (simp_all add: sample_running_def sample_adapter_def plain_def sample_config_def)



lemma tun_arp_any_target_witness:
  "\<exists>p q. getRequestPacket 0x020000000007 (Inet4Address [10, 147, 9, 9]) (Inet4Address [10, 147, 8, 8]) = Some p
    \<and> onVirtualNetworkFrame sample_env 1 0x020000000007 ARP_PACKET p sample_running
       = Some (send sample_env 1 (cfg_mac sample_config) 0x020000000007 ARP_PACKET q (sample_running\<lparr>ta_arp :=
           Some (arp_setAddress 5 (Inet4Address [10, 147, 9, 9]) 0x020000000007 (the (ta_arp sample_adapter)))\<rparr>))"
proof -
  have e: "env_nodeConfig sample_env 1 = Some sample_config" "env_now sample_env = 5" by (simp_all add: sample_env_def)
  show ?thesis
    using tun_arp_any_target [of sample_running "the (ta_arp sample_adapter)" sample_env 1 sample_config
        "Inet4Address [10, 147, 1, 1]" 16 "Inet4Address [10, 147, 9, 9]" "Inet4Address [10, 147, 8, 8]"
        "0x020000000007" "0x020000000007"]
    by (fastforce simp: sample_fields e inet_ok_def)
qed

lemma tun_dest_cache_stale_witness:
  "\<exists>a b. frames [(sample_env, 1, 0x020000000008, IPV4_PACKET, sample_in)] a = Some b
    \<and> fst (arp_getMacForAddress 5 (Inet4Address [10, 147, 9, 9]) (the (ta_arp b))) = 0x020000000008
    \<and> handleIPv4Packet_fast sample_env sample_out 20 b = Some (sample_out,
         send sample_env 1 (cfg_mac sample_config) 0x020000000007 IPV4_PACKET (copyOf sample_out 20) b)"
proof -
  define a where "a = sample_running\<lparr>ta_cachedDestIpRaw := 0x0a930909, ta_cachedDestMac := 0x020000000007,
    ta_cachedDestValid := True\<rparr>"
  have a: "ta_vpnSocket a" "ta_streams a" "ta_arp a = Some (the (ta_arp sample_adapter))" "plain a"
      "ta_networkId a = 1" "ta_cachedDestIpRaw a = 0x0a930909" "ta_cachedDestMac a = 0x020000000007"
      "ta_cachedDestValid a" "ta_cachedLocalMac a = cfg_mac sample_config"
    using sample_fields by (simp_all add: a_def plain_def)
  note l = learn_ipv4 [OF a(1-3) sample_packets(1) _ sample_packets(5), of sample_env 1 "0x020000000008"]
  obtain b where b: "frames [(sample_env, 1, 0x020000000008, IPV4_PACKET, sample_in)] a = Some b"
      "ta_arp b = Some (arp_setAddress 5 (Inet4Address [10, 147, 9, 9]) 0x020000000008 (the (ta_arp sample_adapter)))"
    using l by (simp add: sample_packets tun_simps sample_env_def)
  have "fst (arp_getMacForAddress 5 (Inet4Address [10, 147, 9, 9]) (the (ta_arp b))) = 0x020000000008"
    using arp_set_get(2) by (simp add: b(2))
  then show ?thesis
    using b(1) tun_dest_cache_stale [OF a(4,8) b(1), of sample_out sample_env 20]
    by (auto simp: sample_packets a)
qed

end
