(* ===== verification/Netif_Refine.thy ===== *)
theory Netif_Refine
  imports Netif_Props Xnet_Registry
begin

text \<open>
  The interfaces of lwIP as an abstract list: sequences of calls of \<^verbatim>\<open>netif.c\<close> on the linked control
  blocks refine the same sequence on a list of interfaces and a default.
\<close>

text \<open>The calls that change the list, its default or the flags of an interface.\<close>

datatype netif_call =
    C_add addr "u32 option" "u32 option" "u32 option" "addr option" input_fn
  | C_remove addr
  | C_set_default "addr option"
  | C_set_up addr
  | C_set_down addr
  | C_set_link_up addr
  | C_set_link_down addr

fun netif_step :: "(addr \<Rightarrow> nworld \<Rightarrow> err_t \<times> nworld) \<Rightarrow> netif_call \<Rightarrow> nworld \<Rightarrow> nworld option" where
  "netif_step init (C_add a ip nm gw st inp) w =
     map_option snd (netif_add (Some a) ip nm gw st (Some init) inp w)"
| "netif_step init (C_remove a) w = netif_remove (Some a) w"
| "netif_step init (C_set_default p) w = Some (netif_set_default p w)"
| "netif_step init (C_set_up a) w = Some (netif_set_up (Some a) w)"
| "netif_step init (C_set_down a) w = Some (netif_set_down (Some a) w)"
| "netif_step init (C_set_link_up a) w = Some (netif_set_link_up (Some a) w)"
| "netif_step init (C_set_link_down a) w = Some (netif_set_link_down (Some a) w)"

text \<open>
  The contract: a new interface must not be on the list, which holds at most 255, and the default
  is an interface of the list.
\<close>

record netif_spec =
  ns_list :: "addr list"
  ns_default :: "addr option"

fun netif_spec_call :: "netif_call \<Rightarrow> netif_spec \<Rightarrow> netif_spec option" where
  "netif_spec_call (C_add a _ _ _ _ _) s =
     (if a \<in> set (ns_list s) \<or> 255 \<le> length (ns_list s) then None else Some (s\<lparr>ns_list := a # ns_list s\<rparr>))"
| "netif_spec_call (C_remove a) s =
     Some (s\<lparr>ns_list := remove1 a (ns_list s),
             ns_default := (if ns_default s = Some a then None else ns_default s)\<rparr>)"
| "netif_spec_call (C_set_default p) s =
     (if set_option p \<subseteq> set (ns_list s) then Some (s\<lparr>ns_default := p\<rparr>) else None)"
| "netif_spec_call _ s = Some s"

definition netif_rel :: "nworld \<Rightarrow> netif_spec \<Rightarrow> bool" where
  "netif_rel w s \<longleftrightarrow> netif_ok w (ns_list s) \<and> nw_default w = ns_default s"

lemma netif_call_sim:
  assumes "netif_driver init" "netif_rel w s" "netif_spec_call e s = Some s'"
  shows "\<exists>w'. netif_step init e w = Some w' \<and> netif_rel w' s'"
proof (cases e)
  case (C_add a ip nm gw st inp)
  then show ?thesis
    using assms netif_driver.add_ok [OF assms(1), of w "ns_list s" a ip nm gw st inp]
    by (fastforce simp: netif_rel_def split: if_splits)
next
  case (C_remove a)
  then show ?thesis
    using assms remove_ok [of w "ns_list s" a] by (auto simp: netif_rel_def)
next
  case (C_set_default p)
  then show ?thesis
    using assms by (cases p) (auto simp: netif_rel_def netif_ok_def netif_set_default_def split: if_splits)
next
  case (C_set_up a)
  then show ?thesis
    using assms netif_ok_same_links [of w "ns_list s" "netif_set_up (Some a) w"]
    by (auto simp: netif_rel_def netif_simps)
next
  case (C_set_down a)
  then show ?thesis
    using assms netif_ok_same_links [of w "ns_list s" "netif_set_down (Some a) w"]
    by (auto simp: netif_rel_def netif_simps)
next
  case (C_set_link_up a)
  then show ?thesis
    using assms netif_ok_same_links [of w "ns_list s" "netif_set_link_up (Some a) w"]
    by (auto simp: netif_rel_def netif_simps)
next
  case (C_set_link_down a)
  then show ?thesis
    using assms netif_ok_same_links [of w "ns_list s" "netif_set_link_down (Some a) w"]
    by (auto simp: netif_rel_def netif_simps)
qed

interpretation loop_sim: simulation "netif_step netif_loopif_init" netif_spec_call netif_rel
  by unfold_locales (rule netif_call_sim [OF loopif.netif_driver_axioms])

interpretation tap_sim: simulation "netif_step (netif_init_cb tap)" netif_spec_call netif_rel for tap
  by unfold_locales (rule netif_call_sim [OF tapif.netif_driver_axioms])

text \<open>
  C8. A sequence of calls on tap interfaces that keeps to the contract returns, and leaves a linked
  list that a traversal walks in the order of the abstract list, with distinct numbers.
\<close>

theorem netif_list_refines:
  assumes "netif_rel w s" "tap_sim.arun es s = Some s'"
  shows "\<exists>w'. tap_sim.crun tap es w = Some w' \<and> netif_rel w' s'
    \<and> (\<forall>P. NETIF_FOREACH P (nw_mem w') (nw_list w') = Some (List.find P (ns_list s')))
    \<and> distinct (map (\<lambda>a. nf_num (nw_mem w' a)) (ns_list s'))"
proof -
  obtain w' where "tap_sim.crun tap es w = Some w'" "netif_rel w' s'"
    using tap_sim.run_sim [OF assms] by blast
  then show ?thesis by (auto simp: netif_rel_def netif_ok_def NETIF_FOREACH_lseg)
qed

lemma netif_list_refines_witness:
  "\<exists>w'. tap_sim.crun sample_tap [C_add 1 (Some 5) None None None Tcpip_Input, C_set_default (Some 1), C_set_up 1,
      C_add 2 None None None None Tcpip_Input, C_remove 1] nworld0 = Some w'
    \<and> netif_ok w' [2] \<and> nw_default w' = None"
  using netif_list_refines [of nworld0 "\<lparr>ns_list = [], ns_default = None\<rparr>"
      "[C_add 1 (Some 5) None None None Tcpip_Input, C_set_default (Some 1), C_set_up 1,
        C_add 2 None None None None Tcpip_Input, C_remove 1]" "\<lparr>ns_list = [2], ns_default = None\<rparr>" sample_tap]
    netif_ok_empty by (auto simp: netif_rel_def nworld0_def)

end
