(* ===== verification/Dns_Proxy.thy ===== *)
theory Dns_Proxy
  imports Neighbour_Props
begin

text \<open>
  \<^verbatim>\<open>DnsProxy.java\<close>: the DNS forwarder for tethered devices and its cache. A string is a list of
  16-bit characters. How bytes become characters depends on the default charset of the platform
  and is an argument, as are the clock, the datagrams of the upstream server and the answers of
  the HTTPS service. A response sent to a client is an event.
\<close>

type_synonym jstring = "u16 list"

abbreviation MAX_PACKET :: nat where
  "MAX_PACKET \<equiv> 512"

abbreviation CACHE_TTL_MS :: int where
  "CACHE_TTL_MS \<equiv> 300000"

record CacheEntry =
  ce_response :: "u8 list"
  ce_expiry :: int

datatype dns_event = D_Send "u8 list" InetAddress int

record DnsProxy =
  dp_cache :: "jstring \<rightharpoonup> CacheEntry"
  dp_dohUrl :: jstring
  dp_upstreamDns :: "InetAddress option"
  dp_upstreamDnsPort :: int
  dp_running :: bool
  dp_events :: "dns_event list"

text \<open>
  The network: a datagram sent to a server and the datagram it answers, or the status and body of
  an HTTPS request; \<open>None\<close> when the call throws.
\<close>

record DnsNet =
  net_udp :: "InetAddress \<Rightarrow> int \<Rightarrow> u8 list \<Rightarrow> u8 list option"
  net_https :: "jstring \<Rightarrow> u8 list \<Rightarrow> (int \<times> u8 list) option"

definition isExpired :: "int \<Rightarrow> CacheEntry \<Rightarrow> bool" where
  "isExpired now e \<longleftrightarrow> now > ce_expiry e"

definition newCacheEntry :: "int \<Rightarrow> u8 list \<Rightarrow> int \<Rightarrow> CacheEntry" where
  "newCacheEntry now response ttlMs = \<lparr>ce_response = response, ce_expiry = now + ttlMs\<rparr>"

section \<open>Packets\<close>

function query_name_loop :: "(u8 list \<Rightarrow> jstring) \<Rightarrow> u8 list \<Rightarrow> nat \<Rightarrow> jstring \<Rightarrow> jstring option" where
  "query_name_loop decode pkt pos sb =
     (if pos < length pkt then
        let len = unat (pkt ! pos)
        in if len = 0 then Some sb
           else
             let sb = (if length sb > 0 then sb @ [46] else sb);
                 pos = pos + 1
             in if pos + len > length pkt then None
                else query_name_loop decode pkt (pos + len) (sb @ decode (take len (drop pos pkt)))
      else Some sb)"
  by pat_completeness auto
termination
  by (relation "measure (\<lambda>(decode, pkt, pos, sb). length pkt - pos)") auto

declare query_name_loop.simps [simp del]

text \<open>The name of a query; \<open>None\<close> is null.\<close>

definition extractQueryName :: "(u8 list \<Rightarrow> jstring) \<Rightarrow> u8 list \<Rightarrow> jstring option" where
  "extractQueryName decode pkt = (if length pkt < 12 then None else query_name_loop decode pkt 12 [])"

definition patchTransactionId :: "u8 list \<Rightarrow> u8 list \<Rightarrow> u8 list option" where
  "patchTransactionId response query =
     do { q0 \<leftarrow> aget query 0;
          patched \<leftarrow> aput response 0 q0;
          q1 \<leftarrow> aget query 1;
          aput patched 1 q1 }"

text \<open>The labels of a question, up to its terminating zero or past a pointer.\<close>

function skip_labels :: "u8 list \<Rightarrow> nat \<Rightarrow> nat" where
  "skip_labels response pos =
     (if pos < length response \<and> response ! pos \<noteq> 0 then
        if response ! pos AND 0xC0 = 0xC0 then pos + 2
        else skip_labels response (pos + (unat (response ! pos) + 1))
      else pos)"
  by pat_completeness auto
termination
  by (relation "measure (\<lambda>(response, pos). length response - pos)") auto

declare skip_labels.simps [simp del]

fun skip_questions :: "u8 list \<Rightarrow> nat \<Rightarrow> nat \<Rightarrow> nat" where
  "skip_questions response 0 pos = pos"
| "skip_questions response (Suc n) pos =
     (if pos < length response then
        let pos = skip_labels response pos;
            pos = (if pos < length response \<and> response ! pos = 0 then pos + 1 else pos)
        in skip_questions response n (pos + 4)
      else pos)"

text \<open>The name of an answer that is not a pointer, up to its terminating zero.\<close>

function skip_name :: "u8 list \<Rightarrow> nat \<Rightarrow> nat" where
  "skip_name response pos =
     (if pos < length response \<and> response ! pos \<noteq> 0
      then skip_name response (pos + (unat (response ! pos) + 1)) else pos)"
  by pat_completeness auto
termination
  by (relation "measure (\<lambda>(response, pos). length response - pos)") auto

declare skip_name.simps [simp del]

definition extractTtlMs :: "u8 list \<Rightarrow> int" where
  "extractTtlMs response =
     (if length response < 12 then CACHE_TTL_MS
      else
        let qdcount = unat (response ! 4) * 2 ^ 8 + unat (response ! 5);
            pos = skip_questions response qdcount 12
        in if pos + 10 < length response then
             let pos = (if response ! pos AND 0xC0 = 0xC0 then pos + 2 else skip_name response pos);
                 pos = pos + 4
             in if pos + 4 \<le> length response then
                  let ttl = uint (response ! pos) * 2 ^ 24 + uint (response ! (pos + 1)) * 2 ^ 16
                        + uint (response ! (pos + 2)) * 2 ^ 8 + uint (response ! (pos + 3))
                  in max (ttl * 1000) 60000
                else CACHE_TTL_MS
           else CACHE_TTL_MS)"

section \<open>Queries\<close>

text \<open>The two ways to resolve; an outer \<open>None\<close> is an exception, an inner one null.\<close>

definition resolveUdp :: "DnsNet \<Rightarrow> InetAddress \<Rightarrow> int \<Rightarrow> u8 list \<Rightarrow> u8 list option option" where
  "resolveUdp net upstreamDns upstreamDnsPort query =
     map_option (\<lambda>resp. Some (take 512 resp)) (net_udp net upstreamDns upstreamDnsPort query)"

definition resolveDoH :: "DnsNet \<Rightarrow> jstring \<Rightarrow> u8 list \<Rightarrow> u8 list option option" where
  "resolveDoH net dohUrl query =
     map_option (\<lambda>(code, body). if code \<noteq> 200 then None else Some body) (net_https net dohUrl query)"

definition sendResponse :: "u8 list \<Rightarrow> InetAddress \<Rightarrow> int \<Rightarrow> DnsProxy \<Rightarrow> DnsProxy" where
  "sendResponse response addr port p = p\<lparr>dp_events := dp_events p @ [D_Send response addr port]\<rparr>"

definition resolve :: "DnsNet \<Rightarrow> u8 list \<Rightarrow> DnsProxy \<Rightarrow> u8 list option option" where
  "resolve net query p =
     (case dp_upstreamDns p of
        Some a \<Rightarrow> resolveUdp net a (dp_upstreamDnsPort p) query
      | None \<Rightarrow> resolveDoH net (dp_dohUrl p) query)"

text \<open>
  The clock is read for the test of a cached entry and again for a new one; an exception is logged
  and leaves what was done before it.
\<close>

definition handleQuery ::
    "(u8 list \<Rightarrow> jstring) \<Rightarrow> DnsNet \<Rightarrow> int \<Rightarrow> int \<Rightarrow> u8 list \<Rightarrow> InetAddress \<Rightarrow> int \<Rightarrow> DnsProxy \<Rightarrow> DnsProxy" where
  "handleQuery decode net now now' query clientAddr clientPort p =
     (case extractQueryName decode query of
        None \<Rightarrow> p
      | Some name \<Rightarrow>
          let upstream =
                (case resolve net query p of
                   Some (Some response) \<Rightarrow>
                     sendResponse response clientAddr clientPort
                       (p\<lparr>dp_cache := (dp_cache p)(name \<mapsto> newCacheEntry now' response (extractTtlMs response))\<rparr>)
                 | _ \<Rightarrow> p)
          in (case dp_cache p name of
                None \<Rightarrow> upstream
              | Some cached \<Rightarrow>
                  if isExpired now cached then upstream
                  else (case patchTransactionId (ce_response cached) query of
                          None \<Rightarrow> p
                        | Some response \<Rightarrow> sendResponse response clientAddr clientPort p)))"

text \<open>A datagram at the server socket, of which the buffer holds the first bytes.\<close>

record DnsPacket =
  dq_net :: DnsNet
  dq_now :: int
  dq_later :: int
  dq_data :: "u8 list"
  dq_addr :: InetAddress
  dq_port :: int

fun runServer :: "(u8 list \<Rightarrow> jstring) \<Rightarrow> DnsPacket list \<Rightarrow> DnsProxy \<Rightarrow> DnsProxy" where
  "runServer decode [] p = p"
| "runServer decode (q # qs) p =
     (if dp_running p then
        runServer decode qs
          (handleQuery decode (dq_net q) (dq_now q) (dq_later q) (take MAX_PACKET (dq_data q)) (dq_addr q) (dq_port q) p)
      else p)"

definition dns_start :: "DnsProxy \<Rightarrow> DnsProxy" where
  "dns_start p = (if dp_running p then p else p\<lparr>dp_running := True\<rparr>)"

definition dns_stop :: "DnsProxy \<Rightarrow> DnsProxy" where
  "dns_stop p = p\<lparr>dp_running := False, dp_cache := Map.empty\<rparr>"

definition setUpstreamDns :: "InetAddress option \<Rightarrow> int \<Rightarrow> DnsProxy \<Rightarrow> DnsProxy" where
  "setUpstreamDns addr port p = p\<lparr>dp_upstreamDns := addr, dp_upstreamDnsPort := port\<rparr>"

definition setDohUrl :: "jstring \<Rightarrow> DnsProxy \<Rightarrow> DnsProxy" where
  "setDohUrl url p = p\<lparr>dp_dohUrl := url\<rparr>"

end
