(* ===== verification/Dns_Props.thy ===== *)
theory Dns_Props
  imports Dns_Proxy
begin

text \<open>
  The DNS proxy: names of queries, lifetimes of answers, and what the cache answers.
\<close>

section \<open>Encoded names\<close>

definition encode_name :: "u8 list list \<Rightarrow> u8 list" where
  "encode_name labels = concat (map (\<lambda>l. of_nat (length l) # l) labels) @ [0]"

definition labels_ok :: "u8 list list \<Rightarrow> bool" where
  "labels_ok labels \<longleftrightarrow> (\<forall>l \<in> set labels. 0 < length l \<and> length l < 64)"

lemma encode_name_simps:
  "encode_name [] = [0]" "encode_name (l # ls) = of_nat (length l) # l @ encode_name ls"
  by (simp_all add: encode_name_def)

lemma labels_ok_simps [simp]:
  "labels_ok []" "labels_ok (l # ls) \<longleftrightarrow> 0 < length l \<and> length l < 64 \<and> labels_ok ls"
  by (auto simp: labels_ok_def)

lemma label_byte:
  assumes "0 < n" "n < 64"
  shows "unat (of_nat n :: u8) = n" "(of_nat n :: u8) \<noteq> 0" "(of_nat n :: u8) AND 0xC0 \<noteq> 0xC0"
proof -
  show u: "unat (of_nat n :: u8) = n" using assms by (simp add: unat_of_nat)
  then show "(of_nat n :: u8) \<noteq> 0" using assms by auto
  have "unat ((of_nat n :: u8) AND 0xC0) \<le> n" using u word_and_le2 [of "of_nat n :: u8" "0xC0"]
    by (simp add: word_le_nat_alt)
  then show "(of_nat n :: u8) AND 0xC0 \<noteq> 0xC0" using assms by auto
qed

text \<open>Labels joined by dots, after what is already there.\<close>

fun dotted :: "(u8 list \<Rightarrow> jstring) \<Rightarrow> jstring \<Rightarrow> u8 list list \<Rightarrow> jstring" where
  "dotted decode sb [] = sb"
| "dotted decode sb (l # ls) = dotted decode ((if sb = [] then [] else sb @ [46]) @ decode l) ls"

lemma query_name_labels:
  "labels_ok labels \<Longrightarrow> query_name_loop decode (pre @ encode_name labels @ rest) (length pre) sb
     = Some (dotted decode sb labels)"
proof (induction labels arbitrary: pre sb)
  case Nil
  then show ?case by (simp add: query_name_loop.simps encode_name_simps)
next
  case (Cons l ls)
  have "query_name_loop decode (pre @ encode_name (l # ls) @ rest) (length pre) sb
      = query_name_loop decode ((pre @ of_nat (length l) # l) @ encode_name ls @ rest)
          (length (pre @ of_nat (length l) # l)) ((if sb = [] then [] else sb @ [46]) @ decode l)"
    using Cons.prems by (subst query_name_loop.simps) (simp add: encode_name_simps label_byte Let_def)
  also have "\<dots> = Some (dotted decode ((if sb = [] then [] else sb @ [46]) @ decode l) ls)"
    by (rule Cons.IH) (use Cons.prems in simp)
  finally show ?case by (simp only: dotted.simps)
qed

text \<open>A query with one question.\<close>

definition dns_query :: "u8 list \<Rightarrow> u8 list \<Rightarrow> u8 list list \<Rightarrow> u16 \<Rightarrow> u16 \<Rightarrow> u8 list" where
  "dns_query qid mid labels qtype qclass = qid @ mid @ encode_name labels @ putShort qtype @ putShort qclass"

lemma extract_query:
  assumes "length qid = 2" "length mid = 10" "labels_ok labels"
  shows "extractQueryName decode (dns_query qid mid labels qtype qclass) = Some (dotted decode [] labels)"
  using query_name_labels [OF assms(3), of decode "qid @ mid" "putShort qtype @ putShort qclass" "[]"] assms(1,2)
  by (simp add: extractQueryName_def dns_query_def)

section \<open>Lifetimes\<close>

lemma skip_labels_name:
  "labels_ok labels \<Longrightarrow> skip_labels (pre @ encode_name labels @ rest) (length pre)
     = length pre + (length (encode_name labels) - 1)"
proof (induction labels arbitrary: pre)
  case Nil
  then show ?case by (simp add: skip_labels.simps encode_name_simps)
next
  case (Cons l ls)
  have "skip_labels (pre @ encode_name (l # ls) @ rest) (length pre)
      = skip_labels ((pre @ of_nat (length l) # l) @ encode_name ls @ rest) (length (pre @ of_nat (length l) # l))"
    using Cons.prems by (subst skip_labels.simps) (simp add: encode_name_simps label_byte)
  also have "\<dots> = length (pre @ of_nat (length l) # l) + (length (encode_name ls) - 1)"
    by (rule Cons.IH) (use Cons.prems in simp)
  finally show ?case by (simp add: encode_name_simps encode_name_def)
qed

lemma skip_name_labels:
  "labels_ok labels \<Longrightarrow> skip_name (pre @ encode_name labels @ rest) (length pre)
     = length pre + (length (encode_name labels) - 1)"
proof (induction labels arbitrary: pre)
  case Nil
  then show ?case by (simp add: skip_name.simps encode_name_simps)
next
  case (Cons l ls)
  have "skip_name (pre @ encode_name (l # ls) @ rest) (length pre)
      = skip_name ((pre @ of_nat (length l) # l) @ encode_name ls @ rest) (length (pre @ of_nat (length l) # l))"
    using Cons.prems by (subst skip_name.simps) (simp add: encode_name_simps label_byte)
  also have "\<dots> = length (pre @ of_nat (length l) # l) + (length (encode_name ls) - 1)"
    by (rule Cons.IH) (use Cons.prems in simp)
  finally show ?case by (simp add: encode_name_simps encode_name_def)
qed

lemma encode_name_last: "encode_name labels ! (length (encode_name labels) - 1) = 0"
  by (simp add: encode_name_def)

lemma encode_name_pos: "0 < length (encode_name labels)"
  by (simp add: encode_name_def)

lemma skip_one_question:
  assumes "length hdr = 12" "labels_ok labels" "length q4 = 4"
  shows "skip_questions (hdr @ encode_name labels @ q4 @ rest) (Suc 0) 12
    = length (hdr @ encode_name labels @ q4)"
  using assms skip_labels_name [OF assms(2), of hdr "q4 @ rest"] encode_name_last [of labels] encode_name_pos [of labels]
  by (simp add: nth_append)

definition ttl_ms :: "u8 list \<Rightarrow> int" where
  "ttl_ms t = max (1000 * (uint (t ! 0) * 2 ^ 24 + uint (t ! 1) * 2 ^ 16 + uint (t ! 2) * 2 ^ 8 + uint (t ! 3))) 60000"

lemma extract_ttl_at:
  assumes "length hdr = 12" "hdr ! 4 = 0" "hdr ! 5 = 1" "labels_ok labels" "length q4 = 4"
    "pre = hdr @ encode_name labels @ q4" "11 \<le> length rest"
    "k = (if rest ! 0 AND 0xC0 = 0xC0 then 2 else skip_name (pre @ rest) (length pre) - length pre)"
    "skip_name (pre @ rest) (length pre) \<ge> length pre" "k + 8 \<le> length rest"
  shows "extractTtlMs (pre @ rest) = ttl_ms (take 4 (drop (k + 4) rest))"
proof -
  define d where "d = pre @ rest"
  have q: "skip_questions d (Suc 0) 12 = length pre"
    using skip_one_question [OF assms(1,4,5), of rest] by (simp add: assms(6) d_def)
  have h: "unat (d ! 4) * 2 ^ 8 + unat (d ! 5) = Suc 0" "12 \<le> length pre"
    using assms(1-3) by (simp_all add: assms(6) nth_append d_def)
  have r: "d ! length pre = rest ! 0" using assms(7) by (simp add: nth_append d_def)
  have p: "(if rest ! 0 AND 0xC0 = 0xC0 then length pre + 2 else skip_name d (length pre)) = length pre + k"
    using assms(8,9) by (simp add: d_def)
  have n: "d ! (length pre + k + 4 + i) = take 4 (drop (k + 4) rest) ! i" if "i < 4" for i
    using that assms(10) by (simp add: nth_append add.assoc d_def)
  have l: "\<not> length d < 12" "length pre + 10 < length d" "length pre + k + 4 + 4 \<le> length d"
    using h(2) assms(7,10) by (auto simp: d_def)
  have "extractTtlMs d = ttl_ms (take 4 (drop (k + 4) rest))"
    unfolding extractTtlMs_def Let_def h(1) q r p
    using l n [of 0] n [of 1] n [of 2] n [of 3] by (simp only: ttl_ms_def if_False if_True) (simp add: ac_simps)
  then show ?thesis by (simp add: d_def)
qed

lemma extract_ttl_min: "60000 \<le> extractTtlMs x"
  by (simp add: extractTtlMs_def Let_def le_max_iff_disj)

lemma encode_name_first: "labels_ok labels \<Longrightarrow> encode_name labels ! 0 AND 0xC0 \<noteq> 0xC0"
  by (cases labels) (simp_all add: encode_name_simps label_byte)



section \<open>The cache\<close>

text \<open>
  C34. The cache is keyed by the name alone: after a query for one record type has been answered, a
  query for the same name and any other type or class is answered, until the entry expires, with
  the same response under its own id, without asking upstream.
\<close>

theorem dns_cache_ignores_type:
  assumes "length id1 = 2" "length mid1 = 10" "length id2 = 2" "length mid2 = 10" "labels_ok labels"
    "dp_cache p (dotted decode [] labels) = None"
    "resolve net1 (dns_query id1 mid1 labels type1 class1) p = Some (Some r)" "2 \<le> length r"
    "t2 \<le> t1' + extractTtlMs r"
  shows "dp_events (handleQuery decode net2 t2 t2' (dns_query id2 mid2 labels type2 class2) a2 port2
      (handleQuery decode net1 t1 t1' (dns_query id1 mid1 labels type1 class1) a1 port1 p))
    = dp_events p @ [D_Send r a1 port1, D_Send (id2 @ drop 2 r) a2 port2]"
proof -
  obtain x y r' where r: "r = x # y # r'" using assms(8) by (auto simp: Suc_le_length_iff numeral_2_eq_2)
  obtain u v where u: "id2 = [u, v]" using assms(3) by (auto simp: length_Suc_conv numeral_2_eq_2)
  have "patchTransactionId r (dns_query id2 mid2 labels type2 class2) = Some (id2 @ drop 2 r)"
    by (simp add: patchTransactionId_def dns_query_def u r aget_def aput_def)
  then show ?thesis
    using assms extract_query [OF assms(1,2,5)] extract_query [OF assms(3,4,5)]
    by (simp add: handleQuery_def sendResponse_def newCacheEntry_def isExpired_def Let_def)
qed

definition sample_proxy :: DnsProxy where
  "sample_proxy = \<lparr>dp_cache = Map.empty, dp_dohUrl = [], dp_upstreamDns = Some (Inet4Address [10, 0, 0, 53]),
     dp_upstreamDnsPort = 53, dp_running = True, dp_events = []\<rparr>"

definition sample_net :: DnsNet where
  "sample_net = \<lparr>net_udp = (\<lambda>_ _ q. Some (q @ [0xC0, 12, 0, 1, 0, 1, 0, 0, 1, 44, 0, 4, 10, 0, 0, 1])),
     net_https = (\<lambda>_ _. None)\<rparr>"

lemma sample_answer:
  "resolve sample_net (dns_query [0, 1] (replicate 10 0) [[97]] 1 1) sample_proxy
     = Some (Some ([0, 1, 0, 0, 0, 0, 0, 0, 0, 0, 0, 0, 1, 97, 0, 0, 1, 0, 1] @ [0xC0, 12, 0, 1, 0, 1, 0, 0, 1, 44, 0, 4, 10, 0, 0, 1]))"
  by code_simp

lemma dns_cache_ignores_type_witness:
  "\<exists>r p1 p2. p1 = handleQuery (map ucast) sample_net 0 0 (dns_query [0, 1] (replicate 10 0) [[97]] 1 1) (Inet4Address [10, 0, 0, 2]) 5000 sample_proxy
    \<and> p2 = handleQuery (map ucast) sample_net 0 0 (dns_query [0, 2] (replicate 10 0) [[97]] 28 1) (Inet4Address [10, 0, 0, 2]) 5001 p1
    \<and> dp_events p2 = [D_Send r (Inet4Address [10, 0, 0, 2]) 5000, D_Send ([0, 2] @ drop 2 r) (Inet4Address [10, 0, 0, 2]) 5001]"
proof -
  have c: "dp_cache sample_proxy n = None" "dp_events sample_proxy = []" for n by (simp_all add: sample_proxy_def)
  have "0 \<le> extractTtlMs x" for x using extract_ttl_min [of x] by linarith
  then show ?thesis
    using dns_cache_ignores_type [OF _ _ _ _ _ c(1) sample_answer, of "[0, 2]" "replicate 10 0" 0 0
        "map ucast" sample_net 0 28 1 "Inet4Address [10, 0, 0, 2]" 5001 0 "Inet4Address [10, 0, 0, 2]" 5000] c(2)
    by auto
qed

text \<open>What the cache and the answers of a run come from: packets that were received.\<close>

abbreviation dq_query :: "DnsPacket \<Rightarrow> u8 list" where
  "dq_query q \<equiv> take MAX_PACKET (dq_data q)"

definition from_upstream :: "(u8 list \<Rightarrow> jstring) \<Rightarrow> DnsProxy \<Rightarrow> DnsPacket set \<Rightarrow> jstring \<Rightarrow> u8 list \<Rightarrow> bool" where
  "from_upstream decode p0 S name r \<longleftrightarrow>
     (\<exists>q \<in> S. extractQueryName decode (dq_query q) = Some name \<and> resolve (dq_net q) (dq_query q) p0 = Some (Some r))"

definition answers :: "(u8 list \<Rightarrow> jstring) \<Rightarrow> DnsProxy \<Rightarrow> DnsPacket set \<Rightarrow> dns_event \<Rightarrow> bool" where
  "answers decode p0 S ev \<longleftrightarrow> (case ev of D_Send r a port \<Rightarrow>
     \<exists>q \<in> S. \<exists>name r'. dq_addr q = a \<and> dq_port q = port \<and> extractQueryName decode (dq_query q) = Some name
       \<and> from_upstream decode p0 S name r' \<and> (r = r' \<or> r = take 2 (dq_query q) @ drop 2 r'))"

definition dns_inv :: "(u8 list \<Rightarrow> jstring) \<Rightarrow> DnsProxy \<Rightarrow> DnsPacket set \<Rightarrow> DnsProxy \<Rightarrow> bool" where
  "dns_inv decode p0 S p \<longleftrightarrow>
     (\<forall>name e. dp_cache p name = Some e \<longrightarrow> from_upstream decode p0 S name (ce_response e))
   \<and> (\<forall>ev \<in> set (dp_events p). answers decode p0 S ev)
   \<and> (\<forall>net q. resolve net q p = resolve net q p0)"

lemma from_upstream_mono: "from_upstream decode p0 S name r \<Longrightarrow> S \<subseteq> T \<Longrightarrow> from_upstream decode p0 T name r"
  by (auto simp: from_upstream_def)

lemma answers_mono: "answers decode p0 S ev \<Longrightarrow> S \<subseteq> T \<Longrightarrow> answers decode p0 T ev"
  by (cases ev) (fastforce simp: answers_def intro: from_upstream_mono)

lemma patched: "patchTransactionId r q = Some r' \<Longrightarrow> r' = take 2 q @ drop 2 r"
  by (cases r; cases "tl r"; cases q; cases "tl q")
    (auto simp: patchTransactionId_def aget_def aput_def split: if_splits)

lemma resolve_fields [simp]:
  "resolve net q (p\<lparr>dp_events := e\<rparr>) = resolve net q p" "resolve net q (p\<lparr>dp_cache := c\<rparr>) = resolve net q p"
  by (simp_all add: resolve_def split: option.split)

lemma dns_inv_handle:
  assumes "dns_inv decode p0 S p"
  shows "dns_inv decode p0 (insert q S)
    (handleQuery decode (dq_net q) now now' (dq_query q) (dq_addr q) (dq_port q) p)"
proof -
  let ?T = "insert q S"
  have old: "dns_inv decode p0 ?T p"
    using assms by (fastforce simp: dns_inv_def intro: from_upstream_mono answers_mono)
  have send: "dns_inv decode p0 ?T (sendResponse r (dq_addr q) (dq_port q) p')"
    if "dns_inv decode p0 ?T p'" "answers decode p0 ?T (D_Send r (dq_addr q) (dq_port q))" for r p'
    using that by (auto simp: dns_inv_def sendResponse_def)
  have put: "dns_inv decode p0 ?T (p\<lparr>dp_cache := (dp_cache p)(name \<mapsto> newCacheEntry now' r t)\<rparr>)"
    if "from_upstream decode p0 ?T name r" for name r t
    using that old by (auto simp: dns_inv_def newCacheEntry_def)
  have up: "from_upstream decode p0 ?T name r"
    if "extractQueryName decode (dq_query q) = Some name" "resolve (dq_net q) (dq_query q) p = Some (Some r)" for name r
    using that assms by (auto simp: from_upstream_def dns_inv_def)
  have ans: "answers decode p0 ?T (D_Send r (dq_addr q) (dq_port q))"
    if "extractQueryName decode (dq_query q) = Some name" "from_upstream decode p0 ?T name r'"
      "r = r' \<or> r = take 2 (dq_query q) @ drop 2 r'" for name r r'
    using that by (auto simp: answers_def)
  have hit: "from_upstream decode p0 ?T name (ce_response e)" if "dp_cache p name = Some e" for name e
    using that old by (auto simp: dns_inv_def)
  show ?thesis
    unfolding handleQuery_def Let_def
    by (auto split: option.split dest!: patched intro!: old send put intro: ans up hit)
qed

lemma dns_inv_run: "dns_inv decode p0 S p \<Longrightarrow> dns_inv decode p0 (S \<union> set qs) (runServer decode qs p)"
proof (induction qs arbitrary: p S)
  case (Cons q qs)
  have "dns_inv decode p0 (insert q S \<union> set qs) (runServer decode qs
      (handleQuery decode (dq_net q) (dq_now q) (dq_later q) (dq_query q) (dq_addr q) (dq_port q) p))"
    by (rule Cons.IH) (rule dns_inv_handle [OF Cons.prems])
  moreover have "dns_inv decode p0 (S \<union> set (q # qs)) p"
    using Cons.prems by (fastforce simp: dns_inv_def intro: from_upstream_mono answers_mono)
  ultimately show ?case by simp
qed simp

text \<open>
  C10. Every response of a run of the server that starts with an empty cache goes to the sender of a
  query of that run, and is an upstream response to a query of the run for the same name, as it is
  or under the id of the query it answers.
\<close>

theorem dns_answers_sound:
  assumes "dp_cache p = Map.empty" "dp_events p = []" "D_Send r a port \<in> set (dp_events (runServer decode qs p))"
  shows "\<exists>q \<in> set qs. \<exists>q' \<in> set qs. \<exists>name r'. dq_addr q = a \<and> dq_port q = port
    \<and> extractQueryName decode (dq_query q) = Some name \<and> extractQueryName decode (dq_query q') = Some name
    \<and> resolve (dq_net q') (dq_query q') p = Some (Some r') \<and> (r = r' \<or> r = take 2 (dq_query q) @ drop 2 r')"
proof -
  have "dns_inv decode p {} p" using assms(1,2) by (simp add: dns_inv_def)
  then have "answers decode p (set qs) (D_Send r a port)"
    using dns_inv_run [of decode p "{}" p qs] assms(3) by (auto simp: dns_inv_def)
  then show ?thesis unfolding answers_def from_upstream_def by fastforce
qed

definition sample_packet :: DnsPacket where
  "sample_packet = \<lparr>dq_net = sample_net, dq_now = 0, dq_later = 0,
     dq_data = dns_query [0, 1] (replicate 10 0) [[97]] 1 1, dq_addr = Inet4Address [10, 0, 0, 2], dq_port = 5000\<rparr>"

lemma dns_answers_sound_witness:
  "\<exists>r. D_Send r (Inet4Address [10, 0, 0, 2]) 5000 \<in> set (dp_events (runServer (map ucast) [sample_packet] sample_proxy))
    \<and> resolve sample_net (dq_query sample_packet) sample_proxy = Some (Some r)"
proof -
  have q: "dq_query sample_packet = dns_query [0, 1] (replicate 10 0) [[97]] 1 1"
    by (simp add: sample_packet_def dns_query_def encode_name_simps)
  have n: "extractQueryName (map ucast) (dns_query [0, 1] (replicate 10 0) [[97]] 1 1) = Some [97]"
    by (simp add: extract_query)
  have "\<exists>r. D_Send r (Inet4Address [10, 0, 0, 2]) 5000 \<in> set (dp_events (runServer (map ucast) [sample_packet] sample_proxy))"
    using q n sample_answer
    by (simp add: handleQuery_def sendResponse_def Let_def) (auto simp: sample_packet_def sample_proxy_def sendResponse_def)
  then obtain r where r: "D_Send r (Inet4Address [10, 0, 0, 2]) 5000 \<in> set (dp_events (runServer (map ucast) [sample_packet] sample_proxy))"
    by blast
  from dns_answers_sound [OF _ _ r] obtain r' where
      "resolve sample_net (dq_query sample_packet) sample_proxy = Some (Some r')"
      "r = r' \<or> r = take 2 (dq_query sample_packet) @ drop 2 r'"
    by (auto simp: sample_proxy_def sample_packet_def)
  moreover from this(1) have "r' = take 2 (dq_query sample_packet) @ drop 2 r'"
    unfolding q sample_answer by (auto simp: dns_query_def)
  ultimately show ?thesis using r by auto
qed

end
