(* ===== verification/Socks_Proxy.thy ===== *)
theory Socks_Proxy
  imports Dns_Proxy Nat_Engine
begin

text \<open>
  \<^verbatim>\<open>SocksProxy.java\<close> and the upstream connections of \<^verbatim>\<open>TetherBridge.java\<close>. An input stream is the list
  of the bytes that arrive before its end; how they are split over reads does not matter to the
  code, which reads single bytes or full blocks. The bound address in a reply is passed over with
  \<^verbatim>\<open>InputStream.skip\<close>, which may stop short in general; the stream of a socket reads on until the
  count is reached or the stream ends, and so does the model. A handler returns what it writes to
  the client and how it leaves the connection: an exception closes the client after what has been
  written.
  The resolver, the connections and the charset are arguments.
\<close>

section \<open>Streams\<close>

text \<open>A single byte, or \<open>- 1\<close> at the end.\<close>

fun jread :: "u8 list \<Rightarrow> int \<times> u8 list" where
  "jread [] = (- 1, [])"
| "jread (b # bs) = (uint b, bs)"

text \<open>
  A new array of a length that was read, filled from the stream; \<open>None\<close> when the length is negative
  or the stream ends first.
\<close>

definition readFully :: "int \<Rightarrow> u8 list \<Rightarrow> (u8 list \<times> u8 list) option" where
  "readFully n bs =
     (if n < 0 \<or> length bs < nat n then None else Some (take (nat n) bs, drop (nat n) bs))"

section \<open>The proxy\<close>

datatype socks_outcome =
    S_Closed
  | S_Relay InetAddress int "u8 list"
  | S_Udp

record SocksEnv =
  se_decode :: "u8 list \<Rightarrow> jstring"
  se_getByName :: "jstring \<Rightarrow> InetAddress option"
  se_connect :: "InetAddress \<Rightarrow> int \<Rightarrow> (InetAddress \<times> int) option"
  se_udp :: "(InetAddress \<times> int) option"

record SocksProxy =
  sp_authUser :: "jstring option"
  sp_authPass :: "jstring option"

text \<open>
  The address of a request: an outer \<open>None\<close> is an exception, an inner one null. The end of the
  stream is not checked in the port.
\<close>

definition readAddress :: "SocksEnv \<Rightarrow> u8 list \<Rightarrow> ((InetAddress \<times> int) option \<times> u8 list) option" where
  "readAddress env bs =
     (let (atype, bs) = jread bs;
          port = (\<lambda>addr bs.
            let (h, bs) = jread bs;
                (l, bs) = jread bs
            in do { a \<leftarrow> getByAddress addr; Some (Some (a, (h AND 0xFF) * 2 ^ 8 OR (l AND 0xFF)), bs) })
      in if atype = 1 then do { (addr, bs) \<leftarrow> readFully 4 bs; port addr bs }
         else if atype = 3 then
           (let (len, bs) = jread bs
            in do { (domain, bs) \<leftarrow> readFully len bs;
                    a \<leftarrow> se_getByName env (se_decode env domain);
                    port (getAddress a) bs })
         else if atype = 4 then do { (addr, bs) \<leftarrow> readFully 16 bs; port addr bs }
         else Some (None, bs))"

definition sendReply :: "u8 \<Rightarrow> u8 list" where
  "sendReply status = [5, status, 0, 1, 0, 0, 0, 0, 0, 0]"

text \<open>The reply with the bound address; \<open>None\<close> when the copy throws.\<close>

definition boundReply :: "InetAddress \<Rightarrow> int \<Rightarrow> u8 list option" where
  "boundReply boundAddr boundPort =
     do { reply \<leftarrow> arraycopy (getAddress boundAddr) 0 [5, 0, 0, 1, 0, 0, 0, 0, 0, 0] 4 4;
          reply \<leftarrow> aput reply 8 (word_of_int (boundPort div 2 ^ 8 AND 0xFF));
          aput reply 9 (word_of_int (boundPort AND 0xFF)) }"

definition socks_handleConnect :: "SocksEnv \<Rightarrow> u8 list \<Rightarrow> u8 list \<times> socks_outcome" where
  "socks_handleConnect env bs =
     (case readAddress env bs of
        None \<Rightarrow> ([], S_Closed)
      | Some (None, bs) \<Rightarrow> (sendReply 4, S_Closed)
      | Some (Some (a, port), bs) \<Rightarrow>
          (case Option.bind (se_connect env a port) (\<lambda>(boundAddr, boundPort). boundReply boundAddr boundPort) of
             None \<Rightarrow> ([], S_Closed)
           | Some reply \<Rightarrow> (reply, S_Relay a port bs)))"

definition handleUdpAssociate :: "SocksEnv \<Rightarrow> u8 list \<Rightarrow> u8 list \<times> socks_outcome" where
  "handleUdpAssociate env bs =
     (case readAddress env bs of
        None \<Rightarrow> ([], S_Closed)
      | Some _ \<Rightarrow>
          (case Option.bind (se_udp env) (\<lambda>(boundAddr, boundPort). boundReply boundAddr boundPort) of
             None \<Rightarrow> ([], S_Closed)
           | Some reply \<Rightarrow> (reply, S_Udp)))"

text \<open>The user name and password; \<open>None\<close> is an exception.\<close>

definition authenticateClient :: "SocksEnv \<Rightarrow> SocksProxy \<Rightarrow> u8 list \<Rightarrow> (bool \<times> u8 list) option" where
  "authenticateClient env p bs =
     (let (authVer, bs) = jread bs;
          (ulen, bs) = jread bs
      in do { (user, bs) \<leftarrow> readFully ulen bs;
              let (plen, bs) = jread bs;
              (pass, bs) \<leftarrow> readFully plen bs;
              if sp_authUser p = Some (se_decode env user) then
                do { authPass \<leftarrow> sp_authPass p; Some (authPass = se_decode env pass, bs) }
              else Some (False, bs) })"

definition socks_command :: "SocksEnv \<Rightarrow> u8 list \<Rightarrow> u8 list \<times> socks_outcome" where
  "socks_command env bs =
     (let (cmdVer, bs) = jread bs;
          (cmd, bs) = jread bs;
          (_, bs) = jread bs
      in if cmd = 1 then socks_handleConnect env bs
         else if cmd = 3 then handleUdpAssociate env bs
         else (sendReply 7, S_Closed))"

definition socks_handleClient :: "SocksEnv \<Rightarrow> SocksProxy \<Rightarrow> u8 list \<Rightarrow> u8 list \<times> socks_outcome" where
  "socks_handleClient env p bs =
     (let (ver, bs) = jread bs
      in if ver \<noteq> 5 then ([], S_Closed)
         else
           let (nmethods, bs) = jread bs
           in (case readFully nmethods bs of
                 None \<Rightarrow> ([], S_Closed)
               | Some (methods, bs) \<Rightarrow>
                   if sp_authUser p \<noteq> None then
                     (case authenticateClient env p bs of
                        None \<Rightarrow> ([5, 2], S_Closed)
                      | Some (True, bs) \<Rightarrow> apfst ((@) [5, 2, 1, 0]) (socks_command env bs)
                      | Some (False, bs) \<Rightarrow> ([5, 2, 1, 1], S_Closed))
                   else apfst ((@) [5, 0]) (socks_command env bs)))"

section \<open>Upstream connections of the tether bridge\<close>

datatype SocketMode = TUNNEL | BYPASS

record ZtRoute =
  z_address :: "u8 list"
  z_prefix :: int

record Upstream =
  up_socketMode :: SocketMode
  up_upstreamSocks :: "(InetAddress \<times> int) option"
  up_ztRoutes :: "ZtRoute list"
  up_vpnService :: bool
  up_currentNetwork :: "nat option"

fun any_zt_route :: "u8 list \<Rightarrow> ZtRoute list \<Rightarrow> bool option" where
  "any_zt_route b [] = Some False"
| "any_zt_route b (r # rs) =
     do { i \<leftarrow> isInSubnet b (z_address r) (z_prefix r); if i then Some True else any_zt_route b rs }"

definition isZtSubnet :: "Upstream \<Rightarrow> InetAddress \<Rightarrow> bool option" where
  "isZtSubnet u addr =
     (let b = getAddress addr in if length b \<noteq> 4 then Some False else any_zt_route b (up_ztRoutes u))"

definition setZtRoutes :: "ZtRoute list \<Rightarrow> Upstream \<Rightarrow> Upstream" where
  "setZtRoutes routes u = u\<lparr>up_ztRoutes := routes\<rparr>"

text \<open>
  The client side of SOCKS5 over a connection to the exit node: what it writes, and the rest of the
  stream once the connection is made; \<open>None\<close> when it throws.
\<close>

definition connectViaSocks5 :: "InetAddress \<Rightarrow> int \<Rightarrow> u8 list \<Rightarrow> u8 list \<times> u8 list option" where
  "connectViaSocks5 host port bs =
     (let greeting = [5, 1, 0];
          addr = getAddress host;
          req = [5, 1, 0, if length addr = 4 then 1 else 4] @ addr
                  @ [word_of_int (port div 2 ^ 8 AND 0xFF), word_of_int (port AND 0xFF)]
      in (case readFully 2 bs of
            None \<Rightarrow> (greeting, None)
          | Some (resp, bs) \<Rightarrow>
              if resp ! 0 \<noteq> 5 \<or> resp ! 1 \<noteq> 0 then (greeting, None)
              else (greeting @ req,
                (case readFully 4 bs of
                   None \<Rightarrow> None
                 | Some (connResp, bs) \<Rightarrow>
                     if connResp ! 1 \<noteq> 0 then None
                     else Some
                       (if connResp ! 3 = 1 then drop (4 + 2) bs
                        else if connResp ! 3 = 4 then drop (16 + 2) bs
                        else if connResp ! 3 = 3 then (let (len, bs) = jread bs in drop (nat (len + 2)) bs)
                        else bs)))))"

text \<open>
  How a connection is made: through the exit node, around the tunnel (whether the VPN service
  protects the socket, and the network it is bound to, if there is one), or directly.
\<close>

datatype route_kind =
    K_Socks InetAddress int
  | K_Bypass bool "nat option"
  | K_Direct

definition connectUpstream :: "Upstream \<Rightarrow> InetAddress \<Rightarrow> route_kind option" where
  "connectUpstream u host =
     (case (up_socketMode u, up_upstreamSocks u) of
        (TUNNEL, Some (a, p)) \<Rightarrow> Some (K_Socks a p)
      | (BYPASS, _) \<Rightarrow>
          do { zt \<leftarrow> isZtSubnet u host;
               Some (if \<not> zt then K_Bypass (up_vpnService u) (up_currentNetwork u) else K_Direct) }
      | _ \<Rightarrow> Some K_Direct)"

end
