(* ===== verification/Socks_Props.thy ===== *)
theory Socks_Props
  imports Socks_Proxy
begin

text \<open>
  SOCKS5: the proxy understands the requests of the bridge, refuses a client that does not
  authenticate, and takes the end of the stream for a port.
\<close>

lemma inet_getByAddress: "inet_ok a \<Longrightarrow> getByAddress (getAddress a) = Some a"
  by (cases a) (auto simp: getByAddress_def inet_ok_def)

lemma inet_length: "inet_ok a \<Longrightarrow> length (getAddress a) = (if is_inet4 a then 4 else 16)"
  by (cases a) (auto simp: inet_ok_def)

lemma boundReply_ok:
  assumes "inet_ok a"
  obtains x where "boundReply a p = Some ([5, 0, 0, 1] @ x)" "length x = 6"
proof -
  have "4 \<le> length (getAddress a)" using inet_length [OF assms] by simp
  then have "\<exists>x. boundReply a p = Some ([5, 0, 0, 1] @ x) \<and> length x = 6"
    by (simp add: boundReply_def arraycopy_def mem_write_def aput_def)
  then show ?thesis using that by blast
qed

lemma and_255: "x AND 255 = x mod 256" for x :: int
proof -
  have "x AND mask 8 = x mod 2 ^ 8" by (simp only: take_bit_eq_mask [symmetric] take_bit_eq_mod)
  then show ?thesis by (simp add: mask_eq_exp_minus_1)
qed

lemma or_low_byte: "h * 256 OR (l mod 256) = h * 256 + l mod 256" for h l :: int
proof -
  have "take_bit 8 l OR push_bit 8 h = take_bit 8 l + push_bit 8 h"
    by (simp only: concat_bit_def [symmetric] concat_bit_eq)
  then show ?thesis by (simp add: take_bit_eq_mod push_bit_eq_mult ac_simps)
qed

lemma port_bytes:
  assumes "0 \<le> p" "p < 65536"
  shows "(uint (word_of_int (p div 256 AND 255) :: u8) AND 255) * 256 OR (uint (word_of_int (p AND 255) :: u8) AND 255) = p"
proof -
  have "(p div 256) mod 256 = p div 256" using assms by simp
  then show ?thesis
    by (simp add: and_255 uint_word_of_int or_low_byte)
qed

text \<open>
  C9. The proxy understands what the bridge sends to an exit node: on a greeting and request for a
  host and port, it replies, connects to them and relays the bytes after the request; the bridge
  accepts the reply and goes on with the bytes after it.
\<close>

theorem socks_chain:
  assumes "inet_ok host" "0 \<le> port" "port < 65536" "sp_authUser p = None"
    "se_connect env host port = Some (ba, bp)" "inet_ok ba"
  shows "\<exists>w reply. (\<forall>rest. connectViaSocks5 host port ([5, 0] @ reply @ rest) = (w, Some rest))
    \<and> (\<forall>payload. socks_handleClient env p (w @ payload) = ([5, 0] @ reply, S_Relay host port payload))"
proof -
  obtain x where x: "boundReply ba bp = Some ([5, 0, 0, 1] @ x)" "length x = 6" using boundReply_ok [OF assms(6)] .
  define w where "w = [5, 1, 0] @ [5, 1, 0, if length (getAddress host) = 4 then 1 else 4] @ getAddress host
    @ [word_of_int (port div 256 AND 255), word_of_int (port AND 255) :: u8]"
  have "connectViaSocks5 host port ([5, 0] @ ([5, 0, 0, 1] @ x) @ rest) = (w, Some rest)" for rest
    using x(2) by (simp add: connectViaSocks5_def readFully_def w_def eval_nat_numeral)
  moreover have "socks_handleClient env p (w @ payload) = ([5, 0] @ [5, 0, 0, 1] @ x, S_Relay host port payload)" for payload
    using assms(4,5) x(1) inet_length [OF assms(1)] port_bytes [OF assms(2,3)] inet_getByAddress [OF assms(1)]
    by (simp add: socks_handleClient_def w_def readFully_def socks_command_def socks_handleConnect_def readAddress_def)
  ultimately show ?thesis by blast
qed

definition sample_socks_env :: SocksEnv where
  "sample_socks_env = \<lparr>se_decode = map ucast, se_getByName = (\<lambda>_. None),
     se_connect = (\<lambda>_ _. Some (Inet4Address [10, 147, 1, 1], 40000)), se_udp = None\<rparr>"

definition open_proxy :: SocksProxy where
  "open_proxy = \<lparr>sp_authUser = None, sp_authPass = None\<rparr>"

definition secured_proxy :: SocksProxy where
  "secured_proxy = \<lparr>sp_authUser = Some [117], sp_authPass = Some [112]\<rparr>"

lemma socks_chain_witness:
  "\<exists>w reply. connectViaSocks5 (Inet4Address [1, 1, 1, 1]) 443 ([5, 0] @ reply @ [7]) = (w, Some [7])
    \<and> socks_handleClient sample_socks_env open_proxy (w @ [9]) = ([5, 0] @ reply, S_Relay (Inet4Address [1, 1, 1, 1]) 443 [9])"
  using socks_chain [of "Inet4Address [1, 1, 1, 1]" 443 open_proxy sample_socks_env "Inet4Address [10, 147, 1, 1]" 40000]
  by (fastforce simp: inet_ok_def open_proxy_def sample_socks_env_def)

section \<open>Authentication\<close>

lemma jread_byte:
  assumes "jread bs = (n, rest)" "0 \<le> n"
  obtains b where "bs = b # rest" "n = uint b"
  using assms by (cases bs) auto

lemma readFully_Some:
  assumes "readFully n bs = Some (xs, rest)"
  shows "bs = xs @ rest" "n = int (length xs)" "0 \<le> n"
  using assms by (auto simp: readFully_def split: if_splits)

text \<open>
  C27. With a user name set, a connection is relayed or associated only after the client has sent
  that user name and the password; otherwise it is closed.
\<close>

theorem socks_auth_required:
  assumes "sp_authUser p = Some u" "snd (socks_handleClient env p bs) \<noteq> S_Closed"
  shows "\<exists>methods v user pass rest. bs = 5 # of_nat (length methods) # methods
      @ v @ of_nat (length user) # user @ of_nat (length pass) # pass @ rest
    \<and> length v = 1 \<and> se_decode env user = u \<and> sp_authPass p = Some (se_decode env pass)
    \<and> socks_handleClient env p bs = apfst ((@) [5, 2, 1, 0]) (socks_command env rest)"
proof -
  have of: "b = of_nat n" if "uint b = int n" for b :: u8 and n
    using that by (metis of_int_of_nat_eq word_of_int_uint)
  obtain ver bs1 where 1: "jread bs = (ver, bs1)" by force
  obtain nm bs2 where 2: "jread bs1 = (nm, bs2)" by force
  have "ver = 5" using assms(2) 1 by (auto simp: socks_handleClient_def split: if_splits)
  then have b: "bs = 5 # bs1" using jread_byte [OF 1] by (metis of of_nat_numeral zero_le_numeral)
  obtain methods bs3 where 3: "readFully nm bs2 = Some (methods, bs3)"
    using assms(2) 1 2 \<open>ver = 5\<close> by (auto simp: socks_handleClient_def split: option.splits)
  have b1: "bs1 = of_nat (length methods) # methods @ bs3"
    using jread_byte [OF 2] readFully_Some [OF 3] of by metis
  obtain ok rest where a: "authenticateClient env p bs3 = Some (ok, rest)"
    using assms 1 2 3 \<open>ver = 5\<close> by (auto simp: socks_handleClient_def split: option.splits)
  then have ok: "ok" and r: "socks_handleClient env p bs = apfst ((@) [5, 2, 1, 0]) (socks_command env rest)"
    using assms 1 2 3 \<open>ver = 5\<close> by (auto simp: socks_handleClient_def split: bool.splits)
  obtain av bs4 where 4: "jread bs3 = (av, bs4)" by force
  obtain ul bs5 where 5: "jread bs4 = (ul, bs5)" by force
  obtain user bs6 where 6: "readFully ul bs5 = Some (user, bs6)"
    using a 4 5 by (auto simp: authenticateClient_def split: bind_splits)
  obtain pl bs7 where 7: "jread bs6 = (pl, bs7)" by force
  obtain pass where 8: "readFully pl bs7 = Some (pass, rest)" and u: "se_decode env user = u"
      and pw: "sp_authPass p = Some (se_decode env pass)"
    using a ok 4 5 6 7 assms(1) by (auto simp: authenticateClient_def split: bind_splits if_splits)
  have b4: "bs4 = of_nat (length user) # user @ of_nat (length pass) # pass @ rest"
    using jread_byte [OF 5] readFully_Some [OF 6] jread_byte [OF 7] readFully_Some [OF 8] of by metis
  obtain v where v: "bs3 = v @ bs4" "length v = 1" using 4 b4 by (cases bs3) auto
  have "bs = 5 # of_nat (length methods) # methods @ v @ of_nat (length user) # user
      @ of_nat (length pass) # pass @ rest"
    by (simp only: b b1 v(1) b4 append_assoc)
  then show ?thesis using v(2) u pw r by blast
qed

lemma socks_auth_required_witness:
  "\<exists>rest. socks_handleClient sample_socks_env secured_proxy ([5, 1, 2] @ [1, 1, 117, 1, 112] @ [5, 1, 0, 1, 1, 1, 1, 1, 0, 80])
     = apfst ((@) [5, 2, 1, 0]) (socks_command sample_socks_env rest)"
proof -
  have "sp_authUser secured_proxy = Some [117]" by (simp add: secured_proxy_def)
  moreover have "snd (socks_handleClient sample_socks_env secured_proxy
      ([5, 1, 2] @ [1, 1, 117, 1, 112] @ [5, 1, 0, 1, 1, 1, 1, 1, 0, 80])) \<noteq> S_Closed"
    by code_simp
  ultimately show ?thesis using socks_auth_required by blast
qed

section \<open>Truncated requests\<close>

text \<open>
  A request that ends before its port is not refused: the missing bytes are read as 255, and the
  proxy connects to port 65535, or to the port of the first byte and 255.
\<close>

lemma socks_truncated_port:
  assumes "sp_authUser p = None" "inet_ok host" "is_inet4 host"
    "se_connect env host 65535 = Some (ba, bp)" "se_connect env host (uint h * 256 + 255) = Some (ba, bp)" "inet_ok ba"
  shows "snd (socks_handleClient env p ([5, 1, 0] @ [5, 1, 0, 1] @ getAddress host)) = S_Relay host 65535 []
    \<and> snd (socks_handleClient env p ([5, 1, 0] @ [5, 1, 0, 1] @ getAddress host @ [h])) = S_Relay host (uint h * 256 + 255) []"
proof -
  obtain x where x: "boundReply ba bp = Some ([5, 0, 0, 1] @ x)" using boundReply_ok [OF assms(6)] by blast
  have h: "uint h mod 256 = uint h" using uint_lt2p [of h] by simp
  have "uint h * 256 OR 255 = uint h * 256 + 255" using or_low_byte [of "uint h" 255] by simp
  then show ?thesis
    using assms x inet_length [OF assms(2)] inet_getByAddress [OF assms(2)] h
    by (simp add: socks_handleClient_def readFully_def socks_command_def socks_handleConnect_def readAddress_def and_255)
qed

lemma socks_truncated_port_witness:
  "snd (socks_handleClient sample_socks_env open_proxy [5, 1, 0, 5, 1, 0, 1, 1, 1, 1, 1])
     = S_Relay (Inet4Address [1, 1, 1, 1]) 65535 []"
  using socks_truncated_port [of open_proxy "Inet4Address [1, 1, 1, 1]" sample_socks_env "Inet4Address [10, 147, 1, 1]" 40000 0]
  by (simp add: open_proxy_def sample_socks_env_def inet_ok_def)

section \<open>Split horizon\<close>

lemma be_word_bit:
  assumes "length a = 4" "k < 32"
  shows "bit (be_word a :: u32) (31 - k) \<longleftrightarrow> addr_bit a k"
proof -
  define q r where "q = k div 8" and "r = k mod 8"
  have "q < 4" "r < 8" "k = 8 * q + r" using assms(2) by (auto simp: q_def r_def)
  then have e: "31 - k = (7 - r) + (3 - q) * 8" by linarith
  have "(31 - k) div 8 = 3 - q" "(31 - k) mod 8 = 7 - r"
    using div_mult_self1 [of 8 "7 - r" "3 - q"] mod_mult_self1 [of "7 - r" "3 - q" 8] by (simp_all add: e)
  moreover have "31 - k < 32" "3 - q < 4" by linarith+
  ultimately show ?thesis using assms \<open>q < 4\<close> unfolding bit_be_word addr_bit_def q_def r_def by simp
qed

lemma subnet_bits:
  assumes "length a = 4" "length s = 4" "c \<le> 32"
  shows "isInSubnet a s (int c) = Some (\<forall>k < c. addr_bit a k = addr_bit s k)"
proof -
  define v w :: u32 where "v = be_word a" and "w = be_word s"
  define m :: u32 where "m = (if c = 0 then 0 else ishl 0xffffffff (32 - int c))"
  have m: "bit m (31 - k) \<longleftrightarrow> k < c" if "k < 32" for k
  proof (cases "c = 0")
    case False
    have "(32 - int c) mod 32 = 32 - int c" using assms(3) False by (intro mod_pos_pos_trivial) auto
    then have e: "nat ((32 - int c) mod 32) = 32 - c" using assms(3) by linarith
    have ff: "(0xffffffff :: u32) = - 1" by simp
    have "m = push_bit (32 - c) (- 1)"
      using False unfolding m_def ishl_def e ff by (simp only: of_nat_eq_0_iff if_False)
    then show ?thesis using that assms(3) False by (auto simp: bit_simps)
  qed (simp add: m_def)
  have "v AND m = w AND m \<longleftrightarrow> (\<forall>k < 32. k < c \<longrightarrow> bit v (31 - k) = bit w (31 - k))"
  proof
    assume *: "v AND m = w AND m"
    show "\<forall>k < 32. k < c \<longrightarrow> bit v (31 - k) = bit w (31 - k)"
    proof (intro allI impI)
      fix k :: nat
      assume k: "k < 32" "k < c"
      have "bit (v AND m) (31 - k) = bit (w AND m) (31 - k)" by (simp only: *)
      then show "bit v (31 - k) = bit w (31 - k)" using m [OF k(1)] k(2) by (simp add: bit_and_iff)
    qed
  next
    assume *: "\<forall>k < 32. k < c \<longrightarrow> bit v (31 - k) = bit w (31 - k)"
    show "v AND m = w AND m"
    proof (rule bit_word_eqI)
      fix n
      assume n: "n < LENGTH(32)"
      then have "bit m n \<longleftrightarrow> 31 - n < c" "31 - (31 - n) = n" using m [of "31 - n"] by auto
      then show "bit (v AND m) n = bit (w AND m) n" using * [rule_format, of "31 - n"] n by (auto simp: bit_and_iff)
    qed
  qed
  also have "\<dots> \<longleftrightarrow> (\<forall>k < c. addr_bit a k = addr_bit s k)"
    using assms be_word_bit by (auto simp: v_def w_def)
  finally show ?thesis using assms(1,2) by (simp add: isInSubnet_def getInt_def m_def v_def w_def)
qed

text \<open>
  The number of leading bits that are compared with a managed route: the shift distance of the mask
  counts modulo 32, so that of an IPv6 route wraps around.
\<close>

definition zt_bits :: "int \<Rightarrow> nat" where
  "zt_bits p = (if p = 0 then 0 else nat ((p - 1) mod 32) + 1)"

lemma zt_bits_v4: "0 \<le> p \<Longrightarrow> p \<le> 32 \<Longrightarrow> zt_bits p = nat p"
  by (auto simp: zt_bits_def nat_diff_distrib)

lemma zt_bits_le: "zt_bits p \<le> 32"
proof -
  have "(p - 1) mod 32 < 32" by simp
  then show ?thesis by (auto simp: zt_bits_def)
qed

lemma isInSubnet_leading:
  assumes "length a = 4" "4 \<le> length s"
  shows "isInSubnet a s p = Some (\<forall>k < zt_bits p. addr_bit a k = addr_bit s k)"
proof -
  have "(32 - p) mod 32 = (32 - int (zt_bits p)) mod 32" if "p \<noteq> 0"
  proof -
    have "int (zt_bits p) = (p - 1) mod 32 + 1" using that by (simp add: zt_bits_def)
    then have "32 - int (zt_bits p) = 31 - (p - 1) mod 32" by simp
    moreover have "(31 - (p - 1) mod 32) mod 32 = (31 - (p - 1)) mod 32" by (rule mod_diff_right_eq)
    moreover have "31 - (p - 1) = 32 - p" by simp
    ultimately show ?thesis by (simp only:)
  qed
  moreover have "p \<noteq> 0 \<Longrightarrow> zt_bits p \<noteq> 0" "zt_bits 0 = 0" by (simp_all add: zt_bits_def)
  ultimately have "isInSubnet a s p = isInSubnet a (take 4 s) (int (zt_bits p))"
    using assms(2) by (cases "p = 0") (simp_all add: isInSubnet_def getInt_def ishl_def)
  moreover have "length (take 4 s) = 4" using assms(2) by simp
  ultimately have "isInSubnet a s p = Some (\<forall>k < zt_bits p. addr_bit a k = addr_bit (take 4 s) k)"
    using subnet_bits [OF assms(1) _ zt_bits_le] by metis
  moreover have "addr_bit (take 4 s) k = addr_bit s k" if "k < zt_bits p" for k
    using that zt_bits_le [of p] assms(2) by (simp add: addr_bit_def)
  ultimately show ?thesis by simp
qed

text \<open>The managed routes of a network, of either family.\<close>

definition zt_route_ok :: "ZtRoute \<Rightarrow> bool" where
  "zt_route_ok r \<longleftrightarrow> 0 \<le> z_prefix r
     \<and> (length (z_address r) = 4 \<and> z_prefix r \<le> 32 \<or> length (z_address r) = 16 \<and> z_prefix r \<le> 128)"

definition agrees :: "nat \<Rightarrow> u8 list \<Rightarrow> u8 list \<Rightarrow> bool" where
  "agrees n a b \<longleftrightarrow> (\<forall>k < n. addr_bit a k = addr_bit b k)"

lemma any_zt_route_bits:
  assumes "length b = 4" "list_all zt_route_ok rs"
  shows "any_zt_route b rs = Some (\<exists>r \<in> set rs. agrees (zt_bits (z_prefix r)) b (z_address r))"
  using assms(2)
proof (induction rs)
  case (Cons r rs)
  have "isInSubnet b (z_address r) (z_prefix r) = Some (agrees (zt_bits (z_prefix r)) b (z_address r))"
    using isInSubnet_leading [OF assms(1), of "z_address r" "z_prefix r"] Cons.prems
    by (auto simp: zt_route_ok_def agrees_def)
  then show ?case using Cons by auto
qed simp


definition sample_upstream :: Upstream where
  "sample_upstream = \<lparr>up_socketMode = BYPASS, up_upstreamSocks = None,
     up_ztRoutes = [\<lparr>z_address = [10, 147, 0, 0], z_prefix = 16\<rparr>,
       \<lparr>z_address = [0xfd, 0x80, 1, 2, 3, 4, 5, 6, 0, 0, 0, 0, 0, 0, 0, 0], z_prefix = 88\<rparr>],
     up_vpnService = True, up_currentNetwork = Some 3\<rparr>"


end
