(* ===== verification/Socks_Relay.thy ===== *)
theory Socks_Relay
  imports Socks_Proxy
begin

text \<open>
  The relay of \<^verbatim>\<open>SocksProxy.java\<close> (\<^verbatim>\<open>HttpProxy.java\<close> has the same one): two threads copy the bytes of
  either side to the other, and the caller waits for the first only before it closes both sockets.
  What a side sends before the end of its stream is the list of the chunks that its reads return;
  the steps of the threads are interleaved in any order, and any read or write may fail.
\<close>

record Relay =
  r_client_in :: "u8 list list"
  r_upstream_in :: "u8 list list"
  r_to_upstream :: "u8 list"
  r_to_client :: "u8 list"
  r_upload :: bool
  r_download :: bool
  r_closed :: bool
  r_bytesTransferred :: nat

text \<open>One turn of a copy thread: a chunk, or the end when the stream ends.\<close>

definition copy_up :: "Relay \<Rightarrow> Relay" where
  "copy_up r =
     (case r_client_in r of
        [] \<Rightarrow> r\<lparr>r_upload := False\<rparr>
      | buf # rest \<Rightarrow>
          r\<lparr>r_client_in := rest, r_to_upstream := r_to_upstream r @ buf,
            r_bytesTransferred := r_bytesTransferred r + length buf\<rparr>)"

definition copy_down :: "Relay \<Rightarrow> Relay" where
  "copy_down r =
     (case r_upstream_in r of
        [] \<Rightarrow> r\<lparr>r_download := False\<rparr>
      | buf # rest \<Rightarrow>
          r\<lparr>r_upstream_in := rest, r_to_client := r_to_client r @ buf,
            r_bytesTransferred := r_bytesTransferred r + length buf\<rparr>)"

inductive relay_step :: "Relay \<Rightarrow> Relay \<Rightarrow> bool" where
  up: "r_upload r \<Longrightarrow> \<not> r_closed r \<Longrightarrow> relay_step r (copy_up r)"
| down: "r_download r \<Longrightarrow> \<not> r_closed r \<Longrightarrow> relay_step r (copy_down r)"
| up_fails: "r_upload r \<Longrightarrow> relay_step r (r\<lparr>r_upload := False\<rparr>)"
| down_fails: "r_download r \<Longrightarrow> relay_step r (r\<lparr>r_download := False\<rparr>)"
| close: "\<not> r_upload r \<Longrightarrow> \<not> r_closed r \<Longrightarrow> relay_step r (r\<lparr>r_closed := True\<rparr>)"

inductive_cases relay_stepE: "relay_step r r'"

definition relay_init :: "u8 list list \<Rightarrow> u8 list list \<Rightarrow> Relay" where
  "relay_init cs us = \<lparr>r_client_in = cs, r_upstream_in = us, r_to_upstream = [], r_to_client = [],
     r_upload = True, r_download = True, r_closed = False, r_bytesTransferred = 0\<rparr>"

definition relay_inv :: "u8 list list \<Rightarrow> u8 list list \<Rightarrow> Relay \<Rightarrow> bool" where
  "relay_inv cs us r \<longleftrightarrow>
     concat cs = r_to_upstream r @ concat (r_client_in r)
   \<and> concat us = r_to_client r @ concat (r_upstream_in r)
   \<and> r_bytesTransferred r = length (r_to_upstream r) + length (r_to_client r)
   \<and> (r_closed r \<longrightarrow> \<not> r_upload r)"

lemma relay_inv_step: "relay_step r r' \<Longrightarrow> relay_inv cs us r \<Longrightarrow> relay_inv cs us r'"
  by (erule relay_stepE) (auto simp: relay_inv_def copy_up_def copy_down_def split: list.splits)

lemma relay_inv_reach: "relay_step\<^sup>*\<^sup>* (relay_init cs us) r \<Longrightarrow> relay_inv cs us r"
  by (induction rule: rtranclp_induct) (auto simp: relay_init_def intro: relay_inv_step, simp add: relay_inv_def)

text \<open>A client that has sent everything: the upload ends and both sockets are closed.\<close>

lemma upload_all:
  assumes "r_upload r" "\<not> r_closed r"
  shows "relay_step\<^sup>*\<^sup>* r (r\<lparr>r_client_in := [], r_to_upstream := r_to_upstream r @ concat (r_client_in r),
    r_bytesTransferred := r_bytesTransferred r + length (concat (r_client_in r)), r_upload := False, r_closed := True\<rparr>)"
  using assms
proof (induction "r_client_in r" arbitrary: r)
  case Nil
  have "relay_step r (r\<lparr>r_upload := False\<rparr>)" using up [of r] Nil by (simp add: copy_up_def)
  moreover have "relay_step (r\<lparr>r_upload := False\<rparr>) (r\<lparr>r_upload := False, r_closed := True\<rparr>)"
    using close [of "r\<lparr>r_upload := False\<rparr>"] Nil by simp
  ultimately have "relay_step\<^sup>*\<^sup>* r (r\<lparr>r_upload := False, r_closed := True\<rparr>)" by auto
  moreover have "r\<lparr>r_client_in := [], r_to_upstream := r_to_upstream r @ concat (r_client_in r),
      r_bytesTransferred := r_bytesTransferred r + length (concat (r_client_in r)), r_upload := False, r_closed := True\<rparr>
      = r\<lparr>r_upload := False, r_closed := True\<rparr>"
    using Nil.hyps by (cases r) simp
  ultimately show ?case by simp
next
  case (Cons c cs)
  let ?r = "copy_up r"
  have s: "relay_step r ?r" using up Cons.prems .
  have r: "?r = r\<lparr>r_client_in := cs, r_to_upstream := r_to_upstream r @ c,
      r_bytesTransferred := r_bytesTransferred r + length c\<rparr>"
    using Cons.hyps(2) [symmetric] by (simp add: copy_up_def)
  have "relay_step\<^sup>*\<^sup>* ?r (?r\<lparr>r_client_in := [], r_to_upstream := r_to_upstream ?r @ concat (r_client_in ?r),
    r_bytesTransferred := r_bytesTransferred ?r + length (concat (r_client_in ?r)), r_upload := False, r_closed := True\<rparr>)"
    using Cons.prems by (intro Cons.hyps(1)) (simp_all add: r)
  with s show ?case
    using Cons.hyps(2) [symmetric] by (auto simp: r add.assoc intro: converse_rtranclp_into_rtranclp)
qed

text \<open>
  C26. In every interleaving each side receives a prefix of what the other sends, in order, and the
  counter is their length; but a client that ends its own stream after its request may get nothing:
  a run closes both sockets before any of the answer is copied.
\<close>

theorem relay_prefixes_but_half_close:
  "(relay_step\<^sup>*\<^sup>* (relay_init cs us) r \<longrightarrow>
      concat cs = r_to_upstream r @ concat (r_client_in r) \<and> concat us = r_to_client r @ concat (r_upstream_in r)
      \<and> r_bytesTransferred r = length (r_to_upstream r) + length (r_to_client r))
   \<and> (\<exists>r'. relay_step\<^sup>*\<^sup>* (relay_init cs us) r' \<and> r_to_upstream r' = concat cs \<and> r_to_client r' = []
       \<and> r_closed r' \<and> (\<forall>r''. relay_step\<^sup>*\<^sup>* r' r'' \<longrightarrow> r_to_client r'' = []))"
proof (intro conjI impI)
  show "concat cs = r_to_upstream r @ concat (r_client_in r)" "concat us = r_to_client r @ concat (r_upstream_in r)"
    "r_bytesTransferred r = length (r_to_upstream r) + length (r_to_client r)" if "relay_step\<^sup>*\<^sup>* (relay_init cs us) r"
    using relay_inv_reach [OF that] by (simp_all add: relay_inv_def)
  obtain r' where r: "relay_step\<^sup>*\<^sup>* (relay_init cs us) r'" "r_to_upstream r' = concat cs" "r_to_client r' = []" "r_closed r'"
    using upload_all [of "relay_init cs us"] by (fastforce simp: relay_init_def)
  have "r_closed r'' \<and> r_to_client r'' = []" if "relay_step\<^sup>*\<^sup>* r' r''" for r''
    using that by (induction rule: rtranclp_induct) (use r in \<open>auto elim: relay_stepE\<close>)
  then show "\<exists>r'. relay_step\<^sup>*\<^sup>* (relay_init cs us) r' \<and> r_to_upstream r' = concat cs \<and> r_to_client r' = []
       \<and> r_closed r' \<and> (\<forall>r''. relay_step\<^sup>*\<^sup>* r' r'' \<longrightarrow> r_to_client r'' = [])"
    using r by blast
qed

lemma relay_prefixes_but_half_close_witness:
  "\<exists>r'. relay_step\<^sup>*\<^sup>* (relay_init [[1]] [[2, 3]]) r' \<and> r_to_client r' = [] \<and> r_closed r'"
  using relay_prefixes_but_half_close [of "[[1]]" "[[2, 3]]"] by blast

end
