(* ===== verification/Tether_State.thy ===== *)
theory Tether_State
  imports Socks_Props
begin

text \<open>
  The state of tethering: \<^verbatim>\<open>TetherDetector.java\<close>, which polls the interfaces of the device,
  \<^verbatim>\<open>UpstreamSelector.java\<close>, which follows the network that Android reports, and the state of
  \<^verbatim>\<open>TetherBridge.java\<close>, which listens to both. The interfaces of the device and the callbacks of
  Android are the events; a callback arrives only while it is registered.
\<close>

section \<open>Detector\<close>

datatype TetherType = USB | WIFI | BLUETOOTH | ETHERNET

text \<open>The address and prefix that the subnet test uses, with the name and type.\<close>

record DetectedInterface = TetherInterface +
  t_name :: string
  t_type :: TetherType

text \<open>Interfaces are equal when their names are.\<close>

definition same_interfaces :: "DetectedInterface list \<Rightarrow> DetectedInterface list \<Rightarrow> bool" where
  "same_interfaces xs ys \<longleftrightarrow> map t_name xs = map t_name ys"

definition startsWith :: "string \<Rightarrow> string \<Rightarrow> bool" where
  "startsWith s p \<longleftrightarrow> take (length p) s = p"

definition classifyInterface :: "string \<Rightarrow> TetherType option" where
  "classifyInterface name =
     (if list_ex (startsWith name) [''rndis'', ''ncm'', ''usb''] then Some USB
      else if list_ex (startsWith name) [''wlan-hotspot'', ''ap0'', ''swlan''] then Some WIFI
      else if list_ex (startsWith name) [''bt-pan'', ''bnep''] then Some BLUETOOTH
      else if list_ex (startsWith name) [''eth''] then Some ETHERNET
      else None)"

definition isPrivateAddress :: "InetAddress \<Rightarrow> bool" where
  "isPrivateAddress addr =
     (let b = getAddress addr;
          first = unat (b ! 0);
          second = unat (b ! 1)
      in first = 10 \<or> (first = 172 \<and> second \<ge> 16 \<and> second \<le> 31) \<or> (first = 192 \<and> second = 168))"

text \<open>An interface of the device: its name, whether it is up, its addresses with prefix lengths.\<close>

record NetworkInterface =
  ni_name :: string
  ni_isUp :: bool
  ni_addresses :: "(InetAddress \<times> int) list"

definition detectTetherInterfaces :: "NetworkInterface list \<Rightarrow> DetectedInterface list" where
  "detectTetherInterfaces interfaces =
     List.map_filter (\<lambda>ni.
       if \<not> ni_isUp ni then None
       else (case classifyInterface (ni_name ni) of
               None \<Rightarrow> None
             | Some ty \<Rightarrow>
                 map_option (\<lambda>(addr, prefix).
                     \<lparr>i_address = addr, i_prefixLength = prefix, t_name = ni_name ni, t_type = ty\<rparr>)
                   (List.find (\<lambda>(addr, _). is_inet4 addr \<and> isPrivateAddress addr) (ni_addresses ni)))) interfaces"

section \<open>Bridge\<close>

datatype State = IDLE | DETECTING | ACTIVE | ERROR

record Tether =
  th_state :: State
  th_notified :: "State list"
  th_detecting :: bool
  th_activeInterfaces :: "DetectedInterface list"
  th_registered :: bool
  th_currentNetwork :: "nat option"

definition hasUpstream :: "Tether \<Rightarrow> bool" where
  "hasUpstream t \<longleftrightarrow> th_currentNetwork t \<noteq> None"

text \<open>The listeners of the state are a trace.\<close>

definition setState :: "State \<Rightarrow> Tether \<Rightarrow> Tether" where
  "setState newState t =
     (if th_state t = newState then t
      else t\<lparr>th_state := newState, th_notified := th_notified t @ [newState]\<rparr>)"

definition detector_start :: "Tether \<Rightarrow> Tether" where
  "detector_start t = (if th_detecting t then t else t\<lparr>th_detecting := True\<rparr>)"

definition detector_stop :: "Tether \<Rightarrow> Tether" where
  "detector_stop t = t\<lparr>th_detecting := False, th_activeInterfaces := []\<rparr>"

definition upstream_start :: "Tether \<Rightarrow> Tether" where
  "upstream_start t = (if th_registered t then t else t\<lparr>th_registered := True\<rparr>)"

definition upstream_stop :: "Tether \<Rightarrow> Tether" where
  "upstream_stop t = t\<lparr>th_registered := False, th_currentNetwork := None\<rparr>"

definition bridge_start :: "Tether \<Rightarrow> Tether" where
  "bridge_start t =
     (if th_state t \<noteq> IDLE then t else upstream_start (detector_start (setState DETECTING t)))"

definition bridge_stop :: "Tether \<Rightarrow> Tether" where
  "bridge_stop t = setState IDLE (upstream_stop (detector_stop t))"

definition onTetherInterfacesChanged :: "DetectedInterface list \<Rightarrow> Tether \<Rightarrow> Tether" where
  "onTetherInterfacesChanged interfaces t =
     (if interfaces = [] then (if th_state t = ACTIVE then setState DETECTING t else t)
      else if hasUpstream t then setState ACTIVE t else t)"

text \<open>One turn of the poll thread.\<close>

definition poll :: "NetworkInterface list \<Rightarrow> Tether \<Rightarrow> Tether" where
  "poll interfaces t =
     (if \<not> th_detecting t then t
      else
        let detected = detectTetherInterfaces interfaces
        in if same_interfaces detected (th_activeInterfaces t) then t
           else onTetherInterfacesChanged detected (t\<lparr>th_activeInterfaces := detected\<rparr>))"

definition onUpstreamChanged :: "Tether \<Rightarrow> Tether" where
  "onUpstreamChanged t = (if th_activeInterfaces t \<noteq> [] then setState ACTIVE t else t)"

definition onUpstreamLost :: "Tether \<Rightarrow> Tether" where
  "onUpstreamLost t = (if th_state t = ACTIVE then setState ERROR t else t)"

definition onAvailable :: "nat \<Rightarrow> Tether \<Rightarrow> Tether" where
  "onAvailable network t =
     (if th_registered t then onUpstreamChanged (t\<lparr>th_currentNetwork := Some network\<rparr>) else t)"

definition onCapabilitiesChanged :: "nat \<Rightarrow> Tether \<Rightarrow> Tether" where
  "onCapabilitiesChanged network t = (if th_registered t then t\<lparr>th_currentNetwork := Some network\<rparr> else t)"

definition onLost :: "nat \<Rightarrow> Tether \<Rightarrow> Tether" where
  "onLost network t =
     (if th_registered t \<and> th_currentNetwork t = Some network
      then onUpstreamLost (t\<lparr>th_currentNetwork := None\<rparr>) else t)"

datatype tether_event =
    E_start
  | E_stop
  | E_poll "NetworkInterface list"
  | E_available nat
  | E_capabilities nat
  | E_lost nat

primrec tether_step :: "tether_event \<Rightarrow> Tether \<Rightarrow> Tether" where
  "tether_step E_start t = bridge_start t"
| "tether_step E_stop t = bridge_stop t"
| "tether_step (E_poll is) t = poll is t"
| "tether_step (E_available n) t = onAvailable n t"
| "tether_step (E_capabilities n) t = onCapabilitiesChanged n t"
| "tether_step (E_lost n) t = onLost n t"

definition tether_init :: Tether where
  "tether_init = \<lparr>th_state = IDLE, th_notified = [], th_detecting = False, th_activeInterfaces = [],
     th_registered = False, th_currentNetwork = None\<rparr>"

section \<open>When tethering is active\<close>

text \<open>
  Android reports capabilities of a network that it has reported as available and not as lost: a
  change is about the current network.
\<close>

definition tether_enabled :: "tether_event \<Rightarrow> Tether \<Rightarrow> bool" where
  "tether_enabled e t \<longleftrightarrow> (case e of E_capabilities n \<Rightarrow> hasUpstream t | _ \<Rightarrow> True)"

definition tether_ok :: "Tether \<Rightarrow> bool" where
  "tether_ok t \<longleftrightarrow>
     (th_state t = ACTIVE \<longleftrightarrow> hasUpstream t \<and> th_activeInterfaces t \<noteq> [])
   \<and> (th_state t = IDLE \<longleftrightarrow> \<not> th_detecting t) \<and> th_registered t = th_detecting t
   \<and> (\<not> th_detecting t \<longrightarrow> th_activeInterfaces t = [] \<and> th_currentNetwork t = None)
   \<and> last (IDLE # th_notified t) = th_state t"

lemmas tether_defs = bridge_start_def bridge_stop_def poll_def onAvailable_def onCapabilitiesChanged_def onLost_def
  onUpstreamChanged_def onUpstreamLost_def onTetherInterfacesChanged_def setState_def detector_start_def
  detector_stop_def upstream_start_def upstream_stop_def hasUpstream_def

interpretation tether: invariant_system tether_step tether_enabled "\<lambda>t. t = tether_init" tether_ok
proof
  show "tether_ok t" if "t = tether_init" for t
    using that by (simp add: tether_ok_def tether_init_def hasUpstream_def)
  show "tether_ok (tether_step e t)" if "tether_ok t" "tether_enabled e t" for e t
    using that unfolding tether_ok_def tether_enabled_def
    by (cases e; cases "th_state t") (auto simp: tether_defs Let_def same_interfaces_def)
qed

text \<open>
  C11. In every sequence of starts, stops, polls and network callbacks, tethering is active exactly
  while there is an upstream network and a tether interface; it is idle exactly while the
  detector is stopped; and the state the listeners were last told is the current one.
\<close>

theorem tether_active_iff:
  assumes "tether.run_ok es tether_init"
  defines "t \<equiv> tether.run es tether_init"
  shows "(th_state t = ACTIVE \<longleftrightarrow> th_currentNetwork t \<noteq> None \<and> th_activeInterfaces t \<noteq> [])
    \<and> (th_state t = IDLE \<longleftrightarrow> \<not> th_detecting t) \<and> last (IDLE # th_notified t) = th_state t"
proof -
  have "tether_ok t" using tether.run_inv [OF tether.start_inv [OF refl] assms(1)] by (simp add: t_def)
  then show ?thesis unfolding tether_ok_def hasUpstream_def by blast
qed

definition sample_hotspot :: "InetAddress \<Rightarrow> NetworkInterface list" where
  "sample_hotspot a = [\<lparr>ni_name = ''swlan0'', ni_isUp = True, ni_addresses = [(a, 24)]\<rparr>]"

lemma sample_detected:
  "detectTetherInterfaces (sample_hotspot (Inet4Address [192, 168, 43, 1]))
     = [\<lparr>i_address = Inet4Address [192, 168, 43, 1], i_prefixLength = 24, t_name = ''swlan0'', t_type = WIFI\<rparr>]"
  "detectTetherInterfaces (sample_hotspot (Inet4Address [192, 168, 77, 1]))
     = [\<lparr>i_address = Inet4Address [192, 168, 77, 1], i_prefixLength = 24, t_name = ''swlan0'', t_type = WIFI\<rparr>]"
  by code_simp+

lemma tether_active_iff_witness:
  "th_state (tether.run [E_start, E_poll (sample_hotspot (Inet4Address [192, 168, 43, 1])), E_available 5, E_capabilities 5] tether_init) = ACTIVE
    \<and> th_state (tether.run [E_start, E_poll (sample_hotspot (Inet4Address [192, 168, 43, 1])), E_available 5, E_lost 5] tether_init) \<noteq> ACTIVE"
proof -
  have "tether.run_ok [E_start, E_poll (sample_hotspot (Inet4Address [192, 168, 43, 1])), E_available 5, E_capabilities 5] tether_init"
      "tether.run_ok [E_start, E_poll (sample_hotspot (Inet4Address [192, 168, 43, 1])), E_available 5, E_lost 5] tether_init"
    by (simp_all add: tether_enabled_def tether_defs tether_init_def same_interfaces_def sample_detected)
  from this [THEN tether_active_iff] show ?thesis
    by (simp add: tether_defs tether_init_def same_interfaces_def sample_detected)
qed

section \<open>An interface that changes its address\<close>

lemma poll_same_names:
  assumes "\<forall>is \<in> set iss. map t_name (detectTetherInterfaces is) = map t_name (th_activeInterfaces t)"
  shows "fold poll iss t = t"
  using assms by (induction iss) (simp_all add: poll_def same_interfaces_def)

text \<open>
  A change of address is not seen: as long as the polls find interfaces of the same names, the
  subnet test goes on with the addresses that were first detected, whatever they are now.
\<close>

lemma tether_subnet_stale:
  assumes "th_detecting t" "\<not> same_interfaces (detectTetherInterfaces is0) (th_activeInterfaces t)"
    "\<forall>is \<in> set iss. map t_name (detectTetherInterfaces is) = map t_name (detectTetherInterfaces is0)"
  shows "isTetherSubnetAddress (map TetherInterface.truncate (th_activeInterfaces (fold poll (is0 # iss) t))) client
    = isTetherSubnetAddress (map TetherInterface.truncate (detectTetherInterfaces is0)) client"
proof -
  have a: "th_activeInterfaces (poll is0 t) = detectTetherInterfaces is0"
    using assms(1,2) by (simp add: poll_def Let_def onTetherInterfacesChanged_def setState_def)
  then show ?thesis using poll_same_names [of iss "poll is0 t"] assms(3) by simp
qed

lemma tether_subnet_stale_witness:
  "\<exists>t. isTetherSubnetAddress (map TetherInterface.truncate (th_activeInterfaces t)) [192, 168, 77, 9] = Some False
    \<and> t = fold poll [sample_hotspot (Inet4Address [192, 168, 43, 1]), sample_hotspot (Inet4Address [192, 168, 77, 1])]
           (bridge_start tether_init)"
proof -
  have "isTetherSubnetAddress (map TetherInterface.truncate
      [\<lparr>i_address = Inet4Address [192, 168, 43, 1], i_prefixLength = 24, t_name = ''swlan0'', t_type = WIFI\<rparr>])
      [192, 168, 77, 9] = Some False"
    by code_simp
  then show ?thesis
    using tether_subnet_stale [of "bridge_start tether_init" "sample_hotspot (Inet4Address [192, 168, 43, 1])"
        "[sample_hotspot (Inet4Address [192, 168, 77, 1])]" "[192, 168, 77, 9]"]
    by (simp add: sample_detected same_interfaces_def tether_defs tether_init_def)
qed

end
