(* ===== verification/Ip4_Addr.thy ===== *)
theory Ip4_Addr
  imports Netif_Props
begin

text \<open>
  \<^verbatim>\<open>externals/lwip/src/core/ipv4/ip4_addr.c\<close>: broadcast addresses, netmasks, and IPv4 addresses as
  text. An address is the 32-bit word in network order, on a little-endian host; a string is the
  list of its characters before the terminating zero.
\<close>

definition IPADDR_ANY :: u32 where
  "IPADDR_ANY = 0"

definition IPADDR_NONE :: u32 where
  "IPADDR_NONE = 0xffffffff"

definition ip4_addr_isbroadcast_u32 :: "u32 \<Rightarrow> netif \<Rightarrow> bool" where
  "ip4_addr_isbroadcast_u32 a netif =
     (if NOT a = IPADDR_ANY \<or> a = IPADDR_ANY then True
      else if nf_flags netif AND NETIF_FLAG_BROADCAST = 0 then False
      else if a = nf_ip_addr netif then False
      else a AND nf_netmask netif = nf_ip_addr netif AND nf_netmask netif
           \<and> a AND NOT (nf_netmask netif) = 0xffffffff AND NOT (nf_netmask netif))"

text \<open>The two loops over the bits of a netmask: the first zero, then no one.\<close>

function first_zero :: "u32 \<Rightarrow> u32 \<Rightarrow> u32" where
  "first_zero nm msk = (if msk \<noteq> 0 \<and> nm AND msk \<noteq> 0 then first_zero nm (drop_bit 1 msk) else msk)"
  by pat_completeness auto
termination
proof (relation "measure (\<lambda>(nm, msk). unat msk)")
  fix nm msk :: u32
  assume "msk \<noteq> 0 \<and> nm AND msk \<noteq> 0"
  then have "unat msk \<noteq> 0" by (simp add: unat_eq_zero)
  then show "((nm, drop_bit 1 msk), nm, msk) \<in> measure (\<lambda>(nm, msk). unat msk)"
    by (simp add: unat_drop_bit)
qed simp

function no_one :: "u32 \<Rightarrow> u32 \<Rightarrow> bool" where
  "no_one nm msk = (if msk = 0 then True else if nm AND msk \<noteq> 0 then False else no_one nm (drop_bit 1 msk))"
  by pat_completeness auto
termination
proof (relation "measure (\<lambda>(nm, msk). unat msk)")
  fix nm msk :: u32
  assume "msk \<noteq> 0"
  then have "unat msk \<noteq> 0" by (simp add: unat_eq_zero)
  then show "((nm, drop_bit 1 msk), nm, msk) \<in> measure (\<lambda>(nm, msk). unat msk)"
    by (simp add: unat_drop_bit)
qed simp

declare first_zero.simps [simp del] no_one.simps [simp del]

definition ip4_addr_netmask_valid :: "u32 \<Rightarrow> bool" where
  "ip4_addr_netmask_valid netmask =
     (let nm_hostorder = lwip_htonl netmask in no_one nm_hostorder (first_zero nm_hostorder 0x80000000))"

section \<open>Text to address\<close>

definition in_range :: "u8 \<Rightarrow> u8 \<Rightarrow> u8 \<Rightarrow> bool" where
  "in_range c lo up \<longleftrightarrow> lo \<le> c \<and> c \<le> up"

definition lwip_isdigit :: "u8 \<Rightarrow> bool" where
  "lwip_isdigit c = in_range c 48 57"

definition lwip_isxdigit :: "u8 \<Rightarrow> bool" where
  "lwip_isxdigit c \<longleftrightarrow> lwip_isdigit c \<or> in_range c 97 102 \<or> in_range c 65 70"

definition lwip_isspace :: "u8 \<Rightarrow> bool" where
  "lwip_isspace c \<longleftrightarrow> c = 32 \<or> c = 12 \<or> c = 10 \<or> c = 13 \<or> c = 9 \<or> c = 11"

text \<open>The digits of a number in its base, and where they end.\<close>

fun aton_digits :: "u32 \<Rightarrow> string \<Rightarrow> u32 \<Rightarrow> u32 \<times> string" where
  "aton_digits base [] val = (val, [])"
| "aton_digits base (ch # cp) val =
     (let c = byte_of ch
      in if lwip_isdigit c then aton_digits base cp (val * base + (ucast c - 48))
         else if base = 16 \<and> lwip_isxdigit c
         then aton_digits base cp (push_bit 4 val OR (ucast c + 10 - (if is_lower c then 97 else 65)))
         else (val, ch # cp))"

definition aton_number :: "string \<Rightarrow> (u32 \<times> string) option" where
  "aton_number cp =
     (if \<not> lwip_isdigit (c_at cp) then None
      else if c_at cp = 48 then
        let cp = tl cp
        in Some (if c_at cp = 120 \<or> c_at cp = 88 then aton_digits 16 (tl cp) 0 else aton_digits 8 cp 0)
      else Some (aton_digits 10 cp 0))"

function aton_parts :: "string \<Rightarrow> u32 list \<Rightarrow> (u32 \<times> u32 list \<times> string) option" where
  "aton_parts cp parts =
     (case aton_number cp of
        None \<Rightarrow> None
      | Some (val, cp) \<Rightarrow>
          if c_at cp = 46 then
            if length parts \<ge> 3 then None else aton_parts (tl cp) (parts @ [val])
          else Some (val, parts, cp))"
  by pat_completeness auto
termination
  by (relation "measure (\<lambda>(cp, parts). 3 - length parts)") auto

declare aton_parts.simps [simp del]

definition ip4addr_aton :: "string \<Rightarrow> u32 option" where
  "ip4addr_aton cp =
     (case aton_parts cp [] of
        None \<Rightarrow> None
      | Some (val, parts, cp) \<Rightarrow>
          if c_at cp \<noteq> 0 \<and> \<not> lwip_isspace (c_at cp) then None
          else map_option lwip_htonl
            (case parts of
               [] \<Rightarrow> Some val
             | [a] \<Rightarrow> if val > 0xffffff \<or> a > 0xff then None else Some (val OR push_bit 24 a)
             | [a, b] \<Rightarrow>
                 if val > 0xffff \<or> a > 0xff \<or> b > 0xff then None
                 else Some (val OR (push_bit 24 a OR push_bit 16 b))
             | [a, b, d] \<Rightarrow>
                 if val > 0xff \<or> a > 0xff \<or> b > 0xff \<or> d > 0xff then None
                 else Some (val OR (push_bit 24 a OR push_bit 16 b OR push_bit 8 d))
             | _ \<Rightarrow> Some val))"

definition ipaddr_addr :: "string \<Rightarrow> u32" where
  "ipaddr_addr cp = (case ip4addr_aton cp of Some a \<Rightarrow> a | None \<Rightarrow> IPADDR_NONE)"

section \<open>Address to text\<close>

text \<open>The digits of a byte, the last one first.\<close>

function inv_digits :: "u8 \<Rightarrow> string" where
  "inv_digits ap =
     (let rem = ap mod 10;
          ap = ap div 10
      in digit_char (uint rem) # (if ap \<noteq> 0 then inv_digits ap else []))"
  by pat_completeness auto
termination
proof (relation "measure unat")
  fix x xa y :: u8
  assume y: "y = x div 10" "y \<noteq> 0"
  have "unat y = unat x div 10" by (simp add: y(1) unat_div)
  moreover have "unat y \<noteq> 0" using y(2) by (simp only: unat_eq_zero not_False_eq_True)
  ultimately have "unat x div 10 \<noteq> 0" "unat y = unat x div 10" by simp_all
  then show "(y, x) \<in> measure unat" by simp
qed simp

declare inv_digits.simps [simp del]

text \<open>Characters written to a buffer while it has room.\<close>

fun put_chars :: "nat \<Rightarrow> string \<Rightarrow> string \<Rightarrow> string option" where
  "put_chars buflen buf [] = Some buf"
| "put_chars buflen buf (c # cs) = (if length buf \<ge> buflen then None else put_chars buflen (buf @ [c]) cs)"

fun ntoa_loop :: "nat \<Rightarrow> u8 list \<Rightarrow> string \<Rightarrow> string option" where
  "ntoa_loop buflen [] buf = Some buf"
| "ntoa_loop buflen (ap # aps) buf =
     Option.bind (put_chars buflen buf (rev (inv_digits ap)))
       (\<lambda>buf. Option.bind (put_chars buflen buf ''.'') (ntoa_loop buflen aps))"

text \<open>The string in the buffer; \<open>None\<close> is NULL. The last dot becomes the terminating zero.\<close>

definition ip4addr_ntoa_r :: "u32 \<Rightarrow> nat \<Rightarrow> string option" where
  "ip4addr_ntoa_r a buflen =
     map_option butlast
       (ntoa_loop buflen [ucast a, ucast (drop_bit 8 a), ucast (drop_bit 16 a), ucast (drop_bit 24 a)] [])"

definition ip4addr_ntoa :: "u32 \<Rightarrow> string option" where
  "ip4addr_ntoa a = ip4addr_ntoa_r a 16"

end
