(* ===== verification/Ip4_Props.thy ===== *)
theory Ip4_Props
  imports Ip4_Addr
begin

text \<open>
  The printed form of an address is read back as that address, and a netmask is valid exactly when
  it is a run of ones followed by zeros.
\<close>

section \<open>Printing\<close>

lemma inv_digits_decimal: "rev (inv_digits x) = decimal (unat x)"
proof (induction x rule: inv_digits.induct)
  case (1 x)
  have d: "unat (x div 10) = unat x div 10" by (simp add: unat_div)
  have z: "x div 10 = 0 \<longleftrightarrow> unat x < 10" unfolding unat_eq_zero [symmetric] d by (simp add: div_eq_0_iff)
  have m: "uint (x mod 10) = int (unat x mod 10)" by (simp add: uint_mod zmod_int)
  show ?case
  proof (cases "unat x < 10")
    case True
    then show ?thesis
      by (subst inv_digits.simps) (simp add: z m Let_def decimal.simps [of "unat x"])
  next
    case False
    then have "rev (inv_digits (x div 10)) = decimal (unat x div 10)" using "1.IH" [OF refl refl] z d by simp
    then show ?thesis using False
      by (subst inv_digits.simps) (simp add: z m Let_def decimal.simps [of "unat x"])
  qed
qed

lemma put_chars_fit:
  "put_chars n buf cs = (if cs = [] \<or> length buf + length cs \<le> n then Some (buf @ cs) else None)"
  by (induction n buf cs rule: put_chars.induct) auto

definition dotted_decimal :: "u8 list \<Rightarrow> string" where
  "dotted_decimal aps = concat (map (\<lambda>ap. decimal (unat ap) @ ''.'') aps)"

lemma ntoa_loop_fit:
  "ntoa_loop n aps buf = (if aps = [] \<or> length buf + length (dotted_decimal aps) \<le> n
     then Some (buf @ dotted_decimal aps) else None)"
proof (induction aps arbitrary: buf)
  case (Cons ap aps)
  show ?case
    by (auto simp: put_chars_fit inv_digits_decimal Cons.IH dotted_decimal_def)
qed (simp add: dotted_decimal_def)

section \<open>Parsing\<close>

lemma byte_of_digit:
  assumes "n < 10"
  shows "byte_of (digit_char (int n)) = 48 + of_nat n"
proof -
  have "nat (48 + int n) = 48 + n" by simp
  then show ?thesis using assms by (simp add: byte_of_def digit_char_def)
qed

lemma digit_byte:
  assumes "n < 10"
  shows "lwip_isdigit (48 + of_nat n)" "ucast (48 + of_nat n :: u8) - 48 = (of_nat n :: u32)"
    "(48 + of_nat n :: u8) = 48 \<longleftrightarrow> n = 0"
proof -
  have u: "unat (48 + of_nat n :: u8) = 48 + n" using assms by (simp add: unat_word_ariths unat_of_nat)
  then show "lwip_isdigit (48 + of_nat n)"
    using assms by (simp add: lwip_isdigit_def in_range_def word_le_nat_alt)
  have "(ucast (48 + of_nat n :: u8) :: u32) = of_nat (48 + n)"
    unfolding u [symmetric] by (simp only: of_nat_unat)
  then show "ucast (48 + of_nat n :: u8) - 48 = (of_nat n :: u32)" by simp
  show "(48 + of_nat n :: u8) = 48 \<longleftrightarrow> n = 0" using u by (auto dest: arg_cong [of _ _ unat])
qed

lemma aton_digits_decimal: "aton_digits 10 (decimal n @ r) 0 = aton_digits 10 r (of_nat n)"
proof (induction n arbitrary: r rule: decimal.induct)
  case (1 n)
  show ?case
  proof (cases "n < 10")
    case True
    then show ?thesis by (simp add: decimal.simps [of n] byte_of_digit digit_byte)
  next
    case False
    have m: "n mod 10 < 10" by simp
    have "of_nat (n div 10) * 10 + of_nat (n mod 10) = (of_nat (n div 10 * 10 + n mod 10) :: u32)"
      by (simp only: of_nat_add of_nat_mult of_nat_numeral)
    then have v: "of_nat (n div 10) * 10 + of_nat (n mod 10) = (of_nat n :: u32)" by simp
    have "aton_digits 10 (decimal n @ r) 0 = aton_digits 10 (digit_char (int (n mod 10)) # r) (of_nat (n div 10))"
      using "1.IH" [OF False] False by (simp add: decimal.simps [of n])
    also have "\<dots> = aton_digits 10 r (of_nat n)"
      by (simp only: aton_digits.simps byte_of_digit [OF m] digit_byte [OF m] Let_def if_True v)
    finally show ?thesis .
  qed
qed

definition no_digit :: "string \<Rightarrow> bool" where
  "no_digit r \<longleftrightarrow> \<not> lwip_isdigit (c_at r) \<and> c_at r \<noteq> 120 \<and> c_at r \<noteq> 88"

lemma aton_digits_stop: "no_digit r \<Longrightarrow> base \<noteq> 16 \<Longrightarrow> aton_digits base r v = (v, r)"
  by (cases r) (simp_all add: no_digit_def)

lemma decimal_pos_first: "0 < n \<Longrightarrow> \<exists>d cs. decimal n = digit_char (int d) # cs \<and> 0 < d \<and> d < 10"
proof (induction n rule: decimal.induct)
  case (1 n)
  show ?case
  proof (cases "n < 10")
    case True
    then show ?thesis using "1.prems" by (auto simp: decimal.simps [of n])
  next
    case False
    then have "0 < n div 10" by simp
    then show ?thesis using "1.IH" [OF False] False by (auto simp: decimal.simps [of n])
  qed
qed

lemma aton_number_decimal:
  assumes "no_digit r"
  shows "aton_number (decimal n @ r) = Some (of_nat n, r)"
proof (cases "n = 0")
  case True
  have "byte_of (digit_char 0) = 48" using byte_of_digit [of 0] by simp
  then show ?thesis
    using True assms digit_byte(1) [of 0] by (simp add: decimal.simps [of 0] aton_number_def aton_digits_stop no_digit_def Let_def)
next
  case False
  then obtain d cs where d: "decimal n = digit_char (int d) # cs" "0 < d" "d < 10" using decimal_pos_first by blast
  have "aton_number (decimal n @ r) = Some (aton_digits 10 (decimal n @ r) 0)"
    using d byte_of_digit [OF d(3)] digit_byte [OF d(3)] by (simp add: aton_number_def)
  then show ?thesis using assms by (simp add: aton_digits_decimal aton_digits_stop)
qed

lemma dot_no_digit: "no_digit (CHR ''.'' # r)" "c_at (CHR ''.'' # r) = 46"
  by (simp_all add: no_digit_def lwip_isdigit_def in_range_def byte_of_def)

lemma aton_parts_dot:
  assumes "length parts < 3"
  shows "aton_parts (decimal n @ CHR ''.'' # r) parts = aton_parts r (parts @ [of_nat n])"
  using assms aton_number_decimal [OF dot_no_digit(1)] dot_no_digit(2)
  by (subst aton_parts.simps) simp

lemma aton_parts_end:
  assumes "no_digit r" "c_at r \<noteq> 46"
  shows "aton_parts (decimal n @ r) parts = Some (of_nat n, parts, r)"
  using assms aton_number_decimal [OF assms(1)] by (subst aton_parts.simps) simp

lemma network_order:
  fixes a :: u32
  shows "lwip_htonl (ucast (ucast (drop_bit 24 a) :: u8) OR (push_bit 24 (ucast (ucast a :: u8)) OR
    push_bit 16 (ucast (ucast (drop_bit 8 a) :: u8)) OR push_bit 8 (ucast (ucast (drop_bit 16 a) :: u8)))) = a"
proof (rule bit_word_eqI)
  fix i
  assume i: "i < LENGTH(32)"
  show "bit (lwip_htonl (ucast (ucast (drop_bit 24 a) :: u8) OR (push_bit 24 (ucast (ucast a :: u8)) OR
      push_bit 16 (ucast (ucast (drop_bit 8 a) :: u8)) OR push_bit 8 (ucast (ucast (drop_bit 16 a) :: u8))))) i = bit a i"
    using i by (cases "i < 8"; cases "i < 16"; cases "i < 24")
      (auto simp: bit_lwip_htonl bit_or_iff bit_push_bit_iff bit_ucast_iff bit_drop_bit_eq)
qed

lemma byte_small: "(ucast (x :: u8) :: u32) \<le> 0xff"
proof -
  have "unat x \<le> 255" using unat_u8_lt [of x] by linarith
  then show ?thesis by (simp add: word_le_nat_alt)
qed

definition ip4_text :: "u32 \<Rightarrow> string" where
  "ip4_text a = decimal (unat (ucast a :: u8)) @ ''.'' @ decimal (unat (ucast (drop_bit 8 a) :: u8)) @ ''.''
     @ decimal (unat (ucast (drop_bit 16 a) :: u8)) @ ''.'' @ decimal (unat (ucast (drop_bit 24 a) :: u8))"

lemma aton_text:
  assumes "no_digit r" "c_at r \<noteq> 46" "c_at r = 0 \<or> lwip_isspace (c_at r)"
  shows "ip4addr_aton (ip4_text a @ r) = Some a"
proof -
  have p: "aton_parts (ip4_text a @ r) [] = Some (ucast (ucast (drop_bit 24 a) :: u8),
      [ucast (ucast a :: u8), ucast (ucast (drop_bit 8 a) :: u8), ucast (ucast (drop_bit 16 a) :: u8)], r)"
    unfolding ip4_text_def using assms(1,2)
    by (simp add: aton_parts_dot aton_parts_end)
  show ?thesis
    using assms(3) byte_small network_order [of a] by (simp add: ip4addr_aton_def p not_less)
qed

text \<open>
  C24. The text of an address fits a buffer exactly when it is longer than the text, sixteen bytes
  always being enough, and reading it gives the address back.
\<close>

theorem ip4_text_roundtrip:
  "\<exists>s. ip4addr_ntoa a = Some s \<and> ip4addr_aton s = Some a \<and> ipaddr_addr s = a \<and> length s \<le> 15
     \<and> (\<forall>n. ip4addr_ntoa_r a n = (if length s < n then Some s else None))"
proof -
  define s where "s = ip4_text a"
  have l: "length (decimal (unat (x :: u8))) \<le> 3" for x using unat_u8_lt [of x] by (intro decimal_length) linarith
  have len: "length s \<le> 15"
    using l [of "ucast a"] l [of "ucast (drop_bit 8 a)"] l [of "ucast (drop_bit 16 a)"] l [of "ucast (drop_bit 24 a)"]
    by (simp add: s_def ip4_text_def)
  have d: "dotted_decimal [ucast a, ucast (drop_bit 8 a), ucast (drop_bit 16 a), ucast (drop_bit 24 a)] = s @ ''.''"
    by (simp add: dotted_decimal_def s_def ip4_text_def)
  have n: "ip4addr_ntoa_r a n = (if length s < n then Some s else None)" for n
    unfolding ip4addr_ntoa_r_def ntoa_loop_fit d by (simp add: Suc_le_eq)
  have "ip4addr_aton s = Some a"
    using aton_text [of "[]" a] by (simp add: s_def no_digit_def lwip_isdigit_def in_range_def)
  then show ?thesis using n len by (auto simp: ip4addr_ntoa_def ipaddr_addr_def)
qed

section \<open>Netmasks\<close>

lemma netmask_loops:
  "k < 32 \<Longrightarrow> no_one nm (first_zero nm (2 ^ k)) \<longleftrightarrow> (\<exists>n \<le> Suc k. \<forall>i \<le> k. bit nm i \<longleftrightarrow> k < i + n)" for nm :: u32
proof -
  have z: "nm AND 2 ^ k = 0 \<longleftrightarrow> \<not> bit nm k" for k
    using and_exp_eq_0_iff_not_bit by blast
  have h: "drop_bit 1 (2 ^ Suc k :: u32) = 2 ^ k" if "Suc k < 32" for k
    using that by (intro bit_word_eqI) (auto simp: bit_simps)
  have nz: "(2 ^ k :: u32) \<noteq> 0" if "k < 32" for k
    using that by (simp add: exp_eq_0_imp_not_bit)
  have none: "no_one nm (2 ^ k) \<longleftrightarrow> (\<forall>i \<le> k. \<not> bit nm i)" if "k < 32" for k
    using that
  proof (induction k)
    case 0
    then show ?case using z [of 0] by (simp add: no_one.simps [of nm 1] no_one.simps [of nm 0])
  next
    case (Suc k)
    have "no_one nm (2 ^ Suc k) \<longleftrightarrow> \<not> bit nm (Suc k) \<and> no_one nm (2 ^ k)"
      using z [of "Suc k"] nz [OF Suc.prems] h [OF Suc.prems] by (subst no_one.simps) (simp del: power_Suc)
    then show ?case using Suc by (auto simp: le_Suc_eq simp del: power_Suc)
  qed
  show "k < 32 \<Longrightarrow> no_one nm (first_zero nm (2 ^ k)) \<longleftrightarrow> (\<exists>n \<le> Suc k. \<forall>i \<le> k. bit nm i \<longleftrightarrow> k < i + n)"
  proof (induction k)
    case 0
    have "first_zero nm 1 = (if bit nm 0 then 0 else 1)"
      using z [of 0] by (subst first_zero.simps) (simp add: first_zero.simps [of nm 0])
    moreover have "\<exists>n \<le> Suc 0. bit nm 0 \<longleftrightarrow> 0 < n" by (cases "bit nm 0") auto
    ultimately show ?case using none [of 0] by (simp add: no_one.simps [of nm 0])
  next
    case (Suc k)
    show ?case
    proof (cases "bit nm (Suc k)")
      case True
      then have "first_zero nm (2 ^ Suc k) = first_zero nm (2 ^ k)"
        using z [of "Suc k"] nz [OF Suc.prems] h [OF Suc.prems] by (subst first_zero.simps) (simp del: power_Suc)
      then have "no_one nm (first_zero nm (2 ^ Suc k)) \<longleftrightarrow> (\<exists>n \<le> Suc k. \<forall>i \<le> k. bit nm i \<longleftrightarrow> k < i + n)"
        using Suc by (simp del: power_Suc)
      also have "\<dots> \<longleftrightarrow> (\<exists>n \<le> Suc (Suc k). \<forall>i \<le> Suc k. bit nm i \<longleftrightarrow> Suc k < i + n)"
      proof
        assume "\<exists>n \<le> Suc k. \<forall>i \<le> k. bit nm i \<longleftrightarrow> k < i + n"
        then obtain n where n: "n \<le> Suc k" "\<forall>i \<le> k. bit nm i \<longleftrightarrow> k < i + n" by blast
        then have "\<forall>i \<le> Suc k. bit nm i \<longleftrightarrow> Suc k < i + Suc n" using True by (auto simp: le_Suc_eq)
        then show "\<exists>n \<le> Suc (Suc k). \<forall>i \<le> Suc k. bit nm i \<longleftrightarrow> Suc k < i + n" using n(1) by (intro exI [of _ "Suc n"]) auto
      next
        assume "\<exists>n \<le> Suc (Suc k). \<forall>i \<le> Suc k. bit nm i \<longleftrightarrow> Suc k < i + n"
        then obtain n where n: "n \<le> Suc (Suc k)" "\<forall>i \<le> Suc k. bit nm i \<longleftrightarrow> Suc k < i + n" by blast
        then have "0 < n" using True by (metis add.right_neutral gr0I le_refl less_irrefl)
        then obtain m where "n = Suc m" by (auto simp: gr0_conv_Suc)
        then show "\<exists>n \<le> Suc k. \<forall>i \<le> k. bit nm i \<longleftrightarrow> k < i + n" using n by (intro exI [of _ m]) auto
      qed
      finally show ?thesis .
    next
      case False
      then have "first_zero nm (2 ^ Suc k) = 2 ^ Suc k" using z [of "Suc k"] by (subst first_zero.simps) (simp del: power_Suc)
      moreover have "(\<exists>n \<le> Suc (Suc k). \<forall>i \<le> Suc k. bit nm i \<longleftrightarrow> Suc k < i + n) \<longleftrightarrow> (\<forall>i \<le> Suc k. \<not> bit nm i)"
      proof
        assume "\<exists>n \<le> Suc (Suc k). \<forall>i \<le> Suc k. bit nm i \<longleftrightarrow> Suc k < i + n"
        then obtain n where n: "\<forall>i \<le> Suc k. bit nm i \<longleftrightarrow> Suc k < i + n" by blast
        then have "n = 0" using False by auto
        then show "\<forall>i \<le> Suc k. \<not> bit nm i" using n by auto
      qed (auto intro!: exI [of _ 0])
      ultimately show ?thesis using none [OF Suc.prems] by (simp only:)
    qed
  qed
qed

text \<open>
  A netmask is accepted exactly when its bits, in host order, are a run of ones from the top
  followed by zeros.
\<close>

lemma ip4_netmask_valid_iff:
  "ip4_addr_netmask_valid netmask \<longleftrightarrow> (\<exists>n \<le> 32. lwip_htonl netmask = NOT (mask (32 - n)))"
proof -
  let ?nm = "lwip_htonl netmask"
  have "(?nm = NOT (mask (32 - n))) \<longleftrightarrow> (\<forall>i \<le> 31. bit ?nm i \<longleftrightarrow> 31 < i + n)" if "n \<le> 32" for n
  proof
    assume e: "?nm = NOT (mask (32 - n))"
    show "\<forall>i \<le> 31. bit ?nm i \<longleftrightarrow> 31 < i + n" unfolding e using that by (auto simp: bit_not_iff bit_mask_iff)
  next
    assume *: "\<forall>i \<le> 31. bit ?nm i \<longleftrightarrow> 31 < i + n"
    show "?nm = NOT (mask (32 - n))"
      by (rule bit_word_eqI) (use * that in \<open>auto simp: bit_not_iff bit_mask_iff\<close>)
  qed
  then have "(\<exists>n \<le> 32. ?nm = NOT (mask (32 - n))) \<longleftrightarrow> (\<exists>n \<le> Suc 31. \<forall>i \<le> 31. bit ?nm i \<longleftrightarrow> 31 < i + n)"
    by auto
  also have "\<dots> \<longleftrightarrow> no_one ?nm (first_zero ?nm (2 ^ 31))" using netmask_loops [of 31 ?nm] by simp
  finally show ?thesis by (simp add: ip4_addr_netmask_valid_def Let_def)
qed

end
