(* ===== verification/Timeouts.thy ===== *)
theory Timeouts
  imports Lwip_Def
begin

text \<open>
  \<^verbatim>\<open>externals/lwip/src/core/timeouts.c\<close>: the timers of the stack. The list of timers is a list; times
  are 32-bit milliseconds that wrap around. A handler with its argument is one value. What the
  handlers call (\<^verbatim>\<open>tcp_tmr\<close>, \<^verbatim>\<open>etharp_tmr\<close>, application code) is the argument \<open>act\<close>; it may use the
  functions of this file, and the clock may advance meanwhile. Assertions are compiled out.
\<close>

datatype thandler = H_Tcp | H_Cyclic nat | H_User nat nat

record sys_timeo =
  st_time :: u32
  st_h :: "thandler option"

record tworld =
  tw_list :: "sys_timeo list"
  tw_due :: u32
  tw_now :: u32
  tw_tcp_active :: bool
  tw_tcp_pcbs :: bool
  tw_mem :: bool

definition LWIP_MAX_TIMEOUT :: u32 where
  "LWIP_MAX_TIMEOUT = 0x7fffffff"

definition TIME_LESS_THAN :: "u32 \<Rightarrow> u32 \<Rightarrow> bool" where
  "TIME_LESS_THAN t compare_to \<longleftrightarrow> t - compare_to > LWIP_MAX_TIMEOUT"

abbreviation TCP_TMR_INTERVAL :: u32 where
  "TCP_TMR_INTERVAL \<equiv> 250"

text \<open>The intervals of TCP, IPv4 reassembly, ARP, ND6, IPv6 reassembly and MLD6.\<close>

definition lwip_cyclic_timers :: "u32 list" where
  "lwip_cyclic_timers = [TCP_TMR_INTERVAL, 1000, 1000, 1000, 1000, 100]"

section \<open>The list\<close>

fun insert_after :: "sys_timeo \<Rightarrow> sys_timeo list \<Rightarrow> sys_timeo list" where
  "insert_after timeout [] = []"
| "insert_after timeout [t] = [t, timeout]"
| "insert_after timeout (t # n # ts) =
     (if TIME_LESS_THAN (st_time timeout) (st_time n) then t # timeout # n # ts
      else t # insert_after timeout (n # ts))"

definition sys_timeout_abs :: "u32 \<Rightarrow> thandler option \<Rightarrow> tworld \<Rightarrow> tworld" where
  "sys_timeout_abs abs_time handler w =
     (if \<not> tw_mem w then w
      else
        let timeout = \<lparr>st_time = abs_time, st_h = handler\<rparr>
        in w\<lparr>tw_list :=
               (case tw_list w of
                  [] \<Rightarrow> [timeout]
                | t # ts \<Rightarrow>
                    if TIME_LESS_THAN (st_time timeout) (st_time t) then timeout # t # ts
                    else insert_after timeout (t # ts))\<rparr>)"

definition sys_timeout :: "u32 \<Rightarrow> thandler option \<Rightarrow> tworld \<Rightarrow> tworld" where
  "sys_timeout msecs handler w = sys_timeout_abs (tw_now w + msecs) handler w"

fun remove_first :: "thandler option \<Rightarrow> sys_timeo list \<Rightarrow> sys_timeo list" where
  "remove_first handler [] = []"
| "remove_first handler (t # ts) = (if st_h t = handler then ts else t # remove_first handler ts)"

definition sys_untimeout :: "thandler option \<Rightarrow> tworld \<Rightarrow> tworld" where
  "sys_untimeout handler w = w\<lparr>tw_list := remove_first handler (tw_list w)\<rparr>"

section \<open>Handlers\<close>

definition tcpip_tcp_timer :: "(thandler \<Rightarrow> tworld \<Rightarrow> tworld) \<Rightarrow> tworld \<Rightarrow> tworld" where
  "tcpip_tcp_timer act w =
     (let w = act H_Tcp w
      in if tw_tcp_pcbs w then sys_timeout TCP_TMR_INTERVAL (Some H_Tcp) w else w\<lparr>tw_tcp_active := False\<rparr>)"

definition tcp_timer_needed :: "tworld \<Rightarrow> tworld" where
  "tcp_timer_needed w =
     (if \<not> tw_tcp_active w \<and> tw_tcp_pcbs w
      then sys_timeout TCP_TMR_INTERVAL (Some H_Tcp) (w\<lparr>tw_tcp_active := True\<rparr>) else w)"

definition lwip_cyclic_timer :: "(thandler \<Rightarrow> tworld \<Rightarrow> tworld) \<Rightarrow> nat \<Rightarrow> tworld \<Rightarrow> tworld" where
  "lwip_cyclic_timer act i w =
     (let interval_ms = lwip_cyclic_timers ! i;
          w = act (H_Cyclic i) w;
          now = tw_now w;
          next_timeout_time = tw_due w + interval_ms
      in if TIME_LESS_THAN next_timeout_time now
         then sys_timeout_abs (now + interval_ms) (Some (H_Cyclic i)) w
         else sys_timeout_abs next_timeout_time (Some (H_Cyclic i)) w)"

definition sys_timeouts_init :: "tworld \<Rightarrow> tworld" where
  "sys_timeouts_init w =
     fold (\<lambda>i. sys_timeout (lwip_cyclic_timers ! i) (Some (H_Cyclic i))) [1..<length lwip_cyclic_timers] w"

fun call_handler :: "(thandler \<Rightarrow> tworld \<Rightarrow> tworld) \<Rightarrow> thandler option \<Rightarrow> tworld \<Rightarrow> tworld" where
  "call_handler act None w = w"
| "call_handler act (Some H_Tcp) w = tcpip_tcp_timer act w"
| "call_handler act (Some (H_Cyclic i)) w = lwip_cyclic_timer act i w"
| "call_handler act (Some (H_User f a)) w = act (H_User f a) w"

section \<open>Expiry\<close>

text \<open>The loop over the expired timers; \<open>None\<close> when it does not end.\<close>

partial_function (option) check_loop :: "(thandler \<Rightarrow> tworld \<Rightarrow> tworld) \<Rightarrow> u32 \<Rightarrow> tworld \<Rightarrow> tworld option" where
  "check_loop act now w =
     (case tw_list w of
        [] \<Rightarrow> Some w
      | tmptimeout # ts \<Rightarrow>
          if TIME_LESS_THAN now (st_time tmptimeout) then Some w
          else check_loop act now
                 (call_handler act (st_h tmptimeout) (w\<lparr>tw_list := ts, tw_due := st_time tmptimeout\<rparr>)))"

definition sys_check_timeouts :: "(thandler \<Rightarrow> tworld \<Rightarrow> tworld) \<Rightarrow> tworld \<Rightarrow> tworld option" where
  "sys_check_timeouts act w = check_loop act (tw_now w) w"

definition sys_restart_timeouts :: "tworld \<Rightarrow> tworld" where
  "sys_restart_timeouts w =
     (case tw_list w of
        [] \<Rightarrow> w
      | t # _ \<Rightarrow>
          let now = tw_now w;
              base = st_time t
          in w\<lparr>tw_list := map (\<lambda>t. t\<lparr>st_time := (st_time t - base) + now\<rparr>) (tw_list w)\<rparr>)"

definition sys_timeouts_sleeptime :: "tworld \<Rightarrow> u32" where
  "sys_timeouts_sleeptime w =
     (case tw_list w of
        [] \<Rightarrow> 0xffffffff
      | t # _ \<Rightarrow> if TIME_LESS_THAN (st_time t) (tw_now w) then 0 else st_time t - tw_now w)"

section \<open>Order\<close>

text \<open>
  Times are compared within half of their range: relative to a base that none of them is before,
  the comparison is that of the distances.
\<close>

definition since :: "u32 \<Rightarrow> sys_timeo \<Rightarrow> nat" where
  "since base t = unat (st_time t - base)"

definition in_window :: "u32 \<Rightarrow> u32 \<Rightarrow> bool" where
  "in_window base t \<longleftrightarrow> unat (t - base) < 2 ^ 31"

lemma time_less_since:
  assumes "in_window base t" "in_window base u"
  shows "TIME_LESS_THAN t u \<longleftrightarrow> unat (t - base) < unat (u - base)"
proof -
  define x y where "x = t - base" and "y = u - base"
  have xy: "unat x < 2 ^ 31" "unat y < 2 ^ 31" using assms by (simp_all add: in_window_def x_def y_def)
  have "t - u = x - y" by (simp add: x_def y_def)
  moreover have "x - y > 0x7fffffff \<longleftrightarrow> unat x < unat y"
  proof (cases "unat x < unat y")
    case True
    then have "y > x" by (simp add: word_less_nat_alt)
    then have "unat (x - y) = 2 ^ 32 + unat x - unat y"
      using xy by (simp add: unat_sub_if_size word_size word_less_nat_alt word_le_nat_alt)
    then have "unat (x - y) > 0x7fffffff" using xy True by simp
    then show ?thesis using True by (simp add: word_less_nat_alt)
  next
    case False
    then have "unat (x - y) = unat x - unat y" by (simp add: unat_sub word_le_nat_alt)
    then show ?thesis using False xy by (simp add: word_less_nat_alt)
  qed
  ultimately show ?thesis by (simp add: TIME_LESS_THAN_def LWIP_MAX_TIMEOUT_def x_def y_def)
qed

end
