(* ===== verification/Timeouts_Props.thy ===== *)
theory Timeouts_Props
  imports Timeouts
begin

text \<open>
  The timers: the list stays in order of time although times wrap around, and a check of the
  timers ends, with every timer that remains in the future and no cyclic timer lost.
\<close>

definition timers_ok :: "u32 \<Rightarrow> sys_timeo list \<Rightarrow> bool" where
  "timers_ok base ts \<longleftrightarrow> (\<forall>t \<in> set ts. in_window base (st_time t)) \<and> sorted (map (since base) ts)"

lemma since_window: "in_window base (st_time t) \<longleftrightarrow> since base t < 2 ^ 31"
  by (simp add: in_window_def since_def)

lemma insert_after_split:
  assumes "in_window base (st_time x)" "\<forall>u \<in> set (t # ts). in_window base (st_time u)"
  shows "insert_after x (t # ts)
    = t # takeWhile (\<lambda>u. since base u \<le> since base x) ts @ x # dropWhile (\<lambda>u. since base u \<le> since base x) ts"
  using assms(2)
proof (induction ts arbitrary: t)
  case (Cons n ts)
  have "TIME_LESS_THAN (st_time x) (st_time n) \<longleftrightarrow> since base x < since base n"
    using time_less_since [OF assms(1)] Cons.prems by (simp add: since_def)
  then show ?case using Cons by (simp add: not_le)
qed simp

lemma timeout_abs_list:
  assumes "tw_mem w" "timers_ok base (tw_list w)" "in_window base a"
  shows "tw_list (sys_timeout_abs a h w) =
    takeWhile (\<lambda>u. since base u \<le> unat (a - base)) (tw_list w) @ \<lparr>st_time = a, st_h = h\<rparr>
      # dropWhile (\<lambda>u. since base u \<le> unat (a - base)) (tw_list w)"
proof (cases "tw_list w")
  case (Cons t ts)
  let ?x = "\<lparr>st_time = a, st_h = h\<rparr>"
  have w: "\<forall>u \<in> set (t # ts). in_window base (st_time u)" using assms(2) Cons by (simp add: timers_ok_def)
  have x: "since base ?x = unat (a - base)" by (simp add: since_def)
  have "TIME_LESS_THAN a (st_time t) \<longleftrightarrow> unat (a - base) < since base t"
    using time_less_since [OF assms(3)] w by (simp add: since_def)
  then show ?thesis
    using assms(1,3) Cons insert_after_split [of base ?x t ts] w
    by (auto simp: sys_timeout_abs_def x)
qed (use assms in \<open>simp add: sys_timeout_abs_def\<close>)

lemma sorted_insert_split:
  assumes "sorted (map f xs)"
  shows "sorted (map f (takeWhile (\<lambda>u. f u \<le> f x) xs @ x # dropWhile (\<lambda>u. f u \<le> f x) xs))"
  using assms
proof (induction xs)
  case (Cons a xs)
  then show ?case by (auto simp: not_le dest: set_takeWhileD set_dropWhileD)
qed simp

lemma takeWhile_filter:
  fixes f :: "'a \<Rightarrow> nat"
  assumes "sorted (map f xs)"
  shows "takeWhile (\<lambda>u. f u \<le> k) xs = filter (\<lambda>u. f u \<le> k) xs \<and> dropWhile (\<lambda>u. f u \<le> k) xs = filter (\<lambda>u. k < f u) xs"
  using assms
proof (induction xs)
  case (Cons a xs)
  show ?case
  proof (cases "f a \<le> k")
    case False
    then have "\<forall>u \<in> set xs. k < f u" using Cons.prems by fastforce
    then have "filter (\<lambda>u. f u \<le> k) xs = []" "filter (\<lambda>u. k < f u) xs = xs"
      by (auto simp: filter_empty_conv filter_id_conv)
    then show ?thesis using False by simp
  qed (use Cons in auto)
qed simp

lemma timeout_abs_ok:
  assumes "tw_mem w" "timers_ok base (tw_list w)" "in_window base a"
  shows "timers_ok base (tw_list (sys_timeout_abs a h w))"
  using assms sorted_insert_split [of "since base" "tw_list w" "\<lparr>st_time = a, st_h = h\<rparr>"]
  unfolding timeout_abs_list [OF assms]
  by (auto simp: timers_ok_def since_def dest: set_takeWhileD set_dropWhileD)

text \<open>
  C13. A new timer is filed after the timers due before it or with it and before the later ones, and
  the list stays in order, across the wrap-around of the clock: times are relative to any base
  that lies less than half the range before all of them.
\<close>

theorem sys_timeout_in_order:
  assumes "tw_mem w" "timers_ok base (tw_list w)" "in_window base (tw_now w + msecs)"
  shows "tw_list (sys_timeout msecs h w) =
      [t \<leftarrow> tw_list w. since base t \<le> unat (tw_now w + msecs - base)] @ \<lparr>st_time = tw_now w + msecs, st_h = h\<rparr>
        # [t \<leftarrow> tw_list w. unat (tw_now w + msecs - base) < since base t]
    \<and> timers_ok base (tw_list (sys_timeout msecs h w))"
proof -
  have "sorted (map (since base) (tw_list w))" using assms(2) by (simp add: timers_ok_def)
  from takeWhile_filter [OF this] show ?thesis
    using timeout_abs_list [OF assms] timeout_abs_ok [OF assms] by (simp add: sys_timeout_def)
qed

definition sample_timers :: tworld where
  "sample_timers = \<lparr>tw_list = [\<lparr>st_time = 0xfffffff0, st_h = Some (H_Cyclic 1)\<rparr>, \<lparr>st_time = 20, st_h = Some (H_Cyclic 2)\<rparr>],
     tw_due = 0, tw_now = 0xfffffff8, tw_tcp_active = False, tw_tcp_pcbs = False, tw_mem = True\<rparr>"

lemma sample_timers_ok: "timers_ok 0xffffff00 (tw_list sample_timers)"
  by (simp add: sample_timers_def timers_ok_def since_def in_window_def)

lemma sys_timeout_in_order_witness:
  "tw_list (sys_timeout 16 None sample_timers) =
     [\<lparr>st_time = 0xfffffff0, st_h = Some (H_Cyclic 1)\<rparr>, \<lparr>st_time = 8, st_h = None\<rparr>,
      \<lparr>st_time = 20, st_h = Some (H_Cyclic 2)\<rparr>]"
  using sys_timeout_in_order [of sample_timers "0xffffff00" 16 None] sample_timers_ok
  by (simp add: sample_timers_def since_def in_window_def)

section \<open>A check of the timers ends\<close>

text \<open>How often a timer may still run in a check at time \<open>now\<close>: not at all once it is in the future.\<close>

definition weight :: "u32 \<Rightarrow> u32 \<Rightarrow> sys_timeo \<Rightarrow> nat" where
  "weight base now t = (if since base t \<le> unat (now - base) then Suc (unat (now - base) - since base t) else 0)"

definition load :: "u32 \<Rightarrow> u32 \<Rightarrow> sys_timeo list \<Rightarrow> nat" where
  "load base now ts = sum_list (map (weight base now) ts)"

definition cyc :: "nat \<Rightarrow> sys_timeo list \<Rightarrow> nat" where
  "cyc i ts = length (filter (\<lambda>t. st_h t = Some (H_Cyclic i)) ts)"

lemma load_simps [simp]: "load base now [] = 0" "load base now (t # ts) = weight base now t + load base now ts"
    "load base now (ts @ us) = load base now ts + load base now us"
  by (simp_all add: load_def)

lemma cyc_simps [simp]: "cyc i [] = 0" "cyc i (t # ts) = (if st_h t = Some (H_Cyclic i) then 1 else 0) + cyc i ts"
    "cyc i (ts @ us) = cyc i ts + cyc i us"
  by (simp_all add: cyc_def)

lemma split_load: "load base now (takeWhile P ts) + load base now (dropWhile P ts) = load base now ts"
  using load_simps(3) [of base now "takeWhile P ts" "dropWhile P ts"] by simp

lemma split_cyc: "cyc i (takeWhile P ts) + cyc i (dropWhile P ts) = cyc i ts"
  using cyc_simps(3) [of i "takeWhile P ts" "dropWhile P ts"] by simp

lemma abs_fields [simp]:
  "tw_mem (sys_timeout_abs a h w) = tw_mem w" "tw_now (sys_timeout_abs a h w) = tw_now w"
  "tw_due (sys_timeout_abs a h w) = tw_due w"
  by (simp_all add: sys_timeout_abs_def Let_def)

text \<open>The timers while a check that began at \<open>now\<close> runs; the clock stays below the limit \<open>L\<close>.\<close>

definition in_check :: "u32 \<Rightarrow> u32 \<Rightarrow> nat \<Rightarrow> (nat \<Rightarrow> nat) \<Rightarrow> tworld \<Rightarrow> bool" where
  "in_check base now L c w \<longleftrightarrow>
     timers_ok base (tw_list w) \<and> tw_mem w
   \<and> unat (now - base) \<le> unat (tw_now w - base) \<and> unat (tw_now w - base) \<le> L
   \<and> (\<forall>t \<in> set (tw_list w). \<forall>i. st_h t = Some (H_Cyclic i) \<longrightarrow> i < length lwip_cyclic_timers)
   \<and> (\<forall>i. cyc i (tw_list w) = c i)"

text \<open>
  What the called code may do: start timers in the future and cancel its own, let time pass, but
  not touch the cyclic timers.
\<close>

definition polite :: "u32 \<Rightarrow> u32 \<Rightarrow> nat \<Rightarrow> (thandler \<Rightarrow> tworld \<Rightarrow> tworld) \<Rightarrow> bool" where
  "polite base now L act \<longleftrightarrow> (\<forall>h c w. in_check base now L c w \<longrightarrow>
     in_check base now L c (act h w) \<and> tw_due (act h w) = tw_due w
     \<and> load base now (tw_list (act h w)) \<le> load base now (tw_list w))"

lemma in_check_add:
  assumes "in_check base now L c w" "in_window base a" "\<And>i. h = Some (H_Cyclic i) \<Longrightarrow> i < length lwip_cyclic_timers"
  shows "in_check base now L (\<lambda>i. c i + (if h = Some (H_Cyclic i) then 1 else 0)) (sys_timeout_abs a h w)"
    "load base now (tw_list (sys_timeout_abs a h w)) = load base now (tw_list w) + weight base now \<lparr>st_time = a, st_h = h\<rparr>"
proof -
  have ok: "tw_mem w" "timers_ok base (tw_list w)" using assms(1) by (simp_all add: in_check_def)
  note l = timeout_abs_list [OF ok assms(2), of h]
  have "set (tw_list (sys_timeout_abs a h w)) = insert \<lparr>st_time = a, st_h = h\<rparr> (set (tw_list w))"
    unfolding l by (auto dest: set_takeWhileD set_dropWhileD) (metis Un_iff set_append takeWhile_dropWhile_id)
  then show "in_check base now L (\<lambda>i. c i + (if h = Some (H_Cyclic i) then 1 else 0)) (sys_timeout_abs a h w)"
    using assms timeout_abs_ok [OF ok assms(2), of h] split_cyc [of _ _ "tw_list w"]
    unfolding in_check_def by (auto simp: l)
  show "load base now (tw_list (sys_timeout_abs a h w)) = load base now (tw_list w) + weight base now \<lparr>st_time = a, st_h = h\<rparr>"
    using split_load [of base now _ "tw_list w"] by (simp add: l)
qed

lemma since_plus:
  fixes x iv base :: u32
  assumes "unat (x - base) + unat iv < 2 ^ 31"
  shows "unat (x + iv - base) = unat (x - base) + unat iv" "in_window base (x + iv)"
proof -
  have e: "x + iv - base = (x - base) + iv" by simp
  show "unat (x + iv - base) = unat (x - base) + unat iv"
    unfolding e using assms unat_plus_no_wrap [of "x - base" iv] by simp
  then show "in_window base (x + iv)" using assms by (simp add: in_window_def)
qed

lemma intervals: "i < length lwip_cyclic_timers \<Longrightarrow> 0 < unat (lwip_cyclic_timers ! i) \<and> unat (lwip_cyclic_timers ! i) \<le> 1000"
proof -
  have "\<forall>iv \<in> set lwip_cyclic_timers. 0 < unat iv \<and> unat iv \<le> 1000" by (simp add: lwip_cyclic_timers_def)
  then show "i < length lwip_cyclic_timers \<Longrightarrow> ?thesis" using nth_mem by blast
qed

lemma later_weight: "unat (now - base) < unat (a - base) \<Longrightarrow> weight base now \<lparr>st_time = a, st_h = h\<rparr> = 0"
  by (simp add: weight_def since_def)

lemma handler_step:
  assumes "in_check base now L c w" "tw_list w = t # ts" "\<not> TIME_LESS_THAN now (st_time t)" "polite base now L act"
    "L + 1000 < 2 ^ 31"
  defines "w' \<equiv> call_handler act (st_h t) (w\<lparr>tw_list := ts, tw_due := st_time t\<rparr>)"
  shows "in_check base now L c w' \<and> load base now (tw_list w') < load base now (tw_list w)"
proof -
  define c1 where "c1 i = cyc i ts" for i
  define w1 where "w1 = w\<lparr>tw_list := ts, tw_due := st_time t\<rparr>"
  have w: "timers_ok base (t # ts)" "unat (now - base) \<le> unat (tw_now w - base)" "unat (tw_now w - base) \<le> L"
    using assms(1,2) by (simp_all add: in_check_def)
  have win: "in_window base now" "in_window base (st_time t)"
    using w assms(5) by (simp_all add: in_window_def timers_ok_def)
  then have exp: "since base t \<le> unat (now - base)"
    using time_less_since assms(3) by (simp add: since_def not_less)
  have c: "c i = (if st_h t = Some (H_Cyclic i) then 1 else 0) + c1 i" for i
    using assms(1,2) by (auto simp: in_check_def c1_def)
  have ch1: "in_check base now L c1 w1"
    using assms(1,2) by (auto simp: in_check_def w1_def timers_ok_def c1_def)
  have ld: "load base now (tw_list w1) + Suc (unat (now - base) - since base t) = load base now (tw_list w)"
    using exp by (simp add: w1_def assms(2) weight_def)
  have act: "in_check base now L c1 (act h w1)" "tw_due (act h w1) = st_time t"
      "load base now (tw_list (act h w1)) \<le> load base now (tw_list w1)" for h
    using assms(4) ch1 unfolding polite_def w1_def by (force, force, force)
  have clock: "unat (now - base) \<le> unat (tw_now (act h w1) - base)" "unat (tw_now (act h w1) - base) \<le> L" for h
    using act(1) [of h] by (simp_all add: in_check_def)
  have add: "in_check base now L c (sys_timeout_abs a (st_h t) (act h w1))
      \<and> load base now (tw_list (sys_timeout_abs a (st_h t) (act h w1))) < load base now (tw_list w)"
    if "in_window base a" "weight base now \<lparr>st_time = a, st_h = st_h t\<rparr> < Suc (unat (now - base) - since base t)" for a h
  proof -
    have i: "st_h t = Some (H_Cyclic i) \<Longrightarrow> i < length lwip_cyclic_timers" for i
      using assms(1,2) by (auto simp: in_check_def)
    have e: "(\<lambda>i. c1 i + (if st_h t = Some (H_Cyclic i) then 1 else 0)) = c" by (auto simp: c)
    show ?thesis
      using in_check_add [OF act(1) that(1), of "st_h t" h, OF i, unfolded e] that(2) act(3) [of h] ld by simp
  qed
  have after: "in_window base (tw_now (act h w1) + iv)" "weight base now \<lparr>st_time = tw_now (act h w1) + iv, st_h = k\<rparr> = 0"
    if "0 < unat iv" "unat iv \<le> 1000" for iv h k
    using since_plus [of "tw_now (act h w1)" base iv] clock [of h] that assms(5) by (auto intro: later_weight)
  have plain: "in_check base now L c1 x \<and> load base now (tw_list x) \<le> load base now (tw_list w1)
      \<Longrightarrow> (\<And>i. st_h t \<noteq> Some (H_Cyclic i)) \<Longrightarrow> in_check base now L c x \<and> load base now (tw_list x) < load base now (tw_list w)" for x
  proof -
    assume x: "in_check base now L c1 x \<and> load base now (tw_list x) \<le> load base now (tw_list w1)"
      and n: "\<And>i. st_h t \<noteq> Some (H_Cyclic i)"
    have "c = c1" using c n by auto
    then show ?thesis using x ld by simp
  qed
  consider "st_h t = None" | "st_h t = Some H_Tcp" | i where "st_h t = Some (H_Cyclic i)" | f a where "st_h t = Some (H_User f a)"
    by (cases "st_h t"; cases "the (st_h t)") auto
  then show ?thesis
  proof cases
    case 1
    then show ?thesis using plain [of w1] ch1 by (simp add: w'_def w1_def)
  next
    case 2
    have e: "w' = (if tw_tcp_pcbs (act H_Tcp w1) then sys_timeout_abs (tw_now (act H_Tcp w1) + 250) (st_h t) (act H_Tcp w1)
        else (act H_Tcp w1)\<lparr>tw_tcp_active := False\<rparr>)"
      by (simp add: w'_def 2 tcpip_tcp_timer_def sys_timeout_def w1_def Let_def)
    have "in_check base now L c1 ((act H_Tcp w1)\<lparr>tw_tcp_active := False\<rparr>)"
      using act(1) [of H_Tcp] by (simp add: in_check_def)
    then have "in_check base now L c ((act H_Tcp w1)\<lparr>tw_tcp_active := False\<rparr>)
        \<and> load base now (tw_list ((act H_Tcp w1)\<lparr>tw_tcp_active := False\<rparr>)) < load base now (tw_list w)"
      using plain [of "(act H_Tcp w1)\<lparr>tw_tcp_active := False\<rparr>"] act(3) [of H_Tcp] 2 by simp
    then show ?thesis using e add [OF after(1), of 250 H_Tcp H_Tcp] after(2) [of 250 H_Tcp "st_h t"] by simp
  next
    case (3 i)
    define iv where "iv = lwip_cyclic_timers ! i"
    define x where "x = act (H_Cyclic i) w1"
    have iv: "0 < unat iv" "unat iv \<le> 1000"
      using intervals [of i] assms(1,2) 3 by (auto simp: in_check_def iv_def)
    have "since base t + unat iv < 2 ^ 31" using exp w iv assms(5) by linarith
    then have n: "unat (st_time t + iv - base) = since base t + unat iv" "in_window base (st_time t + iv)"
      using since_plus [of "st_time t" base iv] by (simp_all add: since_def)
    then have wn: "weight base now \<lparr>st_time = st_time t + iv, st_h = st_h t\<rparr> < Suc (unat (now - base) - since base t)"
      using iv by (simp add: weight_def since_def) linarith
    have e: "w' = (if TIME_LESS_THAN (st_time t + iv) (tw_now x) then sys_timeout_abs (tw_now x + iv) (st_h t) x
        else sys_timeout_abs (st_time t + iv) (st_h t) x)"
      using act(2) [of "H_Cyclic i"] by (simp add: w'_def 3 lwip_cyclic_timer_def w1_def [symmetric] x_def iv_def Let_def)
    then show ?thesis
      using add [OF n(2) wn, of "H_Cyclic i"] add [OF after(1) [OF iv, of "H_Cyclic i"], of "H_Cyclic i"]
        after(2) [OF iv, of "H_Cyclic i" "st_h t"] by (simp add: x_def)
  next
    case (4 f a)
    then show ?thesis using plain act(1,3) [of "H_User f a"] by (simp add: w'_def w1_def [symmetric])
  qed
qed

lemma check_loop_ends:
  assumes "polite base now L act" "L + 1000 < 2 ^ 31" "in_check base now L c w"
  shows "\<exists>w'. check_loop act now w = Some w' \<and> in_check base now L c w'
    \<and> (\<forall>t \<in> set (tw_list w'). unat (now - base) < since base t)"
  using assms(3)
proof (induction "load base now (tw_list w)" arbitrary: w rule: less_induct)
  case less
  have now: "in_window base now" using less.prems assms(2) by (simp add: in_check_def in_window_def)
  show ?case
  proof (cases "tw_list w")
    case Nil
    then show ?thesis using less.prems by (simp add: check_loop.simps)
  next
    case (Cons t ts)
    show ?thesis
    proof (cases "TIME_LESS_THAN now (st_time t)")
      case True
      have ok: "timers_ok base (t # ts)" using less.prems Cons by (simp add: in_check_def)
      then have "unat (now - base) < since base t"
        using True time_less_since [OF now, of "st_time t"] by (simp add: timers_ok_def since_def)
      then have "\<forall>u \<in> set (tw_list w). unat (now - base) < since base u"
        using ok Cons by (auto simp: timers_ok_def)
      then show ?thesis using True Cons less.prems by (simp add: check_loop.simps)
    next
      case False
      then show ?thesis
        using handler_step [OF less.prems Cons False assms(1,2)] less.hyps Cons
        by (subst check_loop.simps) simp
    qed
  qed
qed

text \<open>
  C12. A check of the timers ends, although cyclic timers restart themselves while it runs: it leaves
  only timers that are due after its start, in order, and every cyclic timer is still there as often
  as before.
\<close>

theorem sys_check_timeouts_ends:
  assumes "in_check base (tw_now w) L c w" "polite base (tw_now w) L act" "L + 1000 < 2 ^ 31"
  shows "\<exists>w'. sys_check_timeouts act w = Some w' \<and> timers_ok base (tw_list w')
    \<and> (\<forall>t \<in> set (tw_list w'). TIME_LESS_THAN (tw_now w) (st_time t))
    \<and> (\<forall>i. length (filter (\<lambda>t. st_h t = Some (H_Cyclic i)) (tw_list w'))
           = length (filter (\<lambda>t. st_h t = Some (H_Cyclic i)) (tw_list w)))"
proof -
  obtain w' where w: "sys_check_timeouts act w = Some w'" "in_check base (tw_now w) L c w'"
      "\<forall>t \<in> set (tw_list w'). unat (tw_now w - base) < since base t"
    using check_loop_ends [OF assms(2,3,1)] by (auto simp: sys_check_timeouts_def)
  have now: "in_window base (tw_now w)" using assms(1,3) by (simp add: in_check_def in_window_def)
  have "TIME_LESS_THAN (tw_now w) (st_time t)" if "t \<in> set (tw_list w')" for t
    using time_less_since [OF now, of "st_time t"] w(2,3) that by (simp add: in_check_def timers_ok_def since_def)
  then show ?thesis using w assms(1) by (auto simp: in_check_def cyc_def)
qed

lemma sys_check_timeouts_ends_witness:
  "\<exists>w'. sys_check_timeouts (\<lambda>_ w. w) sample_timers = Some w'
    \<and> (\<forall>t \<in> set (tw_list w'). TIME_LESS_THAN 0xfffffff8 (st_time t))
    \<and> length (filter (\<lambda>t. st_h t = Some (H_Cyclic 1)) (tw_list w')) = 1"
proof -
  have now: "tw_now sample_timers = 0xfffffff8" by (simp add: sample_timers_def)
  have chk: "in_check 0xffffff00 (tw_now sample_timers) 1000 (\<lambda>i. cyc i (tw_list sample_timers)) sample_timers"
    using sample_timers_ok by (auto simp: in_check_def sample_timers_def lwip_cyclic_timers_def)
  have pol: "polite 0xffffff00 (tw_now sample_timers) 1000 (\<lambda>_ w. w)" by (simp add: polite_def)
  have "(1000 :: nat) + 1000 < 2 ^ 31" by simp
  from sys_check_timeouts_ends [OF chk pol this]
  have "\<exists>w'. sys_check_timeouts (\<lambda>_ w. w) sample_timers = Some w'
    \<and> (\<forall>t \<in> set (tw_list w'). TIME_LESS_THAN (tw_now sample_timers) (st_time t))
    \<and> length (filter (\<lambda>t. st_h t = Some (H_Cyclic 1)) (tw_list w'))
        = length (filter (\<lambda>t. st_h t = Some (H_Cyclic 1)) (tw_list sample_timers))"
    by blast
  moreover have "length (filter (\<lambda>t. st_h t = Some (H_Cyclic 1)) (tw_list sample_timers)) = 1"
    by (simp add: sample_timers_def)
  ultimately show ?thesis by (simp only: now)
qed

end
