(* ===== verification/Link_Layer.thy ===== *)
theory Link_Layer
  imports "Xnet_Tap" "Ip4_Addr"
begin

text \<open>
  \<^verbatim>\<open>externals/lwip/src/netif/ethernet.c\<close> and
  \<^verbatim>\<open>externals/lwip/src/core/ipv4/etharp.c\<close>: Ethernet frames and the ARP cache of the lwIP
  stack, over the driver of the tap (\<^verbatim>\<open>netif_linkoutput\<close>), with the entry
  \<^verbatim>\<open>tcpip_input\<close> of \<^verbatim>\<open>externals/lwip/src/api/tcpip.c\<close>.

  A packet is referred to by its address: the sender, the queue of a cache entry and the ARP code
  share it, and \<open>ew_pkt\<close> holds the chain at each address. \<open>heap n\<close> is the allocator the
  \<open>n\<close>-th allocating call meets; what that call gives is at address \<open>n\<close>, and
  \<open>ew_next\<close> counts the calls. Buffers given back are kept in order in \<open>ew_freed\<close>,
  packets passed to the IP layers in \<open>ew_up\<close>. A dereference of \<^verbatim>\<open>NULL\<close>, a use of a
  packet that was given back and a read outside a block is the result \<open>None\<close>;
  \<open>ew_fault\<close> is set where a packet is given back that had been given back before.
\<close>

section \<open>State\<close>

type_synonym packet = nat

datatype etharp_state =
    ETHARP_STATE_EMPTY | ETHARP_STATE_PENDING | ETHARP_STATE_STABLE
  | ETHARP_STATE_STABLE_REREQUESTING_1 | ETHARP_STATE_STABLE_REREQUESTING_2

text \<open>\<^verbatim>\<open>state >= ETHARP_STATE_STABLE\<close>\<close>

fun ge_stable :: "etharp_state \<Rightarrow> bool" where
  "ge_stable ETHARP_STATE_EMPTY = False"
| "ge_stable ETHARP_STATE_PENDING = False"
| "ge_stable _ = True"

record etharp_entry =
  ae_q :: "packet list"
  ae_ipaddr :: u32
  ae_netif :: "addr option"
  ae_ethaddr :: "u8 list"
  ae_ctime :: u16
  ae_state :: etharp_state

text \<open>\<^verbatim>\<open>struct ip_globals\<close>: what the protocols read of the packet being processed.\<close>

record ip_globals =
  current_netif :: addr
  current_input_netif :: addr
  current_ip4_header :: "u8 list"
  current_ip_header_tot_len :: u16
  current_iphdr_src :: u32
  current_iphdr_dest :: u32

datatype upcall =
    Ip4_Input packet addr | Ip6_Input packet addr | Ip_Input packet addr
  | Udp_Input packet addr ip_globals | Tcp_Input packet addr ip_globals

record eworld =
  ew_x :: xworld
  ew_table :: "etharp_entry list"
  ew_hint :: "addr \<Rightarrow> u8"
  ew_pkt :: "packet \<Rightarrow> pbuf list"
  ew_next :: packet
  ew_freed :: freed
  ew_up :: "upcall list"
  ew_fault :: bool

abbreviation (input) ARP_TABLE_SIZE :: nat where "ARP_TABLE_SIZE \<equiv> 64"
abbreviation (input) ARP_MAXAGE :: u16 where "ARP_MAXAGE \<equiv> 300"
abbreviation (input) ARP_MAXPENDING :: u16 where "ARP_MAXPENDING \<equiv> 5"
abbreviation (input) ARP_QUEUE_LEN :: nat where "ARP_QUEUE_LEN \<equiv> 3"
abbreviation (input) ETHTYPE_IP :: u16 where "ETHTYPE_IP \<equiv> 0x0800"
abbreviation (input) ETHTYPE_ARP :: u16 where "ETHTYPE_ARP \<equiv> 0x0806"
abbreviation (input) ETHTYPE_IPV6 :: u16 where "ETHTYPE_IPV6 \<equiv> 0x86DD"
abbreviation (input) ETHARP_FLAG_TRY_HARD :: u8 where "ETHARP_FLAG_TRY_HARD \<equiv> 1"
abbreviation (input) ETHARP_FLAG_FIND_ONLY :: u8 where "ETHARP_FLAG_FIND_ONLY \<equiv> 2"
abbreviation (input) ARP_REQUEST :: u16 where "ARP_REQUEST \<equiv> 1"
abbreviation (input) ARP_REPLY :: u16 where "ARP_REPLY \<equiv> 2"

definition ethbroadcast :: "u8 list" where
  "ethbroadcast = [0xff, 0xff, 0xff, 0xff, 0xff, 0xff]"

definition ethzero :: "u8 list" where
  "ethzero = [0, 0, 0, 0, 0, 0]"

text \<open>The bytes of a word in memory, on a little-endian host.\<close>

definition u16_bytes :: "u16 \<Rightarrow> u8 list" where
  "u16_bytes w = [ucast w, ucast (drop_bit 8 w)]"

definition u32_bytes :: "u32 \<Rightarrow> u8 list" where
  "u32_bytes w = [ucast w, ucast (drop_bit 8 w), ucast (drop_bit 16 w), ucast (drop_bit 24 w)]"

definition ew_netif :: "eworld \<Rightarrow> addr \<Rightarrow> netif" where
  "ew_netif w n = nw_mem (x_net (ew_x w)) n"

definition upd_entry :: "nat \<Rightarrow> (etharp_entry \<Rightarrow> etharp_entry) \<Rightarrow> eworld \<Rightarrow> eworld" where
  "upd_entry i f w = w\<lparr>ew_table := (ew_table w)[i := f (ew_table w ! i)]\<rparr>"

definition set_pkt :: "packet \<Rightarrow> pbuf list \<Rightarrow> eworld \<Rightarrow> eworld" where
  "set_pkt p c w = w\<lparr>ew_pkt := (ew_pkt w)(p := c)\<rparr>"

text \<open>
  \<^verbatim>\<open>pbuf_free(p)\<close>. An address without buffers is one whose packet was given back: freeing it
  again uses freed memory.
\<close>

definition free_pkt :: "packet \<Rightarrow> eworld \<Rightarrow> eworld" where
  "free_pkt p w =
     (if ew_pkt w p = [] then w\<lparr>ew_fault := True\<rparr>
      else
        let (_, fr, rest) = pbuf_free (ew_pkt w p)
        in (set_pkt p rest w)\<lparr>ew_freed := ew_freed w @ fr\<rparr>)"

section \<open>Sending a frame\<close>

definition write_fields :: "(nat \<times> u8 list) list \<Rightarrow> pbuf \<Rightarrow> pbuf" where
  "write_fields fs p = fold (\<lambda>(k, bs) p. payload_write p k bs) fs p"

definition eth_fields :: "u16 \<Rightarrow> u8 list \<Rightarrow> u8 list \<Rightarrow> (nat \<times> u8 list) list" where
  "eth_fields eth_type_be src dst = [(12, u16_bytes eth_type_be), (0, dst), (6, src)]"

definition ethernet_output ::
    "u8 list \<Rightarrow> addr \<Rightarrow> packet \<Rightarrow> u8 list \<Rightarrow> u8 list \<Rightarrow> u16 \<Rightarrow> eworld \<Rightarrow> (err_t \<times> eworld) option" where
  "ethernet_output stack nif p src dst eth_type w =
     (let eth_type_be = lwip_htons eth_type;
          (failed, c) = pbuf_add_header (ew_pkt w p) 14
      in if ew_pkt w p = [] then None
         else if failed \<noteq> 0 then Some (ERR_BUF, w)
         else
           (case c of
              [] \<Rightarrow> None
            | p0 # ps \<Rightarrow>
                let p0 = write_fields (eth_fields eth_type_be src dst) p0;
                    w = set_pkt p (p0 # ps) w
                in (case nf_linkoutput (ew_netif w nif) of
                      None \<Rightarrow> None
                    | Some Netif_Linkoutput \<Rightarrow>
                        map_option (\<lambda>(err, x). (err, w\<lparr>ew_x := x\<rparr>))
                          (netif_linkoutput stack nif (p0 # ps) (ew_x w)))))"

section \<open>ARP requests and replies\<close>

text \<open>The stores to the fields of \<^verbatim>\<open>struct etharp_hdr\<close>, in the order of the code.\<close>

definition arp_fields :: "u16 \<Rightarrow> u8 list \<Rightarrow> u32 \<Rightarrow> u8 list \<Rightarrow> u32 \<Rightarrow> (nat \<times> u8 list) list" where
  "arp_fields opcode hwsrc ipsrc hwdst ipdst =
     [(6, u16_bytes (lwip_htons opcode)), (8, hwsrc), (18, hwdst), (14, u32_bytes ipsrc),
      (24, u32_bytes ipdst), (0, u16_bytes (lwip_htons 1)), (2, u16_bytes (lwip_htons ETHTYPE_IP)),
      (4, [6]), (5, [4])]"

definition etharp_raw ::
    "(nat \<Rightarrow> allocator) \<Rightarrow> u8 list \<Rightarrow> addr \<Rightarrow> u8 list \<Rightarrow> u8 list \<Rightarrow> u8 list \<Rightarrow> u32 \<Rightarrow> u8 list \<Rightarrow> u32
      \<Rightarrow> u16 \<Rightarrow> eworld \<Rightarrow> (err_t \<times> eworld) option" where
  "etharp_raw heap stack nif ethsrc ethdst hwsrc ipsrc hwdst ipdst opcode w =
     (let p = ew_next w;
          c = ar_chain (pbuf_alloc (heap p) PBUF_LINK 28 PBUF_RAM);
          w = (set_pkt p c w)\<lparr>ew_next := Suc p\<rparr>
      in case c of
           [] \<Rightarrow> Some (ERR_MEM, w)
         | p0 # ps \<Rightarrow>
             let p0 = write_fields (arp_fields opcode hwsrc ipsrc hwdst ipdst) p0
             in map_option (\<lambda>(_, w). (ERR_OK, free_pkt p w))
                  (ethernet_output stack nif p ethsrc ethdst ETHTYPE_ARP (set_pkt p (p0 # ps) w)))"

definition etharp_request_dst ::
    "(nat \<Rightarrow> allocator) \<Rightarrow> u8 list \<Rightarrow> addr \<Rightarrow> u32 \<Rightarrow> u8 list \<Rightarrow> eworld \<Rightarrow> (err_t \<times> eworld) option" where
  "etharp_request_dst heap stack nif ipaddr hw_dst w =
     (let n = ew_netif w nif
      in etharp_raw heap stack nif (nf_hwaddr n) hw_dst (nf_hwaddr n) (nf_ip_addr n) ethzero ipaddr
           ARP_REQUEST w)"

definition etharp_request ::
    "(nat \<Rightarrow> allocator) \<Rightarrow> u8 list \<Rightarrow> addr \<Rightarrow> u32 \<Rightarrow> eworld \<Rightarrow> (err_t \<times> eworld) option" where
  "etharp_request heap stack nif ipaddr w = etharp_request_dst heap stack nif ipaddr ethbroadcast w"

text \<open>\<^verbatim>\<open>etharp_gratuitous(netif)\<close>\<close>

definition etharp_gratuitous ::
    "(nat \<Rightarrow> allocator) \<Rightarrow> u8 list \<Rightarrow> addr \<Rightarrow> eworld \<Rightarrow> (err_t \<times> eworld) option" where
  "etharp_gratuitous heap stack nif w = etharp_request heap stack nif (nf_ip_addr (ew_netif w nif)) w"

section \<open>The table\<close>

definition free_etharp_q :: "packet list \<Rightarrow> eworld \<Rightarrow> eworld" where
  "free_etharp_q q w = fold free_pkt q w"

definition etharp_free_entry :: "nat \<Rightarrow> eworld \<Rightarrow> eworld" where
  "etharp_free_entry i w =
     (let q = ae_q (ew_table w ! i);
          w = (if q \<noteq> [] then upd_entry i (\<lambda>e. e\<lparr>ae_q := []\<rparr>) (free_etharp_q q w) else w)
      in upd_entry i (\<lambda>e. e\<lparr>ae_state := ETHARP_STATE_EMPTY\<rparr>) w)"

text \<open>One entry of the timer's loop.\<close>

definition tmr_entry ::
    "(nat \<Rightarrow> allocator) \<Rightarrow> u8 list \<Rightarrow> nat \<Rightarrow> eworld \<Rightarrow> eworld option" where
  "tmr_entry heap stack i w =
     (if ae_state (ew_table w ! i) = ETHARP_STATE_EMPTY then Some w
      else
        let w = upd_entry i (\<lambda>e. e\<lparr>ae_ctime := ae_ctime e + 1\<rparr>) w;
            e = ew_table w ! i
        in if ae_ctime e \<ge> ARP_MAXAGE
              \<or> ae_state e = ETHARP_STATE_PENDING \<and> ae_ctime e \<ge> ARP_MAXPENDING
           then Some (etharp_free_entry i w)
           else if ae_state e = ETHARP_STATE_STABLE_REREQUESTING_1
           then Some (upd_entry i (\<lambda>e. e\<lparr>ae_state := ETHARP_STATE_STABLE_REREQUESTING_2\<rparr>) w)
           else if ae_state e = ETHARP_STATE_STABLE_REREQUESTING_2
           then Some (upd_entry i (\<lambda>e. e\<lparr>ae_state := ETHARP_STATE_STABLE\<rparr>) w)
           else if ae_state e = ETHARP_STATE_PENDING
           then (case ae_netif e of
                   None \<Rightarrow> None
                 | Some nif \<Rightarrow> map_option snd (etharp_request heap stack nif (ae_ipaddr e) w))
           else Some w)"

fun tmr_loop :: "(nat \<Rightarrow> allocator) \<Rightarrow> u8 list \<Rightarrow> nat list \<Rightarrow> eworld \<Rightarrow> eworld option" where
  "tmr_loop heap stack [] w = Some w"
| "tmr_loop heap stack (i # js) w = Option.bind (tmr_entry heap stack i w) (tmr_loop heap stack js)"

definition etharp_tmr :: "(nat \<Rightarrow> allocator) \<Rightarrow> u8 list \<Rightarrow> eworld \<Rightarrow> eworld option" where
  "etharp_tmr heap stack w = tmr_loop heap stack [0..<ARP_TABLE_SIZE] w"

text \<open>The candidates of the search: the table size stands for none.\<close>

record sweep =
  sw_old_pending :: nat
  sw_old_stable :: nat
  sw_empty :: nat
  sw_old_queue :: nat
  sw_age_queue :: u16
  sw_age_pending :: u16
  sw_age_stable :: u16

definition sweep0 :: sweep where
  "sweep0 = \<lparr>sw_old_pending = ARP_TABLE_SIZE, sw_old_stable = ARP_TABLE_SIZE,
     sw_empty = ARP_TABLE_SIZE, sw_old_queue = ARP_TABLE_SIZE, sw_age_queue = 0,
     sw_age_pending = 0, sw_age_stable = 0\<rparr>"

definition remember :: "nat \<Rightarrow> etharp_entry \<Rightarrow> sweep \<Rightarrow> sweep" where
  "remember i e c =
     (if ae_state e = ETHARP_STATE_PENDING then
        if ae_q e \<noteq> [] then
          if ae_ctime e \<ge> sw_age_queue c then c\<lparr>sw_old_queue := i, sw_age_queue := ae_ctime e\<rparr> else c
        else
          if ae_ctime e \<ge> sw_age_pending c then c\<lparr>sw_old_pending := i, sw_age_pending := ae_ctime e\<rparr> else c
      else if ge_stable (ae_state e) then
        if ae_ctime e \<ge> sw_age_stable c then c\<lparr>sw_old_stable := i, sw_age_stable := ae_ctime e\<rparr> else c
      else c)"

definition entry_matches :: "u32 option \<Rightarrow> addr option \<Rightarrow> etharp_entry \<Rightarrow> bool" where
  "entry_matches ipaddr nif e \<longleftrightarrow> ipaddr = Some (ae_ipaddr e) \<and> (nif = None \<or> nif = ae_netif e)"

fun find_sweep ::
    "u32 option \<Rightarrow> addr option \<Rightarrow> nat \<Rightarrow> etharp_entry list \<Rightarrow> sweep \<Rightarrow> nat + sweep" where
  "find_sweep ipaddr nif i [] c = Inr c"
| "find_sweep ipaddr nif i (e # es) c =
     (if sw_empty c = ARP_TABLE_SIZE \<and> ae_state e = ETHARP_STATE_EMPTY
      then find_sweep ipaddr nif (Suc i) es (c\<lparr>sw_empty := i\<rparr>)
      else if ae_state e \<noteq> ETHARP_STATE_EMPTY then
        if entry_matches ipaddr nif e then Inl i
        else find_sweep ipaddr nif (Suc i) es (remember i e c)
      else find_sweep ipaddr nif (Suc i) es c)"

text \<open>The entry to recycle, in the order of the candidates.\<close>

definition recycle :: "sweep \<Rightarrow> nat option" where
  "recycle c =
     (if sw_old_stable c < ARP_TABLE_SIZE then Some (sw_old_stable c)
      else if sw_old_pending c < ARP_TABLE_SIZE then Some (sw_old_pending c)
      else if sw_old_queue c < ARP_TABLE_SIZE then Some (sw_old_queue c)
      else None)"

definition new_entry :: "u32 option \<Rightarrow> addr option \<Rightarrow> etharp_entry \<Rightarrow> etharp_entry" where
  "new_entry ipaddr nif e =
     (case ipaddr of None \<Rightarrow> e | Some a \<Rightarrow> e\<lparr>ae_ipaddr := a\<rparr>)\<lparr>ae_ctime := 0, ae_netif := nif\<rparr>"

definition etharp_find_entry ::
    "u32 option \<Rightarrow> u8 \<Rightarrow> addr option \<Rightarrow> eworld \<Rightarrow> (err_t + nat) \<times> eworld" where
  "etharp_find_entry ipaddr flags nif w =
     (case find_sweep ipaddr nif 0 (ew_table w) sweep0 of
        Inl i \<Rightarrow> (Inr i, w)
      | Inr c \<Rightarrow>
          if flags AND ETHARP_FLAG_FIND_ONLY \<noteq> 0
             \<or> sw_empty c = ARP_TABLE_SIZE \<and> flags AND ETHARP_FLAG_TRY_HARD = 0
          then (Inl ERR_MEM, w)
          else if sw_empty c < ARP_TABLE_SIZE
          then (Inr (sw_empty c), upd_entry (sw_empty c) (new_entry ipaddr nif) w)
          else
            (case recycle c of
               None \<Rightarrow> (Inl ERR_MEM, w)
             | Some i \<Rightarrow> (Inr i, upd_entry i (new_entry ipaddr nif) (etharp_free_entry i w))))"

text \<open>The loop that sends the packets queued on an entry.\<close>

fun send_queue ::
    "u8 list \<Rightarrow> addr \<Rightarrow> u8 list \<Rightarrow> nat \<Rightarrow> packet list \<Rightarrow> eworld \<Rightarrow> eworld option" where
  "send_queue stack nif ethaddr i [] w = Some w"
| "send_queue stack nif ethaddr i (p # q) w =
     Option.bind
       (ethernet_output stack nif p (nf_hwaddr (ew_netif w nif)) ethaddr ETHTYPE_IP
          (upd_entry i (\<lambda>e. e\<lparr>ae_q := q\<rparr>) w))
       (\<lambda>(_, w). send_queue stack nif ethaddr i q (free_pkt p w))"

definition ip4_addr_ismulticast :: "u32 \<Rightarrow> bool" where
  "ip4_addr_ismulticast a \<longleftrightarrow> a AND lwip_htonl 0xf0000000 = lwip_htonl 0xe0000000"

definition ip4_addr_islinklocal :: "u32 \<Rightarrow> bool" where
  "ip4_addr_islinklocal a \<longleftrightarrow> a AND lwip_htonl 0xffff0000 = lwip_htonl 0xa9fe0000"

definition non_unicast :: "u32 \<Rightarrow> netif \<Rightarrow> bool" where
  "non_unicast a n \<longleftrightarrow> a = IPADDR_ANY \<or> ip4_addr_isbroadcast_u32 a n \<or> ip4_addr_ismulticast a"

definition etharp_update_arp_entry ::
    "u8 list \<Rightarrow> addr \<Rightarrow> u32 \<Rightarrow> u8 list \<Rightarrow> u8 \<Rightarrow> eworld \<Rightarrow> (err_t \<times> eworld) option" where
  "etharp_update_arp_entry stack nif ipaddr ethaddr flags w =
     (if non_unicast ipaddr (ew_netif w nif) then Some (ERR_ARG, w)
      else
        (case etharp_find_entry (Some ipaddr) flags (Some nif) w of
           (Inl err, w) \<Rightarrow> Some (err, w)
         | (Inr i, w) \<Rightarrow>
             let w = upd_entry i (\<lambda>e. e\<lparr>ae_state := ETHARP_STATE_STABLE, ae_netif := Some nif,
                       ae_ethaddr := ethaddr, ae_ctime := 0\<rparr>) w
             in map_option (\<lambda>w. (ERR_OK, w))
                  (send_queue stack nif ethaddr i (ae_q (ew_table w ! i)) w)))"

definition etharp_cleanup_netif :: "addr \<Rightarrow> eworld \<Rightarrow> eworld" where
  "etharp_cleanup_netif nif w =
     fold (\<lambda>i w. if ae_state (ew_table w ! i) \<noteq> ETHARP_STATE_EMPTY \<and> ae_netif (ew_table w ! i) = Some nif
                 then etharp_free_entry i w else w) [0..<ARP_TABLE_SIZE] w"

text \<open>The index with the two addresses; \<open>None\<close> for the result -1.\<close>

definition etharp_find_addr ::
    "addr option \<Rightarrow> u32 option \<Rightarrow> eworld \<Rightarrow> (nat \<times> u8 list \<times> u32) option \<times> eworld" where
  "etharp_find_addr nif ipaddr w =
     (case etharp_find_entry ipaddr ETHARP_FLAG_FIND_ONLY nif w of
        (Inl err, w) \<Rightarrow> (None, w)
      | (Inr i, w) \<Rightarrow>
          if ge_stable (ae_state (ew_table w ! i))
          then (Some (i, ae_ethaddr (ew_table w ! i), ae_ipaddr (ew_table w ! i)), w)
          else (None, w))"

definition etharp_get_entry :: "nat \<Rightarrow> eworld \<Rightarrow> (u32 \<times> addr option \<times> u8 list) option" where
  "etharp_get_entry i w =
     (if i < ARP_TABLE_SIZE \<and> ge_stable (ae_state (ew_table w ! i))
      then Some (ae_ipaddr (ew_table w ! i), ae_netif (ew_table w ! i), ae_ethaddr (ew_table w ! i))
      else None)"

section \<open>Receiving ARP\<close>

text \<open>
  The header is read where the payload points to: the fields the first test looks at are the first
  six bytes, the whole header has 28. The length of the packet is not looked at.
\<close>

definition etharp_input ::
    "(nat \<Rightarrow> allocator) \<Rightarrow> u8 list \<Rightarrow> packet \<Rightarrow> addr \<Rightarrow> eworld \<Rightarrow> eworld option" where
  "etharp_input heap stack p nif w =
     (case ew_pkt w p of
        [] \<Rightarrow> None
      | p0 # ps \<Rightarrow>
          let hdr = payload_read p0 0 28 in
          if length hdr < 6 then None
          else if take 2 hdr \<noteq> u16_bytes (lwip_htons 1) \<or> hdr ! 4 \<noteq> 6 \<or> hdr ! 5 \<noteq> 4
                  \<or> take 2 (drop 2 hdr) \<noteq> u16_bytes (lwip_htons ETHTYPE_IP)
          then Some (free_pkt p w)
          else if length hdr < 28 then None
          else
            let sipaddr = word_at hdr 14; dipaddr = word_at hdr 24;
                shwaddr = take 6 (drop 8 hdr);
                opcode = take 2 (drop 6 hdr);
                n = ew_netif w nif;
                for_us = (nf_ip_addr n \<noteq> IPADDR_ANY \<and> dipaddr = nf_ip_addr n);
                from_us = (nf_ip_addr n \<noteq> IPADDR_ANY \<and> sipaddr = nf_ip_addr n)
            in Option.bind
                 (etharp_update_arp_entry stack nif sipaddr shwaddr
                    (if for_us then ETHARP_FLAG_TRY_HARD else ETHARP_FLAG_FIND_ONLY) w)
                 (\<lambda>(_, w).
                    map_option (free_pkt p)
                      (if opcode = u16_bytes (lwip_htons ARP_REQUEST) \<and> for_us \<and> \<not> from_us
                       then map_option snd (etharp_raw heap stack nif (nf_hwaddr n) shwaddr
                              (nf_hwaddr n) (nf_ip_addr n) shwaddr sipaddr ARP_REPLY w)
                       else Some w)))"

section \<open>Sending IP packets\<close>

definition etharp_output_to_arp_index ::
    "(nat \<Rightarrow> allocator) \<Rightarrow> u8 list \<Rightarrow> addr \<Rightarrow> packet \<Rightarrow> nat \<Rightarrow> eworld \<Rightarrow> (err_t \<times> eworld) option" where
  "etharp_output_to_arp_index heap stack nif q i w =
     (let e = ew_table w ! i;
          rerequest = (\<lambda>r. map_option (\<lambda>(err, w).
             if err = ERR_OK
             then upd_entry i (\<lambda>e. e\<lparr>ae_state := ETHARP_STATE_STABLE_REREQUESTING_1\<rparr>) w else w) r)
      in Option.bind
           (if ae_state e = ETHARP_STATE_STABLE then
              if ae_ctime e \<ge> ARP_MAXAGE - 15
              then rerequest (etharp_request heap stack nif (ae_ipaddr e) w)
              else if ae_ctime e \<ge> ARP_MAXAGE - 30
              then rerequest (etharp_request_dst heap stack nif (ae_ipaddr e) (ae_ethaddr e) w)
              else Some w
            else Some w)
           (\<lambda>w. ethernet_output stack nif q (nf_hwaddr (ew_netif w nif)) (ae_ethaddr (ew_table w ! i))
                  ETHTYPE_IP w))"

text \<open>\<^verbatim>\<open>ETHARP_SET_ADDRHINT\<close>\<close>

definition set_addrhint :: "addr \<Rightarrow> nat \<Rightarrow> eworld \<Rightarrow> eworld" where
  "set_addrhint nif i w =
     (case nf_hints (ew_netif w nif) of
        None \<Rightarrow> w
      | Some h \<Rightarrow> w\<lparr>ew_hint := (ew_hint w)(h := of_nat i)\<rparr>)"

text \<open>\<^verbatim>\<open>PBUF_NEEDS_COPY\<close>\<close>

definition pbuf_needs_copy :: "pbuf \<Rightarrow> bool" where
  "pbuf_needs_copy p \<longleftrightarrow> p_type_internal p AND PBUF_TYPE_FLAG_DATA_VOLATILE \<noteq> 0"

text \<open>
  The packet taken over for the queue: a copy where a buffer of it must be copied, another reference
  otherwise. The first result is \<^verbatim>\<open>NULL\<close> where the copy could not be made.
\<close>

definition take_over ::
    "(nat \<Rightarrow> allocator) \<Rightarrow> packet \<Rightarrow> eworld \<Rightarrow> (packet option \<times> eworld) option" where
  "take_over heap q w =
     (if ew_pkt w q = [] then None
      else if list_ex pbuf_needs_copy (ew_pkt w q) then
        map_option (\<lambda>r. (if ar_chain r = [] then None else Some (ew_next w),
                         (set_pkt (ew_next w) (ar_chain r) w)\<lparr>ew_next := Suc (ew_next w),
                            ew_freed := ew_freed w @ ar_freed r\<rparr>))
          (pbuf_clone (heap (ew_next w)) PBUF_LINK PBUF_RAM (ew_pkt w q))
      else Some (Some q, set_pkt q (pbuf_ref (ew_pkt w q)) w))"

text \<open>The packet at the end of the queue of an entry, whose first packet goes where it is full.\<close>

definition enqueue ::
    "(nat \<Rightarrow> allocator) \<Rightarrow> nat \<Rightarrow> packet \<Rightarrow> eworld \<Rightarrow> err_t \<times> eworld" where
  "enqueue heap i p w =
     (let r = heap (ew_next w) 0 16; w = w\<lparr>ew_next := Suc (ew_next w)\<rparr>
      in if r = None then (ERR_MEM, free_pkt p w)
         else
           let qlen = length (ae_q (ew_table w ! i));
               w = upd_entry i (\<lambda>e. e\<lparr>ae_q := ae_q e @ [p]\<rparr>) w;
               q = ae_q (ew_table w ! i)
           in (ERR_OK,
               if qlen \<ge> ARP_QUEUE_LEN then free_pkt (hd q) (upd_entry i (\<lambda>e. e\<lparr>ae_q := tl q\<rparr>) w)
               else w))"

definition etharp_query ::
    "(nat \<Rightarrow> allocator) \<Rightarrow> u8 list \<Rightarrow> addr \<Rightarrow> u32 \<Rightarrow> packet option \<Rightarrow> eworld \<Rightarrow> (err_t \<times> eworld) option" where
  "etharp_query heap stack nif ipaddr q w =
     (if non_unicast ipaddr (ew_netif w nif) then Some (ERR_ARG, w)
      else
        (case etharp_find_entry (Some ipaddr) ETHARP_FLAG_TRY_HARD (Some nif) w of
           (Inl err, w) \<Rightarrow> Some (err, w)
         | (Inr i, w) \<Rightarrow>
             let is_new_entry = (ae_state (ew_table w ! i) = ETHARP_STATE_EMPTY);
                 w = (if is_new_entry
                      then upd_entry i (\<lambda>e. e\<lparr>ae_state := ETHARP_STATE_PENDING, ae_netif := Some nif\<rparr>) w
                      else w)
             in Option.bind
                  (if is_new_entry \<or> q = None then
                     map_option (\<lambda>(result, w).
                        (result,
                         if result = ERR_OK \<and> ae_state (ew_table w ! i) = ETHARP_STATE_PENDING
                            \<and> \<not> is_new_entry
                         then upd_entry i (\<lambda>e. e\<lparr>ae_ctime := 0\<rparr>) w else w))
                       (etharp_request heap stack nif ipaddr w)
                   else Some (ERR_MEM, w))
                  (\<lambda>(result, w).
                     case q of
                       None \<Rightarrow> Some (result, w)
                     | Some q \<Rightarrow>
                         if ge_stable (ae_state (ew_table w ! i)) then
                           ethernet_output stack nif q (nf_hwaddr (ew_netif w nif))
                             (ae_ethaddr (ew_table w ! i)) ETHTYPE_IP (set_addrhint nif i w)
                         else if ae_state (ew_table w ! i) = ETHARP_STATE_PENDING then
                           map_option (\<lambda>(p, w). case p of
                                                  None \<Rightarrow> (ERR_MEM, w)
                                                | Some p \<Rightarrow> enqueue heap i p w)
                             (take_over heap q w)
                         else Some (result, w))))"

fun stable_index :: "u32 \<Rightarrow> addr \<Rightarrow> nat \<Rightarrow> etharp_entry list \<Rightarrow> nat option" where
  "stable_index dst nif i [] = None"
| "stable_index dst nif i (e # es) =
     (if ge_stable (ae_state e) \<and> ae_netif e = Some nif \<and> dst = ae_ipaddr e then Some i
      else stable_index dst nif (Suc i) es)"

text \<open>The entry the hint of the interface names, where it is stable and the right one.\<close>

definition hinted_index :: "u32 \<Rightarrow> addr \<Rightarrow> eworld \<Rightarrow> nat option" where
  "hinted_index dst nif w =
     (case nf_hints (ew_netif w nif) of
        None \<Rightarrow> None
      | Some h \<Rightarrow>
          let k = unat (ew_hint w h) in
          if k < ARP_TABLE_SIZE \<and> ge_stable (ae_state (ew_table w ! k))
             \<and> ae_netif (ew_table w ! k) = Some nif \<and> dst = ae_ipaddr (ew_table w ! k)
          then Some k else None)"

definition mcast_mac :: "u32 \<Rightarrow> u8 list" where
  "mcast_mac a = [0x01, 0x00, 0x5e, u32_bytes a ! 1 AND 0x7f, u32_bytes a ! 2, u32_bytes a ! 3]"

definition etharp_output ::
    "(nat \<Rightarrow> allocator) \<Rightarrow> u8 list \<Rightarrow> addr \<Rightarrow> packet \<Rightarrow> u32 \<Rightarrow> eworld \<Rightarrow> (err_t \<times> eworld) option" where
  "etharp_output heap stack nif q ipaddr w =
     (let n = ew_netif w nif in
      if ip4_addr_isbroadcast_u32 ipaddr n
      then ethernet_output stack nif q (nf_hwaddr n) ethbroadcast ETHTYPE_IP w
      else if ip4_addr_ismulticast ipaddr
      then ethernet_output stack nif q (nf_hwaddr n) (mcast_mac ipaddr) ETHTYPE_IP w
      else
        let outside = (ipaddr AND nf_netmask n \<noteq> nf_ip_addr n AND nf_netmask n
                       \<and> \<not> ip4_addr_islinklocal ipaddr)
        in if outside \<and> nf_gw n = IPADDR_ANY then Some (ERR_RTE, w)
           else
             let dst_addr = (if outside then nf_gw n else ipaddr) in
             case hinted_index dst_addr nif w of
               Some i \<Rightarrow> etharp_output_to_arp_index heap stack nif q i w
             | None \<Rightarrow>
                 (case stable_index dst_addr nif 0 (ew_table w) of
                    Some i \<Rightarrow> etharp_output_to_arp_index heap stack nif q i (set_addrhint nif i w)
                  | None \<Rightarrow> etharp_query heap stack nif dst_addr (Some q) w))"

section \<open>Receiving a frame\<close>

text \<open>The flags a multicast or broadcast destination adds.\<close>

definition ll_flags :: "u8 list \<Rightarrow> u8" where
  "ll_flags dest =
     (if dest ! 0 AND 1 \<noteq> 0 then
        if dest ! 0 = 0x01 then (if dest ! 1 = 0x00 \<and> dest ! 2 = 0x5e then 0x10 else 0)
        else if dest ! 0 = 0x33 \<and> dest ! 1 = 0x33 then 0x10
        else if dest = ethbroadcast then 0x08 else 0
      else 0)"

definition ethernet_input ::
    "(nat \<Rightarrow> allocator) \<Rightarrow> u8 list \<Rightarrow> packet \<Rightarrow> addr \<Rightarrow> eworld \<Rightarrow> (err_t \<times> eworld) option" where
  "ethernet_input heap stack p nif w =
     (case ew_pkt w p of
        [] \<Rightarrow> None
      | p0 # ps \<Rightarrow>
          if p_len p0 \<le> 14 then Some (ERR_OK, free_pkt p w)
          else
            let n = ew_netif w nif;
                p0 = (if p_if_idx p0 = 0 then p0\<lparr>p_if_idx := netif_get_index n\<rparr> else p0);
                ethhdr = payload_read p0 0 14;
                typ = take 2 (drop 12 ethhdr);
                p0 = p0\<lparr>p_flags := p_flags p0 OR ll_flags (take 6 ethhdr)\<rparr>;
                (failed, c) = pbuf_remove_header (p0 # ps) 14;
                etharp = (nf_flags n AND NETIF_FLAG_ETHARP \<noteq> 0);
                drop_it = Some (ERR_OK, free_pkt p (set_pkt p (p0 # ps) w));
                w = set_pkt p c w
            in if typ = u16_bytes (lwip_htons ETHTYPE_IP) then
                 if \<not> etharp \<or> failed \<noteq> 0 then drop_it
                 else Some (ERR_OK, w\<lparr>ew_up := ew_up w @ [Ip4_Input p nif]\<rparr>)
               else if typ = u16_bytes (lwip_htons ETHTYPE_ARP) then
                 if \<not> etharp \<or> failed \<noteq> 0 then drop_it
                 else map_option (\<lambda>w. (ERR_OK, w)) (etharp_input heap stack p nif w)
               else if typ = u16_bytes (lwip_htons ETHTYPE_IPV6) then
                 if failed \<noteq> 0 then drop_it
                 else Some (ERR_OK, w\<lparr>ew_up := ew_up w @ [Ip6_Input p nif]\<rparr>)
               else drop_it)"

definition tcpip_input ::
    "(nat \<Rightarrow> allocator) \<Rightarrow> u8 list \<Rightarrow> packet \<Rightarrow> addr \<Rightarrow> eworld \<Rightarrow> (err_t \<times> eworld) option" where
  "tcpip_input heap stack p inp w =
     (if nf_flags (ew_netif w inp) AND (NETIF_FLAG_ETHARP OR NETIF_FLAG_ETHERNET) \<noteq> 0
      then ethernet_input heap stack p inp w
      else Some (ERR_OK, w\<lparr>ew_up := ew_up w @ [Ip_Input p inp]\<rparr>))"

text \<open>The tables of a program that has just started.\<close>

definition empty_entry :: etharp_entry where
  "empty_entry = \<lparr>ae_q = [], ae_ipaddr = 0, ae_netif = None, ae_ethaddr = ethzero, ae_ctime = 0,
     ae_state = ETHARP_STATE_EMPTY\<rparr>"

definition arp_table0 :: "etharp_entry list" where
  "arp_table0 = replicate ARP_TABLE_SIZE empty_entry"

end
