(* ===== verification/Link_Frames.thy ===== *)
theory Link_Frames
  imports "Link_Layer" "Neighbour_Props"
begin

text \<open>
  The frames the link layer makes: the bytes of an Ethernet header and of an ARP message, what
  sending leaves unchanged, and that sending returns. The lemmas feed the proofs on the ARP cache.
\<close>

section \<open>Bytes of the headers\<close>

lemma u16_bytes_htons: "u16_bytes (lwip_htons n) = [ucast (drop_bit 8 n), ucast n]"
  unfolding u16_bytes_def lwip_htons_def byte_masks
  by (auto intro!: bit_word_eqI simp: bit_simps)

lemma length_u16_bytes [simp]: "length (u16_bytes n) = 2"
  by (simp add: u16_bytes_def)

lemma length_u32_bytes [simp]: "length (u32_bytes n) = 4"
  by (simp add: u32_bytes_def)

lemma length_eth_consts [simp]: "length ethbroadcast = 6" "length ethzero = 6"
  by (simp_all add: ethbroadcast_def ethzero_def)

lemma length_mcast_mac [simp]: "length (mcast_mac a) = 6"
  by (simp add: mcast_mac_def)

lemma word_at_append: "word_at (xs @ u32_bytes a @ ys) (length xs) = a"
proof (rule bit_word_eqI)
  fix n assume "n < LENGTH(32)"
  then consider "n < 8" | "8 \<le> n" "n < 16" | "16 \<le> n" "n < 24" | "24 \<le> n" "n < 32" by fastforce
  then show "bit (word_at (xs @ u32_bytes a @ ys) (length xs)) n = bit a n"
    unfolding word_at_def u32_bytes_def by cases (simp_all add: nth_append bit_simps, linarith+)
qed

lemma u32_bytes_word_at:
  assumes "length bs = 4" shows "u32_bytes (word_at bs 0) = bs"
proof -
  obtain a b c d where bs: "bs = [a, b, c, d]" using assms by (auto simp: length_Suc_conv numeral_eq_Suc)
  show ?thesis unfolding bs u32_bytes_def word_at_def
    by (auto simp: bit_simps u8_high_bit intro!: bit_word_eqI)
qed

section \<open>Fields of a header\<close>

lemma write_fields_shape [simp]:
  "p_len (write_fields fs p) = p_len p" "p_tot_len (write_fields fs p) = p_tot_len p"
  "p_ref (write_fields fs p) = p_ref p" "p_type_internal (write_fields fs p) = p_type_internal p"
  "p_payload (write_fields fs p) = p_payload p"
  unfolding write_fields_def by (induction fs arbitrary: p) (auto simp: case_prod_beta)

lemma write_fields_data:
  assumes "wf_pbuf p" "\<forall>(k, bs) \<in> set fs. k + length bs \<le> unat (p_len p)"
  shows "wf_pbuf (write_fields fs p)
    \<and> pdata (write_fields fs p) = fold (\<lambda>(k, bs) d. mem_write d k bs) fs (pdata p)"
  using assms
proof (induction fs arbitrary: p)
  case (Cons f fs)
  then show ?case by (cases f) (auto simp: write_fields_def chain_simps)
qed (simp add: write_fields_def)

lemma eth_header_bytes:
  assumes "length src = 6" "length dst = 6" "length hdr = 14"
  shows "fold (\<lambda>(k, bs) d. mem_write d k bs)
      (eth_fields (lwip_htons t) src dst) (hdr @ data)
    = dst @ src @ [ucast (drop_bit 8 t), ucast t] @ data"
  using assms by (simp add: mem_write_def u16_bytes_htons eth_fields_def)

definition arp_message :: "u16 \<Rightarrow> u8 list \<Rightarrow> u32 \<Rightarrow> u8 list \<Rightarrow> u32 \<Rightarrow> u8 list" where
  "arp_message op hwsrc ipsrc hwdst ipdst =
     [0, 1, 8, 0, 6, 4, ucast (drop_bit 8 op), ucast op] @ hwsrc @ u32_bytes ipsrc @ hwdst @ u32_bytes ipdst"

lemma length_arp_message [simp]:
  "length a = 6 \<Longrightarrow> length b = 6 \<Longrightarrow> length (arp_message op a s b d) = 28"
  by (simp add: arp_message_def)

lemma arp_message_bytes:
  assumes "length hwsrc = 6" "length hwdst = 6" "length d = 28"
  shows "fold (\<lambda>(k, bs) d. mem_write d k bs)
      (arp_fields opcode hwsrc ipsrc hwdst ipdst) d
    = arp_message opcode hwsrc ipsrc hwdst ipdst"
proof -
  obtain s0 s1 s2 s3 s4 s5 where s: "hwsrc = [s0, s1, s2, s3, s4, s5]"
    using assms(1) by (auto simp: length_Suc_conv numeral_eq_Suc)
  obtain t0 t1 t2 t3 t4 t5 where t: "hwdst = [t0, t1, t2, t3, t4, t5]"
    using assms(2) by (auto simp: length_Suc_conv numeral_eq_Suc)
  show ?thesis using assms(3)
    by (simp add: mem_write_def u16_bytes_htons arp_message_def arp_fields_def s t u32_bytes_def)
qed

section \<open>Packets\<close>

definition pkt_ok :: "pbuf list \<Rightarrow> bool" where
  "pkt_ok c \<longleftrightarrow> wf_chain c \<and> one_packet c"

definition pkts_ok :: "eworld \<Rightarrow> bool" where
  "pkts_ok w \<longleftrightarrow> (\<forall>p. pkt_ok (ew_pkt w p))"

lemma pkt_ok_Nil [simp]: "pkt_ok []"
  by (simp add: pkt_ok_def)

lemma one_packet_suffix: "one_packet (ps @ qs) \<Longrightarrow> one_packet qs"
  by (induction ps) auto

lemma pkt_ok_free:
  assumes "pkt_ok c" shows "pkt_ok (snd (snd (pbuf_free c)))"
proof -
  let ?d = "dropWhile (\<lambda>p. p_ref p = 1) c"
  have "pkt_ok ?d"
    using assms wf_chain_append_tail [of "takeWhile (\<lambda>p. p_ref p = 1) c" ?d]
      one_packet_suffix [of "takeWhile (\<lambda>p. p_ref p = 1) c" ?d] by (simp add: pkt_ok_def)
  moreover have "pkt_ok d \<Longrightarrow> pkt_ok (unshare d)" for d
    by (cases d) (auto simp: unshare_def pkt_ok_def wf_chain_def wf_pbuf_def)
  ultimately show ?thesis by (simp add: pbuf_free_spec)
qed

lemma pkt_ok_ref: "pkt_ok c \<Longrightarrow> pkt_ok (pbuf_ref c)"
  by (cases c) (auto simp: pkt_ok_def wf_chain_def wf_pbuf_def)

lemma pkt_ok_alloc:
  assumes "malloc_ok malloc"
  shows "pkt_ok (ar_chain (pbuf_alloc malloc layer len PBUF_RAM))"
proof (cases "ar_chain (pbuf_alloc malloc layer len PBUF_RAM)")
  case (Cons p ps)
  then have "ps = []" unfolding pbuf_alloc_ram by (auto simp: pool_ok_def split: if_splits option.splits)
  then show ?thesis using pbuf_alloc_ok [OF assms, of PBUF_RAM layer len p ps] Cons
    by (simp add: pkt_ok_def)
qed simp

lemma pkt_ok_clone:
  assumes "malloc_ok malloc" "pkt_ok c" "c \<noteq> []"
  shows "\<exists>r. pbuf_clone malloc layer PBUF_RAM c = Some r \<and> pkt_ok (ar_chain r)
    \<and> (ar_chain r = [] \<or> pbytes (ar_chain r) = pbytes c)"
proof -
  obtain x xs where c: "c = x # xs" using assms(3) by (cases c) auto
  let ?r = "pbuf_alloc malloc layer (p_tot_len x) PBUF_RAM"
  show ?thesis
  proof (cases "ar_chain ?r = []")
    case True
    then show ?thesis by (simp add: pbuf_clone_def c Let_def)
  next
    case False
    then obtain p ps where a: "ar_chain ?r = p # ps" by (cases "ar_chain ?r") auto
    then have ok: "pkt_ok (p # ps)" using pkt_ok_alloc [OF assms(1), of layer "p_tot_len x"] by simp
    have l: "plen (p # ps) = plen c" using pbuf_alloc_ok [OF assms(1) _ a] assms(2)
      by (simp add: c pkt_ok_def chain_simps)
    obtain qs where "pbuf_copy (p # ps) c = (ERR_OK, qs)" "wf_chain qs" "same_shape qs (p # ps)"
        "pbytes qs = pbytes c @ drop (plen c) (pbytes (p # ps))"
      using pbuf_copy_bytes [of "p # ps" c] ok assms(2,3) l by (auto simp: pkt_ok_def)
    moreover have "drop (plen c) (pbytes (p # ps)) = []"
      using ok l wf_chain_length [of "p # ps"] by (simp add: pkt_ok_def del: plen_simps)
    ultimately have "pbuf_clone malloc layer PBUF_RAM c = Some (?r\<lparr>ar_chain := qs\<rparr>)"
        "pkt_ok qs" "pbytes qs = pbytes c"
      using a ok one_packet_shape [of qs "p # ps"] by (simp_all add: pbuf_clone_def c pkt_ok_def)
    then show ?thesis by (intro exI [of _ "?r\<lparr>ar_chain := qs\<rparr>"]) simp
  qed
qed

lemma add_header_frame:
  assumes "pkt_ok c"
  obtains (no_room) "fst (pbuf_add_header c 14) \<noteq> 0"
    | (room) p0 ps hdr where "pbuf_add_header c 14 = (0, p0 # ps)" "pkt_ok (p0 # ps)"
      "length hdr = 14" "pdata p0 = hdr @ pdata (hd c)" "tl c = ps" "c \<noteq> []"
      "map p_ref (p0 # ps) = map p_ref c" "14 \<le> unat (p_len p0)"
proof (cases c)
  case Nil
  then show thesis using no_room by (simp add: pbuf_add_header_def)
next
  case (Cons p ps)
  have wf: "wf_chain (p # ps)" "one_packet (p # ps)" using assms Cons by (auto simp: pkt_ok_def)
  consider "fst (pbuf_add_header c 14) \<noteq> 0" | "int 14 \<le> p_payload p" "14 + plen (p # ps) < 65536"
      "pbuf_add_header c 14 = (0, p\<lparr>p_payload := p_payload p - int 14, p_len := p_len p + of_nat 14,
                p_tot_len := p_tot_len p + of_nat 14\<rparr> # ps)"
    using pbuf_add_header_cases [OF wf(1), of False 14] Cons unfolding pbuf_add_header_def by fastforce
  then show thesis
  proof cases
    case 1
    then show thesis by (rule no_room)
  next
    case 2
    define q where "q = p\<lparr>p_payload := p_payload p - int 14, p_len := p_len p + of_nat 14,
                p_tot_len := p_tot_len p + of_nat 14\<rparr>"
    let ?h = "take 14 (drop (nat (p_payload p) - 14) (p_mem p))"
    note g = wf_grow_front [OF wf(1) 2(1,2), folded q_def]
    have l: "length ?h = 14" using wf(1) 2(1) by (auto simp: wf_chain_Cons wf_pbuf_def)
    have o: "one_packet (q # ps)" using wf(2) by (auto simp: q_def)
    show thesis
      by (rule room [of q ps ?h]) (use 2 g l o in \<open>auto simp: q_def Cons pkt_ok_def\<close>)
  qed
qed

section \<open>What sending leaves\<close>

text \<open>
  Sending touches packets, the allocator and the events, and nothing else: the table, the hints and
  what went up stay, and so does every reference count.
\<close>

definition refs :: "eworld \<Rightarrow> packet \<Rightarrow> u8 list" where
  "refs w p = map p_ref (ew_pkt w p)"

definition fresh_above :: "eworld \<Rightarrow> bool" where
  "fresh_above w \<longleftrightarrow> (\<forall>p \<ge> ew_next w. ew_pkt w p = [])"

definition more_events :: "xworld \<Rightarrow> xworld \<Rightarrow> bool" where
  "more_events x x' \<longleftrightarrow> (\<exists>evs. x' = x\<lparr>x_events := x_events x @ evs\<rparr>)"

definition link_step :: "eworld \<Rightarrow> eworld \<Rightarrow> bool" where
  "link_step w w' \<longleftrightarrow> ew_table w' = ew_table w \<and> ew_hint w' = ew_hint w \<and> ew_up w' = ew_up w
     \<and> ew_fault w' = ew_fault w
     \<and> ew_next w \<le> ew_next w' \<and> more_events (ew_x w) (ew_x w') \<and> (pkts_ok w \<longrightarrow> pkts_ok w')
     \<and> (fresh_above w \<longrightarrow> fresh_above w' \<and> refs w' = refs w)"

lemma more_events_refl [intro, simp]: "more_events x x"
  unfolding more_events_def by (auto intro!: exI [of _ "[]"])

lemma more_events_emit [simp]: "more_events x (emit e x)"
  by (auto simp: more_events_def emit_def)

lemma link_step_refl [intro, simp]: "link_step w w"
  by (simp add: link_step_def)

lemma more_events_trans: "more_events x y \<Longrightarrow> more_events y z \<Longrightarrow> more_events x z"
  by (auto simp: more_events_def)

lemma link_step_trans [trans]: "link_step u v \<Longrightarrow> link_step v w \<Longrightarrow> link_step u w"
  unfolding link_step_def using more_events_trans [of "ew_x u" "ew_x v" "ew_x w"] by simp

lemma link_stepD:
  assumes "link_step w w'"
  shows "ew_table w' = ew_table w" "ew_netif w' = ew_netif w" "pkts_ok w \<Longrightarrow> pkts_ok w'"
    "ew_next w \<le> ew_next w'" "fresh_above w \<Longrightarrow> fresh_above w'" "fresh_above w \<Longrightarrow> refs w' = refs w"
    "ew_up w' = ew_up w" "ew_fault w' = ew_fault w"
  using assms by (auto simp: link_step_def more_events_def ew_netif_def fun_eq_iff)

definition eth_netif :: "netif \<Rightarrow> bool" where
  "eth_netif n \<longleftrightarrow> nf_linkoutput n \<noteq> None \<and> length (nf_hwaddr n) = 6"

lemma world_simps [simp]:
  "ew_x (set_pkt p c w) = ew_x w" "ew_table (set_pkt p c w) = ew_table w"
  "ew_hint (set_pkt p c w) = ew_hint w" "ew_next (set_pkt p c w) = ew_next w"
  "ew_up (set_pkt p c w) = ew_up w" "ew_freed (set_pkt p c w) = ew_freed w"
  "ew_pkt (set_pkt p c w) = (ew_pkt w)(p := c)"
  "ew_x (upd_entry i f w) = ew_x w" "ew_pkt (upd_entry i f w) = ew_pkt w"
  "ew_hint (upd_entry i f w) = ew_hint w" "ew_next (upd_entry i f w) = ew_next w"
  "ew_up (upd_entry i f w) = ew_up w" "ew_freed (upd_entry i f w) = ew_freed w"
  "ew_fault (set_pkt p c w) = ew_fault w" "ew_fault (upd_entry i f w) = ew_fault w"
  "ew_table (upd_entry i f w) = (ew_table w)[i := f (ew_table w ! i)]"
  "ew_netif (set_pkt p c w) = ew_netif w" "ew_netif (upd_entry i f w) = ew_netif w"
  "ew_netif (ew_next_update g w) = ew_netif w" "ew_netif (ew_freed_update h w) = ew_netif w"
  "ew_netif (ew_hint_update k w) = ew_netif w" "ew_netif (ew_up_update m w) = ew_netif w"
  by (simp_all add: set_pkt_def upd_entry_def ew_netif_def fun_eq_iff)

lemma free_pkt_fields [simp]:
  "ew_x (free_pkt p w) = ew_x w" "ew_table (free_pkt p w) = ew_table w"
  "ew_hint (free_pkt p w) = ew_hint w" "ew_next (free_pkt p w) = ew_next w"
  "ew_up (free_pkt p w) = ew_up w" "ew_netif (free_pkt p w) = ew_netif w"
  "ew_pkt (free_pkt p w) = (ew_pkt w)(p := snd (snd (pbuf_free (ew_pkt w p))))"
  "ew_fault (free_pkt p w) \<longleftrightarrow> ew_fault w \<or> ew_pkt w p = []"
  by (simp_all add: free_pkt_def case_prod_beta Let_def ew_netif_def fun_eq_iff pbuf_free_spec unshare_def)

lemma linkoutput_step:
  assumes "wf_chain c" "c \<noteq> []" "length stack = 2048"
  shows "\<exists>err x'. netif_linkoutput stack nif c x = Some (err, x') \<and> more_events x x'"
proof (cases "nf_state (nw_mem (x_net x) nif)")
  case None
  then show ?thesis by (auto simp: netif_linkoutput_def)
next
  case (Some tap)
  obtain p0 ps where c: "c = p0 # ps" using assms(2) by (cases c) auto
  have t: "unat (p_tot_len p0) = plen c" using assms(1) by (simp add: c chain_simps)
  consider "\<not> x_node x" | "p_tot_len p0 > 2048 \<or> p_tot_len p0 < 14"
    | "x_node x" "14 \<le> plen c" "plen c \<le> 2048"
    using t by (cases "x_node x"; cases "14 \<le> plen c"; cases "plen c \<le> 2048")
      (auto simp: word_less_nat_alt)
  then show ?thesis
  proof cases
    case 3
    have "14 \<le> length (pbytes c)" using assms(1) 3 by (simp add: wf_chain_length)
    then obtain dst src h lo data where
      "pbytes c = dst @ src @ [h, lo] @ data" "length dst = 6" "length src = 6" by (rule frame_parts)
    from linkoutput_frame [OF assms(1) this 3(3) assms(3) Some 3(1)]
    show ?thesis by simp
  qed (auto simp: netif_linkoutput_def Some c Let_def)
qed

section \<open>Sending a frame\<close>

text \<open>The chain after the header is written, and the reference counts it keeps.\<close>

lemma framed:
  fixes t :: u16
  assumes "pkt_ok (p0 # ps)" "length src = 6" "length dst = 6" "14 \<le> unat (p_len p0)"
    "length hdr = 14" "pdata p0 = hdr @ data"
  defines "c \<equiv> write_fields (eth_fields (lwip_htons t) src dst) p0 # ps"
  shows "pkt_ok c" "pbytes c = dst @ src @ [ucast (drop_bit 8 t), ucast t] @ data @ pbytes ps"
    "map p_ref c = map p_ref (p0 # ps)" "plen c = plen (p0 # ps)" "c \<noteq> []"
proof -
  have wf: "wf_pbuf p0" using assms(1) by (simp add: pkt_ok_def chain_simps)
  note d = write_fields_data [OF wf, of "eth_fields (lwip_htons t) src dst"]
  show "pkt_ok c" using d assms(1-4) unfolding c_def by (simp add: pkt_ok_def chain_simps eth_fields_def)
  show "pbytes c = dst @ src @ [ucast (drop_bit 8 t), ucast t] @ data @ pbytes ps"
    using d assms(2-4) eth_header_bytes [OF assms(2,3,5), of t data] unfolding c_def pbytes_simps assms(6)
    by (simp add: eth_fields_def)
qed (simp_all add: c_def)

lemma ethernet_output_returns:
  assumes "pkt_ok (ew_pkt w p)" "ew_pkt w p \<noteq> []" "eth_netif (ew_netif w nif)" "length src = 6" "length dst = 6"
    "length stack = 2048"
  obtains err c x where
    "ethernet_output stack nif p src dst t w = Some (err, (set_pkt p c w)\<lparr>ew_x := x\<rparr>)"
    "pkt_ok c" "map p_ref c = refs w p" "more_events (ew_x w) x"
proof -
  obtain n where n: "nf_linkoutput (ew_netif w nif) = Some n" using assms(3) by (auto simp: eth_netif_def)
  from assms(1) show thesis
  proof (cases rule: add_header_frame)
    case no_room
    moreover have "w = (set_pkt p (ew_pkt w p) w)\<lparr>ew_x := ew_x w\<rparr>" by (simp add: set_pkt_def)
    ultimately show thesis using assms(1,2)
      by (intro that [of ERR_BUF "ew_x w" "ew_pkt w p"])
         (auto simp: ethernet_output_def case_prod_beta refs_def)
  next
    case (room p0 ps hdr)
    let ?c = "write_fields (eth_fields (lwip_htons t) src dst) p0 # ps"
    note f = framed [OF room(2) assms(4,5) room(8,3,4), of t]
    obtain err x where l: "netif_linkoutput stack nif ?c (ew_x w) = Some (err, x)" "more_events (ew_x w) x"
      using linkoutput_step [of ?c stack nif "ew_x w"] f(1) assms(6) by (auto simp: pkt_ok_def)
    show thesis
      by (rule that [of err x ?c]) (use assms(2) room(1,7) l n f in \<open>auto simp: ethernet_output_def refs_def
          Let_def split: linkoutput_fn.splits\<close>)
  qed
qed

lemma packet_step:
  assumes "pkt_ok c" "map p_ref c = refs w p" "more_events (ew_x w) x"
  shows "link_step w ((set_pkt p c w)\<lparr>ew_x := x\<rparr>)"
proof -
  have "c = [] \<longleftrightarrow> ew_pkt w p = []" using arg_cong [OF assms(2), of length] by (auto simp: refs_def)
  then show ?thesis using assms by (auto simp: link_step_def pkts_ok_def fresh_above_def refs_def fun_eq_iff)
qed

lemma ethernet_output_step:
  assumes "pkts_ok w" "ew_pkt w p \<noteq> []" "eth_netif (ew_netif w nif)" "length src = 6" "length dst = 6" "length stack = 2048"
  shows "\<exists>err w'. ethernet_output stack nif p src dst t w = Some (err, w') \<and> link_step w w'"
  by (rule ethernet_output_returns [of w p nif src dst stack t])
     (use assms packet_step in \<open>auto simp: pkts_ok_def\<close>)

text \<open>The frame the node gets for a packet that has room for the header.\<close>

definition roomy :: "pbuf list \<Rightarrow> bool" where
  "roomy c \<longleftrightarrow> pkt_ok c \<and> c \<noteq> [] \<and> contiguous (hd c) \<and> 14 \<le> p_payload (hd c) \<and> plen c \<le> 2034"

definition node_frame :: "eworld \<Rightarrow> addr \<Rightarrow> u8 list \<Rightarrow> u8 list \<Rightarrow> u16 \<Rightarrow> u8 list \<Rightarrow> xevent" where
  "node_frame w nif src dst t data =
     Node_Frame (t_nwid (x_taps (ew_x w) ! the (nf_state (ew_netif w nif))))
       (bytes_to_mac src) (bytes_to_mac dst) t data"

definition driver_up :: "addr \<Rightarrow> eworld \<Rightarrow> bool" where
  "driver_up nif w \<longleftrightarrow> eth_netif (ew_netif w nif) \<and> nf_state (ew_netif w nif) \<noteq> None \<and> x_node (ew_x w)"

lemma join_bytes: "push_bit 8 (ucast (ucast (drop_bit 8 t) :: u8)) OR ucast (ucast t :: u8) = (t :: u16)"
proof (rule bit_word_eqI)
  fix n assume "n < LENGTH(16)"
  then consider "n < 8" | "8 \<le> n" "n < 16" by fastforce
  then show "bit (push_bit 8 (ucast (ucast (drop_bit 8 t) :: u8)) OR ucast (ucast t :: u8) :: u16) n = bit t n"
    by cases (auto simp: bit_simps)
qed

lemma ethernet_output_sends:
  assumes "roomy (ew_pkt w p)" "driver_up nif w" "length src = 6" "length dst = 6" "length stack = 2048"
  shows "\<exists>c. ethernet_output stack nif p src dst t w
      = Some (ERR_OK, (set_pkt p c w)\<lparr>ew_x := emit (node_frame w nif src dst t (pbytes (ew_pkt w p))) (ew_x w)\<rparr>)
    \<and> pkt_ok c \<and> map p_ref c = map p_ref (ew_pkt w p)"
proof -
  obtain q qs where c: "ew_pkt w p = q # qs" using assms(1) by (cases "ew_pkt w p") (auto simp: roomy_def)
  have ok: "pkt_ok (ew_pkt w p)" using assms(1) by (simp add: roomy_def)
  from ok show ?thesis
  proof (cases rule: add_header_frame)
    case no_room
    moreover have "fst (pbuf_add_header (ew_pkt w p) 14) = 0"
      using pbuf_add_header_cases [of q qs False 14] assms(1) unfolding pbuf_add_header_def c
      by (auto simp: roomy_def pkt_ok_def c)
    ultimately show ?thesis by simp
  next
    case (room p0 ps hdr)
    let ?c = "write_fields (eth_fields (lwip_htons t) src dst) p0 # ps"
    note f = framed [OF room(2) assms(3,4) room(8,3,4), of t]
    have b: "pdata (hd (ew_pkt w p)) @ pbytes ps = pbytes (ew_pkt w p)"
      using room(5) by (simp add: c pbytes_simps)
    have "length (pbytes ?c) = 14 + plen (ew_pkt w p)"
      using f(2) b assms(3,4) ok by (simp add: pkt_ok_def wf_chain_length del: append_assoc)
    then have l: "plen ?c \<le> 2048" using f(1) assms(1) by (simp add: pkt_ok_def wf_chain_length roomy_def)
    obtain tap where tap: "nf_state (ew_netif w nif) = Some tap" using assms(2) by (auto simp: driver_up_def)
    have o: "nf_linkoutput (ew_netif w nif) = Some Netif_Linkoutput"
      using assms(2) by (auto simp: driver_up_def eth_netif_def intro: linkoutput_fn.exhaust)
    have "netif_linkoutput stack nif ?c (ew_x w)
        = Some (ERR_OK, emit (node_frame w nif src dst t (pbytes (ew_pkt w p))) (ew_x w))"
      using linkoutput_frame [of ?c dst src _ _ _ stack "ew_x w" nif tap] f(1,2) b l assms(2-5) tap
      by (simp add: pkt_ok_def node_frame_def driver_up_def join_bytes ew_netif_def)
    then show ?thesis using room(1,7) f(1,3) o c
      by (intro exI [of _ ?c]) (simp add: ethernet_output_def Let_def)
  qed
qed

section \<open>Sending an ARP message\<close>

abbreviation heap_ok :: "(nat \<Rightarrow> allocator) \<Rightarrow> bool" where
  "heap_ok heap \<equiv> \<forall>n. malloc_ok (heap n)"

text \<open>The packet \<open>etharp_raw\<close> fills in, where there is memory.\<close>

lemma arp_packet_filled:
  fixes opcode :: u16 and ipsrc ipdst :: u32
  assumes "malloc_ok malloc" "ar_chain (pbuf_alloc malloc PBUF_LINK 28 PBUF_RAM) = p0 # ps"
    "length hwsrc = 6" "length hwdst = 6"
  defines "c \<equiv> write_fields (arp_fields opcode hwsrc ipsrc hwdst ipdst) p0 # ps"
  shows "roomy c" "pbytes c = arp_message opcode hwsrc ipsrc hwdst ipdst" "map p_ref c = [1]"
proof -
  note a = pbuf_alloc_ok [OF assms(1) disjI1 [OF refl] assms(2)]
  have ps: "ps = []" using assms(2) unfolding pbuf_alloc_ram
    by (auto simp: pool_ok_def split: if_splits option.splits)
  have wf: "wf_pbuf p0" "unat (p_len p0) = 28" using a by (simp_all add: ps chain_simps)
  have l: "length (pdata p0) = 28" using wf by (simp add: length_pdata)
  have d: "wf_pbuf (hd c)" "pdata (hd c) = arp_message opcode hwsrc ipsrc hwdst ipdst"
    using write_fields_data [OF wf(1), of "arp_fields opcode hwsrc ipsrc hwdst ipdst"]
      wf(2) assms(3,4) arp_message_bytes [OF assms(3,4) l]
    unfolding c_def by (simp_all add: arp_fields_def)
  show "pbytes c = arp_message opcode hwsrc ipsrc hwdst ipdst"
    using d(2) by (simp add: c_def ps pbytes_simps)
  show "map p_ref c = [1]" using a by (simp add: c_def ps fresh_def)
  have "fresh PBUF_RAM p0" "14 \<le> nat (p_payload p0)" "p_tot_len p0 = 28" using a by simp_all
  then show "roomy c" using d(1) wf
    by (simp add: c_def ps roomy_def pkt_ok_def chain_simps contiguous_def fresh_def)
qed

lemma etharp_raw_returns:
  assumes "eth_netif (ew_netif w nif)" "heap_ok heap" "length stack = 2048"
    "length ethsrc = 6" "length ethdst = 6" "length hwsrc = 6" "length hwdst = 6"
  shows "\<exists>err x fr. etharp_raw heap stack nif ethsrc ethdst hwsrc ipsrc hwdst ipdst opcode w
    = Some (err, w\<lparr>ew_x := x, ew_pkt := (ew_pkt w)(ew_next w := []), ew_next := Suc (ew_next w),
                    ew_freed := ew_freed w @ fr\<rparr>)
    \<and> more_events (ew_x w) x \<and> (err = ERR_OK \<or> err = ERR_MEM)"
proof -
  define n where "n = ew_next w"
  let ?a = "ar_chain (pbuf_alloc (heap n) PBUF_LINK 28 PBUF_RAM)"
  show ?thesis
  proof (cases ?a)
    case Nil
    then show ?thesis
      by (intro exI [of _ ERR_MEM] exI [of _ "ew_x w"] exI [of _ "[]"])
         (simp add: etharp_raw_def n_def [symmetric] set_pkt_def)
  next
    case (Cons p0 ps)
    let ?c = "write_fields (arp_fields opcode hwsrc ipsrc hwdst ipdst) p0 # ps"
    let ?v = "set_pkt n ?c ((set_pkt n ?a w)\<lparr>ew_next := Suc n\<rparr>)"
    note f = arp_packet_filled [OF _ Cons assms(6,7), of opcode ipsrc ipdst]
    have "pkt_ok (ew_pkt ?v n)" "ew_pkt ?v n \<noteq> []" using f assms(2) by (simp_all add: roomy_def)
    then obtain err c x where
      e: "ethernet_output stack nif n ethsrc ethdst 0x0806 ?v = Some (err, (set_pkt n c ?v)\<lparr>ew_x := x\<rparr>)"
      "map p_ref c = refs ?v n" "more_events (ew_x ?v) x"
      by (rule ethernet_output_returns [of ?v n nif ethsrc ethdst stack "0x0806"]) (use assms in auto)
    have "map p_ref c = [1]" using e(2) f(3) assms(2) by (simp add: refs_def)
    then obtain r where r: "c = [r]" "p_ref r = 1" by auto
    have "free_pkt n ((set_pkt n c ?v)\<lparr>ew_x := x\<rparr>)
      = w\<lparr>ew_x := x, ew_pkt := (ew_pkt w)(n := []), ew_next := Suc n,
           ew_freed := ew_freed w @ [dropped r]\<rparr>"
      using r by (simp add: free_pkt_def pbuf_free_spec set_pkt_def unshare_def)
    then show ?thesis using e(1,3) Cons
      by (intro exI [of _ ERR_OK] exI [of _ x] exI [of _ "[dropped r]"])
         (simp add: etharp_raw_def n_def [symmetric] Let_def)
  qed
qed

lemma raw_step:
  "more_events (ew_x w) x \<Longrightarrow> link_step w (w\<lparr>ew_x := x, ew_pkt := (ew_pkt w)(ew_next w := []),
     ew_next := Suc (ew_next w), ew_freed := fr\<rparr>)"
  by (auto simp: link_step_def pkts_ok_def fresh_above_def refs_def fun_eq_iff)

text \<open>With memory for one packet the message goes to the node.\<close>

definition room_for_arp :: "allocator \<Rightarrow> bool" where
  "room_for_arp malloc \<longleftrightarrow> malloc 0 68 \<noteq> None"

lemma room_alloc:
  assumes "room_for_arp malloc"
  obtains p0 ps where "ar_chain (pbuf_alloc malloc PBUF_LINK 28 PBUF_RAM) = p0 # ps"
proof -
  have "RAM_alloc_len PBUF_LINK 28 = 68" by (simp add: RAM_alloc_len_def LWIP_MEM_ALIGN_SIZE_def)
  then show thesis using assms that unfolding pbuf_alloc_ram
    by (auto simp: room_for_arp_def pool_ok_def LWIP_MEM_ALIGN_SIZE_def)
qed

lemma etharp_raw_sends:
  assumes "driver_up nif w" "heap_ok heap" "room_for_arp (heap (ew_next w))" "length stack = 2048"
    "length ethsrc = 6" "length ethdst = 6" "length hwsrc = 6" "length hwdst = 6"
  shows "\<exists>fr. etharp_raw heap stack nif ethsrc ethdst hwsrc ipsrc hwdst ipdst opcode w
    = Some (ERR_OK, w\<lparr>ew_x := emit (node_frame w nif ethsrc ethdst 0x0806
                                    (arp_message opcode hwsrc ipsrc hwdst ipdst)) (ew_x w),
                       ew_pkt := (ew_pkt w)(ew_next w := []), ew_next := Suc (ew_next w),
                       ew_freed := ew_freed w @ fr\<rparr>)"
proof -
  define n where "n = ew_next w"
  let ?a = "ar_chain (pbuf_alloc (heap n) PBUF_LINK 28 PBUF_RAM)"
  obtain p0 ps where a: "?a = p0 # ps" using room_alloc assms(3) n_def by blast
  let ?c = "write_fields (arp_fields opcode hwsrc ipsrc hwdst ipdst) p0 # ps"
  let ?v = "set_pkt n ?c ((set_pkt n ?a w)\<lparr>ew_next := Suc n\<rparr>)"
  note f = arp_packet_filled [OF _ a assms(7,8), of opcode ipsrc ipdst]
  have v: "ew_pkt ?v n = ?c" "ew_x ?v = ew_x w" "driver_up nif ?v" "node_frame ?v = node_frame w"
    using assms(1) by (auto simp: driver_up_def node_frame_def fun_eq_iff)
  obtain c where c: "ethernet_output stack nif n ethsrc ethdst 0x0806 ?v
      = Some (ERR_OK, (set_pkt n c ?v)\<lparr>ew_x := emit (node_frame w nif ethsrc ethdst 0x0806
                        (arp_message opcode hwsrc ipsrc hwdst ipdst)) (ew_x w)\<rparr>)"
      "map p_ref c = [1]"
    using ethernet_output_sends [of ?v n nif ethsrc ethdst stack "0x0806"] f assms(2,4-6) v by auto
  then obtain r where r: "c = [r]" "p_ref r = 1" by auto
  have "free_pkt n ((set_pkt n c ?v)\<lparr>ew_x := x\<rparr>)
      = w\<lparr>ew_x := x, ew_pkt := (ew_pkt w)(n := []), ew_next := Suc n,
           ew_freed := ew_freed w @ [dropped r]\<rparr>" for x
    using r by (simp add: free_pkt_def pbuf_free_spec set_pkt_def unshare_def)
  then show ?thesis using c(1) a
    by (intro exI [of _ "[dropped r]"]) (simp add: etharp_raw_def n_def [symmetric] Let_def)
qed

lemma etharp_raw_step:
  assumes "eth_netif (ew_netif w nif)" "heap_ok heap" "length stack = 2048"
    "length ethsrc = 6" "length ethdst = 6" "length hwsrc = 6" "length hwdst = 6"
  shows "\<exists>err w'. etharp_raw heap stack nif ethsrc ethdst hwsrc ipsrc hwdst ipdst opcode w = Some (err, w')
    \<and> link_step w w'"
  using etharp_raw_returns [OF assms, of ipsrc ipdst opcode] raw_step by blast

lemma etharp_request_dst_step:
  assumes "eth_netif (ew_netif w nif)" "heap_ok heap" "length stack = 2048" "length hw = 6"
  shows "\<exists>err w'. etharp_request_dst heap stack nif ip hw w = Some (err, w') \<and> link_step w w'"
  unfolding etharp_request_dst_def Let_def
  by (rule etharp_raw_step) (use assms in \<open>auto simp: eth_netif_def\<close>)

lemma etharp_request_step:
  assumes "eth_netif (ew_netif w nif)" "heap_ok heap" "length stack = 2048"
  shows "\<exists>err w'. etharp_request heap stack nif ip w = Some (err, w') \<and> link_step w w'"
  unfolding etharp_request_def by (rule etharp_request_dst_step) (use assms in auto)

end
