(* ===== verification/Link_Table.thy ===== *)
theory Link_Table
  imports Link_Frames "HOL-Library.Multiset"
begin

text \<open>
  The search of the ARP cache: which entry \<^verbatim>\<open>etharp_find_entry\<close> returns, and which one it
  gives up for a new address.
\<close>

section \<open>The sweep\<close>

abbreviation live :: "etharp_entry \<Rightarrow> bool" where
  "live e \<equiv> ae_state e \<noteq> ETHARP_STATE_EMPTY"

definition stable_entry :: "etharp_entry \<Rightarrow> bool" where
  "stable_entry e \<longleftrightarrow> ge_stable (ae_state e)"

definition pending_idle :: "etharp_entry \<Rightarrow> bool" where
  "pending_idle e \<longleftrightarrow> ae_state e = ETHARP_STATE_PENDING \<and> ae_q e = []"

definition pending_busy :: "etharp_entry \<Rightarrow> bool" where
  "pending_busy e \<longleftrightarrow> ae_state e = ETHARP_STATE_PENDING \<and> ae_q e \<noteq> []"

lemma entry_kinds:
  "live e \<longleftrightarrow> stable_entry e \<or> pending_idle e \<or> pending_busy e"
  "\<not> (stable_entry e \<and> ae_state e = ETHARP_STATE_PENDING)" "\<not> (pending_idle e \<and> pending_busy e)"
  by (cases "ae_state e"; simp add: stable_entry_def pending_idle_def pending_busy_def)+

text \<open>The oldest entry of a kind among those seen, or none.\<close>

definition oldest :: "(etharp_entry \<Rightarrow> bool) \<Rightarrow> etharp_entry list \<Rightarrow> nat \<Rightarrow> u16 \<Rightarrow> bool" where
  "oldest P es i age \<longleftrightarrow>
     i = 64 \<and> age = 0 \<and> (\<forall>e \<in> set es. \<not> P e)
     \<or> i < length es \<and> P (es ! i) \<and> ae_ctime (es ! i) = age \<and> (\<forall>e \<in> set es. P e \<longrightarrow> ae_ctime e \<le> age)"

lemma oldest_other: "oldest P es i age \<Longrightarrow> \<not> P e \<Longrightarrow> oldest P (es @ [e]) i age"
  by (auto simp: oldest_def nth_append)

lemma oldest_older:
  "oldest P es i age \<Longrightarrow> P e \<Longrightarrow> age \<le> ae_ctime e \<Longrightarrow> oldest P (es @ [e]) (length es) (ae_ctime e)"
  unfolding oldest_def by (auto intro: order_trans)

lemma oldest_younger:
  "oldest P es i age \<Longrightarrow> P e \<Longrightarrow> \<not> age \<le> ae_ctime e \<Longrightarrow> oldest P (es @ [e]) i age"
  by (auto simp: oldest_def nth_append)

definition first_empty :: "etharp_entry list \<Rightarrow> nat \<Rightarrow> bool" where
  "first_empty es i \<longleftrightarrow> i = 64 \<and> list_all live es
     \<or> i < length es \<and> \<not> live (es ! i) \<and> list_all live (take i es)"

definition swept :: "etharp_entry list \<Rightarrow> sweep \<Rightarrow> bool" where
  "swept es c \<longleftrightarrow> first_empty es (sw_empty c)
     \<and> oldest stable_entry es (sw_old_stable c) (sw_age_stable c)
     \<and> oldest pending_idle es (sw_old_pending c) (sw_age_pending c)
     \<and> oldest pending_busy es (sw_old_queue c) (sw_age_queue c)"

lemma swept_start: "swept [] sweep0"
  by (simp add: swept_def sweep0_def first_empty_def oldest_def)

lemma swept_empty_first:
  assumes "swept es c" "sw_empty c = 64" "\<not> live e" "length es < 64"
  shows "swept (es @ [e]) (c\<lparr>sw_empty := length es\<rparr>)"
  using assms oldest_other entry_kinds(1) [of e] unfolding swept_def by (auto simp: first_empty_def)

lemma swept_empty_later:
  assumes "swept es c" "sw_empty c \<noteq> 64" "\<not> live e"
  shows "swept (es @ [e]) c"
  using assms oldest_other entry_kinds(1) [of e] unfolding swept_def
  by (auto simp: first_empty_def nth_append)

lemma first_empty_live: "first_empty es i \<Longrightarrow> live e \<Longrightarrow> first_empty (es @ [e]) i"
  by (auto simp: first_empty_def nth_append)

lemma swept_live:
  assumes "swept es c" "live e"
  shows "swept (es @ [e]) (remember (length es) e c)"
proof -
  have s: "first_empty es (sw_empty c)" "oldest stable_entry es (sw_old_stable c) (sw_age_stable c)"
    "oldest pending_idle es (sw_old_pending c) (sw_age_pending c)"
    "oldest pending_busy es (sw_old_queue c) (sw_age_queue c)"
    using assms(1) by (auto simp: swept_def)
  note f = first_empty_live [OF s(1) assms(2)]
  consider "stable_entry e" "\<not> pending_idle e" "\<not> pending_busy e" "ae_state e \<noteq> ETHARP_STATE_PENDING"
    | "pending_idle e" "\<not> stable_entry e" "\<not> pending_busy e" "ae_state e = ETHARP_STATE_PENDING" "ae_q e = []"
    | "pending_busy e" "\<not> stable_entry e" "\<not> pending_idle e" "ae_state e = ETHARP_STATE_PENDING" "ae_q e \<noteq> []"
    using assms(2) by (cases "ae_state e"; auto simp: stable_entry_def pending_idle_def pending_busy_def)
  then show ?thesis
  proof cases
    case 1
    then show ?thesis
      using f oldest_older [OF s(2)] oldest_younger [OF s(2)] oldest_other [OF s(3)] oldest_other [OF s(4)]
      by (simp add: remember_def swept_def stable_entry_def)
  next
    case 2
    then show ?thesis
      using f oldest_older [OF s(3)] oldest_younger [OF s(3)] oldest_other [OF s(2)] oldest_other [OF s(4)]
      by (simp add: remember_def swept_def)
  next
    case 3
    then show ?thesis
      using f oldest_older [OF s(4)] oldest_younger [OF s(4)] oldest_other [OF s(2)] oldest_other [OF s(3)]
      by (simp add: remember_def swept_def)
  qed
qed

lemma find_sweep_spec:
  assumes "swept pre c" "length pre + length es \<le> 64"
  shows "case find_sweep ip nif (length pre) es c of
      Inl i \<Rightarrow> length pre \<le> i \<and> i < length pre + length es \<and> live ((pre @ es) ! i)
        \<and> entry_matches ip nif ((pre @ es) ! i)
    | Inr c' \<Rightarrow> swept (pre @ es) c' \<and> (\<forall>e \<in> set es. live e \<longrightarrow> \<not> entry_matches ip nif e)"
  using assms
proof (induction es arbitrary: pre c)
  case (Cons e es)
  note IH = Cons.IH [of "pre @ [e]", simplified]
  consider (first) "\<not> live e" "sw_empty c = 64" | (later) "\<not> live e" "sw_empty c \<noteq> 64"
    | (hit) "live e" "entry_matches ip nif e" | (miss) "live e" "\<not> entry_matches ip nif e" by blast
  then show ?case
  proof cases
    case first
    have "swept (pre @ [e]) (c\<lparr>sw_empty := length pre\<rparr>)"
      using Cons.prems first by (intro swept_empty_first) auto
    from IH [OF this] show ?thesis using Cons.prems first by (auto split: sum.splits)
  next
    case later
    have "swept (pre @ [e]) c" using Cons.prems later by (intro swept_empty_later)
    from IH [OF this] show ?thesis using Cons.prems later by (auto split: sum.splits)
  next
    case miss
    have "swept (pre @ [e]) (remember (length pre) e c)" using Cons.prems miss by (intro swept_live)
    from IH [OF this] show ?thesis using Cons.prems miss by (auto split: sum.splits)
  qed simp
qed simp

section \<open>The entry that is given up\<close>

text \<open>
  How readily an entry is reused: an empty one first, then a stable one, then a pending one with no
  packet waiting, a pending one with packets last; among equals the oldest.
\<close>

definition spare_rank :: "etharp_entry \<Rightarrow> nat" where
  "spare_rank e = (if \<not> live e then 3 else if stable_entry e then 2 else if pending_idle e then 1 else 0)"

definition spared_for :: "etharp_entry \<Rightarrow> etharp_entry \<Rightarrow> bool" where
  "spared_for e f \<longleftrightarrow> spare_rank f < spare_rank e
     \<or> spare_rank f = spare_rank e \<and> (live e \<longrightarrow> ae_ctime f \<le> ae_ctime e)"

definition reuse_entry :: "u32 option \<Rightarrow> addr option \<Rightarrow> nat \<Rightarrow> eworld \<Rightarrow> eworld" where
  "reuse_entry ip nif i w =
     upd_entry i (new_entry ip nif) (if live (ew_table w ! i) then etharp_free_entry i w else w)"

lemma oldest_some: "oldest P es i age \<Longrightarrow> i < 64 \<Longrightarrow> i < length es \<and> P (es ! i)
    \<and> (\<forall>e \<in> set es. P e \<longrightarrow> ae_ctime e \<le> ae_ctime (es ! i))"
  by (auto simp: oldest_def)

lemma oldest_none: "oldest P es i age \<Longrightarrow> \<not> i < 64 \<Longrightarrow> length es = 64 \<Longrightarrow> \<forall>e \<in> set es. \<not> P e"
  by (auto simp: oldest_def)

lemma spare_ranks:
  "\<not> live e \<Longrightarrow> spare_rank e = 3" "stable_entry e \<Longrightarrow> spare_rank e = 2"
  "pending_idle e \<Longrightarrow> spare_rank e = 1" "pending_busy e \<Longrightarrow> spare_rank e = 0"
  using entry_kinds [of e] by (auto simp: spare_rank_def pending_idle_def pending_busy_def stable_entry_def)

lemma recycle_choice:
  assumes "swept es c" "length es = 64" "list_all live es"
  obtains i where "recycle c = Some i" "i < 64" "live (es ! i)" "\<forall>e \<in> set es. spared_for (es ! i) e"
proof -
  note s = assms(1) [unfolded swept_def]
  have k: "stable_entry e \<or> pending_idle e \<or> pending_busy e" if "e \<in> set es" for e
    using that assms(3) entry_kinds(1) by (auto simp: list_all_iff)
  consider (stable) "sw_old_stable c < 64"
    | (idle) "\<not> sw_old_stable c < 64" "sw_old_pending c < 64"
    | (busy) "\<not> sw_old_stable c < 64" "\<not> sw_old_pending c < 64" "sw_old_queue c < 64"
    | (none) "\<not> sw_old_stable c < 64" "\<not> sw_old_pending c < 64" "\<not> sw_old_queue c < 64" by blast
  then show thesis
  proof cases
    case stable
    note o = oldest_some [OF conjunct1 [OF conjunct2 [OF s]] stable]
    have "spared_for (es ! sw_old_stable c) e" if "e \<in> set es" for e
      using k [OF that] o that by (auto simp: spared_for_def spare_ranks)
    then show thesis using stable o entry_kinds(1) by (intro that [of "sw_old_stable c"]) (auto simp: recycle_def)
  next
    case idle
    have n: "\<forall>e \<in> set es. \<not> stable_entry e" using oldest_none s idle assms(2) by blast
    have o: "sw_old_pending c < length es \<and> pending_idle (es ! sw_old_pending c)
        \<and> (\<forall>e \<in> set es. pending_idle e \<longrightarrow> ae_ctime e \<le> ae_ctime (es ! sw_old_pending c))"
      using oldest_some s idle by blast
    have "spared_for (es ! sw_old_pending c) e" if "e \<in> set es" for e
      using k [OF that] o that n by (auto simp: spared_for_def spare_ranks)
    then show thesis using idle o entry_kinds(1)
      by (intro that [of "sw_old_pending c"]) (auto simp: recycle_def)
  next
    case busy
    have n: "\<forall>e \<in> set es. \<not> stable_entry e" "\<forall>e \<in> set es. \<not> pending_idle e"
      using oldest_none s busy assms(2) by blast+
    have o: "sw_old_queue c < length es \<and> pending_busy (es ! sw_old_queue c)
        \<and> (\<forall>e \<in> set es. pending_busy e \<longrightarrow> ae_ctime e \<le> ae_ctime (es ! sw_old_queue c))"
      using oldest_some s busy by blast
    have "spared_for (es ! sw_old_queue c) e" if "e \<in> set es" for e
      using k [OF that] o that n by (auto simp: spared_for_def spare_ranks)
    then show thesis using busy o entry_kinds(1)
      by (intro that [of "sw_old_queue c"]) (auto simp: recycle_def)
  next
    case none
    have "\<forall>e \<in> set es. \<not> stable_entry e" "\<forall>e \<in> set es. \<not> pending_idle e" "\<forall>e \<in> set es. \<not> pending_busy e"
      using oldest_none s none assms(2) by blast+
    moreover have "es ! 0 \<in> set es" using assms(2) by simp
    ultimately show thesis using k by blast
  qed
qed

lemma find_entry_cases:
  assumes "length (ew_table w) = 64"
  obtains (found) i where "etharp_find_entry ip flags nif w = (Inr i, w)" "i < 64" "live (ew_table w ! i)"
      "entry_matches ip nif (ew_table w ! i)"
    | (refused) "etharp_find_entry ip flags nif w = (Inl ERR_MEM, w)"
      "\<forall>e \<in> set (ew_table w). live e \<longrightarrow> \<not> entry_matches ip nif e"
      "flags AND 2 \<noteq> 0 \<or> flags AND 1 = 0"
    | (reused) i where "etharp_find_entry ip flags nif w = (Inr i, reuse_entry ip nif i w)" "i < 64"
      "\<forall>e \<in> set (ew_table w). live e \<longrightarrow> \<not> entry_matches ip nif e"
      "\<forall>e \<in> set (ew_table w). spared_for (ew_table w ! i) e" "flags AND 2 = 0"
proof (cases "find_sweep ip nif 0 (ew_table w) sweep0")
  case (Inl i)
  then show thesis using find_sweep_spec [OF swept_start, of "ew_table w" ip nif] assms found [of i]
    by (auto simp: etharp_find_entry_def)
next
  case (Inr c)
  then have c: "swept (ew_table w) c" "\<forall>e \<in> set (ew_table w). live e \<longrightarrow> \<not> entry_matches ip nif e"
    using find_sweep_spec [OF swept_start, of "ew_table w" ip nif] assms by auto
  show thesis
  proof (cases "flags AND 2 \<noteq> 0 \<or> sw_empty c = 64 \<and> flags AND 1 = 0")
    case True
    then show thesis using refused c Inr by (auto simp: etharp_find_entry_def)
  next
    case False
    show thesis
    proof (cases "sw_empty c < 64")
      case True
      then have e: "\<not> live (ew_table w ! sw_empty c)" using c(1) by (auto simp: swept_def first_empty_def)
      have "spare_rank f \<le> 3" for f by (simp add: spare_rank_def)
      then have "spared_for (ew_table w ! sw_empty c) f" for f
        using e by (auto simp: spared_for_def spare_ranks le_less)
      then show thesis using reused [of "sw_empty c"] c True False Inr e
        by (auto simp: etharp_find_entry_def reuse_entry_def)
    next
      case none: False
      then have l: "list_all live (ew_table w)" "sw_empty c = 64"
        using c(1) assms by (auto simp: swept_def first_empty_def)
      from c(1) assms l(1) obtain i where "recycle c = Some i" "i < 64" "live (ew_table w ! i)"
          "\<forall>e \<in> set (ew_table w). spared_for (ew_table w ! i) e" by (rule recycle_choice)
      then show thesis using reused [of i] c False none Inr
        by (auto simp: etharp_find_entry_def reuse_entry_def)
    qed
  qed
qed

end
