(* ===== verification/Link_Refs.thy ===== *)
theory Link_Refs
  imports Link_Table
begin

text \<open>
  Reference counts of packets. \<open>rest_ok M w\<close> says that the packets of the multiset \<open>M\<close>
  are exactly the references held to the packets of \<open>w\<close> that the IP layers have not taken: the
  count of a packet is its number of occurrences, and a packet that does not occur is released. A
  packet the IP layers have taken was handed up once and has the one reference they hold, and no
  packet was given back that had been given back before.
\<close>

fun up_packet :: "upcall \<Rightarrow> packet" where
  "up_packet (Ip4_Input p n) = p"
| "up_packet (Ip6_Input p n) = p"
| "up_packet (Ip_Input p n) = p"
| "up_packet (Udp_Input p n d) = p"
| "up_packet (Tcp_Input p n d) = p"

definition up_packets :: "eworld \<Rightarrow> packet set" where
  "up_packets w = up_packet ` set (ew_up w)"

definition refs_for :: "nat \<Rightarrow> u8 list \<Rightarrow> bool" where
  "refs_for k rs \<longleftrightarrow> (if k = 0 then rs = [] else \<exists>r. rs = of_nat k # r \<and> list_all (\<lambda>x. x = 1) r)"

definition rest_ok :: "packet multiset \<Rightarrow> eworld \<Rightarrow> bool" where
  "rest_ok M w \<longleftrightarrow> pkts_ok w \<and> fresh_above w \<and> size M < 256
     \<and> (\<forall>p. p \<notin> up_packets w \<longrightarrow> refs_for (count M p) (refs w p))
     \<and> (\<forall>p \<in># M. p \<notin> up_packets w) \<and> (\<forall>p \<in> up_packets w. p < ew_next w \<and> refs_for 1 (refs w p))
     \<and> distinct (map up_packet (ew_up w)) \<and> \<not> ew_fault w"

lemma up_packets_cong: "ew_up v = ew_up w \<Longrightarrow> up_packets v = up_packets w"
  by (simp add: up_packets_def)

lemma rest_ok_step: "rest_ok M w \<Longrightarrow> link_step w v \<Longrightarrow> rest_ok M v"
  using link_stepD [of w v] up_packets_cong [of v w] unfolding rest_ok_def by fastforce

lemma rest_ok_cong:
  "ew_pkt v = ew_pkt w \<Longrightarrow> ew_up v = ew_up w \<Longrightarrow> ew_fault v = ew_fault w \<Longrightarrow> ew_next w \<le> ew_next v \<Longrightarrow>
     rest_ok M w \<Longrightarrow> rest_ok M v"
  unfolding rest_ok_def pkts_ok_def fresh_above_def refs_def by (auto simp: up_packets_def)

text \<open>A packet to which a reference is held has not been given back.\<close>

lemma rest_ok_alive: "rest_ok M w \<Longrightarrow> p \<in># M \<Longrightarrow> ew_pkt w p \<noteq> []"
  unfolding rest_ok_def refs_for_def refs_def by (metis list.simps(8) list.distinct(1) count_eq_zero_iff)

lemma rest_ok_upd_entry [simp]: "rest_ok M (upd_entry i f w) \<longleftrightarrow> rest_ok M w"
  by (auto simp: rest_ok_def pkts_ok_def fresh_above_def refs_def up_packets_def)

text \<open>The references to every packet, those of the IP layers included.\<close>

lemma rest_ok_counts:
  assumes "rest_ok M w"
  shows "refs_for (count (M + mset (map up_packet (ew_up w))) p) (refs w p)"
proof (cases "p \<in> up_packets w")
  case True
  then have "p \<notin># M" "p \<in> set (map up_packet (ew_up w))" "distinct (map up_packet (ew_up w))" "refs_for 1 (refs w p)"
    using assms by (auto simp: rest_ok_def up_packets_def)
  then show ?thesis by (simp add: not_in_iff distinct_count_atmost_1 del: set_map mset_map)
next
  case False
  then have "p \<notin> set (map up_packet (ew_up w))" by (simp add: up_packets_def)
  then have "count (mset (map up_packet (ew_up w))) p = 0" by (metis count_mset_0_iff)
  then show ?thesis using assms False by (simp add: rest_ok_def)
qed

lemma rest_ok_no_fault: "rest_ok M w \<Longrightarrow> \<not> ew_fault w"
  by (simp add: rest_ok_def)

section \<open>Dropping a reference\<close>

lemma refs_free:
  "map p_ref (snd (snd (pbuf_free c)))
    = (case dropWhile (\<lambda>r. r = 1) (map p_ref c) of [] \<Rightarrow> [] | r # rs \<Rightarrow> (r - 1) # rs)"
proof -
  have "dropWhile (\<lambda>r. r = 1) (map p_ref c) = map p_ref (dropWhile (\<lambda>p. p_ref p = 1) c)"
    by (simp add: dropWhile_map comp_def)
  moreover have "map p_ref (unshare d) = (case map p_ref d of [] \<Rightarrow> [] | r # rs \<Rightarrow> (r - 1) # rs)" for d
    by (cases d) (simp_all add: unshare_def)
  ultimately show ?thesis by (simp only: pbuf_free_spec snd_conv)
qed

lemma refs_for_drop:
  assumes "refs_for (Suc k) (map p_ref c)" "Suc k < 256"
  shows "refs_for k (map p_ref (snd (snd (pbuf_free c))))"
proof -
  obtain r where r: "map p_ref c = of_nat (Suc k) # r" "list_all (\<lambda>x. x = 1) r"
    using assms(1) by (auto simp: refs_for_def)
  show ?thesis
  proof (cases "k = 0")
    case True
    then have "dropWhile (\<lambda>x. x = 1) (of_nat (Suc k) # r) = []" using r(2) by (simp add: list_all_iff)
    then show ?thesis using True by (simp only: refs_free r(1) list.case refs_for_def) simp
  next
    case False
    have "unat (of_nat (Suc k) :: u8) = Suc k" using assms(2) by (simp add: unat_of_nat del: of_nat_Suc)
    then have "(of_nat (Suc k) :: u8) \<noteq> 1" using False by (metis One_nat_def Suc_inject unat_1)
    moreover have "(of_nat (Suc k) :: u8) - 1 = of_nat k" by simp
    ultimately show ?thesis using r False by (simp add: refs_free refs_for_def del: of_nat_Suc)
  qed
qed

lemma rest_ok_free:
  assumes "rest_ok (add_mset p M) w"
  shows "rest_ok M (free_pkt p w)"
proof -
  have a: "pkts_ok w" "fresh_above w" "size (add_mset p M) < 256"
      "\<And>q. q \<notin> up_packets w \<Longrightarrow> refs_for (count (add_mset p M) q) (refs w q)"
      "\<forall>q \<in># add_mset p M. q \<notin> up_packets w" "\<forall>p \<in> up_packets w. p < ew_next w \<and> refs_for 1 (refs w p)"
      "distinct (map up_packet (ew_up w))" "\<not> ew_fault w"
    using assms by (auto simp: rest_ok_def)
  have u: "up_packets (free_pkt p w) = up_packets w" by (simp add: up_packets_def)
  have "count (add_mset p M) p < 256" using a(3) count_le_size [of "add_mset p M" p] by linarith
  then have p: "refs_for (count M p) (refs (free_pkt p w) p)"
    using refs_for_drop [of "count M p" "ew_pkt w p"] a(4) [of p] a(5) by (simp add: refs_def)
  have "refs_for (count M q) (refs (free_pkt p w) q)" if "q \<notin> up_packets w" for q
    using a(4) [OF that] p by (cases "q = p") (auto simp: refs_def)
  moreover have "pkts_ok (free_pkt p w)" using a(1) pkt_ok_free by (simp add: pkts_ok_def)
  moreover have "fresh_above (free_pkt p w)"
    using a(2) by (auto simp: fresh_above_def pbuf_free_spec unshare_def)
  moreover have "refs (free_pkt p w) q = refs w q" if "q \<in> up_packets w" for q
    using that a(5) by (auto simp: refs_def)
  ultimately show ?thesis using a(3,5-8) rest_ok_alive [OF assms, of p] by (simp add: rest_ok_def u)
qed

lemma rest_ok_free_queue:
  "rest_ok (mset q + M) w \<Longrightarrow> rest_ok M (free_etharp_q q w) \<and> ew_table (free_etharp_q q w) = ew_table w
    \<and> ew_netif (free_etharp_q q w) = ew_netif w \<and> ew_up (free_etharp_q q w) = ew_up w
    \<and> ew_x (free_etharp_q q w) = ew_x w"
  unfolding free_etharp_q_def
  by (induction q arbitrary: w) (auto dest: rest_ok_free)

lemma free_queue_frame:
  "ew_next (free_etharp_q q w) = ew_next w" "p \<notin> set q \<Longrightarrow> ew_pkt (free_etharp_q q w) p = ew_pkt w p"
  unfolding free_etharp_q_def by (induction q arbitrary: w) auto

section \<open>Taking a reference\<close>

lemma rest_ok_ref:
  assumes "rest_ok M w" "p \<in># M" "size M < 255"
  shows "rest_ok (add_mset p M) (set_pkt p (pbuf_ref (ew_pkt w p)) w)"
proof -
  let ?v = "set_pkt p (pbuf_ref (ew_pkt w p)) w"
  have a: "pkts_ok w" "fresh_above w"
      "\<And>q. q \<notin> up_packets w \<Longrightarrow> refs_for (count M q) (refs w q)"
      "\<forall>q \<in># M. q \<notin> up_packets w" "\<forall>p \<in> up_packets w. p < ew_next w \<and> refs_for 1 (refs w p)"
      "distinct (map up_packet (ew_up w))" "\<not> ew_fault w"
    using assms(1) by (auto simp: rest_ok_def)
  have u: "up_packets ?v = up_packets w" by (simp add: up_packets_def)
  have c: "0 < count M p" using assms(2) by simp
  then obtain r where r: "refs w p = of_nat (count M p) # r" "list_all (\<lambda>x. x = 1) r"
    using a(3) [of p] a(4) assms(2) unfolding refs_for_def by (metis less_not_refl)
  then have p: "refs ?v p = of_nat (Suc (count M p)) # r" by (cases "ew_pkt w p") (auto simp: refs_def)
  have ne: "ew_pkt w p \<noteq> []" using r(1) by (auto simp: refs_def)
  have "refs_for (count (add_mset p M) q) (refs ?v q)" if "q \<notin> up_packets w" for q
    using a(3) [OF that] p r(2) by (cases "q = p") (auto simp: refs_def refs_for_def)
  moreover have "pkts_ok ?v" using a(1) pkt_ok_ref by (simp add: pkts_ok_def)
  moreover have "fresh_above ?v" using a(2) ne by (auto simp: fresh_above_def)
  moreover have "refs ?v q = refs w q" if "q \<in> up_packets w" for q
    using that a(4) assms(2) by (auto simp: refs_def)
  ultimately show ?thesis using a(4-7) assms(2,3) by (simp add: rest_ok_def u)
qed

lemma rest_ok_new:
  assumes "rest_ok M w" "size M < 255" "pkt_ok c" "c \<noteq> []" "list_all (\<lambda>x. p_ref x = 1) c"
  shows "rest_ok (add_mset (ew_next w) M) ((set_pkt (ew_next w) c w)\<lparr>ew_next := Suc (ew_next w)\<rparr>)"
proof -
  let ?n = "ew_next w" let ?v = "(set_pkt ?n c w)\<lparr>ew_next := Suc ?n\<rparr>"
  have a: "pkts_ok w" "fresh_above w"
      "\<And>q. q \<notin> up_packets w \<Longrightarrow> refs_for (count M q) (refs w q)"
      "\<forall>q \<in># M. q \<notin> up_packets w" "\<forall>p \<in> up_packets w. p < ew_next w \<and> refs_for 1 (refs w p)"
      "distinct (map up_packet (ew_up w))" "\<not> ew_fault w"
    using assms(1) by (auto simp: rest_ok_def)
  have u: "up_packets ?v = up_packets w" by (simp add: up_packets_def)
  have n: "?n \<notin> up_packets w" using a(5) by blast
  have "refs w ?n = []" using a(2) by (simp add: refs_def fresh_above_def)
  then have "count M ?n = 0" using a(3) [OF n] by (auto simp: refs_for_def split: if_splits)
  moreover obtain x xs where c: "c = x # xs" "p_ref x = 1" "list_all (\<lambda>x. p_ref x = 1) xs"
    using assms(4,5) by (cases c) auto
  ultimately have "refs_for (count (add_mset ?n M) q) (refs ?v q)" if "q \<notin> up_packets w" for q
    using a(3) [OF that] by (cases "q = ?n") (auto simp: refs_def refs_for_def list_all_iff)
  moreover have "pkts_ok ?v" using a(1) assms(3) by (simp add: pkts_ok_def)
  moreover have "fresh_above ?v" using a(2) by (auto simp: fresh_above_def)
  moreover have "refs ?v q = refs w q" if "q \<in> up_packets w" for q
    using that n by (auto simp: refs_def)
  ultimately show ?thesis using a(4-7) n assms(2) by (simp add: rest_ok_def u less_Suc_eq)
qed

lemma rest_ok_none:
  "rest_ok M w \<Longrightarrow> rest_ok M ((set_pkt (ew_next w) [] w)\<lparr>ew_next := Suc (ew_next w), ew_freed := fr\<rparr>)"
  using rest_ok_step [OF _ raw_step [of w "ew_x w" fr]] by (simp add: set_pkt_def)

section \<open>Taking over a packet\<close>

lemma copy_loop_single: "\<exists>t'. snd (copy_loop [t] ot fs off) = [t'] \<and> p_ref t' = p_ref t"
proof (induction fs arbitrary: t ot off)
  case (Cons f fs)
  define n where "n = (if unat (p_len t) - ot \<ge> unat (p_len f) - off
                       then unat (p_len f) - off else unat (p_len t) - ot)"
  define t' where "t' = payload_write t ot (payload_read f off n)"
  note step = copy_loop.simps(3) [of t "[]" ot f fs off, folded n_def, unfolded Let_def, folded t'_def]
  show ?case
  proof (cases "ot + n \<ge> unat (p_len t)")
    case True
    then show ?thesis unfolding step by (simp add: t'_def case_prod_beta)
  next
    case False
    then have "off + n \<ge> unat (p_len f)" by (auto simp: n_def split: if_splits)
    then show ?thesis using Cons.IH [of t' "ot + n" 0] False unfolding step
      by (simp add: t'_def case_prod_beta)
  qed
qed (simp add: copy_loop.simps)

lemma clone_refs:
  assumes "malloc_ok malloc" "pbuf_clone malloc layer PBUF_RAM c = Some r"
  shows "list_all (\<lambda>x. p_ref x = 1) (ar_chain r)"
proof -
  obtain x xs where c: "c = x # xs" using assms(2) by (cases c) (auto simp: pbuf_clone_def)
  let ?a = "pbuf_alloc malloc layer (p_tot_len x) PBUF_RAM"
  have "ar_chain ?a = [] \<or> (\<exists>t. ar_chain ?a = [t] \<and> p_ref t = 1)"
    unfolding pbuf_alloc_ram by (simp add: pool_ok_def split: option.split)
  then consider "ar_chain ?a = []" | t where "ar_chain ?a = [t]" "p_ref t = 1" by blast
  then show ?thesis
  proof cases
    case 1
    then show ?thesis using assms(2) by (simp add: pbuf_clone_def c Let_def)
  next
    case 2
    then have "list_all (\<lambda>x. p_ref x = 1) (snd (pbuf_copy (ar_chain ?a) c))"
      using copy_loop_single [of t 0 c 0] by (auto simp: pbuf_copy_def c)
    then show ?thesis using assms(2) 2 by (auto simp: pbuf_clone_def c Let_def)
  qed
qed

end
