(* ===== verification/Link_Inv.thy ===== *)
theory Link_Inv
  imports Link_Refs
begin

text \<open>
  The invariant of the ARP cache and its queues, and that every operation returns and keeps it.
\<close>

section \<open>The invariant\<close>

definition entry_ok :: "(addr \<Rightarrow> netif) \<Rightarrow> etharp_entry \<Rightarrow> bool" where
  "entry_ok nets e \<longleftrightarrow> length (ae_q e) \<le> 3 \<and> (ae_q e \<noteq> [] \<longrightarrow> ae_state e = ETHARP_STATE_PENDING)
     \<and> length (ae_ethaddr e) = 6
     \<and> (live e \<longrightarrow> ae_ctime e < 300 \<and> ae_netif e \<noteq> None \<and> eth_netif (nets (the (ae_netif e))))
     \<and> (ae_state e = ETHARP_STATE_PENDING \<longrightarrow> ae_ctime e < 5)"

abbreviation entry_key :: "etharp_entry \<Rightarrow> u32 \<times> addr option" where
  "entry_key e \<equiv> (ae_ipaddr e, ae_netif e)"

definition unique_keys :: "etharp_entry list \<Rightarrow> bool" where
  "unique_keys es \<longleftrightarrow> (\<forall>i < length es. \<forall>j < length es.
     live (es ! i) \<and> live (es ! j) \<and> entry_key (es ! i) = entry_key (es ! j) \<longrightarrow> i = j)"

definition tab_ok :: "(addr \<Rightarrow> netif) \<Rightarrow> etharp_entry list \<Rightarrow> bool" where
  "tab_ok nets es \<longleftrightarrow> length es = 64 \<and> list_all (entry_ok nets) es \<and> unique_keys es"

definition queued :: "etharp_entry list \<Rightarrow> packet multiset" where
  "queued es = mset (concat (map ae_q es))"

text \<open>\<open>hs\<close> are the references held outside the cache.\<close>

definition link_inv :: "packet multiset \<Rightarrow> eworld \<Rightarrow> bool" where
  "link_inv hs w \<longleftrightarrow> tab_ok (ew_netif w) (ew_table w) \<and> rest_ok (queued (ew_table w) + hs) w"

lemma queued_update:
  assumes "i < length es"
  shows "queued (es[i := e]) + mset (ae_q (es ! i)) = queued es + mset (ae_q e)"
proof -
  define as x bs where "as = take i es" and "x = es ! i" and "bs = drop (Suc i) es"
  have "es = as @ x # bs" "length as = i"
    using id_take_nth_drop [OF assms] assms by (auto simp: as_def x_def bs_def)
  then have "es[i := e] = as @ e # bs" "es = as @ x # bs" by auto
  then show ?thesis unfolding x_def [symmetric] by (simp add: queued_def ac_simps)
qed

lemma queued_same: "i < length es \<Longrightarrow> ae_q e = ae_q (es ! i) \<Longrightarrow> queued (es[i := e]) = queued es"
  using queued_update [of i es e] by simp

lemma tab_ok_entry: "tab_ok nets es \<Longrightarrow> i < 64 \<Longrightarrow> entry_ok nets (es ! i)"
  by (auto simp: tab_ok_def list_all_length)

lemma tab_ok_update:
  assumes "tab_ok nets es" "i < 64" "entry_ok nets e"
    and "live e \<Longrightarrow> \<forall>j < 64. j \<noteq> i \<longrightarrow> live (es ! j) \<longrightarrow> entry_key (es ! j) \<noteq> entry_key e"
  shows "tab_ok nets (es[i := e])"
proof -
  have l: "length es = 64" "unique_keys es" using assms(1) by (auto simp: tab_ok_def)
  have "unique_keys (es[i := e])"
    unfolding unique_keys_def
  proof (intro allI impI)
    fix j k
    assume jk: "j < length (es[i := e])" "k < length (es[i := e])"
      "live (es[i := e] ! j) \<and> live (es[i := e] ! k)
        \<and> entry_key (es[i := e] ! j) = entry_key (es[i := e] ! k)"
    show "j = k"
    proof (cases "j = i \<or> k = i")
      case True
      then show ?thesis using jk assms(2,4) l(1) by (cases "j = i"; cases "k = i") auto
    next
      case False
      then show ?thesis using jk l by (auto simp: unique_keys_def)
    qed
  qed
  then show ?thesis using assms(1,3) l
    by (auto simp: tab_ok_def list_all_iff dest: set_update_subset_insert [THEN subsetD])
qed

text \<open>A change of an entry that keeps its key and keeps it live or makes it empty.\<close>

lemma tab_ok_same_key:
  assumes "tab_ok nets es" "i < 64" "entry_ok nets e" "live e \<longrightarrow> live (es ! i) \<and> entry_key e = entry_key (es ! i)"
  shows "tab_ok nets (es[i := e])"
  by (rule tab_ok_update [OF assms(1-3)])
     (use assms(1,2,4) in \<open>auto simp: tab_ok_def unique_keys_def\<close>)

lemma size_queued: "tab_ok nets es \<Longrightarrow> size (queued es) \<le> 192"
proof -
  assume t: "tab_ok nets es"
  then have "\<forall>e \<in> set es. length (ae_q e) \<le> 3" by (auto simp: tab_ok_def list_all_iff entry_ok_def)
  then have "length (concat (map ae_q es)) \<le> 3 * length es" by (induction es) auto
  then show ?thesis using t by (simp add: queued_def tab_ok_def)
qed

lemma link_inv_step:
  assumes "link_inv hs w" "link_step w v" shows "link_inv hs v"
  using assms rest_ok_step [of _ w v] link_stepD [OF assms(2)] by (simp add: link_inv_def)

lemma link_invD:
  assumes "link_inv hs w"
  shows "length (ew_table w) = 64" "pkts_ok w" "tab_ok (ew_netif w) (ew_table w)" "fresh_above w"
    "\<And>i. i < 64 \<Longrightarrow> entry_ok (ew_netif w) (ew_table w ! i)"
  using assms tab_ok_entry by (auto simp: link_inv_def tab_ok_def rest_ok_def)

lemma link_inv_update:
  assumes "link_inv hs w" "i < 64" "entry_ok (ew_netif w) (f (ew_table w ! i))"
    "live (f (ew_table w ! i)) \<longrightarrow> live (ew_table w ! i) \<and> entry_key (f (ew_table w ! i)) = entry_key (ew_table w ! i)"
    "ae_q (f (ew_table w ! i)) = ae_q (ew_table w ! i)"
  shows "link_inv hs (upd_entry i f w)"
  using assms tab_ok_same_key [of "ew_netif w" "ew_table w" i "f (ew_table w ! i)"]
    queued_same [of i "ew_table w" "f (ew_table w ! i)"] link_invD(1) [OF assms(1)]
  by (simp add: link_inv_def)

section \<open>Freeing and reusing an entry\<close>

lemma free_entry_inv:
  assumes "link_inv hs w" "i < 64"
  defines "v \<equiv> etharp_free_entry i w"
  shows "link_inv hs v" "ew_netif v = ew_netif w" "ew_up v = ew_up w" "ew_x v = ew_x w"
    "ew_table v = (ew_table w)[i := (ew_table w ! i)\<lparr>ae_q := [], ae_state := ETHARP_STATE_EMPTY\<rparr>]"
    "ew_next v = ew_next w" "p \<notin># queued (ew_table w) \<Longrightarrow> ew_pkt v p = ew_pkt w p"
proof -
  let ?e = "ew_table w ! i" let ?e' = "?e\<lparr>ae_q := [], ae_state := ETHARP_STATE_EMPTY\<rparr>"
  define u where "u = free_etharp_q (ae_q ?e) w"
  have l: "i < length (ew_table w)" using assms(1,2) link_invD(1) by simp
  have m: "queued (ew_table w) + hs = mset (ae_q ?e) + (queued ((ew_table w)[i := ?e']) + hs)"
    using queued_update [OF l, of ?e'] by (simp add: ac_simps)
  have u: "rest_ok (queued ((ew_table w)[i := ?e']) + hs) u" "ew_table u = ew_table w"
      "ew_netif u = ew_netif w" "ew_up u = ew_up w" "ew_x u = ew_x w"
    using rest_ok_free_queue [of "ae_q ?e" "queued ((ew_table w)[i := ?e']) + hs" w] assms(1)
    unfolding u_def link_inv_def m by auto
  have t: "tab_ok (ew_netif w) ((ew_table w)[i := ?e'])"
    by (rule tab_ok_same_key) (use assms(1,2) link_invD(3,5) [OF assms(1)] in \<open>auto simp: entry_ok_def\<close>)
  have e: "?e\<lparr>ae_q := [], ae_state := s\<rparr> = ?e\<lparr>ae_state := s\<rparr>" if "ae_q ?e = []" for s
    using that by (cases ?e) simp
  have v: "ew_table v = (ew_table w)[i := ?e']" "ew_netif v = ew_netif w" "ew_up v = ew_up w"
      "ew_x v = ew_x w" "ew_pkt v = ew_pkt u" "ew_next v = ew_next u"
      "ew_fault v = ew_fault u"
    using u(2-) l unfolding v_def u_def
    by (auto simp: etharp_free_entry_def Let_def e free_etharp_q_def)
  have "rest_ok (queued ((ew_table w)[i := ?e']) + hs) v"
    by (rule rest_ok_cong [OF v(5) _ _ _ u(1)]) (use u v in auto)
  then show "link_inv hs v" using v t by (simp add: link_inv_def)
  show "ew_netif v = ew_netif w" "ew_up v = ew_up w" "ew_x v = ew_x w"
    "ew_table v = (ew_table w)[i := ?e']" by (fact v)+
  show "ew_next v = ew_next w" by (simp add: v(6) u_def free_queue_frame)
  assume "p \<notin># queued (ew_table w)"
  then have "p \<notin> set (ae_q ?e)" using l by (auto simp: queued_def)
  then show "ew_pkt v p = ew_pkt w p" by (simp add: v(5) u_def free_queue_frame)
qed

lemma reuse_entry_inv:
  fixes ip :: u32 and nif :: "addr option"
  assumes "link_inv hs w" "i < 64"
  defines "v \<equiv> reuse_entry (Some ip) nif i w"
  shows "link_inv hs v" "ew_netif v = ew_netif w" "ew_up v = ew_up w" "ew_x v = ew_x w"
    "ew_table v = (ew_table w)[i := (ew_table w ! i)\<lparr>ae_q := [], ae_state := ETHARP_STATE_EMPTY,
       ae_ipaddr := ip, ae_ctime := 0, ae_netif := nif\<rparr>]"
    "ew_next v = ew_next w" "p \<notin># queued (ew_table w) \<Longrightarrow> ew_pkt v p = ew_pkt w p"
proof -
  let ?e = "ew_table w ! i"
  define u where "u = (if live ?e then etharp_free_entry i w else w)"
  have l: "i < length (ew_table w)" using assms(1,2) link_invD(1) by simp
  have "\<not> live ?e \<Longrightarrow> ae_q ?e = []" using link_invD(5) [OF assms(1,2)] by (auto simp: entry_ok_def)
  then have e: "\<not> live ?e \<Longrightarrow> ?e\<lparr>ae_q := [], ae_state := ETHARP_STATE_EMPTY\<rparr> = ?e" by (cases ?e) simp
  have u: "link_inv hs u" "ew_netif u = ew_netif w" "ew_up u = ew_up w" "ew_x u = ew_x w"
      "ew_table u = (ew_table w)[i := ?e\<lparr>ae_q := [], ae_state := ETHARP_STATE_EMPTY\<rparr>]"
    using assms(1) free_entry_inv [OF assms(1,2)] e unfolding u_def
    by (cases "live ?e"; simp only: if_True if_False not_False_eq_True simp_thms list_update_id)+
  have v: "v = upd_entry i (new_entry (Some ip) nif) u" by (simp add: v_def u_def reuse_entry_def)
  have "entry_ok (ew_netif w) (new_entry (Some ip) nif (ew_table u ! i))" "\<not> live (ew_table u ! i)"
    using link_invD(5) [OF assms(1,2)] l by (auto simp: u new_entry_def entry_ok_def)
  then show "link_inv hs v" unfolding v using u(2)
    by (intro link_inv_update [OF u(1) assms(2)]) (auto simp: new_entry_def)
  show "ew_netif v = ew_netif w" "ew_up v = ew_up w" "ew_x v = ew_x w"
    "ew_table v = (ew_table w)[i := ?e\<lparr>ae_q := [], ae_state := ETHARP_STATE_EMPTY,
       ae_ipaddr := ip, ae_ctime := 0, ae_netif := nif\<rparr>]"
    using u l by (simp_all add: v new_entry_def)
  show "ew_next v = ew_next w" "p \<notin># queued (ew_table w) \<Longrightarrow> ew_pkt v p = ew_pkt w p"
    using free_entry_inv(6,7) [OF assms(1,2)] by (simp_all add: v u_def)
qed

text \<open>The entry a search for an address of an interface gives.\<close>

lemma find_entry_inv:
  assumes "link_inv hs w"
  obtains (refused) "etharp_find_entry (Some ip) flags (Some nif) w = (Inl ERR_MEM, w)"
      "flags AND 2 \<noteq> 0 \<or> flags AND 1 = 0"
    | (entry) i v where "etharp_find_entry (Some ip) flags (Some nif) w = (Inr i, v)" "i < 64"
      "link_inv hs v" "ew_netif v = ew_netif w" "ew_up v = ew_up w"
      "entry_key (ew_table v ! i) = (ip, Some nif)"
      "\<forall>j < 64. j \<noteq> i \<longrightarrow> live (ew_table v ! j) \<longrightarrow> entry_key (ew_table v ! j) \<noteq> (ip, Some nif)"
      "live (ew_table v ! i) \<longrightarrow> v = w"
      "\<not> live (ew_table v ! i) \<longrightarrow> ae_q (ew_table v ! i) = [] \<and> ae_ctime (ew_table v ! i) = 0"
      "ew_x v = ew_x w" "ew_next v = ew_next w" "\<And>p. p \<notin># queued (ew_table w) \<Longrightarrow> ew_pkt v p = ew_pkt w p"
proof -
  note l = link_invD(1) [OF assms]
  from l show thesis
  proof (cases rule: find_entry_cases [of w "Some ip" flags "Some nif"])
    case (found i)
    then have k: "entry_key (ew_table w ! i) = (ip, Some nif)" by (auto simp: entry_matches_def)
    have "\<forall>j < 64. j \<noteq> i \<longrightarrow> live (ew_table w ! j) \<longrightarrow> entry_key (ew_table w ! j) \<noteq> (ip, Some nif)"
      using link_invD(3) [OF assms] found(2,3) k l unfolding tab_ok_def unique_keys_def by metis
    then show thesis using entry [of i w] found assms k by auto
  next
    case (reused i)
    note r = reuse_entry_inv [OF assms reused(2), where ip = ip and nif = "Some nif"]
    have "entry_key (ew_table w ! j) \<noteq> (ip, Some nif)" if "j < 64" "live (ew_table w ! j)" for j
      using reused(3) that l by (auto simp: entry_matches_def)
    then show thesis using r(5) l reused(2)
      by (intro entry [OF reused(1,2) r(1-3)]) (simp_all add: r(4,6,7))
  qed (rule refused)
qed

end
