(* ===== verification/Link_Ops.thy ===== *)
theory Link_Ops
  imports Link_Inv
begin

text \<open>
  Every operation of the link layer returns on a state with the invariant and keeps it.
  \<open>returns hs w v\<close> says so for the state \<open>v\<close> an operation leaves.
\<close>

definition returns :: "packet multiset \<Rightarrow> eworld \<Rightarrow> eworld \<Rightarrow> bool" where
  "returns hs w v \<longleftrightarrow> link_inv hs v \<and> ew_netif v = ew_netif w \<and> ew_up v = ew_up w"

lemma returns_step: "link_inv hs w \<Longrightarrow> link_step w v \<Longrightarrow> returns hs w v"
  using link_inv_step link_stepD(2,7) by (simp add: returns_def)

lemma returns_trans: "returns hs u v \<Longrightarrow> returns hs' v w \<Longrightarrow> returns hs' u w"
  by (simp add: returns_def)

lemma returns_refl: "link_inv hs w \<Longrightarrow> returns hs w w"
  by (simp add: returns_def)

lemma drop_q: "ae_q e = [] \<Longrightarrow> e\<lparr>ae_q := []\<rparr> = e"
  by (cases e) simp

section \<open>The queue of an entry\<close>

lemma send_queue_ok:
  assumes "rest_ok (mset q + M) w" "eth_netif (ew_netif w nif)" "length eth = 6" "length stack = 2048"
    "i < length (ew_table w)"
  shows "\<exists>v. send_queue stack nif eth i q w = Some v \<and> rest_ok M v \<and> ew_netif v = ew_netif w
    \<and> ew_up v = ew_up w
    \<and> ew_table v = (if q = [] then ew_table w else (ew_table w)[i := (ew_table w ! i)\<lparr>ae_q := []\<rparr>])"
  using assms
proof (induction q arbitrary: w)
  case (Cons p q)
  let ?u = "upd_entry i (\<lambda>e. e\<lparr>ae_q := q\<rparr>) w"
  have r: "rest_ok (mset (p # q) + M) ?u" using Cons.prems by simp
  then have "pkts_ok ?u" "ew_pkt ?u p \<noteq> []" using rest_ok_alive [OF r, of p] by (simp_all add: rest_ok_def)
  then obtain err u' where u': "ethernet_output stack nif p (nf_hwaddr (ew_netif w nif)) eth 0x0800 ?u
      = Some (err, u')" "link_step ?u u'"
    using ethernet_output_step [of ?u p nif "nf_hwaddr (ew_netif w nif)" eth stack "0x0800"] Cons.prems
    by (auto simp: eth_netif_def)
  let ?x = "free_pkt p u'"
  have "rest_ok (add_mset p (mset q + M)) u'" using rest_ok_step [OF r u'(2)] by simp
  then have x: "rest_ok (mset q + M) ?x" by (rule rest_ok_free)
  have f: "ew_netif ?x = ew_netif w" "ew_up ?x = ew_up w"
      "ew_table ?x = (ew_table w)[i := (ew_table w ! i)\<lparr>ae_q := q\<rparr>]"
    using link_stepD [OF u'(2)] by simp_all
  have e: "eth_netif (ew_netif ?x nif)" "i < length (ew_table ?x)" using Cons.prems f by auto
  from Cons.IH [OF x e(1) Cons.prems(3,4) e(2)] obtain v where
    "send_queue stack nif eth i q ?x = Some v" "rest_ok M v" "ew_netif v = ew_netif ?x" "ew_up v = ew_up ?x"
    "ew_table v = (if q = [] then ew_table ?x else (ew_table ?x)[i := (ew_table ?x ! i)\<lparr>ae_q := []\<rparr>])"
    by blast
  then show ?case using u'(1) f Cons.prems(5) by auto
qed simp

lemma update_arp_entry_returns:
  assumes "link_inv hs w" "eth_netif (ew_netif w nif)" "length eth = 6" "length stack = 2048"
  shows "\<exists>err v. etharp_update_arp_entry stack nif ip eth flags w = Some (err, v) \<and> returns hs w v"
proof (cases "non_unicast ip (ew_netif w nif)")
  case True
  then show ?thesis using assms(1) by (auto simp: etharp_update_arp_entry_def intro: returns_refl)
next
  case False
  from assms(1) show ?thesis
  proof (cases rule: find_entry_inv [of _ _ ip flags nif])
    case refused
    then show ?thesis using assms(1) False by (auto simp: etharp_update_arp_entry_def intro: returns_refl)
  next
    case (entry i v)
    let ?e = "ew_table v ! i"
    let ?s = "?e\<lparr>ae_state := ETHARP_STATE_STABLE, ae_netif := Some nif, ae_ethaddr := eth, ae_ctime := 0\<rparr>"
    define u where "u = upd_entry i (\<lambda>e. e\<lparr>ae_state := ETHARP_STATE_STABLE, ae_netif := Some nif,
                       ae_ethaddr := eth, ae_ctime := 0\<rparr>) v"
    have l: "i < length (ew_table v)" using entry link_invD(1) by simp
    define t where "t = (ew_table v)[i := ?s\<lparr>ae_q := []\<rparr>]"
    have m: "queued (ew_table v) + hs = mset (ae_q ?e) + (queued t + hs)"
      using queued_update [OF l, of "?s\<lparr>ae_q := []\<rparr>"] by (simp add: t_def ac_simps)
    have u: "ew_table u = (ew_table v)[i := ?s]" "ew_netif u = ew_netif w" "ew_up u = ew_up w"
      using entry by (auto simp: u_def)
    have "rest_ok (mset (ae_q ?e) + (queued t + hs)) u"
      using entry(3) unfolding link_inv_def m u_def by simp
    then obtain x where x: "send_queue stack nif eth i (ae_q ?e) u = Some x" "rest_ok (queued t + hs) x"
        "ew_netif x = ew_netif w" "ew_up x = ew_up w"
        "ew_table x = (if ae_q ?e = [] then ew_table u else (ew_table u)[i := (ew_table u ! i)\<lparr>ae_q := []\<rparr>])"
      using send_queue_ok [of "ae_q ?e" "queued t + hs" u nif eth stack i] assms(2-4) u l by auto
    have "?s\<lparr>ae_q := []\<rparr> = ?s" if "ae_q ?e = []" using that by (intro drop_q) simp
    then have xt: "ew_table x = t" using x(5) l unfolding t_def u(1)
      by (cases "ae_q ?e = []") (simp_all only: if_True if_False simp_thms list_update_overwrite nth_list_update_eq)
    have "tab_ok (ew_netif w) t" unfolding t_def
      by (rule tab_ok_update) (use entry assms(2,3) link_invD(3) [OF entry(3)] in \<open>auto simp: entry_ok_def\<close>)
    then have "returns hs w x" using x xt by (simp add: returns_def link_inv_def)
    then show ?thesis using False entry(1) x(1) l
      by (simp add: etharp_update_arp_entry_def u_def [symmetric] Let_def)
  qed
qed

section \<open>The timer\<close>

lemma free_queue_upd: "free_etharp_q q (upd_entry i f w) = upd_entry i f (free_etharp_q q w)"
proof -
  have "free_pkt p (upd_entry i f w) = upd_entry i f (free_pkt p w)" for p w
    by (simp add: free_pkt_def upd_entry_def set_pkt_def Let_def case_prod_beta)
  then show ?thesis unfolding free_etharp_q_def by (induction q arbitrary: w) auto
qed

lemma upd_entry_twice:
  "i < length (ew_table w) \<Longrightarrow> upd_entry i f (upd_entry i g w) = upd_entry i (\<lambda>e. f (g e)) w"
  by (simp add: upd_entry_def)

lemma length_free_queue [simp]: "ew_table (free_etharp_q q w) = ew_table w"
  unfolding free_etharp_q_def by (induction q arbitrary: w) auto

lemma free_aged_entry:
  assumes "i < length (ew_table w)"
  shows "etharp_free_entry i (upd_entry i (\<lambda>e. e\<lparr>ae_ctime := ae_ctime e + 1\<rparr>) w)
    = upd_entry i (\<lambda>e. e\<lparr>ae_ctime := ae_ctime e + 1\<rparr>) (etharp_free_entry i w)"
proof -
  have "(\<lambda>e :: etharp_entry. e\<lparr>ae_ctime := ae_ctime e + 1, ae_q := [], ae_state := ETHARP_STATE_EMPTY\<rparr>)
      = (\<lambda>e. e\<lparr>ae_q := [], ae_state := ETHARP_STATE_EMPTY, ae_ctime := ae_ctime e + 1\<rparr>)"
    "(\<lambda>e :: etharp_entry. e\<lparr>ae_ctime := ae_ctime e + 1, ae_state := ETHARP_STATE_EMPTY\<rparr>)
      = (\<lambda>e. e\<lparr>ae_state := ETHARP_STATE_EMPTY, ae_ctime := ae_ctime e + 1\<rparr>)"
    by (rule ext, rule etharp_entry.equality; simp)+
  then show ?thesis
    using assms by (simp add: etharp_free_entry_def Let_def free_queue_upd upd_entry_twice)
qed

lemma tmr_entry_returns:
  assumes "link_inv hs w" "i < 64" "heap_ok heap" "length stack = 2048"
  shows "\<exists>v. tmr_entry heap stack i w = Some v \<and> returns hs w v"
proof (cases "live (ew_table w ! i)")
  case False
  then show ?thesis using assms(1) by (simp add: tmr_entry_def returns_refl)
next
  case True
  let ?e = "ew_table w ! i" let ?tick = "\<lambda>e. e\<lparr>ae_ctime := ae_ctime e + 1\<rparr>"
  have l: "i < length (ew_table w)" using assms(1,2) link_invD(1) by simp
  have ok: "entry_ok (ew_netif w) ?e" using link_invD(5) assms(1,2) by blast
  define u where "u = upd_entry i ?tick w"
  define e where "e = ?tick ?e"
  have u: "ew_table u ! i = e" "ew_netif u = ew_netif w" "ew_up u = ew_up w" using l by (auto simp: u_def e_def)
  show ?thesis
  proof (cases "ae_ctime e \<ge> 300 \<or> ae_state e = ETHARP_STATE_PENDING \<and> ae_ctime e \<ge> 5")
    case expired: True
    note f = free_entry_inv [OF assms(1,2)]
    have "link_inv hs (upd_entry i ?tick (etharp_free_entry i w))"
      by (rule link_inv_update [OF f(1) assms(2)])
         (use link_invD(5) [OF f(1) assms(2)] f(5) l in \<open>auto simp: entry_ok_def f(2)\<close>)
    then show ?thesis using True expired f(2,3) unfolding returns_def
      by (auto simp: tmr_entry_def Let_def u_def [symmetric] u(1) free_aged_entry [OF l, folded u_def])
  next
    case young: False
    then have k: "entry_ok (ew_netif w) e" using ok True by (auto simp: entry_ok_def e_def not_le)
    have i: "link_inv hs u" unfolding u_def
      by (rule link_inv_update [OF assms(1,2)]) (use k True in \<open>auto simp: e_def\<close>)
    have r: "returns hs w u" using i u by (simp add: returns_def)
    have state: "returns hs w (upd_entry i (\<lambda>e. e\<lparr>ae_state := s\<rparr>) u)" if "ge_stable s" "ge_stable (ae_state e)" for s
    proof -
      have "link_inv hs (upd_entry i (\<lambda>e. e\<lparr>ae_state := s\<rparr>) u)"
        by (rule link_inv_update [OF i assms(2)])
           (use k that True in \<open>auto simp: u entry_ok_def e_def\<close>)
      then show ?thesis using u by (simp add: returns_def)
    qed
    consider "ae_state e = ETHARP_STATE_STABLE_REREQUESTING_1" | "ae_state e = ETHARP_STATE_STABLE_REREQUESTING_2"
      | "ae_state e = ETHARP_STATE_PENDING" | "ae_state e = ETHARP_STATE_STABLE"
      using True by (cases "ae_state e") (auto simp: e_def)
    then show ?thesis
    proof cases
      case 3
      then obtain nif where n: "ae_netif e = Some nif" "eth_netif (ew_netif u nif)"
        using k u by (auto simp: entry_ok_def)
      from etharp_request_step [OF n(2) assms(3,4), of "ae_ipaddr e"] obtain err v where
        "etharp_request heap stack nif (ae_ipaddr e) u = Some (err, v)" "link_step u v" by blast
      then show ?thesis using True young 3 n(1) returns_trans [OF r returns_step [OF i]]
        by (auto simp: tmr_entry_def Let_def u_def [symmetric] u(1))
    qed (use True young r state in \<open>auto simp: tmr_entry_def Let_def u_def [symmetric] u(1)\<close>)
  qed
qed

lemma tmr_loop_returns:
  assumes "link_inv hs w" "\<forall>i \<in> set js. i < 64" "heap_ok heap" "length stack = 2048"
  shows "\<exists>v. tmr_loop heap stack js w = Some v \<and> returns hs w v"
  using assms(1,2)
proof (induction js arbitrary: w)
  case (Cons i js)
  obtain u where u: "tmr_entry heap stack i w = Some u" "returns hs w u"
    using tmr_entry_returns [OF Cons.prems(1) _ assms(3,4), of i] Cons.prems(2) by auto
  obtain v where "tmr_loop heap stack js u = Some v" "returns hs u v"
    using Cons.IH [of u] u(2) Cons.prems(2) by (auto simp: returns_def)
  then show ?case using u returns_trans [OF u(2)] by auto
qed (simp add: returns_refl)

lemma etharp_tmr_returns:
  "link_inv hs w \<Longrightarrow> heap_ok heap \<Longrightarrow> length stack = 2048 \<Longrightarrow>
     \<exists>v. etharp_tmr heap stack w = Some v \<and> returns hs w v"
  unfolding etharp_tmr_def by (rule tmr_loop_returns) auto

lemma cleanup_returns: "link_inv hs w \<Longrightarrow> returns hs w (etharp_cleanup_netif nif w)"
proof -
  let ?f = "\<lambda>i w. if live (ew_table w ! i) \<and> ae_netif (ew_table w ! i) = Some nif
                  then etharp_free_entry i w else w"
  assume "link_inv hs w"
  moreover have "link_inv hs w \<Longrightarrow> \<forall>i \<in> set js. i < 64 \<Longrightarrow> returns hs w (fold ?f js w)" for js w
  proof (induction js arbitrary: w)
    case (Cons i js)
    have "returns hs w (?f i w)" using Cons.prems free_entry_inv [of hs w i] by (simp add: returns_def)
    then show ?case using Cons.IH [of "?f i w"] Cons.prems(2) returns_trans
      by (simp add: returns_def)
  qed (simp add: returns_refl)
  ultimately show ?thesis unfolding etharp_cleanup_netif_def by simp
qed

section \<open>Receiving ARP\<close>

lemma free_held: "link_inv (add_mset p hs) w \<Longrightarrow> returns hs w (free_pkt p w)"
  by (simp add: link_inv_def returns_def rest_ok_free)

lemma held_packet:
  assumes "link_inv hs w" "p \<in># hs"
  shows "\<exists>p0 ps. ew_pkt w p = p0 # ps \<and> pkt_ok (p0 # ps)"
proof -
  have "p \<in># queued (ew_table w) + hs" using assms(2) by simp
  then have "0 < count (queued (ew_table w) + hs) p" "p \<notin> up_packets w"
    using assms(1) by (auto simp: link_inv_def rest_ok_def)
  then have "refs w p \<noteq> []"
    using assms(1) unfolding link_inv_def rest_ok_def refs_for_def by (metis less_not_refl list.distinct(1))
  moreover have "pkt_ok (ew_pkt w p)" using link_invD(2) [OF assms(1)] by (simp add: pkts_ok_def)
  ultimately show ?thesis by (cases "ew_pkt w p") (auto simp: refs_def)
qed

lemma held_alive: "link_inv hs w \<Longrightarrow> p \<in># hs \<Longrightarrow> ew_pkt w p \<noteq> []"
  using held_packet [of hs w p] by auto

lemma etharp_input_returns:
  assumes "link_inv (add_mset p hs) w" "eth_netif (ew_netif w nif)" "heap_ok heap" "length stack = 2048"
    "length (payload_read (hd (ew_pkt w p)) 0 28) = 28"
  shows "\<exists>v. etharp_input heap stack p nif w = Some v \<and> returns hs w v"
proof -
  obtain p0 ps where c: "ew_pkt w p = p0 # ps" using held_packet [OF assms(1), of p] by auto
  define hdr where "hdr = payload_read p0 0 28"
  have h: "length hdr = 28" using assms(5) by (simp add: hdr_def c)
  define n where "n = ew_netif w nif"
  let ?bad = "take 2 hdr \<noteq> u16_bytes (lwip_htons 1) \<or> hdr ! 4 \<noteq> 6 \<or> hdr ! 5 \<noteq> 4
                  \<or> take 2 (drop 2 hdr) \<noteq> u16_bytes (lwip_htons 0x0800)"
  let ?us = "nf_ip_addr n \<noteq> IPADDR_ANY \<and> word_at hdr 24 = nf_ip_addr n"
  let ?sh = "take 6 (drop 8 hdr)"
  obtain err u where u: "etharp_update_arp_entry stack nif (word_at hdr 14) ?sh (if ?us then 1 else 2) w
      = Some (err, u)" "returns (add_mset p hs) w u"
    using update_arp_entry_returns [OF assms(1,2) _ assms(4), of ?sh "word_at hdr 14" "if ?us then 1 else 2"] h
    by auto
  have eu: "eth_netif (ew_netif u nif)" "length (nf_hwaddr n) = 6" "length ?sh = 6"
    using u(2) assms(2) h by (auto simp: returns_def n_def eth_netif_def)
  obtain err' v where v: "etharp_raw heap stack nif (nf_hwaddr n) ?sh (nf_hwaddr n) (nf_ip_addr n) ?sh
      (word_at hdr 14) 2 u = Some (err', v)" "link_step u v"
    using etharp_raw_step [OF eu(1) assms(3,4) eu(2,3,2,3)] by blast
  have iu: "link_inv (add_mset p hs) u" using u(2) by (simp add: returns_def)
  have fu: "returns hs w (free_pkt p u)" by (rule returns_trans [OF u(2) free_held [OF iu]])
  have "returns (add_mset p hs) w v" by (rule returns_trans [OF u(2) returns_step [OF iu v(2)]])
  then have fv: "returns hs w (free_pkt p v)" using free_held returns_trans by (simp add: returns_def)
  have fw: "returns hs w (free_pkt p w)" using assms(1) by (rule free_held)
  show ?thesis
  proof (cases ?bad)
    case True
    then show ?thesis using fw h
      by (simp add: etharp_input_def c hdr_def [symmetric])
  next
    case False
    then show ?thesis using h u(1) v(1) fu fv
      by (simp add: etharp_input_def c hdr_def [symmetric] n_def [symmetric] Let_def)
  qed
qed

section \<open>Sending an IP packet\<close>

lemma output_to_arp_index_returns:
  assumes "link_inv hs w" "eth_netif (ew_netif w nif)" "heap_ok heap" "length stack = 2048" "i < 64" "q \<in># hs"
  shows "\<exists>err v. etharp_output_to_arp_index heap stack nif q i w = Some (err, v) \<and> returns hs w v"
proof -
  let ?e = "ew_table w ! i"
  define rr where "rr = (\<lambda>r. map_option (\<lambda>(err, w). if err = ERR_OK
      then upd_entry i (\<lambda>e. e\<lparr>ae_state := ETHARP_STATE_STABLE_REREQUESTING_1\<rparr>) w else w) r)"
  have ok: "length (ae_ethaddr ?e) = 6" "entry_ok (ew_netif w) ?e"
    using link_invD(5) [OF assms(1,5)] by (auto simp: entry_ok_def)
  have rr: "\<exists>v. rr (Some (err, u)) = Some v \<and> returns hs w v"
    if "link_step w u" "ae_state ?e = ETHARP_STATE_STABLE" for err u
  proof -
    have u: "link_inv hs u" "ew_table u = ew_table w" "ew_netif u = ew_netif w" "ew_up u = ew_up w"
      using link_inv_step [OF assms(1) that(1)] link_stepD [OF that(1)] by auto
    have "link_inv hs (upd_entry i (\<lambda>e. e\<lparr>ae_state := ETHARP_STATE_STABLE_REREQUESTING_1\<rparr>) u)"
      by (rule link_inv_update [OF u(1) assms(5)]) (use ok(2) that(2) u in \<open>auto simp: entry_ok_def\<close>)
    then show ?thesis using u by (simp add: rr_def returns_def)
  qed
  define ask where "ask = (if ae_state ?e = ETHARP_STATE_STABLE then
              if ae_ctime ?e \<ge> 285 then rr (etharp_request heap stack nif (ae_ipaddr ?e) w)
              else if ae_ctime ?e \<ge> 270
              then rr (etharp_request_dst heap stack nif (ae_ipaddr ?e) (ae_ethaddr ?e) w)
              else Some w
            else Some w)"
  have "\<exists>u. ask = Some u \<and> returns hs w u"
    using etharp_request_step [OF assms(2-4), of "ae_ipaddr ?e"]
      etharp_request_dst_step [OF assms(2-4) ok(1), of "ae_ipaddr ?e"] rr returns_refl [OF assms(1)]
    unfolding ask_def by (auto split: if_splits)
  then obtain u where u: "ask = Some u" "returns hs w u" by blast
  have iu: "link_inv hs u" "eth_netif (ew_netif u nif)" using u(2) assms(2) by (auto simp: returns_def)
  have "length (ae_ethaddr (ew_table u ! i)) = 6" using link_invD(5) [OF iu(1) assms(5)] by (simp add: entry_ok_def)
  then obtain err v where "ethernet_output stack nif q (nf_hwaddr (ew_netif u nif)) (ae_ethaddr (ew_table u ! i))
      0x0800 u = Some (err, v)" "link_step u v"
    using ethernet_output_step [OF link_invD(2) [OF iu(1)] held_alive [OF iu(1) assms(6)] iu(2) _ _ assms(4)] iu(2)
    by (fastforce simp: eth_netif_def)
  moreover have "etharp_output_to_arp_index heap stack nif q i w = Option.bind ask
      (\<lambda>w. ethernet_output stack nif q (nf_hwaddr (ew_netif w nif)) (ae_ethaddr (ew_table w ! i)) 0x0800 w)"
    by (simp add: etharp_output_to_arp_index_def Let_def ask_def rr_def)
  ultimately show ?thesis using u(1) returns_trans [OF u(2) returns_step [OF iu(1)]] by auto
qed

lemma set_addrhint_returns: "link_inv hs w \<Longrightarrow> returns hs w (set_addrhint nif i w)"
  unfolding set_addrhint_def returns_def link_inv_def
  by (auto simp: rest_ok_def pkts_ok_def fresh_above_def refs_def up_packets_def split: option.splits)

lemma take_over_returns:
  assumes "link_inv hs w" "q \<in># hs" "size hs < 60" "heap_ok heap"
  shows "\<exists>p v. take_over heap q w = Some (p, v) \<and> ew_table v = ew_table w
    \<and> returns (hs + (case p of None \<Rightarrow> {#} | Some p \<Rightarrow> {#p#})) w v"
proof -
  let ?M = "queued (ew_table w) + hs"
  have M: "rest_ok ?M w" "size ?M < 255" "q \<in># ?M"
    using assms(1-3) size_queued [OF link_invD(3) [OF assms(1)]] by (auto simp: link_inv_def)
  obtain p0 ps where q: "ew_pkt w q = p0 # ps" "pkt_ok (p0 # ps)" using held_packet [OF assms(1,2)] by blast
  show ?thesis
  proof (cases "list_ex pbuf_needs_copy (ew_pkt w q)")
    case False
    then show ?thesis using rest_ok_ref [OF M(1,3,2)] assms(1) q(1)
      by (simp add: take_over_def returns_def link_inv_def)
  next
    case True
    obtain r where r: "pbuf_clone (heap (ew_next w)) PBUF_LINK PBUF_RAM (ew_pkt w q) = Some r" "pkt_ok (ar_chain r)"
      using pkt_ok_clone [of "heap (ew_next w)" "ew_pkt w q" PBUF_LINK] q assms(4) by auto
    have ones: "list_all (\<lambda>x. p_ref x = 1) (ar_chain r)" using clone_refs r(1) assms(4) by blast
    let ?v = "(set_pkt (ew_next w) (ar_chain r) w)\<lparr>ew_next := Suc (ew_next w),
                            ew_freed := ew_freed w @ ar_freed r\<rparr>"
    have "rest_ok (?M + (if ar_chain r = [] then {#} else {#ew_next w#})) ?v"
    proof (cases "ar_chain r = []")
      case True
      then show ?thesis using rest_ok_none [OF M(1), of "ew_freed w @ ar_freed r"] by simp
    next
      case False
      have "rest_ok (add_mset (ew_next w) ?M) ?v"
        by (rule rest_ok_cong [OF _ _ _ _ rest_ok_new [OF M(1,2) r(2) False ones]]) simp_all
      then show ?thesis using False by simp
    qed
    then show ?thesis using True r(1) assms(1) q(1)
      by (simp add: take_over_def returns_def link_inv_def split: if_splits)
  qed
qed

lemma enqueue_returns:
  assumes "link_inv (add_mset p hs) w" "i < 64" "ae_state (ew_table w ! i) = ETHARP_STATE_PENDING"
  shows "\<exists>err v. enqueue heap i p w = (err, v) \<and> returns hs w v"
proof -
  let ?e = "ew_table w ! i" let ?q = "ae_q ?e @ [p]"
  define u where "u = w\<lparr>ew_next := Suc (ew_next w)\<rparr>"
  have l: "i < length (ew_table w)" using link_invD(1) [OF assms(1)] assms(2) by simp
  have u: "ew_table u = ew_table w" "ew_netif u = ew_netif w" "ew_up u = ew_up w" by (simp_all add: u_def)
  have ru: "rest_ok (queued (ew_table w) + add_mset p hs) u"
    using assms(1) rest_ok_cong [of u w] by (simp add: link_inv_def u_def)
  have ok: "entry_ok (ew_netif w) ?e" using link_invD(5) assms(1,2) by blast
  have tab: "tab_ok (ew_netif w) ((ew_table w)[i := ?e\<lparr>ae_q := q\<rparr>])" if "length q \<le> 3" for q
    by (rule tab_ok_same_key [OF link_invD(3) [OF assms(1)] assms(2)])
       (use that ok assms(3) in \<open>auto simp: entry_ok_def\<close>)
  have m: "queued ((ew_table w)[i := ?e\<lparr>ae_q := q\<rparr>]) + mset (ae_q ?e) = queued (ew_table w) + mset q" for q
    using queued_update [OF l, of "?e\<lparr>ae_q := q\<rparr>"] by simp
  consider (nomem) "heap (ew_next w) 0 16 = None" | (full) "heap (ew_next w) 0 16 \<noteq> None" "3 \<le> length (ae_q ?e)"
    | (room) "heap (ew_next w) 0 16 \<noteq> None" "length (ae_q ?e) < 3" by linarith
  then show ?thesis
  proof cases
    case nomem
    have "link_inv (add_mset p hs) u" using ru assms(1) by (simp add: link_inv_def u)
    from free_held [OF this] show ?thesis using nomem u by (simp add: enqueue_def u_def [symmetric] returns_def)
  next
    case room
    have "queued ((ew_table w)[i := ?e\<lparr>ae_q := ?q\<rparr>]) + hs = queued (ew_table w) + add_mset p hs"
      using m [of ?q] by simp
    then have "link_inv hs (upd_entry i (\<lambda>e. e\<lparr>ae_q := ae_q e @ [p]\<rparr>) u)"
      using ru tab [of ?q] room(2) u by (simp add: link_inv_def)
    then show ?thesis using room u by (auto simp: enqueue_def u_def [symmetric] Let_def returns_def)
  next
    case full
    obtain h q where hq: "ae_q ?e = h # q" using full(2) by (cases "ae_q ?e") auto
    have mm: "queued ((ew_table w)[i := ?e\<lparr>ae_q := q @ [p]\<rparr>]) + add_mset h hs = queued (ew_table w) + add_mset p hs"
      using m [of "q @ [p]"] by (simp add: hq)
    have "rest_ok (queued ((ew_table w)[i := ?e\<lparr>ae_q := q @ [p]\<rparr>]) + add_mset h hs) u"
      by (subst mm) (rule ru)
    moreover have "length (q @ [p]) \<le> 3" using ok hq by (simp add: entry_ok_def)
    ultimately have "link_inv (add_mset h hs) (upd_entry i (\<lambda>e. e\<lparr>ae_q := q @ [p]\<rparr>) u)"
      using tab [of "q @ [p]"] u by (simp add: link_inv_def)
    from free_held [OF this] have "returns hs w (free_pkt h (upd_entry i (\<lambda>e. e\<lparr>ae_q := q @ [p]\<rparr>) u))"
      using u by (simp add: returns_def)
    then show ?thesis using full u hq l
      by (auto simp: enqueue_def u_def [symmetric] Let_def upd_entry_twice)
  qed
qed

lemma etharp_query_returns:
  assumes "link_inv hs w" "eth_netif (ew_netif w nif)" "heap_ok heap" "length stack = 2048"
    "case q of None \<Rightarrow> True | Some p \<Rightarrow> p \<in># hs" "size hs < 60"
  shows "\<exists>err v. etharp_query heap stack nif ip q w = Some (err, v) \<and> returns hs w v"
proof (cases "non_unicast ip (ew_netif w nif)")
  case True
  then show ?thesis using assms(1) by (auto simp: etharp_query_def intro: returns_refl)
next
  case False
  from assms(1) show ?thesis
  proof (cases rule: find_entry_inv [of _ _ ip 1 nif])
    case refused
    then show ?thesis using assms(1) False by (auto simp: etharp_query_def intro: returns_refl)
  next
    case (entry i v)
    let ?new = "ae_state (ew_table v ! i) = ETHARP_STATE_EMPTY"
    let ?pend = "\<lambda>e. e\<lparr>ae_state := ETHARP_STATE_PENDING, ae_netif := Some nif\<rparr>"
    have l: "length (ew_table v) = 64" using link_invD(1) [OF entry(3)] .
    define u where "u = (if ?new then upd_entry i ?pend v else v)"
    have "link_inv hs (upd_entry i ?pend v)" if ?new
    proof -
      have ok: "entry_ok (ew_netif v) (?pend (ew_table v ! i))"
        using link_invD(5) [OF entry(3,2)] entry(4,9) that assms(2) by (auto simp: entry_ok_def)
      have "tab_ok (ew_netif v) ((ew_table v)[i := ?pend (ew_table v ! i)])"
        by (rule tab_ok_update [OF link_invD(3) [OF entry(3)] entry(2) ok]) (use entry(6,7) in simp)
      moreover have "queued ((ew_table v)[i := ?pend (ew_table v ! i)]) = queued (ew_table v)"
        by (rule queued_same) (use entry(2) l in simp_all)
      ultimately show ?thesis using entry(3) by (simp add: link_inv_def)
    qed
    then have u: "link_inv hs u" "ew_netif u = ew_netif w" "ew_up u = ew_up w" "live (ew_table u ! i)"
        "length (ew_table u) = 64"
      using entry(2-5) l by (simp_all add: u_def)
    then have ru: "returns hs w u" by (simp add: returns_def)
    define ask where "ask = (if ?new \<or> q = None then
         map_option (\<lambda>(result, w). (result,
             if result = ERR_OK \<and> ae_state (ew_table w ! i) = ETHARP_STATE_PENDING \<and> \<not> ?new
             then upd_entry i (\<lambda>e. e\<lparr>ae_ctime := 0\<rparr>) w else w))
           (etharp_request heap stack nif ip u)
       else Some (ERR_MEM, u))"
    have "\<exists>err x. ask = Some (err, x) \<and> returns hs w x \<and> live (ew_table x ! i)"
    proof (cases "?new \<or> q = None")
      case True
      have eu: "eth_netif (ew_netif u nif)" using assms(2) u by simp
      obtain err x where x: "etharp_request heap stack nif ip u = Some (err, x)" "link_step u x"
        using etharp_request_step [OF eu assms(3,4), of ip] by blast
      have ix: "link_inv hs x" "ew_table x = ew_table u" "returns hs w x"
        using link_inv_step [OF u(1) x(2)] link_stepD [OF x(2)] returns_trans [OF ru returns_step [OF u(1) x(2)]]
        by auto
      have "link_inv hs (upd_entry i (\<lambda>e. e\<lparr>ae_ctime := 0\<rparr>) x)"
        by (rule link_inv_update [OF ix(1) entry(2)])
           (use link_invD(5) [OF ix(1) entry(2)] in \<open>auto simp: entry_ok_def\<close>)
      then have "returns hs w (upd_entry i (\<lambda>e. e\<lparr>ae_ctime := 0\<rparr>) x)" using ix by (simp add: returns_def)
      then show ?thesis using True x(1) ix(2,3) u(4,5) entry(2) by (simp add: ask_def)
    next
      case False
      then have "ask = Some (ERR_MEM, u)" unfolding ask_def by (rule if_not_P)
      then show ?thesis using u(4) ru by simp
    qed
    then obtain result x where x: "ask = Some (result, x)" "returns hs w x" "live (ew_table x ! i)" by blast
    have ix: "link_inv hs x" "ew_netif x = ew_netif w" using x(2) by (auto simp: returns_def)
    have eq: "etharp_query heap stack nif ip q w = (case q of
          None \<Rightarrow> Some (result, x)
        | Some q \<Rightarrow>
            if ge_stable (ae_state (ew_table x ! i)) then
              ethernet_output stack nif q (nf_hwaddr (ew_netif x nif)) (ae_ethaddr (ew_table x ! i)) 0x0800
                (set_addrhint nif i x)
            else if ae_state (ew_table x ! i) = ETHARP_STATE_PENDING then
              map_option (\<lambda>(p, w). case p of None \<Rightarrow> (ERR_MEM, w) | Some p \<Rightarrow> enqueue heap i p w)
                (take_over heap q x)
            else Some (result, x))"
      unfolding etharp_query_def Let_def entry(1) prod.case sum.case
      by (simp only: False if_False u_def [symmetric] ask_def [symmetric] x(1) bind.simps prod.case)
    show ?thesis
    proof (cases q)
      case None
      then show ?thesis using eq x(2) by simp
    next
      case (Some p)
      then have p: "p \<in># hs" using assms(5) by simp
      show ?thesis
      proof (cases "ge_stable (ae_state (ew_table x ! i))")
        case True
        define y where "y = set_addrhint nif i x"
        have y: "returns hs x y" using set_addrhint_returns [OF ix(1)] by (simp add: y_def)
        have six: "length (ae_ethaddr (ew_table x ! i)) = 6" using link_invD(5) [OF ix(1) entry(2)]
          by (simp add: entry_ok_def)
        obtain err v' where "ethernet_output stack nif p (nf_hwaddr (ew_netif x nif))
            (ae_ethaddr (ew_table x ! i)) 0x0800 y = Some (err, v')" "link_step y v'"
          using ethernet_output_step [of y p nif "nf_hwaddr (ew_netif x nif)" "ae_ethaddr (ew_table x ! i)" stack "0x0800"]
            held_alive [of hs y p] p y six assms(2,4) ix(2) link_invD(2) [of hs y] by (auto simp: returns_def eth_netif_def)
        then show ?thesis using eq True Some returns_trans [OF x(2) returns_trans [OF y returns_step]] y
          by (auto simp: y_def [symmetric] returns_def)
      next
        case unstable: False
        then have pend: "ae_state (ew_table x ! i) = ETHARP_STATE_PENDING"
          using x(3) by (cases "ae_state (ew_table x ! i)") auto
        obtain r y where y: "take_over heap p x = Some (r, y)" "ew_table y = ew_table x"
            "returns (hs + (case r of None \<Rightarrow> {#} | Some p \<Rightarrow> {#p#})) x y"
          using take_over_returns [OF ix(1) p assms(6,3)] by blast
        show ?thesis
        proof (cases r)
          case None
          then show ?thesis using eq Some unstable pend y returns_trans [OF x(2)] by auto
        next
          case (Some p')
          then have "link_inv (add_mset p' hs) y" using y(3) by (simp add: returns_def)
          from enqueue_returns [OF this entry(2), of heap] pend y(2) obtain err z where
            "enqueue heap i p' y = (err, z)" "returns hs y z" by auto
          then show ?thesis using eq \<open>q = Some p\<close> Some unstable pend y
              returns_trans [OF x(2) returns_trans [OF y(3)]] by auto
        qed
      qed
    qed
  qed
qed

lemma stable_index_bound: "stable_index dst nif k es = Some i \<Longrightarrow> i < k + length es"
  by (induction es arbitrary: k) (fastforce split: if_splits)+

lemma etharp_output_returns:
  assumes "link_inv hs w" "eth_netif (ew_netif w nif)" "heap_ok heap" "length stack = 2048"
    "q \<in># hs" "size hs < 60"
  shows "\<exists>err v. etharp_output heap stack nif q ip w = Some (err, v) \<and> returns hs w v"
proof -
  let ?n = "ew_netif w nif"
  let ?out = "ip AND nf_netmask ?n \<noteq> nf_ip_addr ?n AND nf_netmask ?n \<and> \<not> ip4_addr_islinklocal ip"
  let ?d = "if ?out then nf_gw ?n else ip"
  note frame = ethernet_output_step [OF link_invD(2) [OF assms(1)] held_alive [OF assms(1,5)] assms(2) _ _ assms(4), of "nf_hwaddr ?n"]
  have six: "length (nf_hwaddr ?n) = 6" using assms(2) by (simp add: eth_netif_def)
  have l: "length (ew_table w) = 64" using link_invD(1) [OF assms(1)] .
  consider (bcast) "ip4_addr_isbroadcast_u32 ip ?n" | (mcast) "\<not> ip4_addr_isbroadcast_u32 ip ?n" "ip4_addr_ismulticast ip"
    | (route) "\<not> ip4_addr_isbroadcast_u32 ip ?n" "\<not> ip4_addr_ismulticast ip" "?out \<and> nf_gw ?n = IPADDR_ANY"
    | (unicast) "\<not> ip4_addr_isbroadcast_u32 ip ?n" "\<not> ip4_addr_ismulticast ip" "\<not> (?out \<and> nf_gw ?n = IPADDR_ANY)"
    by blast
  then show ?thesis
  proof cases
    case bcast
    then show ?thesis using frame [of ethbroadcast "0x0800"] six returns_step [OF assms(1)]
      by (auto simp: etharp_output_def Let_def)
  next
    case mcast
    then show ?thesis using frame [of "mcast_mac ip" "0x0800"] six returns_step [OF assms(1)]
      by (auto simp: etharp_output_def Let_def)
  next
    case route
    then show ?thesis using returns_refl [OF assms(1)] by (simp add: etharp_output_def Let_def)
  next
    case unicast
    then have eq: "etharp_output heap stack nif q ip w = (case hinted_index ?d nif w of
               Some i \<Rightarrow> etharp_output_to_arp_index heap stack nif q i w
             | None \<Rightarrow>
                 (case stable_index ?d nif 0 (ew_table w) of
                    Some i \<Rightarrow> etharp_output_to_arp_index heap stack nif q i (set_addrhint nif i w)
                  | None \<Rightarrow> etharp_query heap stack nif ?d (Some q) w))"
      by (simp only: etharp_output_def Let_def if_False)
    show ?thesis
    proof (cases "hinted_index ?d nif w")
      case (Some i)
      then have "i < 64" by (auto simp: hinted_index_def Let_def split: option.splits if_splits)
      from output_to_arp_index_returns [OF assms(1-4) this assms(5)] show ?thesis using eq Some by simp
    next
      case no_hint: None
      show ?thesis
      proof (cases "stable_index ?d nif 0 (ew_table w)")
        case None
        then show ?thesis using etharp_query_returns [OF assms(1-4), of "Some q" ?d] assms(5,6) eq no_hint by simp
      next
        case (Some i)
        then have i: "i < 64" using stable_index_bound [of _ nif 0 "ew_table w"] l by fastforce
        have h: "returns hs w (set_addrhint nif i w)" using set_addrhint_returns [OF assms(1)] .
        have "link_inv hs (set_addrhint nif i w)" "eth_netif (ew_netif (set_addrhint nif i w) nif)"
          using h assms(2) by (auto simp: returns_def)
        from output_to_arp_index_returns [OF this assms(3,4) i assms(5)] show ?thesis
          using eq no_hint Some returns_trans [OF h] by auto
      qed
    qed
  qed
qed

section \<open>Receiving a frame\<close>

lemma set_pkt_link_step: "pkt_ok c \<Longrightarrow> map p_ref c = refs w p \<Longrightarrow> link_step w (set_pkt p c w)"
  using packet_step [of c w p "ew_x w"] by (simp add: set_pkt_def)

lemma hand_up:
  assumes "link_inv (add_mset p hs) w" "p \<notin># queued (ew_table w) + hs"
    "up_packet u = p"
  shows "link_inv hs (w\<lparr>ew_up := ew_up w @ [u]\<rparr>)"
proof -
  let ?M = "queued (ew_table w) + hs" let ?v = "w\<lparr>ew_up := ew_up w @ [u]\<rparr>"
  have a: "pkts_ok w" "fresh_above w" "size ?M < 256"
      "\<And>q. q \<notin> up_packets w \<Longrightarrow> refs_for (count (add_mset p ?M) q) (refs w q)"
      "\<forall>q \<in># add_mset p ?M. q \<notin> up_packets w" "\<forall>p \<in> up_packets w. p < ew_next w \<and> refs_for 1 (refs w p)"
      "distinct (map up_packet (ew_up w))" "\<not> ew_fault w"
    using assms(1) by (auto simp: link_inv_def rest_ok_def)
  have u: "up_packets ?v = insert p (up_packets w)" using assms(3) by (auto simp: up_packets_def)
  have "\<exists>p0 ps. ew_pkt w p = p0 # ps \<and> pkt_ok (p0 # ps)" using held_packet [OF assms(1), of p] by simp
  then have "p < ew_next w" using a(2) by (auto simp: fresh_above_def not_le [symmetric])
  moreover have "refs_for (count ?M q) (refs ?v q)" if "q \<notin> insert p (up_packets w)" for q
    using a(4) [of q] that by (auto simp: refs_def)
  moreover have "refs_for 1 (refs ?v p)"
    using a(4) [of p] a(5) assms(2) by (simp add: refs_def not_in_iff)
  moreover have "refs ?v q = refs w q" for q by (simp add: refs_def)
  moreover have "distinct (map up_packet (ew_up ?v))"
    using a(5,7) assms(3) by (auto simp: up_packets_def)
  ultimately have "rest_ok ?M ?v"
    using a assms(2) by (auto simp: rest_ok_def u pkts_ok_def fresh_above_def)
  then show ?thesis using assms(1) by (simp add: link_inv_def)
qed

lemma ethernet_input_returns:
  assumes "link_inv (add_mset p hs) w" "p \<notin># queued (ew_table w) + hs" "eth_netif (ew_netif w nif)"
    "heap_ok heap" "length stack = 2048"
    "nat (p_payload (hd (ew_pkt w p))) + 42 \<le> length (p_mem (hd (ew_pkt w p)))"
  shows "\<exists>v. ethernet_input heap stack p nif w = Some (ERR_OK, v) \<and> link_inv hs v \<and> ew_netif v = ew_netif w"
proof -
  obtain p0 ps where c: "ew_pkt w p = p0 # ps" "pkt_ok (p0 # ps)" using held_packet [OF assms(1), of p] by auto
  have free: "link_inv hs (free_pkt p w') \<and> ew_netif (free_pkt p w') = ew_netif w"
    if "link_step w w'" for w'
    using free_held [OF link_inv_step [OF assms(1) that]] link_stepD(2) [OF that] by (simp add: returns_def)
  show ?thesis
  proof (cases "p_len p0 \<le> 14")
    case True
    then show ?thesis using free [OF link_step_refl] by (simp add: ethernet_input_def c)
  next
    case False
    define q where "q = (if p_if_idx p0 = 0 then p0\<lparr>p_if_idx := netif_get_index (ew_netif w nif)\<rparr> else p0)"
    define r where "r = q\<lparr>p_flags := p_flags q OR ll_flags (take 6 (payload_read q 0 14))\<rparr>"
    have r: "p_mem r = p_mem p0" "p_payload r = p_payload p0" "p_len r = p_len p0" "p_tot_len r = p_tot_len p0"
        "p_ref r = p_ref p0"
      by (simp_all add: r_def q_def)
    have okr: "pkt_ok (r # ps)" using c(2) r by (auto simp: pkt_ok_def wf_chain_def wf_pbuf_def)
    have "14 \<le> unat (p_len r)" using False r by (simp add: word_le_nat_alt)
    then obtain s where s: "pbuf_remove_header (r # ps) 14 = (0, s # ps)" "wf_chain (s # ps)"
        "p_payload s = p_payload r + 14" "p_mem s = p_mem r"
      using pbuf_remove_header_ok [of r ps 14] okr by (auto simp: pkt_ok_def)
    have s': "p_ref s = p_ref r" "p_len s = p_tot_len s \<longleftrightarrow> p_len r = p_tot_len r"
      using s(1) by (auto simp: Let_def split: if_splits)
    have oks: "pkt_ok (s # ps)" using s okr s' by (simp add: pkt_ok_def)
    define v where "v = set_pkt p (s # ps) w"
    have rw: "link_step w (set_pkt p (r # ps) w)" and sw: "link_step w v"
      using okr oks r s' c(1) by (auto simp: v_def refs_def intro!: set_pkt_link_step)
    have iv: "link_inv (add_mset p hs) v" "ew_netif v = ew_netif w" "ew_table v = ew_table w"
      using link_inv_step [OF assms(1) sw] link_stepD [OF sw] by auto
    have "0 \<le> p_payload p0" using c(2) by (simp add: pkt_ok_def wf_chain_def wf_pbuf_def)
    then have "length (payload_read (hd (ew_pkt v p)) 0 28) = 28"
      using assms(6) r s(3,4) by (simp add: v_def c payload_read_def nat_add_distrib)
    then obtain x where x: "etharp_input heap stack p nif v = Some x" "returns hs v x"
      using etharp_input_returns [OF iv(1) _ assms(4,5), of nif] assms(3) iv(2) by auto
    have up: "link_inv hs (v\<lparr>ew_up := ew_up v @ [u]\<rparr>) \<and> ew_netif (v\<lparr>ew_up := ew_up v @ [u]\<rparr>) = ew_netif w"
      if "u = Ip4_Input p nif \<or> u = Ip6_Input p nif" for u
      using hand_up [OF iv(1), of u] assms(2) iv that by auto
    define t where "t = take 2 (drop 12 (payload_read q 0 14))"
    define drp where "drp = free_pkt p (set_pkt p (r # ps) w)"
    have "ethernet_input heap stack p nif w =
        (let etharp = (nf_flags (ew_netif w nif) AND NETIF_FLAG_ETHARP \<noteq> 0) in
         if t = u16_bytes (lwip_htons 0x0800) then
           if \<not> etharp then Some (ERR_OK, drp) else Some (ERR_OK, v\<lparr>ew_up := ew_up v @ [Ip4_Input p nif]\<rparr>)
         else if t = u16_bytes (lwip_htons 0x0806) then
           if \<not> etharp then Some (ERR_OK, drp) else Some (ERR_OK, x)
         else if t = u16_bytes (lwip_htons 0x86DD) then Some (ERR_OK, v\<lparr>ew_up := ew_up v @ [Ip6_Input p nif]\<rparr>)
         else Some (ERR_OK, drp))"
      using False unfolding ethernet_input_def c(1) list.case Let_def q_def [symmetric] r_def [symmetric]
        s(1) prod.case v_def [symmetric] t_def [symmetric] drp_def [symmetric] x(1)
      by simp
    moreover have "link_inv hs x \<and> ew_netif x = ew_netif w" using x(2) iv(2) by (simp add: returns_def)
    moreover note up free [OF rw, folded drp_def]
    ultimately show ?thesis using iv(2) by (simp add: Let_def)
  qed
qed

lemma tcpip_input_returns:
  assumes "link_inv (add_mset p hs) w" "p \<notin># queued (ew_table w) + hs" "eth_netif (ew_netif w nif)"
    "heap_ok heap" "length stack = 2048"
    "nat (p_payload (hd (ew_pkt w p))) + 42 \<le> length (p_mem (hd (ew_pkt w p)))"
  shows "\<exists>v. tcpip_input heap stack p nif w = Some (ERR_OK, v) \<and> link_inv hs v \<and> ew_netif v = ew_netif w"
  using ethernet_input_returns [OF assms] hand_up [OF assms(1,2), of "Ip_Input p nif"]
  by (auto simp: tcpip_input_def)

end
