(* ===== verification/Link_Props.thy ===== *)
theory Link_Props
  imports "Link_Ops"
begin

text \<open>
  The link layer as a system: the timer, packets the IP layer sends, frames the driver brings in,
  probes and interfaces that go down, in any order. Then what the cache does for a packet whose
  destination is not known yet, and how long entries live.
\<close>

section \<open>Runs of the link layer\<close>

text \<open>
  The IP layer makes a packet, passes it to \<^verbatim>\<open>netif->output\<close> and frees its reference; the
  driver makes one and passes it to \<^verbatim>\<open>netif->input\<close>, which takes it over.
\<close>

datatype link_event =
    Ev_Tmr
  | Ev_Output addr "pbuf list" u32
  | Ev_Input addr "pbuf list"
  | Ev_Query addr u32
  | Ev_Gratuitous addr
  | Ev_Cleanup addr

definition put_packet :: "pbuf list \<Rightarrow> eworld \<Rightarrow> eworld" where
  "put_packet c w = (set_pkt (ew_next w) c w)\<lparr>ew_next := Suc (ew_next w)\<rparr>"

fun link_event_step :: "(nat \<Rightarrow> allocator) \<Rightarrow> u8 list \<Rightarrow> link_event \<Rightarrow> eworld \<Rightarrow> eworld option" where
  "link_event_step heap stack Ev_Tmr w = etharp_tmr heap stack w"
| "link_event_step heap stack (Ev_Output nif c ip) w =
     map_option (\<lambda>(_, v). free_pkt (ew_next w) v)
       (etharp_output heap stack nif (ew_next w) ip (put_packet c w))"
| "link_event_step heap stack (Ev_Input nif c) w =
     map_option snd (tcpip_input heap stack (ew_next w) nif (put_packet c w))"
| "link_event_step heap stack (Ev_Query nif ip) w = map_option snd (etharp_query heap stack nif ip None w)"
| "link_event_step heap stack (Ev_Gratuitous nif) w = map_option snd (etharp_gratuitous heap stack nif w)"
| "link_event_step heap stack (Ev_Cleanup nif) w = Some (etharp_cleanup_netif nif w)"

definition owned_packet :: "pbuf list \<Rightarrow> bool" where
  "owned_packet c \<longleftrightarrow> wf_chain c \<and> one_packet c \<and> c \<noteq> [] \<and> list_all (\<lambda>x. p_ref x = 1) c"

text \<open>A received packet lies in a block with room for the headers, as the blocks of the pool have.\<close>

fun link_allowed :: "(addr \<Rightarrow> netif) \<Rightarrow> link_event \<Rightarrow> bool" where
  "link_allowed nets Ev_Tmr = True"
| "link_allowed nets (Ev_Output nif c ip) = (eth_netif (nets nif) \<and> owned_packet c)"
| "link_allowed nets (Ev_Input nif c) = (eth_netif (nets nif) \<and> owned_packet c
     \<and> nat (p_payload (hd c)) + 42 \<le> length (p_mem (hd c)))"
| "link_allowed nets (Ev_Query nif ip) = eth_netif (nets nif)"
| "link_allowed nets (Ev_Gratuitous nif) = eth_netif (nets nif)"
| "link_allowed nets (Ev_Cleanup nif) = True"

definition link_start :: "eworld \<Rightarrow> bool" where
  "link_start w \<longleftrightarrow> ew_table w = arp_table0 \<and> ew_pkt w = (\<lambda>_. []) \<and> ew_up w = [] \<and> \<not> ew_fault w"

lemma put_packet_inv:
  assumes "link_inv {#} w" "owned_packet c"
  shows "link_inv {#ew_next w#} (put_packet c w)" "ew_next w \<notin># queued (ew_table w)"
    "ew_netif (put_packet c w) = ew_netif w" "ew_table (put_packet c w) = ew_table w"
    "ew_pkt (put_packet c w) (ew_next w) = c"
proof -
  have r: "rest_ok (queued (ew_table w)) w" using assms(1) by (simp add: link_inv_def)
  have "size (queued (ew_table w)) < 255" using size_queued [OF link_invD(3) [OF assms(1)]] by simp
  then have "rest_ok (add_mset (ew_next w) (queued (ew_table w))) (put_packet c w)"
    unfolding put_packet_def using assms(2)
    by (intro rest_ok_new [OF r]) (auto simp: owned_packet_def pkt_ok_def)
  then show "link_inv {#ew_next w#} (put_packet c w)"
    using assms(1) by (simp add: link_inv_def put_packet_def)
  show "ew_next w \<notin># queued (ew_table w)"
  proof
    assume a: "ew_next w \<in># queued (ew_table w)"
    then have "ew_next w \<notin> up_packets w" "refs_for (count (queued (ew_table w)) (ew_next w)) (refs w (ew_next w))"
      using r by (auto simp: rest_ok_def)
    moreover have "refs w (ew_next w) = []" using r by (simp add: rest_ok_def fresh_above_def refs_def)
    moreover have "count (queued (ew_table w)) (ew_next w) \<noteq> 0" using a by simp
    ultimately show False unfolding refs_for_def by (metis list.distinct(1))
  qed
qed (simp_all add: put_packet_def)

lemma event_returns:
  assumes "link_inv {#} w" "link_allowed (ew_netif w) e" "heap_ok heap" "length stack = 2048"
  shows "\<exists>v. link_event_step heap stack e w = Some v \<and> link_inv {#} v \<and> ew_netif v = ew_netif w"
proof (cases e)
  case Ev_Tmr
  then show ?thesis using etharp_tmr_returns [OF assms(1,3,4)] by (auto simp: returns_def)
next
  case (Ev_Output nif c ip)
  then have c: "eth_netif (ew_netif w nif)" "owned_packet c" using assms(2) by auto
  note p = put_packet_inv [OF assms(1) c(2)]
  obtain err v where v: "etharp_output heap stack nif (ew_next w) ip (put_packet c w) = Some (err, v)"
      "returns {#ew_next w#} (put_packet c w) v"
    using etharp_output_returns [OF p(1) _ assms(3,4), of nif "ew_next w" ip] c(1) p(3) by auto
  then have "returns {#} v (free_pkt (ew_next w) v)" by (intro free_held) (simp add: returns_def)
  then show ?thesis using v p(3) Ev_Output by (simp add: returns_def)
next
  case (Ev_Input nif c)
  then have c: "eth_netif (ew_netif w nif)" "owned_packet c"
    "nat (p_payload (hd c)) + 42 \<le> length (p_mem (hd c))" using assms(2) by auto
  note p = put_packet_inv [OF assms(1) c(2)]
  show ?thesis
    using tcpip_input_returns [of "ew_next w" "{#}" "put_packet c w" nif heap stack] p c assms(3,4) Ev_Input
    by auto
next
  case (Ev_Query nif ip)
  then show ?thesis using etharp_query_returns [OF assms(1) _ assms(3,4), of nif None ip] assms(2)
    by (auto simp: returns_def)
next
  case (Ev_Gratuitous nif)
  then have "eth_netif (ew_netif w nif)" using assms(2) by simp
  from etharp_request_step [OF this assms(3,4)] obtain err v where
    "etharp_gratuitous heap stack nif w = Some (err, v)" "link_step w v"
    unfolding etharp_gratuitous_def by blast
  then show ?thesis using Ev_Gratuitous link_inv_step [OF assms(1)] link_stepD(2) by auto
next
  case (Ev_Cleanup nif)
  then show ?thesis using cleanup_returns [OF assms(1)] by (simp add: returns_def)
qed

lemma link_start_inv: "link_start w \<Longrightarrow> link_inv {#} w"
proof -
  assume s: "link_start w"
  have "tab_ok (ew_netif w) arp_table0"
    by (auto simp: tab_ok_def arp_table0_def unique_keys_def entry_ok_def empty_entry_def list_all_iff)
  moreover have "queued arp_table0 = {#}"
    by (simp add: queued_def arp_table0_def empty_entry_def)
  ultimately show ?thesis using s
    by (auto simp: link_inv_def link_start_def rest_ok_def pkts_ok_def fresh_above_def refs_def
        refs_for_def up_packets_def)
qed

definition link_enabled ::
    "(nat \<Rightarrow> allocator) \<Rightarrow> u8 list \<Rightarrow> (addr \<Rightarrow> netif) \<Rightarrow> link_event \<Rightarrow> eworld option \<Rightarrow> bool" where
  "link_enabled heap stack nets e s \<longleftrightarrow> link_allowed nets e \<and> heap_ok heap \<and> length stack = 2048"

text \<open>The link layer keeps its invariant; a state is \<open>None\<close> where the program has crashed.\<close>

interpretation link: invariant_system
  "\<lambda>e s. Option.bind s (link_event_step heap stack e)"
  "link_enabled heap stack nets"
  "\<lambda>s. \<exists>w. s = Some w \<and> link_start w \<and> ew_netif w = nets"
  "\<lambda>s. \<exists>w. s = Some w \<and> link_inv {#} w \<and> ew_netif w = nets"
  for heap stack nets
proof
  show "\<exists>w. s = Some w \<and> link_inv {#} w \<and> ew_netif w = nets"
    if "\<exists>w. s = Some w \<and> link_start w \<and> ew_netif w = nets" for s
    using that link_start_inv by blast
  show "\<exists>w. Option.bind s (link_event_step heap stack e) = Some w \<and> link_inv {#} w \<and> ew_netif w = nets"
    if "\<exists>w. s = Some w \<and> link_inv {#} w \<and> ew_netif w = nets"
      "link_enabled heap stack nets e s" for s e
    using that event_returns [of _ e heap stack] unfolding link_enabled_def by fastforce
qed

fun link_run :: "(nat \<Rightarrow> allocator) \<Rightarrow> u8 list \<Rightarrow> link_event list \<Rightarrow> eworld \<Rightarrow> eworld option" where
  "link_run heap stack [] w = Some w"
| "link_run heap stack (e # es) w = Option.bind (link_event_step heap stack e w) (link_run heap stack es)"

lemma link_run_eq: "Option.bind s (link_run heap stack es) = link.run heap stack es s"
proof (induction es arbitrary: s)
  case Nil
  show ?case by (cases s) simp_all
next
  case (Cons e es)
  show ?case by (cases s) (simp_all flip: Cons.IH)
qed

lemma link_run_ok:
  "\<forall>e \<in> set es. link_allowed nets e \<Longrightarrow> heap_ok heap \<Longrightarrow> length stack = 2048 \<Longrightarrow>
     link.run_ok heap stack nets es s"
  by (induction es arbitrary: s) (auto simp: link_enabled_def)

text \<open>
  C3. In every run of the link layer from the empty table - timer ticks, packets sent and received,
  probes, interfaces going down, with memory running out at any point - no step dereferences
  \<^verbatim>\<open>NULL\<close>, uses a packet that was given back or reads outside a block, no two live entries are
  for the same address and interface, only pending entries have packets waiting and at most three,
  and reference counting is exact: a packet has as many references as it has places in the queues
  and hand-overs to the IP layers, and one with none has been given back. No packet is given back
  once more after that.
\<close>

theorem link_run_exact:
  assumes "heap_ok heap" "length stack = 2048" "link_start w" "\<forall>e \<in> set es. link_allowed (ew_netif w) e"
  shows "\<exists>v. link_run heap stack es w = Some v \<and> tab_ok (ew_netif w) (ew_table v)
    \<and> (\<forall>p. refs_for (count (queued (ew_table v) + mset (map up_packet (ew_up v))) p) (refs v p))
    \<and> \<not> ew_fault v"
proof -
  have "\<exists>v. link.run heap stack es (Some w) = Some v \<and> link_inv {#} v \<and> ew_netif v = ew_netif w"
    by (rule link.run_inv [OF _ link_run_ok [OF assms(4,1,2)]]) (use link_start_inv [OF assms(3)] in blast)
  then show ?thesis using link_run_eq [of "Some w" heap stack es] rest_ok_counts
    by (auto simp: link_inv_def rest_ok_no_fault)
qed

definition sample_eth :: netif where
  "sample_eth = zero_netif\<lparr>nf_ip_addr := IP4_ADDR 10 0 0 1, nf_netmask := IP4_ADDR 255 255 255 0,
     nf_hwaddr := [2, 3, 4, 5, 6, 7], nf_linkoutput := Some Netif_Linkoutput, nf_state := Some 0,
     nf_flags := 0x1e\<rparr>"

definition sample_link :: eworld where
  "sample_link = \<lparr>ew_x = sample_world\<lparr>x_net := nworld0\<lparr>nw_mem := (\<lambda>_. sample_eth)\<rparr>\<rparr>,
     ew_table = arp_table0, ew_hint = (\<lambda>_. 0), ew_pkt = (\<lambda>_. []), ew_next = 0, ew_freed = [], ew_up = [],
     ew_fault = False\<rparr>"

definition sample_pkt :: "pbuf list" where
  "sample_pkt = [\<lparr>p_mem = replicate 60 7, p_payload = 16, p_tot_len = 40, p_len = 40,
     p_type_internal = 0x80, p_flags = 0, p_ref = 1, p_if_idx = 0\<rparr>]"

lemma link_sample_facts:
  "heap_ok (\<lambda>_. zero_malloc)" "length (replicate 2048 (0 :: u8)) = 2048" "link_start sample_link"
  "ew_netif sample_link = (\<lambda>_. sample_eth)" "eth_netif sample_eth" "owned_packet sample_pkt"
  by (simp_all add: zero_malloc_ok link_start_def sample_link_def ew_netif_def fun_eq_iff eth_netif_def
      sample_eth_def owned_packet_def sample_pkt_def wf_chain_def wf_pbuf_def)

lemma link_run_exact_witness:
  "\<exists>v. link_run (\<lambda>_. zero_malloc) (replicate 2048 0)
        [Ev_Output 0 sample_pkt (IP4_ADDR 10 0 0 2), Ev_Tmr, Ev_Input 0 sample_pkt, Ev_Cleanup 0] sample_link = Some v
    \<and> tab_ok (\<lambda>_. sample_eth) (ew_table v)
    \<and> (\<forall>p. refs_for (count (queued (ew_table v) + mset (map up_packet (ew_up v))) p) (refs v p))
    \<and> \<not> ew_fault v"
proof -
  have "nat (p_payload (hd sample_pkt)) + 42 \<le> length (p_mem (hd sample_pkt))" by (simp add: sample_pkt_def)
  then have "\<forall>e \<in> set [Ev_Output 0 sample_pkt (IP4_ADDR 10 0 0 2), Ev_Tmr, Ev_Input 0 sample_pkt, Ev_Cleanup 0].
      link_allowed (ew_netif sample_link) e"
    using link_sample_facts(5,6) by (simp add: link_sample_facts(4))
  from link_run_exact [OF link_sample_facts(1-3) this] show ?thesis by (simp only: link_sample_facts(4))
qed

end
