(* ===== verification/Link_Resolve.thy ===== *)
theory Link_Resolve
  imports "Link_Props"
begin

text \<open>
  Address resolution from the first packet to its delivery: a packet for an unknown address asks for
  the address and waits, and the answer sends what waits, in order.
\<close>

section \<open>Sending what waits\<close>

lemma emit_events: "x_events (emit e x) = x_events x @ [e]"
  by (simp add: emit_def)

lemma driver_up_emit:
  "driver_up nif (w\<lparr>ew_x := emit e (ew_x w)\<rparr>) = driver_up nif w"
  "ew_netif (w\<lparr>ew_x := emit e (ew_x w)\<rparr>) = ew_netif w"
  "node_frame (w\<lparr>ew_x := emit e (ew_x w)\<rparr>) = node_frame w"
  by (simp_all add: driver_up_def node_frame_def ew_netif_def emit_def fun_eq_iff)

lemma driver_up_world [simp]:
  "driver_up nif (set_pkt p c w) = driver_up nif w" "driver_up nif (upd_entry i f w) = driver_up nif w"
  "driver_up nif (free_pkt p w) = driver_up nif w"
  "node_frame (set_pkt p c w) = node_frame w" "node_frame (upd_entry i f w) = node_frame w"
  "node_frame (free_pkt p w) = node_frame w"
  "driver_up nif (w\<lparr>ew_next := n\<rparr>) = driver_up nif w" "node_frame (w\<lparr>ew_next := n\<rparr>) = node_frame w"
  by (simp_all add: driver_up_def node_frame_def fun_eq_iff)

lemma send_queue_sends:
  assumes "driver_up nif w" "length eth = 6" "length stack = 2048" "distinct q"
    "\<forall>p \<in> set q. roomy (ew_pkt w p)" "i < length (ew_table w)"
  shows "\<exists>v. send_queue stack nif eth i q w = Some v
    \<and> x_events (ew_x v) = x_events (ew_x w)
        @ map (\<lambda>p. node_frame w nif (nf_hwaddr (ew_netif w nif)) eth 0x0800 (pbytes (ew_pkt w p))) q"
  using assms
proof (induction q arbitrary: w)
  case (Cons p q)
  let ?hw = "nf_hwaddr (ew_netif w nif)" let ?u = "upd_entry i (\<lambda>e. e\<lparr>ae_q := q\<rparr>) w"
  have u: "roomy (ew_pkt ?u p)" "driver_up nif ?u" "length ?hw = 6"
    using Cons.prems by (auto simp: driver_up_def eth_netif_def)
  obtain c where c: "ethernet_output stack nif p ?hw eth 0x0800 ?u = Some (ERR_OK, (set_pkt p c ?u)
      \<lparr>ew_x := emit (node_frame w nif ?hw eth 0x0800 (pbytes (ew_pkt w p))) (ew_x w)\<rparr>)"
    using ethernet_output_sends [OF u Cons.prems(2,3), of "0x0800"] by auto
  define x where "x = free_pkt p ((set_pkt p c ?u)
      \<lparr>ew_x := emit (node_frame w nif ?hw eth 0x0800 (pbytes (ew_pkt w p))) (ew_x w)\<rparr>)"
  have x: "driver_up nif x" "ew_netif x = ew_netif w" "node_frame x = node_frame w"
      "\<forall>r. r \<noteq> p \<longrightarrow> ew_pkt x r = ew_pkt w r" "length (ew_table x) = length (ew_table w)"
      "x_events (ew_x x) = x_events (ew_x w) @ [node_frame w nif ?hw eth 0x0800 (pbytes (ew_pkt w p))]"
    using Cons.prems(1) driver_up_emit [where w = "set_pkt p c ?u"] by (simp_all add: x_def emit_events)
  have q: "\<forall>r \<in> set q. ew_pkt x r = ew_pkt w r" using x(4) Cons.prems(4) by auto
  from Cons.IH [of x] obtain v where "send_queue stack nif eth i q x = Some v"
      "x_events (ew_x v) = x_events (ew_x x)
        @ map (\<lambda>p. node_frame x nif (nf_hwaddr (ew_netif x nif)) eth 0x0800 (pbytes (ew_pkt x p))) q"
    using Cons.prems x q by auto
  then show ?case using c x q by (auto simp: x_def [symmetric])
qed simp

text \<open>
  An ARP message on the payload of a packet, and what the cache learns from it.
\<close>

lemma arp_fields_read:
  fixes op :: u16 and sip dip :: u32
  assumes "length hs = 6" "length ht = 6"
  defines "m \<equiv> arp_message op hs sip ht dip"
  shows "take 2 m = u16_bytes (lwip_htons 1)" "m ! 4 = 6" "m ! 5 = 4"
    "take 2 (drop 2 m) = u16_bytes (lwip_htons 0x0800)" "word_at m 14 = sip" "word_at m 24 = dip"
    "take 6 (drop 8 m) = hs" "take 2 (drop 6 m) = u16_bytes (lwip_htons op)"
proof -
  have m: "m = ([0, 1, 8, 0, 6, 4] @ u16_bytes (lwip_htons op) @ hs) @ u32_bytes sip @ (ht @ u32_bytes dip)"
    by (simp add: m_def arp_message_def u16_bytes_htons)
  show "word_at m 14 = sip"
    using word_at_append [of "[0, 1, 8, 0, 6, 4] @ u16_bytes (lwip_htons op) @ hs" sip "ht @ u32_bytes dip"] assms(1)
    by (simp add: m)
  show "word_at m 24 = dip"
    using word_at_append [of "[0, 1, 8, 0, 6, 4] @ u16_bytes (lwip_htons op) @ hs @ u32_bytes sip @ ht" dip "[]"] assms(1,2)
    by (simp add: m)
qed (simp_all add: m_def arp_message_def u16_bytes_htons assms(1,2))

definition waiting_entry :: "eworld \<Rightarrow> nat \<Rightarrow> addr \<Rightarrow> u32 \<Rightarrow> packet list \<Rightarrow> bool" where
  "waiting_entry w i nif ip q \<longleftrightarrow> i < 64 \<and> ae_state (ew_table w ! i) = ETHARP_STATE_PENDING
     \<and> entry_key (ew_table w ! i) = (ip, Some nif) \<and> ae_q (ew_table w ! i) = q"

lemma find_waiting:
  assumes "link_inv hs w" "waiting_entry w i nif ip q"
  shows "etharp_find_entry (Some ip) flags (Some nif) w = (Inr i, w)"
proof -
  have l: "length (ew_table w) = 64" "unique_keys (ew_table w)"
    using link_invD(1,3) [OF assms(1)] by (auto simp: tab_ok_def)
  have e: "i < 64" "live (ew_table w ! i)" "entry_key (ew_table w ! i) = (ip, Some nif)"
    using assms(2) by (auto simp: waiting_entry_def)
  then have m: "ew_table w ! i \<in> set (ew_table w)" "entry_matches (Some ip) (Some nif) (ew_table w ! i)"
    using l(1) by (auto simp: entry_matches_def)
  from l(1) show ?thesis
  proof (cases rule: find_entry_cases [of w "Some ip" flags "Some nif"])
    case (found j)
    then have "entry_key (ew_table w ! j) = entry_key (ew_table w ! i)"
      using e(3) by (auto simp: entry_matches_def)
    then have "j = i" using l found(2,3) e(1,2) unfolding unique_keys_def by metis
    then show ?thesis using found(1) by simp
  qed (use m e(2) in blast)+
qed

lemma update_resolves:
  assumes "link_inv hs w" "waiting_entry w i nif ip q" "driver_up nif w" "length eth = 6" "length stack = 2048"
    "distinct q" "\<forall>p \<in> set q. roomy (ew_pkt w p)" "\<not> non_unicast ip (ew_netif w nif)"
  shows "\<exists>v. etharp_update_arp_entry stack nif ip eth flags w = Some (ERR_OK, v) \<and> returns hs w v
    \<and> x_events (ew_x v) = x_events (ew_x w)
        @ map (\<lambda>p. node_frame w nif (nf_hwaddr (ew_netif w nif)) eth 0x0800 (pbytes (ew_pkt w p))) q
    \<and> ew_table v = (ew_table w)[i := \<lparr>ae_q = [], ae_ipaddr = ip, ae_netif = Some nif, ae_ethaddr = eth,
        ae_ctime = 0, ae_state = ETHARP_STATE_STABLE\<rparr>]"
proof -
  have l: "i < length (ew_table w)" using link_invD(1) [OF assms(1)] assms(2) by (simp add: waiting_entry_def)
  have en: "eth_netif (ew_netif w nif)" using assms(3) by (simp add: driver_up_def)
  define u where "u = upd_entry i (\<lambda>e. e\<lparr>ae_state := ETHARP_STATE_STABLE, ae_netif := Some nif,
                       ae_ethaddr := eth, ae_ctime := 0\<rparr>) w"
  obtain v where v: "send_queue stack nif eth i q u = Some v" "x_events (ew_x v) = x_events (ew_x w)
        @ map (\<lambda>p. node_frame w nif (nf_hwaddr (ew_netif w nif)) eth 0x0800 (pbytes (ew_pkt w p))) q"
    using send_queue_sends [of nif u eth stack q i] assms(3-7) l by (auto simp: u_def)
  have eq: "etharp_update_arp_entry stack nif ip eth flags w = Some (ERR_OK, v)"
    using assms(2,8) find_waiting [OF assms(1,2)] v(1) l
    by (simp add: etharp_update_arp_entry_def u_def Let_def waiting_entry_def)
  then have r: "returns hs w v" using update_arp_entry_returns [OF assms(1) en assms(4,5), of ip flags] by simp
  have m: "queued (ew_table w) + hs
      = mset q + (queued ((ew_table w)[i := (ew_table w ! i)\<lparr>ae_q := []\<rparr>]) + hs)"
    using queued_update [OF l, of "(ew_table w ! i)\<lparr>ae_q := []\<rparr>"] assms(2)
    by (simp add: waiting_entry_def ac_simps)
  have "rest_ok (mset q + (queued ((ew_table w)[i := (ew_table w ! i)\<lparr>ae_q := []\<rparr>]) + hs)) u"
    using assms(1) unfolding link_inv_def m u_def by simp
  then have "ew_table v = (if q = [] then ew_table u else (ew_table u)[i := (ew_table u ! i)\<lparr>ae_q := []\<rparr>])"
    using send_queue_ok [of q _ u nif eth stack i] en assms(4,5) l v(1) by (fastforce simp: u_def)
  moreover have "ew_table u ! i = \<lparr>ae_q = q, ae_ipaddr = ip, ae_netif = Some nif, ae_ethaddr = eth,
        ae_ctime = 0, ae_state = ETHARP_STATE_STABLE\<rparr>"
    using assms(2) l by (intro etharp_entry.equality) (simp_all add: u_def waiting_entry_def)
  ultimately have "ew_table v = (ew_table w)[i := \<lparr>ae_q = [], ae_ipaddr = ip, ae_netif = Some nif, ae_ethaddr = eth,
        ae_ctime = 0, ae_state = ETHARP_STATE_STABLE\<rparr>]"
    using l by (cases "q = []") (auto simp: u_def)
  then show ?thesis using eq r v(2) by blast
qed

text \<open>An answer of the neighbour, in a received packet after the Ethernet header.\<close>

lemma etharp_input_resolves:
  assumes "link_inv (add_mset p hs) w" "waiting_entry w i nif ip q" "driver_up nif w" "length mac = 6"
    "length dmac = 6" "length stack = 2048" "distinct q" "\<forall>p \<in> set q. roomy (ew_pkt w p)"
    "\<not> non_unicast ip (ew_netif w nif)" "ew_pkt w p = p0 # ps"
    "payload_read p0 0 28 = arp_message 2 mac ip dmac (nf_ip_addr (ew_netif w nif))"
  shows "\<exists>v. etharp_input heap stack p nif w = Some v \<and> returns hs w v
    \<and> x_events (ew_x v) = x_events (ew_x w)
        @ map (\<lambda>p. node_frame w nif (nf_hwaddr (ew_netif w nif)) mac 0x0800 (pbytes (ew_pkt w p))) q
    \<and> ew_table v = (ew_table w)[i := \<lparr>ae_q = [], ae_ipaddr = ip, ae_netif = Some nif, ae_ethaddr = mac,
        ae_ctime = 0, ae_state = ETHARP_STATE_STABLE\<rparr>]"
proof -
  let ?n = "ew_netif w nif" let ?m = "arp_message 2 mac ip dmac (nf_ip_addr ?n)"
  note f = arp_fields_read [OF assms(4,5), of 2 ip "nf_ip_addr ?n"]
  have op: "u16_bytes (lwip_htons 2) \<noteq> u16_bytes (lwip_htons 1)" by (simp add: u16_bytes_htons)
  obtain v where v: "etharp_update_arp_entry stack nif ip mac
        (if nf_ip_addr ?n \<noteq> IPADDR_ANY \<and> nf_ip_addr ?n = nf_ip_addr ?n then 1 else 2) w = Some (ERR_OK, v)"
      "returns (add_mset p hs) w v"
      "x_events (ew_x v) = x_events (ew_x w)
        @ map (\<lambda>p. node_frame w nif (nf_hwaddr (ew_netif w nif)) mac 0x0800 (pbytes (ew_pkt w p))) q"
      "ew_table v = (ew_table w)[i := \<lparr>ae_q = [], ae_ipaddr = ip, ae_netif = Some nif, ae_ethaddr = mac,
        ae_ctime = 0, ae_state = ETHARP_STATE_STABLE\<rparr>]"
    using update_resolves [OF assms(1-4,6-9)] by blast
  have "link_inv (add_mset p hs) v" using v(2) by (simp add: returns_def)
  then have "returns hs w (free_pkt p v)" using returns_trans [OF v(2) free_held] by blast
  moreover have "etharp_input heap stack p nif w = Some (free_pkt p v)"
    using v(1) op by (simp add: etharp_input_def assms(4,5,10,11) f)
  ultimately show ?thesis using v(3,4) by simp
qed

section \<open>The answer as a frame\<close>

lemma etharp_flag_or: "n AND 8 \<noteq> 0 \<Longrightarrow> n AND (8 OR 16) \<noteq> (0 :: u8)"
proof
  assume a: "n AND 8 \<noteq> 0" "n AND (8 OR 16) = 0"
  have "n AND 8 = (n AND (8 OR 16)) AND 8" by (simp add: and.assoc)
  then show False using a by simp
qed

lemma ethernet_input_arp:
  assumes "ew_pkt w p = b # bs" "wf_chain (b # bs)" "nf_flags (ew_netif w nif) AND 8 \<noteq> 0"
    "14 < unat (p_len b)" "payload_read b 0 14 = dst @ src @ [8, 6]" "length dst = 6" "length src = 6"
  shows "\<exists>s. ethernet_input heap stack p nif w
      = map_option (\<lambda>w. (ERR_OK, w)) (etharp_input heap stack p nif (set_pkt p (s # bs) w))
    \<and> wf_chain (s # bs) \<and> p_ref s = p_ref b \<and> (p_len s = p_tot_len s \<longleftrightarrow> p_len b = p_tot_len b)
    \<and> payload_read s 0 28 = payload_read b 14 28"
proof -
  define q where "q = (if p_if_idx b = 0 then b\<lparr>p_if_idx := netif_get_index (ew_netif w nif)\<rparr> else b)"
  define r where "r = q\<lparr>p_flags := p_flags q OR ll_flags (take 6 (payload_read q 0 14))\<rparr>"
  have r: "p_mem r = p_mem b" "p_payload r = p_payload b" "p_len r = p_len b" "p_tot_len r = p_tot_len b"
      "p_ref r = p_ref b" "payload_read q 0 14 = payload_read b 0 14"
    by (simp_all add: r_def q_def payload_read_def)
  have wr: "wf_chain (r # bs)" using assms(2) r by (auto simp: wf_chain_def wf_pbuf_def)
  have "14 \<le> unat (p_len r)" using assms(4) r by simp
  then obtain s where s: "pbuf_remove_header (r # bs) 14 = (0, s # bs)" "wf_chain (s # bs)"
      "p_payload s = p_payload r + 14" "p_mem s = p_mem r"
    using pbuf_remove_header_ok [OF wr, of 14] by auto
  have s': "p_ref s = p_ref b" "p_len s = p_tot_len s \<longleftrightarrow> p_len b = p_tot_len b"
    using s(1) r by (auto simp: Let_def split: if_splits)
  have "0 \<le> p_payload b" using assms(2) by (simp add: wf_chain_def wf_pbuf_def)
  then have m: "payload_read s 0 28 = payload_read b 14 28"
    using s(3,4) r by (simp add: payload_read_def nat_add_distrib)
  have t: "take 2 (drop 12 (payload_read q 0 14)) = [8, 6]"
    unfolding r(6) assms(5) using assms(6,7) by simp
  have "\<not> p_len b \<le> 14" using assms(4) by (simp add: word_le_nat_alt)
  then have "ethernet_input heap stack p nif w
      = map_option (\<lambda>w. (ERR_OK, w)) (etharp_input heap stack p nif (set_pkt p (s # bs) w))"
    unfolding ethernet_input_def assms(1) list.case Let_def q_def [symmetric] r_def [symmetric]
      s(1) prod.case t u16_bytes_htons using assms(3) by simp
  then show ?thesis using s(2) s' m by blast
qed

text \<open>A frame that holds a whole ARP message.\<close>

lemma frame_reads:
  assumes "wf_pbuf b" "pdata b = dst @ src @ [8, 6] @ m @ pad" "length dst = 6" "length src = 6" "length m = 28"
  shows "14 < unat (p_len b)" "payload_read b 0 14 = dst @ src @ [8, 6]" "payload_read b 14 28 = m"
proof -
  have len: "unat (p_len b) = 42 + length pad" using length_pdata [OF assms(1)] assms(2-5) by simp
  then show "14 < unat (p_len b)" by simp
  show "payload_read b 0 14 = dst @ src @ [8, 6]" "payload_read b 14 28 = m"
    using payload_read_pdata [of 0 14 b] payload_read_pdata [of 14 28 b] len assms(2-5) by simp_all
qed

lemma input_resolves:
  assumes "link_inv {#} w" "waiting_entry w i nif ip q" "driver_up nif w" "nf_flags (ew_netif w nif) AND 8 \<noteq> 0"
    "length stack = 2048" "distinct q" "\<forall>p \<in> set q. roomy (ew_pkt w p)"
    "\<not> non_unicast ip (ew_netif w nif)" "owned_packet (b # bs)"
    "pdata b = dst @ src @ [8, 6] @ arp_message 2 mac ip dmac (nf_ip_addr (ew_netif w nif)) @ pad"
    "length dst = 6" "length src = 6" "length mac = 6" "length dmac = 6"
  shows "\<exists>v. link_event_step heap stack (Ev_Input nif (b # bs)) w = Some v \<and> link_inv {#} v
    \<and> x_events (ew_x v) = x_events (ew_x w)
        @ map (\<lambda>p. node_frame w nif (nf_hwaddr (ew_netif w nif)) mac 0x0800 (pbytes (ew_pkt w p))) q
    \<and> ew_table v = (ew_table w)[i := \<lparr>ae_q = [], ae_ipaddr = ip, ae_netif = Some nif, ae_ethaddr = mac,
        ae_ctime = 0, ae_state = ETHARP_STATE_STABLE\<rparr>]"
proof -
  let ?p = "ew_next w" let ?w = "put_packet (b # bs) w"
  note pp = put_packet_inv [OF assms(1,9)]
  have own: "wf_chain (b # bs)" "one_packet (b # bs)" using assms(9) by (auto simp: owned_packet_def)
  obtain s where s: "ethernet_input heap stack ?p nif ?w
      = map_option (\<lambda>w. (ERR_OK, w)) (etharp_input heap stack ?p nif (set_pkt ?p (s # bs) ?w))"
      "wf_chain (s # bs)" "p_ref s = p_ref b" "p_len s = p_tot_len s \<longleftrightarrow> p_len b = p_tot_len b"
      "payload_read s 0 28 = arp_message 2 mac ip dmac (nf_ip_addr (ew_netif w nif))"
    using ethernet_input_arp [OF pp(5) own(1), of nif dst src heap stack] frame_reads [OF _ assms(10-12)]
      own(1) assms(4,11-14) pp(3) by (auto simp: wf_chain_Cons)
  define u where "u = set_pkt ?p (s # bs) ?w"
  have st: "link_step ?w u" unfolding u_def
    by (rule set_pkt_link_step) (use s own(2) pp(5) in \<open>auto simp: pkt_ok_def refs_def\<close>)
  have iu: "link_inv (add_mset ?p {#}) u" using link_inv_step [OF pp(1) st] by simp
  have qn: "set q \<subseteq> set_mset (queued (ew_table w))"
    using assms(2) link_invD(1) [OF assms(1)] by (auto simp: waiting_entry_def queued_def intro!: bexI [OF _ nth_mem])
  then have keep: "\<forall>r \<in> set q. ew_pkt u r = ew_pkt w r" using pp(2) by (auto simp: u_def put_packet_def)
  have f: "ew_table u = ew_table w" "ew_netif u = ew_netif w" "ew_x u = ew_x w" "driver_up nif u"
      "node_frame u = node_frame w" "ew_pkt u ?p = s # bs"
    using assms(3) by (simp_all add: u_def put_packet_def)
  have we: "waiting_entry u i nif ip q" using assms(2) by (simp add: waiting_entry_def f)
  obtain v where v: "etharp_input heap stack ?p nif u = Some v" "returns {#} u v"
      "x_events (ew_x v) = x_events (ew_x u)
        @ map (\<lambda>p. node_frame u nif (nf_hwaddr (ew_netif u nif)) mac 0x0800 (pbytes (ew_pkt u p))) q"
      "ew_table v = (ew_table u)[i := \<lparr>ae_q = [], ae_ipaddr = ip, ae_netif = Some nif, ae_ethaddr = mac,
        ae_ctime = 0, ae_state = ETHARP_STATE_STABLE\<rparr>]"
    using etharp_input_resolves [OF iu we f(4) assms(13,14,5,6) _ _ f(6), of heap] assms(7,8) keep f(2) s(5)
    by auto
  have "map (\<lambda>p. node_frame u nif (nf_hwaddr (ew_netif u nif)) mac 0x0800 (pbytes (ew_pkt u p))) q
      = map (\<lambda>p. node_frame w nif (nf_hwaddr (ew_netif w nif)) mac 0x0800 (pbytes (ew_pkt w p))) q"
    using keep f by simp
  moreover have "tcpip_input heap stack ?p nif ?w = Some (ERR_OK, v)"
    using s(1) v(1) etharp_flag_or [OF assms(4)] pp(3) unfolding tcpip_input_def u_def by simp
  ultimately show ?thesis using v(2-4) f(1,3) by (simp add: returns_def)
qed

section \<open>The first packet for an address\<close>

definition unknown_address :: "eworld \<Rightarrow> addr \<Rightarrow> u32 \<Rightarrow> bool" where
  "unknown_address w nif ip \<longleftrightarrow> (\<forall>e \<in> set (ew_table w). live e \<longrightarrow> entry_key e \<noteq> (ip, Some nif))"

text \<open>A unicast address of the interface's own network.\<close>

definition on_link :: "netif \<Rightarrow> u32 \<Rightarrow> bool" where
  "on_link n ip \<longleftrightarrow> \<not> ip4_addr_isbroadcast_u32 ip n \<and> \<not> ip4_addr_ismulticast ip
     \<and> ip AND nf_netmask n = nf_ip_addr n AND nf_netmask n"

lemma on_link_unicast: "on_link n ip \<Longrightarrow> \<not> non_unicast ip n"
  by (auto simp: on_link_def non_unicast_def ip4_addr_isbroadcast_u32_def)

lemma ge_stable_live: "ge_stable s \<Longrightarrow> s \<noteq> ETHARP_STATE_EMPTY"
  by auto

lemma unknown_not_stable:
  assumes "unknown_address w nif ip" "length (ew_table w) = 64"
  shows "hinted_index ip nif w = None" "stable_index ip nif 0 (ew_table w) = None"
proof -
  have n: "\<forall>e \<in> set (ew_table w). \<not> (ge_stable (ae_state e) \<and> ae_netif e = Some nif \<and> ip = ae_ipaddr e)"
    using assms(1) ge_stable_live unfolding unknown_address_def by blast
  have "\<forall>e \<in> set es. \<not> (ge_stable (ae_state e) \<and> ae_netif e = Some nif \<and> ip = ae_ipaddr e) \<Longrightarrow>
      stable_index ip nif k es = None" for es k
    by (induction es arbitrary: k) auto
  then show "stable_index ip nif 0 (ew_table w) = None" using n by blast
  have "\<not> (ge_stable (ae_state (ew_table w ! k)) \<and> ae_netif (ew_table w ! k) = Some nif
      \<and> ip = ae_ipaddr (ew_table w ! k))" if "k < 64" for k
    using n assms(2) that by (metis nth_mem)
  then show "hinted_index ip nif w = None"
    by (auto simp: hinted_index_def Let_def split: option.splits)
qed

lemma query_unknown:
  assumes "link_inv hs w" "unknown_address w nif ip" "driver_up nif w" "on_link (ew_netif w nif) ip"
    "heap_ok heap" "length stack = 2048" "room_for_arp (heap (ew_next w))" "heap (Suc (ew_next w)) 0 16 \<noteq> None"
    "p \<in># hs" "p \<notin># queued (ew_table w)" "p < ew_next w" "\<not> list_ex pbuf_needs_copy (ew_pkt w p)"
  shows "\<exists>i v. etharp_query heap stack nif ip (Some p) w = Some (ERR_OK, v) \<and> waiting_entry v i nif ip [p]
    \<and> ew_pkt v p = pbuf_ref (ew_pkt w p)
    \<and> ew_x v = emit (node_frame w nif (nf_hwaddr (ew_netif w nif)) ethbroadcast 0x0806
        (arp_message 1 (nf_hwaddr (ew_netif w nif)) (nf_ip_addr (ew_netif w nif)) ethzero ip)) (ew_x w)"
proof -
  let ?n = "ew_netif w nif" let ?hw = "nf_hwaddr (ew_netif w nif)"
  have uni: "\<not> non_unicast ip ?n" using on_link_unicast [OF assms(4)] .
  from assms(1) show ?thesis
  proof (cases rule: find_entry_inv [of _ _ ip 1 nif])
    case refused
    then show ?thesis by simp
  next
    case (entry i v)
    have lv: "length (ew_table v) = 64" using link_invD(1) [OF entry(3)] .
    have new: "\<not> live (ew_table v ! i)"
    proof
      assume "live (ew_table v ! i)"
      then have "ew_table w ! i \<in> set (ew_table w)" "live (ew_table w ! i)" "entry_key (ew_table w ! i) = (ip, Some nif)"
        using entry(2,6,8) lv by auto
      then show False using assms(2) unfolding unknown_address_def by blast
    qed
    then have q: "ae_q (ew_table v ! i) = []" using entry(9) by simp
    let ?f = "\<lambda>e. e\<lparr>ae_state := ETHARP_STATE_PENDING, ae_netif := Some nif\<rparr>"
    let ?ev = "node_frame w nif ?hw ethbroadcast 0x0806 (arp_message 1 ?hw (nf_ip_addr ?n) ethzero ip)"
    define u where "u = upd_entry i ?f v"
    have u: "ew_netif u = ew_netif w" "ew_next u = ew_next w" "ew_x u = ew_x w" "driver_up nif u"
        "node_frame u = node_frame w" "ew_pkt u p = ew_pkt w p"
      using entry(4,10-12) assms(3,10) by (simp_all add: u_def driver_up_def node_frame_def fun_eq_iff)
    have hw: "length ?hw = 6" using assms(3) by (simp add: driver_up_def eth_netif_def)
    obtain fr where "etharp_request heap stack nif ip u = Some (ERR_OK, u\<lparr>ew_x := emit ?ev (ew_x w),
        ew_pkt := (ew_pkt u)(ew_next w := []), ew_next := Suc (ew_next w), ew_freed := ew_freed u @ fr\<rparr>)"
      using etharp_raw_sends [OF u(4) assms(5) _ assms(6), of ?hw ethbroadcast ?hw ethzero "nf_ip_addr ?n" ip 1]
        assms(7) u hw unfolding etharp_request_def etharp_request_dst_def Let_def by auto
    then obtain y where y: "etharp_request heap stack nif ip u = Some (ERR_OK, y)" "ew_table y = ew_table u"
        "ew_next y = Suc (ew_next w)" "ew_x y = emit ?ev (ew_x w)" "ew_pkt y p = ew_pkt w p"
      using u(6) assms(11) by auto
    have tu: "ew_table u ! i = ?f (ew_table v ! i)" using entry(2) lv by (simp add: u_def)
    define z where "z = set_pkt p (pbuf_ref (ew_pkt w p)) y"
    define z' where "z' = upd_entry i (\<lambda>e. e\<lparr>ae_q := [p]\<rparr>) (z\<lparr>ew_next := Suc (ew_next z)\<rparr>)"
    have "take_over heap p y = Some (Some p, z)" using assms(12) y(5) held_alive [OF assms(1,9)]
      by (simp add: take_over_def z_def)
    moreover have "enqueue heap i p z = (ERR_OK, z')"
    proof -
      obtain b where b: "heap (ew_next y) 0 16 = Some b" using assms(8) y(3) by auto
      have "ae_q (ew_table z ! i) = []" using q y(2) tu by (simp add: z_def)
      then show ?thesis using entry(2) lv y(2) by (simp add: enqueue_def b Let_def z'_def upd_entry_def u_def z_def)
    qed
    moreover have "ae_state (ew_table v ! i) = ETHARP_STATE_EMPTY" using new by simp
    ultimately have eq: "etharp_query heap stack nif ip (Some p) w = Some (ERR_OK, z')"
      using uni entry(1) y(1,2) tu by (simp add: etharp_query_def Let_def u_def [symmetric])
    have iz: "i < length (ew_table z)" using entry(2) lv y(2) by (simp add: z_def u_def)
    have "ew_table z' ! i = (ew_table u ! i)\<lparr>ae_q := [p]\<rparr>" using iz y(2) by (simp add: z'_def z_def)
    then have "waiting_entry z' i nif ip [p]" using entry(2,6) tu by (simp add: waiting_entry_def)
    moreover have "ew_x z' = emit ?ev (ew_x w)" "ew_pkt z' p = pbuf_ref (ew_pkt w p)"
      using y(4) by (simp_all add: z'_def z_def)
    ultimately show ?thesis using eq by blast
  qed
qed

lemma output_unknown:
  assumes "link_inv {#} w" "unknown_address w nif ip" "driver_up nif w" "on_link (ew_netif w nif) ip"
    "heap_ok heap" "length stack = 2048" "room_for_arp (heap (Suc (ew_next w)))"
    "heap (Suc (Suc (ew_next w))) 0 16 \<noteq> None" "owned_packet c" "\<not> list_ex pbuf_needs_copy c"
  shows "\<exists>i v. link_event_step heap stack (Ev_Output nif c ip) w = Some v \<and> link_inv {#} v
    \<and> ew_netif v = ew_netif w \<and> waiting_entry v i nif ip [ew_next w] \<and> ew_pkt v (ew_next w) = c
    \<and> ew_x v = emit (node_frame w nif (nf_hwaddr (ew_netif w nif)) ethbroadcast 0x0806
        (arp_message 1 (nf_hwaddr (ew_netif w nif)) (nf_ip_addr (ew_netif w nif)) ethzero ip)) (ew_x w)"
proof -
  let ?p = "ew_next w" let ?w = "put_packet c w"
  note pp = put_packet_inv [OF assms(1,9)]
  have w': "unknown_address ?w nif ip" "driver_up nif ?w" "node_frame ?w = node_frame w" "ew_x ?w = ew_x w"
      "ew_next ?w = Suc ?p" "on_link (ew_netif ?w nif) ip"
    using assms(2-4) by (simp_all add: unknown_address_def put_packet_def)
  obtain i v where v: "etharp_query heap stack nif ip (Some ?p) ?w = Some (ERR_OK, v)"
      "waiting_entry v i nif ip [?p]" "ew_pkt v ?p = pbuf_ref c"
      "ew_x v = emit (node_frame w nif (nf_hwaddr (ew_netif w nif)) ethbroadcast 0x0806
        (arp_message 1 (nf_hwaddr (ew_netif w nif)) (nf_ip_addr (ew_netif w nif)) ethzero ip)) (ew_x w)"
    using query_unknown [OF pp(1) w'(1,2,6) assms(5,6), of ?p] assms(7,8,10) pp w' by auto
  have "etharp_output heap stack nif ?p ip ?w = Some (ERR_OK, v)"
    using v(1) unknown_not_stable [OF w'(1)] link_invD(1) [OF pp(1)] w'(6)
    by (simp add: etharp_output_def Let_def on_link_def)
  then have st: "link_event_step heap stack (Ev_Output nif c ip) w = Some (free_pkt ?p v)" by simp
  have al: "link_allowed (ew_netif w) (Ev_Output nif c ip)"
    using assms(3,9) by (simp add: driver_up_def)
  have inv: "link_inv {#} (free_pkt ?p v)" "ew_netif (free_pkt ?p v) = ew_netif w"
    using event_returns [OF assms(1) al assms(5,6)] st by auto
  obtain x xs where c: "c = x # xs" "p_ref x = 1" using assms(9) by (cases c) (auto simp: owned_packet_def)
  have "snd (snd (pbuf_free (pbuf_ref c))) = c" using c by (simp add: pbuf_free_def Let_def)
  then have "ew_pkt (free_pkt ?p v) ?p = c" using v(3) by simp
  moreover have "waiting_entry (free_pkt ?p v) i nif ip [?p]" using v(2) by (simp add: waiting_entry_def)
  ultimately show ?thesis using st inv v(4) by auto
qed

text \<open>
  C4. The first packet for a neighbour arrives. For any state with the invariant, an address of the
  interface's network that the cache does not hold, and memory for one ARP packet and one queue
  entry: sending a packet broadcasts one ARP request for the address and keeps the packet; when the
  neighbour's reply comes in, the node gets one IP frame from the interface's address to the
  neighbour's with exactly the bytes of the packet, and the address is in the cache. Nothing else is
  sent, and the invariant holds again.
\<close>

theorem arp_first_packet_arrives:
  assumes "link_inv {#} w" "unknown_address w nif ip" "driver_up nif w" "nf_flags (ew_netif w nif) AND 8 \<noteq> 0"
    "on_link (ew_netif w nif) ip" "heap_ok heap" "length stack = 2048"
    "room_for_arp (heap (Suc (ew_next w)))" "heap (Suc (Suc (ew_next w))) 0 16 \<noteq> None"
    "owned_packet c" "\<not> list_ex pbuf_needs_copy c" "roomy c"
    "owned_packet (b # bs)"
    "pdata b = dst @ src @ [8, 6] @ arp_message 2 mac ip dmac (nf_ip_addr (ew_netif w nif)) @ pad"
    "length dst = 6" "length src = 6" "length mac = 6" "length dmac = 6"
  shows "\<exists>v. link_run heap stack [Ev_Output nif c ip, Ev_Input nif (b # bs)] w = Some v \<and> link_inv {#} v
    \<and> x_events (ew_x v) = x_events (ew_x w)
        @ [node_frame w nif (nf_hwaddr (ew_netif w nif)) ethbroadcast 0x0806
             (arp_message 1 (nf_hwaddr (ew_netif w nif)) (nf_ip_addr (ew_netif w nif)) ethzero ip),
           node_frame w nif (nf_hwaddr (ew_netif w nif)) mac 0x0800 (pbytes c)]
    \<and> (\<exists>i. etharp_get_entry i v = Some (ip, Some nif, mac))"
proof -
  let ?req = "node_frame w nif (nf_hwaddr (ew_netif w nif)) ethbroadcast 0x0806
        (arp_message 1 (nf_hwaddr (ew_netif w nif)) (nf_ip_addr (ew_netif w nif)) ethzero ip)"
  obtain i u where u: "link_event_step heap stack (Ev_Output nif c ip) w = Some u" "link_inv {#} u"
      "ew_netif u = ew_netif w" "waiting_entry u i nif ip [ew_next w]" "ew_pkt u (ew_next w) = c"
      "ew_x u = emit ?req (ew_x w)"
    using output_unknown [OF assms(1-3,5-11)] by blast
  have f: "driver_up nif u" "node_frame u = node_frame w"
    using assms(3) u(3,6) by (simp_all add: driver_up_def node_frame_def emit_def fun_eq_iff)
  obtain v where v: "link_event_step heap stack (Ev_Input nif (b # bs)) u = Some v" "link_inv {#} v"
      "x_events (ew_x v) = x_events (ew_x u)
        @ map (\<lambda>p. node_frame u nif (nf_hwaddr (ew_netif u nif)) mac 0x0800 (pbytes (ew_pkt u p))) [ew_next w]"
      "ew_table v = (ew_table u)[i := \<lparr>ae_q = [], ae_ipaddr = ip, ae_netif = Some nif, ae_ethaddr = mac,
        ae_ctime = 0, ae_state = ETHARP_STATE_STABLE\<rparr>]"
    using input_resolves [OF u(2,4) f(1) _ assms(7) _ _ _ assms(13), of dst src mac dmac pad heap]
      assms(4,5,12,14-18) u(3,5) on_link_unicast by auto
  have "etharp_get_entry i v = Some (ip, Some nif, mac)"
    using v(4) u(4) link_invD(1) [OF u(2)] by (simp add: etharp_get_entry_def waiting_entry_def)
  moreover have "link_run heap stack [Ev_Output nif c ip, Ev_Input nif (b # bs)] w = Some v"
    using u(1) v(1) by (simp only: link_run.simps bind.simps)
  moreover have "x_events (ew_x v) = x_events (ew_x w)
        @ [?req, node_frame w nif (nf_hwaddr (ew_netif w nif)) mac 0x0800 (pbytes c)]"
    using v(3) u(3,5,6) f(2) by (simp add: emit_events)
  ultimately show ?thesis using v(2) by blast
qed

definition sample_reply :: pbuf where
  "sample_reply = \<lparr>p_mem = [2, 3, 4, 5, 6, 7] @ [2, 0, 0, 0, 0, 9] @ [8, 6]
       @ arp_message 2 [2, 0, 0, 0, 0, 9] (IP4_ADDR 10 0 0 2) [2, 3, 4, 5, 6, 7] (IP4_ADDR 10 0 0 1),
     p_payload = 0, p_tot_len = 42, p_len = 42, p_type_internal = 0x82, p_flags = 0, p_ref = 1, p_if_idx = 0\<rparr>"

lemma sample_link_facts:
  "link_inv {#} sample_link" "unknown_address sample_link 0 (IP4_ADDR 10 0 0 2)" "driver_up 0 sample_link"
  "nf_flags (ew_netif sample_link 0) AND 8 \<noteq> 0" "on_link (ew_netif sample_link 0) (IP4_ADDR 10 0 0 2)"
  "nf_ip_addr (ew_netif sample_link 0) = IP4_ADDR 10 0 0 1" "nf_hwaddr (ew_netif sample_link 0) = [2, 3, 4, 5, 6, 7]"
proof -
  show "link_inv {#} sample_link" by (rule link_start_inv [OF link_sample_facts(3)])
  show "unknown_address sample_link 0 (IP4_ADDR 10 0 0 2)"
    by (auto simp: unknown_address_def sample_link_def arp_table0_def empty_entry_def)
  show "driver_up 0 sample_link"
    by (simp add: driver_up_def link_sample_facts(4,5)) (simp add: sample_eth_def sample_link_def sample_world_def)
qed (simp_all add: link_sample_facts(4) sample_eth_def on_link_def IP4_ADDR_def lwip_htonl_def
    ip4_addr_isbroadcast_u32_def ip4_addr_ismulticast_def IPADDR_ANY_def)

lemma sample_pkt_facts: "\<not> list_ex pbuf_needs_copy sample_pkt" "roomy sample_pkt"
  using link_sample_facts(6)
  by (auto simp: sample_pkt_def pbuf_needs_copy_def roomy_def pkt_ok_def owned_packet_def contiguous_def)

lemma sample_reply_facts:
  "owned_packet [sample_reply]"
  "pdata sample_reply = [2, 3, 4, 5, 6, 7] @ [2, 0, 0, 0, 0, 9] @ [8, 6]
     @ arp_message 2 [2, 0, 0, 0, 0, 9] (IP4_ADDR 10 0 0 2) [2, 3, 4, 5, 6, 7] (nf_ip_addr (ew_netif sample_link 0)) @ []"
  unfolding sample_link_facts(6)
  by (simp_all add: owned_packet_def wf_chain_def wf_pbuf_def sample_reply_def pdata_def payload_read_def)

lemma arp_first_packet_arrives_witness:
  "\<exists>v. link_run (\<lambda>_. zero_malloc) (replicate 2048 0)
        [Ev_Output 0 sample_pkt (IP4_ADDR 10 0 0 2), Ev_Input 0 [sample_reply]] sample_link = Some v
    \<and> x_events (ew_x v) = x_events (ew_x sample_link)
        @ [node_frame sample_link 0 [2, 3, 4, 5, 6, 7] ethbroadcast 0x0806
             (arp_message 1 [2, 3, 4, 5, 6, 7] (IP4_ADDR 10 0 0 1) ethzero (IP4_ADDR 10 0 0 2)),
           node_frame sample_link 0 [2, 3, 4, 5, 6, 7] [2, 0, 0, 0, 0, 9] 0x0800 (pbytes sample_pkt)]"
proof -
  have z: "room_for_arp zero_malloc" "zero_malloc 0 16 \<noteq> None"
    by (simp_all add: room_for_arp_def zero_malloc_def)
  have l: "length [2, 3, 4, 5, 6, 7 :: u8] = 6" "length [2, 0, 0, 0, 0, 9 :: u8] = 6" by simp_all
  from arp_first_packet_arrives [OF sample_link_facts(1-5) link_sample_facts(1,2) z link_sample_facts(6)
      sample_pkt_facts sample_reply_facts l l(2,1)]
  show ?thesis unfolding sample_link_facts(6,7) by blast
qed

section \<open>Answering a request\<close>

lemma update_learns:
  assumes "link_inv hs w" "unknown_address w nif ip" "eth_netif (ew_netif w nif)" "length eth = 6"
    "length stack = 2048" "\<not> non_unicast ip (ew_netif w nif)"
  shows "\<exists>i v. etharp_update_arp_entry stack nif ip eth 1 w = Some (ERR_OK, v) \<and> returns hs w v
    \<and> ew_x v = ew_x w \<and> ew_next v = ew_next w \<and> etharp_get_entry i v = Some (ip, Some nif, eth)"
proof -
  obtain err v' where ret: "etharp_update_arp_entry stack nif ip eth 1 w = Some (err, v')" "returns hs w v'"
    using update_arp_entry_returns [OF assms(1,3-5), of ip 1] by blast
  from assms(1) show ?thesis
  proof (cases rule: find_entry_inv [of _ _ ip 1 nif])
    case refused
    then show ?thesis by simp
  next
    case (entry i v)
    have lv: "i < length (ew_table v)" using link_invD(1) [OF entry(3)] entry(2) by simp
    have "\<not> live (ew_table v ! i)"
    proof
      assume "live (ew_table v ! i)"
      then have "ew_table w ! i \<in> set (ew_table w)" "live (ew_table w ! i)" "entry_key (ew_table w ! i) = (ip, Some nif)"
        using entry(6,8) lv by auto
      then show False using assms(2) unfolding unknown_address_def by blast
    qed
    then have "ae_q (ew_table v ! i) = []" using entry(9) by simp
    then have "etharp_update_arp_entry stack nif ip eth 1 w = Some (ERR_OK,
        upd_entry i (\<lambda>e. e\<lparr>ae_state := ETHARP_STATE_STABLE, ae_netif := Some nif,
                       ae_ethaddr := eth, ae_ctime := 0\<rparr>) v)"
      using assms(6) entry(1) lv by (simp add: etharp_update_arp_entry_def Let_def)
    then show ?thesis using ret entry(2,6,10,11) lv
      by (intro exI [of _ i] exI [of _ v']) (auto simp: etharp_get_entry_def)
  qed
qed

lemma mac_bytes_long: "drop 2 (putLong m) = mac_to_bytes m"
  unfolding putLong_def mac_to_bytes_def byte_masks by (auto intro!: bit_word_eqI simp: bit_simps)

lemma java_arp_message:
  "getARPPacket (ucast op) j j2 (Inet4Address (u32_bytes s)) (Inet4Address (u32_bytes d))
    = Some (arp_message op (mac_to_bytes j) s (mac_to_bytes j2) d)" if "unat op < 256"
proof -
  have "inet_ok (Inet4Address (u32_bytes s))" "inet_ok (Inet4Address (u32_bytes d))"
    by (simp_all add: inet_ok_def)
  moreover have "(ucast (drop_bit 8 op) :: u8) = 0"
    using that by (intro word_unatI) (simp add: unsigned_ucast_eq unsigned_take_bit_eq unat_drop_bit)
  ultimately show ?thesis by (simp add: arp_packet arp_message_def mac_bytes_long)
qed

lemma etharp_input_answers:
  assumes "link_inv (add_mset p hs) w" "unknown_address w nif ip" "driver_up nif w" "length mac = 6"
    "length dmac = 6" "length stack = 2048" "heap_ok heap" "room_for_arp (heap (ew_next w))"
    "\<not> non_unicast ip (ew_netif w nif)" "ip \<noteq> nf_ip_addr (ew_netif w nif)"
    "nf_ip_addr (ew_netif w nif) \<noteq> IPADDR_ANY" "ew_pkt w p = p0 # ps"
    "payload_read p0 0 28 = arp_message 1 mac ip dmac (nf_ip_addr (ew_netif w nif))"
  shows "\<exists>i v. etharp_input heap stack p nif w = Some v \<and> returns hs w v
    \<and> ew_x v = emit (node_frame w nif (nf_hwaddr (ew_netif w nif)) mac 0x0806
        (arp_message 2 (nf_hwaddr (ew_netif w nif)) (nf_ip_addr (ew_netif w nif)) mac ip)) (ew_x w)
    \<and> etharp_get_entry i v = Some (ip, Some nif, mac)"
proof -
  let ?n = "ew_netif w nif" let ?hw = "nf_hwaddr (ew_netif w nif)"
  let ?ev = "node_frame w nif ?hw mac 0x0806 (arp_message 2 ?hw (nf_ip_addr ?n) mac ip)"
  note f = arp_fields_read [OF assms(4,5), of 1 ip "nf_ip_addr ?n"]
  have en: "eth_netif ?n" "length ?hw = 6" using assms(3) by (auto simp: driver_up_def eth_netif_def)
  obtain i u where u: "etharp_update_arp_entry stack nif ip mac 1 w = Some (ERR_OK, u)"
      "returns (add_mset p hs) w u" "ew_x u = ew_x w" "ew_next u = ew_next w"
      "etharp_get_entry i u = Some (ip, Some nif, mac)"
    using update_learns [OF assms(1,2) en(1) assms(4,6,9)] by blast
  have du: "driver_up nif u" "node_frame u = node_frame w" "ew_netif u = ew_netif w"
    using u(2,3) assms(3) by (simp_all add: returns_def driver_up_def node_frame_def fun_eq_iff)
  obtain fr where raw: "etharp_raw heap stack nif ?hw mac ?hw (nf_ip_addr ?n) mac ip 2 u
      = Some (ERR_OK, u\<lparr>ew_x := emit ?ev (ew_x w), ew_pkt := (ew_pkt u)(ew_next w := []),
                       ew_next := Suc (ew_next w), ew_freed := ew_freed u @ fr\<rparr>)"
    using etharp_raw_sends [OF du(1) assms(7) _ assms(6) en(2) assms(4) en(2) assms(4), of "nf_ip_addr ?n" ip 2]
      assms(8) u(3,4) du(2) by auto
  define v where "v = u\<lparr>ew_x := emit ?ev (ew_x w), ew_pkt := (ew_pkt u)(ew_next w := []),
                       ew_next := Suc (ew_next w), ew_freed := ew_freed u @ fr\<rparr>"
  have "link_step u v" unfolding v_def using raw_step [of u "emit ?ev (ew_x w)"] u(3,4) by simp
  moreover have "link_inv (add_mset p hs) u" using u(2) by (simp add: returns_def)
  ultimately have "returns (add_mset p hs) w v" using returns_trans [OF u(2) returns_step] by blast
  then have "returns hs w (free_pkt p v)" using free_held returns_trans by (simp add: returns_def)
  moreover have "etharp_input heap stack p nif w = Some (free_pkt p v)"
    using u(1) raw assms(10,11) by (simp add: etharp_input_def assms(4,5,12,13) f v_def Let_def)
  moreover have "ew_x (free_pkt p v) = emit ?ev (ew_x w)" "etharp_get_entry i (free_pkt p v) = Some (ip, Some nif, mac)"
    using u(5) by (simp_all add: v_def etharp_get_entry_def split: if_splits)
  ultimately show ?thesis by blast
qed

text \<open>A request in a frame; the 28 bytes after the Ethernet header are read whatever the frame's length is.\<close>

lemma input_answers:
  assumes "link_inv {#} w" "unknown_address w nif a" "driver_up nif w" "nf_flags (ew_netif w nif) AND 8 \<noteq> 0"
    "on_link (ew_netif w nif) a" "heap_ok heap" "length stack = 2048" "room_for_arp (heap (Suc (ew_next w)))"
    "a \<noteq> nf_ip_addr (ew_netif w nif)" "nf_ip_addr (ew_netif w nif) \<noteq> IPADDR_ANY"
    "owned_packet (b # bs)" "14 < unat (p_len b)" "payload_read b 0 14 = dst @ src @ [8, 6]"
    "length dst = 6" "length src = 6" "length mac = 6" "length dmac = 6"
    "payload_read b 14 28 = arp_message 1 mac a dmac (nf_ip_addr (ew_netif w nif))"
  shows "\<exists>v i. link_event_step heap stack (Ev_Input nif (b # bs)) w = Some v \<and> link_inv {#} v
    \<and> ew_x v = emit (node_frame w nif (nf_hwaddr (ew_netif w nif)) mac 0x0806
        (arp_message 2 (nf_hwaddr (ew_netif w nif)) (nf_ip_addr (ew_netif w nif)) mac a)) (ew_x w)
    \<and> etharp_get_entry i v = Some (a, Some nif, mac)"
proof -
  let ?n = "ew_netif w nif" let ?p = "ew_next w" let ?w = "put_packet (b # bs) w"
  note pp = put_packet_inv [OF assms(1,11)]
  have own: "wf_chain (b # bs)" "one_packet (b # bs)" using assms(11) by (auto simp: owned_packet_def)
  obtain s where s: "ethernet_input heap stack ?p nif ?w
      = map_option (\<lambda>w. (ERR_OK, w)) (etharp_input heap stack ?p nif (set_pkt ?p (s # bs) ?w))"
      "wf_chain (s # bs)" "p_ref s = p_ref b" "p_len s = p_tot_len s \<longleftrightarrow> p_len b = p_tot_len b"
      "payload_read s 0 28 = arp_message 1 mac a dmac (nf_ip_addr ?n)"
    using ethernet_input_arp [OF pp(5) own(1) _ assms(12-15), of nif heap stack] assms(4,18) pp(3) by auto
  define u where "u = set_pkt ?p (s # bs) ?w"
  have st: "link_step ?w u" unfolding u_def
    by (rule set_pkt_link_step) (use s own(2) pp(5) in \<open>auto simp: pkt_ok_def refs_def\<close>)
  have iu: "link_inv (add_mset ?p {#}) u" using link_inv_step [OF pp(1) st] by simp
  have f: "ew_netif u = ew_netif w" "ew_x u = ew_x w" "driver_up nif u" "node_frame u = node_frame w"
      "ew_pkt u ?p = s # bs" "unknown_address u nif a" "ew_next u = Suc ?p"
    using assms(2,3) by (simp_all add: u_def put_packet_def unknown_address_def)
  obtain i v where v: "etharp_input heap stack ?p nif u = Some v" "returns {#} u v"
      "ew_x v = emit (node_frame w nif (nf_hwaddr ?n) mac 0x0806
        (arp_message 2 (nf_hwaddr ?n) (nf_ip_addr ?n) mac a)) (ew_x w)"
      "etharp_get_entry i v = Some (a, Some nif, mac)"
    using etharp_input_answers [OF iu f(6,3) assms(16,17,7,6), of s bs]
      assms(8-10) on_link_unicast [OF assms(5)] f s(5) by auto
  have "tcpip_input heap stack ?p nif ?w = Some (ERR_OK, v)"
    using s(1) v(1) etharp_flag_or [OF assms(4)] pp(3) unfolding tcpip_input_def u_def by simp
  then show ?thesis using v(2-4) by (auto simp: returns_def)
qed

lemma u32_bytes_inject: "u32_bytes a = u32_bytes b \<longleftrightarrow> a = b"
  by (metis append_Nil word_at_append)

text \<open>What a Java table learns from the answer of an interface.\<close>

lemma java_learns_reply:
  assumes "getReplyPacket m (Inet4Address (u32_bytes x)) j (Inet4Address (u32_bytes a)) = Some answer"
    "unat m < 2 ^ 48" "m \<noteq> 0" "unat j < 2 ^ 48" "x \<noteq> a"
  shows "\<exists>t'. processARPPacket now answer t = Some (None, t')
    \<and> fst (arp_getMacForAddress later (Inet4Address (u32_bytes x)) t') = m"
proof -
  have "inet_ok (Inet4Address (u32_bytes x))" "inet_ok (Inet4Address (u32_bytes a))" by (simp_all add: inet_ok_def)
  then show ?thesis
    using process_arp_packet [of "Inet4Address (u32_bytes x)" "Inet4Address (u32_bytes a)" m j 2 answer now t] assms
    by (auto simp: getReplyPacket_def arp_learn_def arp_getMacForAddress_def getMacForAddress_def arp_setAddress_def
        setAddress_def Let_def case_prod_beta u32_bytes_inject split: option.splits)
qed

text \<open>
  C7. The two ARP implementations of the program understand each other. A request the Java side makes
  (\<^verbatim>\<open>ARPTable.getRequestPacket\<close>) for the address of an lwIP interface, from an address the cache
  does not hold, is answered with one frame to the asker whose data is the very packet that
  \<^verbatim>\<open>ARPTable.getReplyPacket\<close> makes for the interface, and the asker's address is in the cache.
  Whatever Java table processes that answer (\<^verbatim>\<open>processARPPacket\<close>) asks for no reply and resolves
  the interface's address to the interface's MAC from then on.
\<close>

theorem arp_answers_java:
  assumes "link_inv {#} w" "unknown_address w nif a" "driver_up nif w" "nf_flags (ew_netif w nif) AND 8 \<noteq> 0"
    "on_link (ew_netif w nif) a" "heap_ok heap" "length stack = 2048" "room_for_arp (heap (Suc (ew_next w)))"
    "a \<noteq> nf_ip_addr (ew_netif w nif)" "nf_ip_addr (ew_netif w nif) \<noteq> IPADDR_ANY"
    "nf_hwaddr (ew_netif w nif) = mac_to_bytes m"
    "getRequestPacket j (Inet4Address (u32_bytes a)) (Inet4Address (u32_bytes (nf_ip_addr (ew_netif w nif)))) = Some req"
    "owned_packet (b # bs)" "pdata b = dst @ src @ [8, 6] @ req @ pad" "length dst = 6" "length src = 6"
    "unat m < 2 ^ 48" "m \<noteq> 0" "unat j < 2 ^ 48"
  shows "\<exists>v rep i. link_event_step heap stack (Ev_Input nif (b # bs)) w = Some v \<and> link_inv {#} v
    \<and> getReplyPacket m (Inet4Address (u32_bytes (nf_ip_addr (ew_netif w nif)))) j (Inet4Address (u32_bytes a)) = Some rep
    \<and> ew_x v = emit (node_frame w nif (mac_to_bytes m) (mac_to_bytes j) 0x0806 rep) (ew_x w)
    \<and> etharp_get_entry i v = Some (a, Some nif, mac_to_bytes j)
    \<and> (\<forall>t now later. \<exists>t'. processARPPacket now rep t = Some (None, t')
         \<and> fst (arp_getMacForAddress later (Inet4Address (u32_bytes (nf_ip_addr (ew_netif w nif)))) t') = m)"
proof -
  let ?n = "ew_netif w nif"
  have req: "req = arp_message 1 (mac_to_bytes j) a (mac_to_bytes 0) (nf_ip_addr ?n)"
    using assms(12) java_arp_message [of 1 j 0 a "nf_ip_addr ?n"] by (simp add: getRequestPacket_def)
  have rep: "getReplyPacket m (Inet4Address (u32_bytes (nf_ip_addr ?n))) j (Inet4Address (u32_bytes a))
      = Some (arp_message 2 (mac_to_bytes m) (nf_ip_addr ?n) (mac_to_bytes j) a)"
    using java_arp_message [of 2 m j "nf_ip_addr ?n" a] by (simp add: getReplyPacket_def)
  have "wf_pbuf b" using assms(13) by (simp add: owned_packet_def wf_chain_Cons)
  note f = frame_reads [OF this assms(14-16)]
  show ?thesis
    using input_answers [OF assms(1-10,13) f(1,2) assms(15,16), of "mac_to_bytes j" "mac_to_bytes 0"]
      f(3) rep java_learns_reply [OF rep assms(17-19) not_sym [OF assms(9)]] by (simp add: req assms(11))
qed

definition sample_request :: pbuf where
  "sample_request = \<lparr>p_mem = replicate 6 0xff @ [2, 0, 0, 0, 0, 9] @ [8, 6]
       @ arp_message 1 (mac_to_bytes 0x020000000009) (IP4_ADDR 10 0 0 2) (mac_to_bytes 0) (IP4_ADDR 10 0 0 1),
     p_payload = 0, p_tot_len = 42, p_len = 42, p_type_internal = 0x82, p_flags = 0, p_ref = 1, p_if_idx = 0\<rparr>"

lemma sample_request_facts:
  "owned_packet [sample_request]"
  "pdata sample_request = replicate 6 0xff @ [2, 0, 0, 0, 0, 9] @ [8, 6]
     @ arp_message 1 (mac_to_bytes 0x020000000009) (IP4_ADDR 10 0 0 2) (mac_to_bytes 0) (IP4_ADDR 10 0 0 1) @ []"
  by (simp_all add: owned_packet_def wf_chain_def wf_pbuf_def sample_request_def pdata_def payload_read_def)

lemma arp_answers_java_witness:
  "\<exists>v rep. link_event_step (\<lambda>_. zero_malloc) (replicate 2048 0) (Ev_Input 0 [sample_request]) sample_link = Some v
    \<and> getReplyPacket 0x020304050607 (Inet4Address (u32_bytes (IP4_ADDR 10 0 0 1))) 0x020000000009
        (Inet4Address (u32_bytes (IP4_ADDR 10 0 0 2))) = Some rep
    \<and> ew_x v = emit (node_frame sample_link 0 (mac_to_bytes 0x020304050607) (mac_to_bytes 0x020000000009) 0x0806 rep)
        (ew_x sample_link)
    \<and> (\<exists>t'. processARPPacket 0 rep \<lparr>a_table = nt_empty, a_nativeArpSet = []\<rparr> = Some (None, t')
         \<and> fst (arp_getMacForAddress 1 (Inet4Address (u32_bytes (IP4_ADDR 10 0 0 1))) t') = 0x020304050607)"
proof -
  have z: "room_for_arp zero_malloc" by (simp add: room_for_arp_def zero_malloc_def)
  have ne: "IP4_ADDR 10 0 0 2 \<noteq> IP4_ADDR 10 0 0 1" "IP4_ADDR 10 0 0 1 \<noteq> IPADDR_ANY"
    by (simp_all add: IP4_ADDR_def lwip_htonl_def IPADDR_ANY_def)
  have k: "unat (0x020304050607 :: u64) < 2 ^ 48" "(0x020304050607 :: u64) \<noteq> 0" "unat (0x020000000009 :: u64) < 2 ^ 48"
    by simp_all
  have m: "nf_hwaddr (ew_netif sample_link 0) = mac_to_bytes 0x020304050607"
    by (simp add: sample_link_facts(7) mac_to_bytes_def)
  have q: "getRequestPacket 0x020000000009 (Inet4Address (u32_bytes (IP4_ADDR 10 0 0 2)))
      (Inet4Address (u32_bytes (IP4_ADDR 10 0 0 1)))
      = Some (arp_message 1 (mac_to_bytes 0x020000000009) (IP4_ADDR 10 0 0 2) (mac_to_bytes 0) (IP4_ADDR 10 0 0 1))"
    using java_arp_message [of 1] by (simp add: getRequestPacket_def)
  have l: "length (replicate 6 (0xff :: u8)) = 6" "length [2, 0, 0, 0, 0, 9 :: u8] = 6" by simp_all
  note t = arp_answers_java [OF sample_link_facts(1-5) link_sample_facts(1,2), unfolded sample_link_facts(6),
      OF z ne m q sample_request_facts l k]
  then show ?thesis by blast
qed

text \<open>
  C32. An ARP frame is not checked for its length. A frame with a single byte after the Ethernet header
  is treated as a request made of whatever the buffer holds behind that byte: the stack sends a reply
  and enters the pair of addresses found there into the cache.
\<close>

theorem arp_short_frame_answered:
  assumes "link_inv {#} w" "unknown_address w nif a" "driver_up nif w" "nf_flags (ew_netif w nif) AND 8 \<noteq> 0"
    "on_link (ew_netif w nif) a" "heap_ok heap" "length stack = 2048" "room_for_arp (heap (Suc (ew_next w)))"
    "a \<noteq> nf_ip_addr (ew_netif w nif)" "nf_ip_addr (ew_netif w nif) \<noteq> IPADDR_ANY"
    "owned_packet [b]" "pdata b = dst @ src @ [8, 6] @ [0]" "length dst = 6" "length src = 6"
    "length mac = 6" "length dmac = 6"
    "payload_read b 14 28 = arp_message 1 mac a dmac (nf_ip_addr (ew_netif w nif))"
  shows "\<exists>v i. link_event_step heap stack (Ev_Input nif [b]) w = Some v
    \<and> ew_x v = emit (node_frame w nif (nf_hwaddr (ew_netif w nif)) mac 0x0806
        (arp_message 2 (nf_hwaddr (ew_netif w nif)) (nf_ip_addr (ew_netif w nif)) mac a)) (ew_x w)
    \<and> etharp_get_entry i v = Some (a, Some nif, mac)"
proof -
  have "wf_pbuf b" using assms(11) by (simp add: owned_packet_def wf_chain_Cons)
  then have l: "unat (p_len b) = 15" using length_pdata [of b] assms(12-14) by simp
  have "payload_read b 0 14 = dst @ src @ [8, 6]"
    using payload_read_pdata [of 0 14 b] l assms(12-14) by simp
  from input_answers [OF assms(1-11) _ this assms(13-17)] l show ?thesis by auto
qed

definition sample_short :: pbuf where
  "sample_short = \<lparr>p_mem = replicate 6 0xff @ [2, 0, 0, 0, 0, 9] @ [8, 6]
       @ arp_message 1 [2, 0, 0, 0, 0, 9] (IP4_ADDR 10 0 0 2) ethzero (IP4_ADDR 10 0 0 1),
     p_payload = 0, p_tot_len = 15, p_len = 15, p_type_internal = 0x82, p_flags = 0, p_ref = 1, p_if_idx = 0\<rparr>"

lemma sample_short_facts:
  "owned_packet [sample_short]" "pdata sample_short = replicate 6 0xff @ [2, 0, 0, 0, 0, 9] @ [8, 6] @ [0]"
  "payload_read sample_short 14 28 = arp_message 1 [2, 0, 0, 0, 0, 9] (IP4_ADDR 10 0 0 2) ethzero (IP4_ADDR 10 0 0 1)"
  by (simp_all add: owned_packet_def wf_chain_def wf_pbuf_def sample_short_def pdata_def payload_read_def)
     (simp add: arp_message_def)

lemma arp_short_frame_answered_witness:
  "unat (p_len sample_short) = 15
    \<and> (\<exists>v i. link_event_step (\<lambda>_. zero_malloc) (replicate 2048 0) (Ev_Input 0 [sample_short]) sample_link = Some v
        \<and> etharp_get_entry i v = Some (IP4_ADDR 10 0 0 2, Some 0, [2, 0, 0, 0, 0, 9]))"
proof -
  have z: "room_for_arp zero_malloc" by (simp add: room_for_arp_def zero_malloc_def)
  have ne: "IP4_ADDR 10 0 0 2 \<noteq> IP4_ADDR 10 0 0 1" "IP4_ADDR 10 0 0 1 \<noteq> IPADDR_ANY"
    by (simp_all add: IP4_ADDR_def lwip_htonl_def IPADDR_ANY_def)
  have l: "length (replicate 6 (0xff :: u8)) = 6" "length [2, 0, 0, 0, 0, 9 :: u8] = 6" by simp_all
  note t = arp_short_frame_answered [OF sample_link_facts(1-5) link_sample_facts(1,2), unfolded sample_link_facts(6),
      OF z ne sample_short_facts(1,2) l l(2) length_eth_consts(2) sample_short_facts(3)]
  then show ?thesis by (auto simp: sample_short_def)
qed

end
