(* ===== verification/Link_Age.thy ===== *)
theory Link_Age
  imports "Link_Props"
begin

text \<open>
  How long an entry of the ARP cache lives, and which entry makes room for a new address.
\<close>

section \<open>The timer ages every entry\<close>

definition aged :: "etharp_entry \<Rightarrow> etharp_entry" where
  "aged e =
     (if \<not> live e then e
      else if ae_ctime e + 1 \<ge> 300 \<or> ae_state e = ETHARP_STATE_PENDING \<and> ae_ctime e + 1 \<ge> 5
      then e\<lparr>ae_ctime := ae_ctime e + 1, ae_q := [], ae_state := ETHARP_STATE_EMPTY\<rparr>
      else
        (case ae_state e of
           ETHARP_STATE_STABLE_REREQUESTING_1 \<Rightarrow>
             e\<lparr>ae_ctime := ae_ctime e + 1, ae_state := ETHARP_STATE_STABLE_REREQUESTING_2\<rparr>
         | ETHARP_STATE_STABLE_REREQUESTING_2 \<Rightarrow>
             e\<lparr>ae_ctime := ae_ctime e + 1, ae_state := ETHARP_STATE_STABLE\<rparr>
         | _ \<Rightarrow> e\<lparr>ae_ctime := ae_ctime e + 1\<rparr>))"

lemma free_entry_table:
  "i < length (ew_table w) \<Longrightarrow> ew_table (etharp_free_entry i w)
     = (ew_table w)[i := (ew_table w ! i)\<lparr>ae_q := [], ae_state := ETHARP_STATE_EMPTY\<rparr>]"
proof -
  assume i: "i < length (ew_table w)"
  show ?thesis
  proof (cases "ae_q (ew_table w ! i) = []")
    case True
    then have e: "(ew_table w ! i)\<lparr>ae_q := [], ae_state := ETHARP_STATE_EMPTY\<rparr>
        = (ew_table w ! i)\<lparr>ae_state := ETHARP_STATE_EMPTY\<rparr>"
      by (intro etharp_entry.equality) simp_all
    show ?thesis unfolding e etharp_free_entry_def using True by simp
  qed (use i in \<open>simp add: etharp_free_entry_def Let_def\<close>)
qed

lemma tmr_entry_aged:
  assumes "tmr_entry heap stack i w = Some v" "link_inv hs w" "i < 64" "heap_ok heap" "length stack = 2048"
  shows "ew_table v = (ew_table w)[i := aged (ew_table w ! i)]"
proof -
  let ?e = "ew_table w ! i" let ?u = "upd_entry i (\<lambda>e. e\<lparr>ae_ctime := ae_ctime e + 1\<rparr>) w"
  have l: "i < length (ew_table w)" using link_invD(1) [OF assms(2)] assms(3) by simp
  show ?thesis
  proof (cases "live ?e \<and> \<not> (ae_ctime ?e + 1 \<ge> 300 \<or> ae_state ?e = ETHARP_STATE_PENDING \<and> ae_ctime ?e + 1 \<ge> 5)
      \<and> ae_state ?e = ETHARP_STATE_PENDING")
    case True
    then obtain nif where n: "ae_netif ?e = Some nif" "eth_netif (ew_netif ?u nif)"
      using link_invD(5) [OF assms(2,3)] by (auto simp: entry_ok_def)
    have "tmr_entry heap stack i w = map_option snd (etharp_request heap stack nif (ae_ipaddr ?e) ?u)"
      using True l n(1) by (auto simp: tmr_entry_def Let_def)
    then have "ew_table v = ew_table ?u"
      using etharp_request_step [OF n(2) assms(4,5), of "ae_ipaddr ?e"] link_stepD(1) assms(1) by fastforce
    then show ?thesis using True by (simp add: aged_def)
  next
    case False
    from False show ?thesis using assms(1) l
      by (cases "ae_state ?e") (auto simp: tmr_entry_def aged_def Let_def free_entry_table split: if_splits)
  qed
qed

lemma tmr_loop_aged:
  assumes "tmr_loop heap stack [k..<64] w = Some v" "link_inv hs w" "heap_ok heap" "length stack = 2048" "k \<le> 64"
  shows "ew_table v = take k (ew_table w) @ map aged (drop k (ew_table w))"
  using assms
proof (induction "64 - k" arbitrary: k w)
  case 0
  then show ?case using link_invD(1) [OF 0(3)] by simp
next
  case (Suc n)
  then have k: "k < 64" "[k..<64] = k # [Suc k..<64]" by (auto simp: upt_conv_Cons)
  obtain u where u: "tmr_entry heap stack k w = Some u" "tmr_loop heap stack [Suc k..<64] u = Some v"
    using Suc.prems(1) unfolding k(2) by (auto split: bind_splits)
  have l: "k < length (ew_table w)" using link_invD(1) [OF Suc.prems(2)] k(1) by simp
  have iu: "link_inv hs u" using tmr_entry_returns [OF Suc.prems(2) k(1) Suc.prems(3,4)] u(1)
    by (auto simp: returns_def)
  have tu: "ew_table u = (ew_table w)[k := aged (ew_table w ! k)]"
    by (rule tmr_entry_aged [OF u(1) Suc.prems(2) k(1) Suc.prems(3,4)])
  have "ew_table v = take (Suc k) (ew_table u) @ map aged (drop (Suc k) (ew_table u))"
    using Suc.hyps(1) [OF _ u(2) iu Suc.prems(3,4)] Suc.hyps(2) k(1) by simp
  also have "\<dots> = take k (ew_table w) @ map aged (drop k (ew_table w))"
    using l by (simp add: tu take_Suc_conv_app_nth Cons_nth_drop_Suc [symmetric])
  finally show ?case .
qed

lemma tmr_aged:
  assumes "link_inv hs w" "heap_ok heap" "length stack = 2048"
  shows "\<exists>v. etharp_tmr heap stack w = Some v \<and> link_inv hs v \<and> ew_table v = map aged (ew_table w)"
  using etharp_tmr_returns [OF assms] tmr_loop_aged [of heap stack 0 w _ hs] assms
  by (auto simp: etharp_tmr_def returns_def)

lemma ticks_aged:
  assumes "link_inv {#} w" "heap_ok heap" "length stack = 2048"
  shows "\<exists>v. link_run heap stack (replicate n Ev_Tmr) w = Some v \<and> link_inv {#} v
    \<and> ew_table v = map (aged ^^ n) (ew_table w)"
  using assms(1)
proof (induction n arbitrary: w)
  case (Suc n)
  obtain u where u: "etharp_tmr heap stack w = Some u" "link_inv {#} u" "ew_table u = map aged (ew_table w)"
    using tmr_aged [OF Suc.prems assms(2,3)] by blast
  from Suc.IH [OF u(2)] show ?case using u(1,3) by (auto simp: funpow_swap1 comp_def)
qed simp

section \<open>The life of an entry\<close>

definition lifetime :: "etharp_entry \<Rightarrow> nat" where
  "lifetime e = (if ae_state e = ETHARP_STATE_PENDING then 5 else 300) - unat (ae_ctime e)"

lemma aged_life:
  assumes "live e" "0 < lifetime e"
  shows "if lifetime e = 1 then \<not> live (aged e)
    else live (aged e) \<and> lifetime (aged e) = lifetime e - 1
      \<and> entry_key (aged e) = entry_key e \<and> ae_ethaddr (aged e) = ae_ethaddr e \<and> ae_q (aged e) = ae_q e"
proof -
  have "unat (ae_ctime e) < 300" using assms(2) by (auto simp: lifetime_def split: if_splits)
  then have c: "unat (ae_ctime e + 1) = Suc (unat (ae_ctime e))" by (simp add: unat_plus_no_wrap)
  have le: "300 \<le> ae_ctime e + 1 \<longleftrightarrow> 300 \<le> Suc (unat (ae_ctime e))" "5 \<le> ae_ctime e + 1 \<longleftrightarrow> 5 \<le> Suc (unat (ae_ctime e))"
    by (simp_all add: word_le_nat_alt c)
  show ?thesis using assms le c
    by (cases "ae_state e") (auto simp: aged_def lifetime_def)
qed

lemma aged_dead: "\<not> live e \<Longrightarrow> \<not> live ((aged ^^ n) e)"
proof (induction n)
  case (Suc n)
  then show ?case by (simp add: aged_def)
qed simp

lemma aged_lives:
  assumes "live e" "0 < lifetime e"
  shows "(live ((aged ^^ n) e) \<longleftrightarrow> n < lifetime e)
    \<and> (n < lifetime e \<longrightarrow> entry_key ((aged ^^ n) e) = entry_key e \<and> ae_ethaddr ((aged ^^ n) e) = ae_ethaddr e
        \<and> ae_q ((aged ^^ n) e) = ae_q e)"
  using assms
proof (induction n arbitrary: e)
  case (Suc n)
  have s: "(aged ^^ Suc n) e = (aged ^^ n) (aged e)" by (simp add: funpow_swap1)
  show ?case
  proof (cases "lifetime e = 1")
    case True
    then have "\<not> live (aged e)" using aged_life [OF Suc.prems] by simp
    then show ?thesis using aged_dead [of "aged e" n] True unfolding s by simp
  next
    case False
    then have a: "live (aged e)" "lifetime (aged e) = lifetime e - 1" "entry_key (aged e) = entry_key e"
        "ae_ethaddr (aged e) = ae_ethaddr e" "ae_q (aged e) = ae_q e"
      using aged_life [OF Suc.prems] by simp_all
    moreover have "0 < lifetime (aged e)" using a(2) False Suc.prems(2) by simp
    ultimately show ?thesis using Suc.IH [of "aged e"] unfolding s by auto
  qed
qed simp

text \<open>
  With only the timer running, an entry is live for \<open>lifetime\<close> ticks and keeps its addresses and
  the packets that wait on it: \<open>ARP_MAXPENDING\<close> and \<open>ARP_MAXAGE\<close> bound its age.
\<close>

lemma ticks_lifetime:
  assumes "link_inv {#} w" "heap_ok heap" "length stack = 2048" "i < 64" "live (ew_table w ! i)"
  shows "\<exists>v. link_run heap stack (replicate n Ev_Tmr) w = Some v
    \<and> (live (ew_table v ! i) \<longleftrightarrow> n < lifetime (ew_table w ! i))
    \<and> (n < lifetime (ew_table w ! i) \<longrightarrow> entry_key (ew_table v ! i) = entry_key (ew_table w ! i)
        \<and> ae_ethaddr (ew_table v ! i) = ae_ethaddr (ew_table w ! i)
        \<and> ae_q (ew_table v ! i) = ae_q (ew_table w ! i))"
proof -
  have "0 < lifetime (ew_table w ! i)"
    using link_invD(5) [OF assms(1,4)] assms(5) by (auto simp: lifetime_def entry_ok_def word_less_nat_alt)
  moreover obtain v where "link_run heap stack (replicate n Ev_Tmr) w = Some v"
      "ew_table v = map (aged ^^ n) (ew_table w)"
    using ticks_aged [OF assms(1-3)] by blast
  ultimately show ?thesis using aged_lives [OF assms(5)] link_invD(1) [OF assms(1)] assms(4) by auto
qed


definition sample_known :: eworld where
  "sample_known = sample_link\<lparr>ew_table := arp_table0[0 := empty_entry\<lparr>ae_state := ETHARP_STATE_STABLE,
     ae_ctime := 298, ae_ipaddr := IP4_ADDR 10 0 0 2, ae_netif := Some 0\<rparr>]\<rparr>"

lemma sample_known_inv: "link_inv {#} sample_known"
proof -
  have inv: "link_inv {#} sample_link" by (rule link_start_inv [OF link_sample_facts(3)])
  have t: "ew_table sample_link = arp_table0" "ew_netif sample_known = ew_netif sample_link"
    by (simp_all add: sample_link_def sample_known_def ew_netif_def fun_eq_iff)
  let ?e = "empty_entry\<lparr>ae_state := ETHARP_STATE_STABLE, ae_ctime := 298, ae_ipaddr := IP4_ADDR 10 0 0 2,
    ae_netif := Some 0\<rparr>"
  have "tab_ok (ew_netif sample_link) (arp_table0[0 := ?e])"
  proof (rule tab_ok_update)
    show "tab_ok (ew_netif sample_link) arp_table0" using inv t(1) by (simp add: link_inv_def)
    show "entry_ok (ew_netif sample_link) ?e" using link_sample_facts(5) by (simp add: entry_ok_def empty_entry_def link_sample_facts(4))
  qed (auto simp: arp_table0_def empty_entry_def)
  moreover have "queued (arp_table0[0 := ?e]) = queued arp_table0"
    by (rule queued_same) (simp_all add: arp_table0_def empty_entry_def)
  moreover have "rest_ok (queued arp_table0 + {#}) sample_known"
    using inv by (intro rest_ok_cong [of sample_known sample_link])
      (simp_all add: sample_known_def link_inv_def t)
  ultimately show ?thesis unfolding link_inv_def t(2) by (simp add: sample_known_def)
qed


section \<open>The entry a new address gets\<close>

text \<open>
  C14. When the cache is asked to make room, the search always ends with an entry: the live one that
  matches, with nothing changed, or, when none matches, an entry that every other one is spared for
  (an empty one, else the oldest resolved one, else the oldest unanswered one without packets, and
  only then the oldest with packets waiting), which now holds the new address and none of the packets
  of the old one; the other entries are not touched.
\<close>

theorem etharp_find_entry_choice:
  assumes "length (ew_table w) = 64"
  shows "\<exists>i v. etharp_find_entry (Some ip) 1 (Some nif) w = (Inr i, v) \<and> i < 64
    \<and> (if \<exists>e \<in> set (ew_table w). live e \<and> entry_matches (Some ip) (Some nif) e
       then live (ew_table w ! i) \<and> entry_matches (Some ip) (Some nif) (ew_table w ! i) \<and> v = w
       else (\<forall>e \<in> set (ew_table w). spared_for (ew_table w ! i) e)
         \<and> entry_key (ew_table v ! i) = (ip, Some nif) \<and> \<not> live (ew_table v ! i)
         \<and> (live (ew_table w ! i) \<longrightarrow> ae_q (ew_table v ! i) = [])
         \<and> (\<forall>j. j \<noteq> i \<longrightarrow> ew_table v ! j = ew_table w ! j))"
proof -
  let ?m = "\<exists>e \<in> set (ew_table w). live e \<and> entry_matches (Some ip) (Some nif) e"
  consider (found) i where "etharp_find_entry (Some ip) 1 (Some nif) w = (Inr i, w)" "i < 64" "live (ew_table w ! i)"
      "entry_matches (Some ip) (Some nif) (ew_table w ! i)"
    | (reused) i where "etharp_find_entry (Some ip) 1 (Some nif) w = (Inr i, reuse_entry (Some ip) (Some nif) i w)"
      "i < 64" "\<not> ?m" "\<forall>e \<in> set (ew_table w). spared_for (ew_table w ! i) e"
    by (rule find_entry_cases [OF assms, of "Some ip" 1 "Some nif"]) auto
  then show ?thesis
  proof cases
    case found
    then have "?m" using assms by (intro bexI [of _ "ew_table w ! i"]) simp_all
    then show ?thesis using found by auto
  next
    case reused
    define v where "v = reuse_entry (Some ip) (Some nif) i w"
    have "ew_table v = (ew_table w)[i := new_entry (Some ip) (Some nif) (if live (ew_table w ! i)
        then (ew_table w ! i)\<lparr>ae_q := [], ae_state := ETHARP_STATE_EMPTY\<rparr> else ew_table w ! i)]"
      using reused(2) assms by (simp add: v_def reuse_entry_def free_entry_table)
    then show ?thesis using reused assms unfolding v_def [symmetric] by (auto simp: new_entry_def)
  qed
qed

lemma etharp_find_entry_choice_witness:
  "\<exists>i v. etharp_find_entry (Some (IP4_ADDR 10 0 0 9)) 1 (Some 0) sample_known = (Inr i, v) \<and> i < 64
    \<and> \<not> live (ew_table sample_known ! i) \<and> entry_key (ew_table v ! i) = (IP4_ADDR 10 0 0 9, Some 0)
    \<and> i \<noteq> 0 \<and> ew_table v ! 0 = ew_table sample_known ! 0"
proof -
  have l: "length (ew_table sample_known) = 64" by (simp add: sample_known_def arp_table0_def)
  have e: "ew_table sample_known ! 1 = empty_entry" "set (ew_table sample_known) = {ew_table sample_known ! 0, empty_entry}"
    by (simp_all add: sample_known_def arp_table0_def numeral_eq_Suc)
  have m: "\<not> (\<exists>e \<in> set (ew_table sample_known). live e \<and> entry_matches (Some (IP4_ADDR 10 0 0 9)) (Some 0) e)"
    unfolding e(2) by (simp add: sample_known_def arp_table0_def empty_entry_def entry_matches_def
        IP4_ADDR_def lwip_htonl_def)
  obtain i v where i: "etharp_find_entry (Some (IP4_ADDR 10 0 0 9)) 1 (Some 0) sample_known = (Inr i, v)" "i < 64"
      "\<forall>e \<in> set (ew_table sample_known). spared_for (ew_table sample_known ! i) e"
      "entry_key (ew_table v ! i) = (IP4_ADDR 10 0 0 9, Some 0)"
      "\<forall>j. j \<noteq> i \<longrightarrow> ew_table v ! j = ew_table sample_known ! j"
    using etharp_find_entry_choice [OF l, of "IP4_ADDR 10 0 0 9" 0] unfolding if_not_P [OF m] by blast
  have "spared_for (ew_table sample_known ! i) empty_entry" using i(3) unfolding e(2) by blast
  then have d: "\<not> live (ew_table sample_known ! i)"
    by (auto simp: spared_for_def spare_rank_def empty_entry_def split: if_splits)
  moreover have "live (ew_table sample_known ! 0)" by (simp add: sample_known_def arp_table0_def)
  ultimately have "i \<noteq> 0" by metis
  then show ?thesis using i(1,2,4) i(5) [rule_format, of 0] d by (intro exI [of _ i] exI [of _ v]) simp
qed

end
