(* ===== verification/Link_Tap.thy ===== *)
theory Link_Tap
  imports "Link_Props" "Xnet_Lifecycle"
begin

text \<open>
  The interface \<open>xnet_tap_setup_netif\<close> gives a network, as the ARP module sees it: it satisfies
  what the link layer relies on, and its fixed netmask and empty gateway decide what it can reach.
\<close>

section \<open>The interface of a tap\<close>

lemma num_loop_writes_num:
  assumes "num_loop m l a = Some m'"
  shows "\<exists>c. m' = with_num m a c"
proof (rule num_loop.raw_induct [of "\<lambda>m l a m'. \<exists>c. m' = with_num m a c", OF _ assms], goal_cases)
  case (1 nl m l a y)
  define n where "n = (if nf_num (m a) = 255 then m(a := (m a)\<lparr>nf_num := 0\<rparr>) else m)"
  let ?n' = "n(a := (n a)\<lparr>nf_num := nf_num (n a) + 1\<rparr>)"
  have n: "n = with_num m a (nf_num (n a))" "\<And>c. with_num ?n' a c = with_num m a c"
    by (auto simp: n_def with_num_def fun_eq_iff)
  have "y = n \<or> nl ?n' l a = Some y"
    using 1(2) unfolding n_def [symmetric] Let_def by (auto split: bind_splits if_splits)
  then show ?case using 1(1) [of ?n' l a y] n by metis
qed

lemma init_cb_link:
  "nf_hwaddr (nw_mem (snd (netif_init_cb t a w)) a) = mac_to_bytes (t_mac t)"
  "nf_linkoutput (nw_mem (snd (netif_init_cb t a w)) a) = Some Netif_Linkoutput"
  "nf_flags (nw_mem (snd (netif_init_cb t a w)) a) AND NETIF_FLAG_ETHARP \<noteq> 0"
  by (simp_all add: netif_init_cb_def Let_def netif_set_link_up_def netif_set_up_def netif_set_flags_def
      netif_issue_reports_def nd6_restart_netif_def upd_def note_call_def netif_is_flag_set_def)

lemma setup_ip4_netif:
  assumes "setup_ip4 i x = Some x'"
  shows "nf_ip_addr (nw_mem (x_net x') i) = t_ip4_addr (x_taps x ! i)"
    "nf_netmask (nw_mem (x_net x') i) = IP4_ADDR 255 255 255 0" "nf_gw (nw_mem (x_net x') i) = IP4_ADDR 0 0 0 0"
    "nf_hwaddr (nw_mem (x_net x') i) = mac_to_bytes (t_mac (x_taps x ! i))"
    "nf_linkoutput (nw_mem (x_net x') i) = Some Netif_Linkoutput" "nf_state (nw_mem (x_net x') i) = Some i"
    "nf_flags (nw_mem (x_net x') i) AND NETIF_FLAG_ETHARP \<noteq> 0" "x_node x' = x_node x"
proof -
  let ?t = "x_taps x ! i"
  define p where "p = tapif.prepared ?t i (t_ip4_addr ?t) (IP4_ADDR 255 255 255 0) (IP4_ADDR 0 0 0 0) (Some i)
      Tcpip_Input (x_net x)"
  obtain m where m: "num_loop (nw_mem p) (nw_list p) i = Some m"
      "nw_mem (x_net x') i = (m i)\<lparr>nf_next := nw_list p\<rparr>" "x_node x' = x_node x"
    using assms unfolding setup_ip4_def tapif.netif_add_prepared ptr_addr_def option.case p_def [symmetric] Let_def
    by (auto simp: upd_def netif_set_default_def upd_tap_def split: bind_splits)
  then obtain c where "nw_mem (x_net x') i = (nw_mem p i)\<lparr>nf_num := c, nf_next := nw_list p\<rparr>"
    using num_loop_writes_num [OF m(1)] by auto
  moreover have "nf_hwaddr (nw_mem p i) = mac_to_bytes (t_mac ?t)" "nf_linkoutput (nw_mem p i) = Some Netif_Linkoutput"
      "nf_flags (nw_mem p i) AND NETIF_FLAG_ETHARP \<noteq> 0"
    by (simp_all add: p_def tapif.prepared_def upd_def init_cb_link)
  moreover note tapif.prepared_simps(2-6) [where tap = ?t and a = i and ip = "t_ip4_addr ?t"
      and nm = "IP4_ADDR 255 255 255 0" and gw = "IP4_ADDR 0 0 0 0" and st = "Some i" and inp = Tcpip_Input
      and w = "x_net x", folded p_def]
  ultimately show "nf_ip_addr (nw_mem (x_net x') i) = t_ip4_addr (x_taps x ! i)"
    "nf_netmask (nw_mem (x_net x') i) = IP4_ADDR 255 255 255 0" "nf_gw (nw_mem (x_net x') i) = IP4_ADDR 0 0 0 0"
    "nf_hwaddr (nw_mem (x_net x') i) = mac_to_bytes (t_mac (x_taps x ! i))"
    "nf_linkoutput (nw_mem (x_net x') i) = Some Netif_Linkoutput" "nf_state (nw_mem (x_net x') i) = Some i"
    "nf_flags (nw_mem (x_net x') i) AND NETIF_FLAG_ETHARP \<noteq> 0" by simp_all
  show "x_node x' = x_node x" by (rule m(3))
qed

lemma outside_no_route:
  assumes "nf_gw (ew_netif w i) = IPADDR_ANY" "ip \<noteq> 0" "ip \<noteq> 0xffffffff"
    "\<not> ip4_addr_ismulticast ip" "\<not> ip4_addr_islinklocal ip"
    "ip AND nf_netmask (ew_netif w i) \<noteq> nf_ip_addr (ew_netif w i) AND nf_netmask (ew_netif w i)"
  shows "etharp_output heap stack i q ip w = Some (ERR_RTE, w)"
proof -
  have "NOT ip \<noteq> 0"
  proof
    assume "NOT ip = 0"
    then have "NOT (NOT ip) = NOT 0" by (rule arg_cong)
    then show False using assms(3) by simp
  qed
  then have "\<not> ip4_addr_isbroadcast_u32 ip (ew_netif w i)"
    using assms(2,6) by (simp add: ip4_addr_isbroadcast_u32_def IPADDR_ANY_def)
  then show ?thesis using assms by (simp add: etharp_output_def Let_def)
qed


definition sample_fresh :: xworld where
  "sample_fresh = xworld0\<lparr>x_lwip_inited := True, x_lwip_up := True, x_running := True, x_node := True,
     x_tap_count := 1,
     x_taps := [zero_tap\<lparr>t_nwid := 5, t_has_ip4 := True, t_ip4_addr := IP4_ADDR 10 144 3 7\<rparr>,
                zero_tap, zero_tap, zero_tap]\<rparr>"

lemma sample_fresh_ok: "reg_ok sample_fresh []"
proof -
  have "\<not> t_netif_up (x_taps sample_fresh ! i)" if "i < 4" for i
    using that by (auto simp: sample_fresh_def zero_tap_def less_Suc_eq numeral_eq_Suc)
  then show ?thesis
    by (auto simp: reg_ok_def sample_fresh_def zero_tap_def MAX_TAPS_def xworld0_def netif_ok_empty)
qed


end
