(* ===== verification/Ip4_Stack.thy ===== *)
theory Ip4_Stack
  imports "Link_Layer" "Inet_Chksum" "HOL-Library.Monad_Syntax"
begin

text \<open>
  \<^verbatim>\<open>externals/lwip/src/core/ipv4/ip4.c\<close>, \<^verbatim>\<open>ip4_frag.c\<close> and \<^verbatim>\<open>icmp.c\<close>:
  routing, output, fragmentation, reassembly, input and ICMP, over the link layer, with
  \<^verbatim>\<open>ip_input\<close> of \<^verbatim>\<open>ip.c\<close>. The build verifies no checksums of received packets,
  forwards nothing and has no IGMP, DHCP, raw sockets or options to send.

  Packets are referred to by their address as in the link layer. \<^verbatim>\<open>struct ip_reass_helper\<close>,
  which replaces the header of a queued fragment, is kept beside the packet: \<open>rd_p\<close> lists the
  fragments of a datagram in the order of their links, each with its first and last offset. A pointer
  into the list of datagrams is a position in \<open>iw_reass\<close>. The globals \<^verbatim>\<open>ip_data\<close> are an
  argument of what reads them.
\<close>

section \<open>Headers\<close>

text \<open>A 16-bit field of a header as the little-endian host loads it.\<close>

definition u16_at :: "u8 list \<Rightarrow> nat \<Rightarrow> u16" where
  "u16_at bs k = ucast (bs ! k) OR push_bit 8 (ucast (bs ! (k + 1)))"

definition IPH_V :: "u8 list \<Rightarrow> u8" where
  "IPH_V hdr = drop_bit 4 (hdr ! 0)"

definition IPH_HL_BYTES :: "u8 list \<Rightarrow> u8" where
  "IPH_HL_BYTES hdr = (hdr ! 0 AND 0x0f) * 4"

definition IPH_LEN :: "u8 list \<Rightarrow> u16" where
  "IPH_LEN hdr = u16_at hdr 2"

definition IPH_ID :: "u8 list \<Rightarrow> u16" where
  "IPH_ID hdr = u16_at hdr 4"

definition IPH_OFFSET :: "u8 list \<Rightarrow> u16" where
  "IPH_OFFSET hdr = u16_at hdr 6"

definition IPH_OFFSET_BYTES :: "u8 list \<Rightarrow> u16" where
  "IPH_OFFSET_BYTES hdr = (lwip_htons (IPH_OFFSET hdr) AND 0x1fff) * 8"

definition iph_src :: "u8 list \<Rightarrow> u32" where
  "iph_src hdr = word_at hdr 12"

definition iph_dest :: "u8 list \<Rightarrow> u32" where
  "iph_dest hdr = word_at hdr 16"

abbreviation (input) IP_MF :: u16 where "IP_MF \<equiv> 0x2000"
abbreviation (input) IP_OFFMASK :: u16 where "IP_OFFMASK \<equiv> 0x1fff"
abbreviation (input) IP_HLEN :: nat where "IP_HLEN \<equiv> 20"
abbreviation (input) IP_REASS_MAX_PBUFS :: nat where "IP_REASS_MAX_PBUFS \<equiv> 32"
abbreviation (input) IP_REASS_MAXAGE :: u8 where "IP_REASS_MAXAGE \<equiv> 15"
abbreviation (input) IP_REASS_FLAG_LASTFRAG :: u8 where "IP_REASS_FLAG_LASTFRAG \<equiv> 0x01"
abbreviation (input) ICMP_TTL :: u8 where "ICMP_TTL \<equiv> 255"
abbreviation (input) IP_PROTO_ICMP :: u8 where "IP_PROTO_ICMP \<equiv> 1"
abbreviation (input) IP_PROTO_TCP :: u8 where "IP_PROTO_TCP \<equiv> 6"
abbreviation (input) IP_PROTO_UDP :: u8 where "IP_PROTO_UDP \<equiv> 17"
abbreviation (input) PBUF_FLAG_MCASTLOOP :: u8 where "PBUF_FLAG_MCASTLOOP \<equiv> 0x04"

section \<open>State\<close>

record ip_reassdata =
  rd_p :: "(packet \<times> u16 \<times> u16) list"
  rd_iphdr :: "u8 list"
  rd_datagram_len :: u16
  rd_flags :: u8
  rd_timer :: u8

record iworld =
  iw_e :: eworld
  iw_ip_id :: u16
  iw_default_multicast :: "addr option"
  iw_reass :: "ip_reassdata list"
  iw_pbufcount :: u16

abbreviation (input) iw_pkt :: "iworld \<Rightarrow> packet \<Rightarrow> pbuf list" where
  "iw_pkt w p \<equiv> ew_pkt (iw_e w) p"

abbreviation (input) iw_netif :: "iworld \<Rightarrow> addr \<Rightarrow> netif" where
  "iw_netif w n \<equiv> ew_netif (iw_e w) n"

definition on_e :: "(eworld \<Rightarrow> eworld) \<Rightarrow> iworld \<Rightarrow> iworld" where
  "on_e f w = w\<lparr>iw_e := f (iw_e w)\<rparr>"

definition call_e :: "(eworld \<Rightarrow> ('a \<times> eworld) option) \<Rightarrow> iworld \<Rightarrow> ('a \<times> iworld) option" where
  "call_e f w = map_option (\<lambda>(r, e). (r, w\<lparr>iw_e := e\<rparr>)) (f (iw_e w))"

text \<open>\<^verbatim>\<open>pbuf_alloc(layer, len, PBUF_RAM)\<close>: the address, and the packet there.\<close>

definition new_pkt :: "(nat \<Rightarrow> allocator) \<Rightarrow> pbuf_layer \<Rightarrow> u16 \<Rightarrow> eworld \<Rightarrow> packet \<times> eworld" where
  "new_pkt heap layer len e =
     (ew_next e, (set_pkt (ew_next e) (ar_chain (pbuf_alloc (heap (ew_next e)) layer len PBUF_RAM)) e)
                   \<lparr>ew_next := Suc (ew_next e)\<rparr>)"

text \<open>Stores through the payload of the first buffer.\<close>

definition put_fields :: "packet \<Rightarrow> (nat \<times> u8 list) list \<Rightarrow> eworld \<Rightarrow> eworld" where
  "put_fields p fs e =
     (case ew_pkt e p of [] \<Rightarrow> e | p0 # ps \<Rightarrow> set_pkt p (write_fields fs p0 # ps) e)"

text \<open>\<^verbatim>\<open>inet_chksum(payload, len)\<close> over the first buffer.\<close>

definition payload_chksum :: "pbuf \<Rightarrow> nat \<Rightarrow> u16" where
  "payload_chksum p0 len = inet_chksum (odd (p_payload p0)) (payload_read p0 0 len)"

section \<open>Routing\<close>

definition ip4_addr_isloopback :: "u32 \<Rightarrow> bool" where
  "ip4_addr_isloopback a \<longleftrightarrow> a AND lwip_htonl 0xff000000 = lwip_htonl 0x7f000000"

definition route_usable :: "netif \<Rightarrow> bool" where
  "route_usable n \<longleftrightarrow> netif_is_flag_set n NETIF_FLAG_UP \<and> netif_is_flag_set n NETIF_FLAG_LINK_UP
     \<and> nf_ip_addr n \<noteq> IPADDR_ANY"

definition route_matches :: "u32 \<Rightarrow> netif \<Rightarrow> bool" where
  "route_matches dest n \<longleftrightarrow> route_usable n
     \<and> (dest AND nf_netmask n = nf_ip_addr n AND nf_netmask n
        \<or> nf_flags n AND NETIF_FLAG_BROADCAST = 0 \<and> dest = nf_gw n)"

text \<open>The outer \<open>None\<close> is a walk along the list that never ends.\<close>

definition ip4_route :: "u32 \<Rightarrow> iworld \<Rightarrow> addr option option" where
  "ip4_route dest w =
     (if ip4_addr_ismulticast dest \<and> iw_default_multicast w \<noteq> None then Some (iw_default_multicast w)
      else do {
        let net = x_net (ew_x (iw_e w));
        r \<leftarrow> NETIF_FOREACH (\<lambda>a. route_matches dest (nw_mem net a)) (nw_mem net) (nw_list net);
        Some (case r of
                Some a \<Rightarrow> Some a
              | None \<Rightarrow>
                  (case nw_default net of
                     None \<Rightarrow> None
                   | Some d \<Rightarrow>
                       if \<not> route_usable (nw_mem net d) \<or> ip4_addr_isloopback dest then None else Some d))
      })"

definition ip4_set_default_multicast_netif :: "addr option \<Rightarrow> iworld \<Rightarrow> iworld" where
  "ip4_set_default_multicast_netif n w = w\<lparr>iw_default_multicast := n\<rparr>"

section \<open>Handing a packet to the interface\<close>

definition loop_output ::
    "(nat \<Rightarrow> allocator) \<Rightarrow> addr \<Rightarrow> packet \<Rightarrow> eworld \<Rightarrow> (err_t \<times> eworld) option" where
  "loop_output heap nif p e =
     map_option (\<lambda>(err, net). (err, e\<lparr>ew_x := (ew_x e)\<lparr>x_net := net\<rparr>, ew_next := Suc (ew_next e)\<rparr>))
       (netif_loop_output (heap (ew_next e)) nif (ew_pkt e p) (x_net (ew_x e)))"

text \<open>\<^verbatim>\<open>netif->output(netif, p, dest)\<close>\<close>

definition netif_output ::
    "(nat \<Rightarrow> allocator) \<Rightarrow> u8 list \<Rightarrow> addr \<Rightarrow> packet \<Rightarrow> u32 \<Rightarrow> eworld \<Rightarrow> (err_t \<times> eworld) option" where
  "netif_output heap stack nif p dest e =
     (case nf_output (ew_netif e nif) of
        None \<Rightarrow> None
      | Some Netif_Null_Output_Ip4 \<Rightarrow> Some (ERR_IF, e)
      | Some Netif_Loop_Output_Ipv4 \<Rightarrow> loop_output heap nif p e
      | Some Etharp_Output \<Rightarrow> etharp_output heap stack nif p dest e)"

section \<open>Fragmentation\<close>

text \<open>
  A mirror takes a reference on the buffer it points into, the \<open>k\<close>-th of the packet, and its free
  function gives it back.
\<close>

definition ref_at :: "packet \<Rightarrow> nat \<Rightarrow> eworld \<Rightarrow> eworld" where
  "ref_at p k e = set_pkt p (take k (ew_pkt e p) @ pbuf_ref (drop k (ew_pkt e p))) e"

definition ipfrag_free_pbuf_custom :: "packet \<Rightarrow> nat \<Rightarrow> eworld \<Rightarrow> eworld" where
  "ipfrag_free_pbuf_custom p k e =
     (let (_, fr, rest) = pbuf_free (drop k (ew_pkt e p))
      in (set_pkt p (take k (ew_pkt e p) @ rest) e)\<lparr>ew_freed := ew_freed e @ fr\<rparr>)"

text \<open>\<^verbatim>\<open>pbuf_free(rambuf)\<close>, \<open>orig\<close> being the buffers its mirrors point into.\<close>

definition free_fragment :: "packet \<Rightarrow> packet \<Rightarrow> nat list \<Rightarrow> eworld \<Rightarrow> eworld" where
  "free_fragment p rambuf orig e =
     (let (_, fr, _) = pbuf_free (ew_pkt e rambuf);
          customs = length (filter (\<lambda>(d, _). d = Free_Custom) fr)
      in fold (ipfrag_free_pbuf_custom p) (take customs orig) (free_pkt rambuf e))"

text \<open>
  Mirrors for \<open>left\<close> bytes from offset \<open>poff\<close> of buffer \<open>k\<close> on, \<open>qs\<close> being the buffers from
  there. The result is where the copy stopped, or that there was no memory.
\<close>

fun mirror_loop ::
    "(nat \<Rightarrow> allocator) \<Rightarrow> packet \<Rightarrow> packet \<Rightarrow> nat \<Rightarrow> pbuf list \<Rightarrow> u16 \<Rightarrow> u16 \<Rightarrow> nat list \<Rightarrow> eworld
      \<Rightarrow> ((nat \<times> u16) option \<times> nat list \<times> eworld) option" where
  "mirror_loop heap p rambuf k [] poff left orig e = None"
| "mirror_loop heap p rambuf k (q # qs) poff left orig e =
     (let plen = p_len q - poff;
          newpbuflen = min left plen
      in if newpbuflen = 0 then mirror_loop heap p rambuf (Suc k) qs 0 left orig e
         else
           let pcr = heap (ew_next e) 0 40; e = e\<lparr>ew_next := Suc (ew_next e)\<rparr>
           in if pcr = None then Some (None, orig, e)
              else
                (case pbuf_alloced_custom PBUF_RAW newpbuflen PBUF_REF
                        (Some (drop (nat (p_payload q) + unat poff) (p_mem q))) newpbuflen of
                   None \<Rightarrow> Some (None, orig, e)
                 | Some newpbuf \<Rightarrow>
                     let e = ref_at p k e;
                         e = set_pkt rambuf (pbuf_cat (ew_pkt e rambuf) [newpbuf]) e;
                         left = left - newpbuflen;
                         orig = orig @ [k]
                     in if left \<noteq> 0 then mirror_loop heap p rambuf (Suc k) qs 0 left orig e
                        else Some (Some (k, poff + newpbuflen), orig, e)))"

text \<open>
  The loop over the fragments; a fragment of no bytes (the interface has an MTU of 20 to 27 bytes)
  leaves \<open>left\<close> as it is.
\<close>

definition frag_fields :: "u16 \<Rightarrow> u16 \<Rightarrow> (nat \<times> u8 list) list" where
  "frag_fields offset len = [(6, u16_bytes (lwip_htons offset)), (2, u16_bytes (lwip_htons len)), (10, u16_bytes 0)]"

partial_function (option) frag_loop ::
    "(nat \<Rightarrow> allocator) \<Rightarrow> u8 list \<Rightarrow> packet \<Rightarrow> addr \<Rightarrow> u32 \<Rightarrow> u16 \<Rightarrow> bool \<Rightarrow> nat \<Rightarrow> u16 \<Rightarrow> u16 \<Rightarrow> u16 \<Rightarrow> eworld
      \<Rightarrow> (err_t \<times> eworld) option" where
  "frag_loop heap stack p nif dest nfb mf_set k poff left ofo e =
     (if left = 0 then Some (ERR_OK, e)
      else
        let fragsize = min left (nfb * 8);
            (rambuf, e) = new_pkt heap PBUF_LINK 20 e
        in if ew_pkt e rambuf = [] then Some (ERR_MEM, e)
           else
             let hdr = payload_read (hd (ew_pkt e p)) 0 IP_HLEN;
                 e = put_fields rambuf [(0, hdr)] e
             in Option.bind
                  (if fragsize = 0 then Some (Some (k, poff), [], e)
                   else mirror_loop heap p rambuf k (drop k (ew_pkt e p)) poff fragsize [] e)
                  (\<lambda>(r, orig, e).
                     case r of
                       None \<Rightarrow> Some (ERR_MEM, free_fragment p rambuf orig e)
                     | Some (k, poff) \<Rightarrow>
                         let is_last = (int (unat left) \<le> int (unat (nf_mtu (ew_netif e nif))) - 20);
                             tmp = IP_OFFMASK AND ofo;
                             tmp = (if \<not> is_last \<or> mf_set then tmp OR IP_MF else tmp);
                             e = put_fields rambuf (frag_fields tmp (fragsize + 20)) e;
                             e = put_fields rambuf
                                   [(10, u16_bytes (payload_chksum (hd (ew_pkt e rambuf)) IP_HLEN))] e
                         in Option.bind (netif_output heap stack nif rambuf dest e)
                              (\<lambda>(_, e). frag_loop heap stack p nif dest nfb mf_set k poff (left - fragsize)
                                          (ofo + nfb) (free_fragment p rambuf orig e))))"

declare frag_loop.simps [code]

definition ip4_frag ::
    "(nat \<Rightarrow> allocator) \<Rightarrow> u8 list \<Rightarrow> packet \<Rightarrow> addr \<Rightarrow> u32 \<Rightarrow> eworld \<Rightarrow> (err_t \<times> eworld) option" where
  "ip4_frag heap stack p nif dest e =
     (case ew_pkt e p of
        [] \<Rightarrow> None
      | p0 # ps \<Rightarrow>
          let hdr = payload_read p0 0 IP_HLEN;
              mtu = int (unat (nf_mtu (ew_netif e nif)));
              nfb = word_of_int (if 20 \<le> mtu then (mtu - 20) div 8 else - ((20 - mtu) div 8)) :: u16
          in if hdr = [] then None
             else if IPH_HL_BYTES hdr \<noteq> 20 then Some (ERR_VAL, e)
             else if unat (p_len p0) < IP_HLEN then Some (ERR_VAL, e)
             else
               let tmp = lwip_htons (IPH_OFFSET hdr)
               in frag_loop heap stack p nif dest nfb (tmp AND IP_MF \<noteq> 0) 0 20 (p_tot_len p0 - 20)
                    (tmp AND IP_OFFMASK) e)"

section \<open>Output\<close>

text \<open>
  The stores of the header in the order of the code, and its checksum, which is summed up while they
  are made.
\<close>

definition ip_fields :: "u8 \<Rightarrow> u8 \<Rightarrow> u32 \<Rightarrow> u8 \<Rightarrow> u16 \<Rightarrow> u16 \<Rightarrow> u32 \<Rightarrow> (nat \<times> u8 list) list" where
  "ip_fields ttl proto dest tos tot_len ipid src =
     [(8, [ttl]), (9, [proto]), (16, u32_bytes dest), (0, [0x45]), (1, [tos]),
      (2, u16_bytes (lwip_htons tot_len)), (6, u16_bytes 0), (4, u16_bytes (lwip_htons ipid)),
      (12, u32_bytes src)]"

definition inline_chksum :: "u8 \<Rightarrow> u8 \<Rightarrow> u32 \<Rightarrow> u8 \<Rightarrow> u16 \<Rightarrow> u16 \<Rightarrow> u32 \<Rightarrow> u16" where
  "inline_chksum ttl proto dest tos tot_len ipid src =
     (let chk_sum = 0 :: u32;
          chk_sum = chk_sum + ucast (lwip_htons (ucast proto OR push_bit 8 (ucast ttl)));
          chk_sum = chk_sum + (dest AND 0xFFFF);
          chk_sum = chk_sum + drop_bit 16 dest;
          chk_sum = chk_sum + ucast (lwip_htons (ucast tos OR push_bit 8 0x45));
          chk_sum = chk_sum + ucast (lwip_htons tot_len);
          chk_sum = chk_sum + ucast (lwip_htons ipid);
          chk_sum = chk_sum + (src AND 0xFFFF);
          chk_sum = chk_sum + drop_bit 16 src;
          chk_sum = drop_bit 16 chk_sum + (chk_sum AND 0xFFFF);
          chk_sum = drop_bit 16 chk_sum + chk_sum
      in ucast (NOT chk_sum))"

text \<open>\<open>dest\<close> is \<open>None\<close> for \<^verbatim>\<open>LWIP_IP_HDRINCL\<close>, \<open>src\<close> for \<^verbatim>\<open>NULL\<close>.\<close>

definition ip4_output_if_src ::
    "(nat \<Rightarrow> allocator) \<Rightarrow> u8 list \<Rightarrow> packet \<Rightarrow> u32 option \<Rightarrow> u32 option \<Rightarrow> u8 \<Rightarrow> u8 \<Rightarrow> u8 \<Rightarrow> addr \<Rightarrow> iworld
      \<Rightarrow> (err_t \<times> iworld) option" where
  "ip4_output_if_src heap stack p src dest ttl tos proto nif w =
     (if iw_pkt w p = [] \<and> dest = None then None
      else case (case dest of
              Some d \<Rightarrow>
                let (failed, c) = pbuf_add_header (iw_pkt w p) IP_HLEN in
                if failed \<noteq> 0 then Inl ERR_BUF
                else
                  let s = (case src of None \<Rightarrow> IPADDR_ANY | Some s \<Rightarrow> s);
                      tot_len = p_tot_len (hd c); ipid = iw_ip_id w;
                      e = set_pkt p c (iw_e w);
                      e = put_fields p (ip_fields ttl proto d tos tot_len ipid s) e;
                      e = put_fields p [(10, u16_bytes (inline_chksum ttl proto d tos tot_len ipid s))] e
                  in Inr (d, w\<lparr>iw_e := e, iw_ip_id := ipid + 1\<rparr>)
            | None \<Rightarrow>
                let p0 = hd (iw_pkt w p) in
                if unat (p_len p0) < IP_HLEN then Inl ERR_BUF
                else Inr (iph_dest (payload_read p0 0 IP_HLEN), w)) of
        Inl err \<Rightarrow> Some (err, w)
      | Inr (dest, w) \<Rightarrow>
          (case iw_pkt w p of
             [] \<Rightarrow> None
           | p0 # ps \<Rightarrow>
               if dest = nf_ip_addr (iw_netif w nif) then call_e (loop_output heap nif p) w
               else do {
                 (_, w) \<leftarrow> (if p_flags p0 AND PBUF_FLAG_MCASTLOOP \<noteq> 0 then call_e (loop_output heap nif p) w
                            else Some (ERR_OK, w));
                 let mtu = nf_mtu (iw_netif w nif);
                 if mtu \<noteq> 0 \<and> p_tot_len p0 > mtu then call_e (ip4_frag heap stack p nif dest) w
                 else call_e (netif_output heap stack nif p dest) w
               }))"

definition ip4_output_if ::
    "(nat \<Rightarrow> allocator) \<Rightarrow> u8 list \<Rightarrow> packet \<Rightarrow> u32 option \<Rightarrow> u32 option \<Rightarrow> u8 \<Rightarrow> u8 \<Rightarrow> u8 \<Rightarrow> addr \<Rightarrow> iworld
      \<Rightarrow> (err_t \<times> iworld) option" where
  "ip4_output_if heap stack p src dest ttl tos proto nif w =
     (let src_used = (if dest \<noteq> None \<and> (src = None \<or> src = Some IPADDR_ANY)
                      then Some (nf_ip_addr (iw_netif w nif)) else src)
      in ip4_output_if_src heap stack p src_used dest ttl tos proto nif w)"

definition ip4_output ::
    "(nat \<Rightarrow> allocator) \<Rightarrow> u8 list \<Rightarrow> packet \<Rightarrow> u32 option \<Rightarrow> u32 \<Rightarrow> u8 \<Rightarrow> u8 \<Rightarrow> u8 \<Rightarrow> iworld
      \<Rightarrow> (err_t \<times> iworld) option" where
  "ip4_output heap stack p src dest ttl tos proto w =
     Option.bind (ip4_route dest w)
       (\<lambda>r. case r of
              None \<Rightarrow> Some (ERR_RTE, w)
            | Some nif \<Rightarrow> ip4_output_if heap stack p src (Some dest) ttl tos proto nif w)"

definition set_hints :: "addr \<Rightarrow> addr option \<Rightarrow> eworld \<Rightarrow> eworld" where
  "set_hints nif h e =
     e\<lparr>ew_x := (ew_x e)\<lparr>x_net := upd nif (\<lambda>n. n\<lparr>nf_hints := h\<rparr>) (x_net (ew_x e))\<rparr>\<rparr>"

definition ip4_output_hinted ::
    "(nat \<Rightarrow> allocator) \<Rightarrow> u8 list \<Rightarrow> packet \<Rightarrow> u32 option \<Rightarrow> u32 \<Rightarrow> u8 \<Rightarrow> u8 \<Rightarrow> u8 \<Rightarrow> addr option \<Rightarrow> iworld
      \<Rightarrow> (err_t \<times> iworld) option" where
  "ip4_output_hinted heap stack p src dest ttl tos proto hint w =
     Option.bind (ip4_route dest w)
       (\<lambda>r. case r of
              None \<Rightarrow> Some (ERR_RTE, w)
            | Some nif \<Rightarrow>
                map_option (\<lambda>(err, w). (err, on_e (set_hints nif None) w))
                  (ip4_output_if heap stack p src (Some dest) ttl tos proto nif (on_e (set_hints nif hint) w)))"

section \<open>ICMP errors\<close>

text \<open>
  28 bytes are copied from where the payload of the offending packet points to, whatever its length.
\<close>

definition icmp_send_response ::
    "(nat \<Rightarrow> allocator) \<Rightarrow> u8 list \<Rightarrow> packet \<Rightarrow> u8 \<Rightarrow> u8 \<Rightarrow> iworld \<Rightarrow> iworld option" where
  "icmp_send_response heap stack p typ code w =
     (let (q, e) = new_pkt heap PBUF_IP 36 (iw_e w); w = w\<lparr>iw_e := e\<rparr>
      in if iw_pkt w q = [] then Some w
         else
           (case iw_pkt w p of
              [] \<Rightarrow> None
            | p0 # ps \<Rightarrow>
                let data = payload_read p0 0 28 in
                if length data < 28 then None
                else
                  let w = on_e (put_fields q [(0, [typ]), (1, [code]), (4, u16_bytes 0), (6, u16_bytes 0), (8, data)]) w;
                      iphdr_src = iph_src data
                  in Option.bind (ip4_route iphdr_src w)
                       (\<lambda>r. map_option (on_e (free_pkt q))
                              (case r of
                                 None \<Rightarrow> Some w
                               | Some nif \<Rightarrow>
                                   let w = on_e (put_fields q [(2, u16_bytes 0)]) w;
                                       q0 = hd (iw_pkt w q);
                                       w = on_e (put_fields q
                                             [(2, u16_bytes (payload_chksum q0 (unat (p_len q0))))]) w
                                   in map_option snd (ip4_output_if heap stack q None (Some iphdr_src)
                                        ICMP_TTL 0 IP_PROTO_ICMP nif w)))))"

definition icmp_dest_unreach ::
    "(nat \<Rightarrow> allocator) \<Rightarrow> u8 list \<Rightarrow> packet \<Rightarrow> u8 \<Rightarrow> iworld \<Rightarrow> iworld option" where
  "icmp_dest_unreach heap stack p t w = icmp_send_response heap stack p 3 t w"

definition icmp_time_exceeded ::
    "(nat \<Rightarrow> allocator) \<Rightarrow> u8 list \<Rightarrow> packet \<Rightarrow> u8 \<Rightarrow> iworld \<Rightarrow> iworld option" where
  "icmp_time_exceeded heap stack p t w = icmp_send_response heap stack p 11 t w"

section \<open>Reassembly\<close>

definition addresses_and_id_match :: "u8 list \<Rightarrow> u8 list \<Rightarrow> bool" where
  "addresses_and_id_match a b \<longleftrightarrow> iph_src a = iph_src b \<and> iph_dest a = iph_dest b \<and> IPH_ID a = IPH_ID b"

text \<open>The datagram at position \<open>i\<close> leaves the list.\<close>

definition ip_reass_dequeue_datagram :: "nat \<Rightarrow> iworld \<Rightarrow> iworld" where
  "ip_reass_dequeue_datagram i w = w\<lparr>iw_reass := take i (iw_reass w) @ drop (Suc i) (iw_reass w)\<rparr>"

definition free_frag :: "packet \<Rightarrow> u16 \<times> iworld \<Rightarrow> u16 \<times> iworld" where
  "free_frag p s = (case s of (pbufs_freed, w) \<Rightarrow>
     (pbufs_freed + pbuf_clen (iw_pkt w p), on_e (free_pkt p) w))"

definition ip_reass_free_complete_datagram ::
    "(nat \<Rightarrow> allocator) \<Rightarrow> u8 list \<Rightarrow> nat \<Rightarrow> iworld \<Rightarrow> (u16 \<times> iworld) option" where
  "ip_reass_free_complete_datagram heap stack i w =
     (let ipr = iw_reass w ! i in
      case rd_p ipr of
        [] \<Rightarrow> None
      | (p, start, _) # rest \<Rightarrow> do {
          s \<leftarrow> (if start = 0 then do {
                  let w = w\<lparr>iw_reass := (iw_reass w)[i := ipr\<lparr>rd_p := rest\<rparr>]\<rparr>;
                  let w = on_e (put_fields p [(0, rd_iphdr ipr)]) w;
                  w \<leftarrow> icmp_time_exceeded heap stack p 1 w;
                  Some (free_frag p (0, w))
                } else Some (0, w));
          let (pbufs_freed, w) = fold (\<lambda>(q, _). free_frag q) (rd_p (iw_reass (snd s) ! i)) s;
          let w = ip_reass_dequeue_datagram i w;
          Some (pbufs_freed, w\<lparr>iw_pbufcount := iw_pbufcount w - pbufs_freed\<rparr>)
        })"

text \<open>
  The oldest datagram other than the one of the fragment, the last of them in the list, and how many
  others there are.
\<close>

fun find_oldest ::
    "u8 list \<Rightarrow> nat \<Rightarrow> ip_reassdata list \<Rightarrow> (nat \<times> u8) option \<Rightarrow> nat \<Rightarrow> (nat \<times> u8) option \<times> nat" where
  "find_oldest fraghdr i [] oldest other = (oldest, other)"
| "find_oldest fraghdr i (r # rs) oldest other =
     (if addresses_and_id_match (rd_iphdr r) fraghdr then find_oldest fraghdr (Suc i) rs oldest other
      else
        find_oldest fraghdr (Suc i) rs
          (case oldest of
             None \<Rightarrow> Some (i, rd_timer r)
           | Some (_, t) \<Rightarrow> if rd_timer r \<le> t then Some (i, rd_timer r) else oldest)
          (Suc other))"

partial_function (option) remove_oldest_loop ::
    "(nat \<Rightarrow> allocator) \<Rightarrow> u8 list \<Rightarrow> u8 list \<Rightarrow> nat \<Rightarrow> nat \<Rightarrow> iworld \<Rightarrow> (nat \<times> iworld) option" where
  "remove_oldest_loop heap stack fraghdr pbufs_needed pbufs_freed w =
     (let (oldest, other_datagrams) = find_oldest fraghdr 0 (iw_reass w) None 0 in
      Option.bind (case oldest of
                     None \<Rightarrow> Some (0, w)
                   | Some (i, _) \<Rightarrow> ip_reass_free_complete_datagram heap stack i w)
        (\<lambda>(pbufs_freed_current, w).
           let pbufs_freed = pbufs_freed + unat pbufs_freed_current in
           if pbufs_freed < pbufs_needed \<and> other_datagrams > 1
           then remove_oldest_loop heap stack fraghdr pbufs_needed pbufs_freed w
           else Some (pbufs_freed, w)))"

declare remove_oldest_loop.simps [code]

definition ip_reass_remove_oldest_datagram ::
    "(nat \<Rightarrow> allocator) \<Rightarrow> u8 list \<Rightarrow> u8 list \<Rightarrow> nat \<Rightarrow> iworld \<Rightarrow> (nat \<times> iworld) option" where
  "ip_reass_remove_oldest_datagram heap stack fraghdr pbufs_needed w =
     remove_oldest_loop heap stack fraghdr pbufs_needed 0 w"

definition memp_reassdata :: "(nat \<Rightarrow> allocator) \<Rightarrow> iworld \<Rightarrow> bool \<times> iworld" where
  "memp_reassdata heap w =
     (heap (ew_next (iw_e w)) 0 40 \<noteq> None, on_e (\<lambda>e. e\<lparr>ew_next := Suc (ew_next e)\<rparr>) w)"

text \<open>Whether there is a new datagram, at the front of the list.\<close>

definition ip_reass_enqueue_new_datagram ::
    "(nat \<Rightarrow> allocator) \<Rightarrow> u8 list \<Rightarrow> u8 list \<Rightarrow> nat \<Rightarrow> iworld \<Rightarrow> (bool \<times> iworld) option" where
  "ip_reass_enqueue_new_datagram heap stack fraghdr clen w = do {
     let (got, w) = memp_reassdata heap w;
     (got, w) \<leftarrow> (if got then Some (True, w)
                  else do {
                    (freed, w) \<leftarrow> ip_reass_remove_oldest_datagram heap stack fraghdr clen w;
                    Some (if freed \<ge> clen then memp_reassdata heap w else (False, w))
                  });
     Some (if \<not> got then (False, w)
           else (True, w\<lparr>iw_reass := \<lparr>rd_p = [], rd_iphdr = take IP_HLEN fraghdr, rd_datagram_len = 0, rd_flags = 0,
                                      rd_timer = IP_REASS_MAXAGE\<rparr> # iw_reass w\<rparr>))
   }"

text \<open>
  The walk along the fragments of the datagram: the list with the new fragment in its place, the
  fragments behind it, and whether there was a gap so far; \<open>None\<close> where the new fragment is dropped.
\<close>

fun place_frag ::
    "(packet \<times> u16 \<times> u16) \<Rightarrow> u16 option \<Rightarrow> bool \<Rightarrow> (packet \<times> u16 \<times> u16) list
      \<Rightarrow> ((packet \<times> u16 \<times> u16) list \<times> (packet \<times> u16 \<times> u16) list \<times> bool) option" where
  "place_frag new prev_end valid [] =
     Some ([new], [], valid \<and> (case prev_end of None \<Rightarrow> True | Some pe \<Rightarrow> pe = fst (snd new)))"
| "place_frag new prev_end valid ((q, qstart, qend) # qs) =
     (let start = fst (snd new); endoff = snd (snd new) in
      if start < qstart then
        (case prev_end of
           Some pe \<Rightarrow>
             if start < pe \<or> endoff > qstart then None
             else Some (new # (q, qstart, qend) # qs, (q, qstart, qend) # qs, valid \<and> pe = start)
         | None \<Rightarrow>
             if endoff > qstart then None
             else Some (new # (q, qstart, qend) # qs, (q, qstart, qend) # qs, valid))
      else if start = qstart then None
      else if start < qend then None
      else
        map_option (\<lambda>(l, behind, v). ((q, qstart, qend) # l, behind, v))
          (place_frag new (Some qend) (valid \<and> (case prev_end of None \<Rightarrow> True | Some pe \<Rightarrow> pe = qstart)) qs))"

fun no_holes :: "u16 \<Rightarrow> (packet \<times> u16 \<times> u16) list \<Rightarrow> bool" where
  "no_holes prev_end [] = True"
| "no_holes prev_end ((q, qstart, qend) # qs) \<longleftrightarrow> prev_end = qstart \<and> no_holes qend qs"

text \<open>The fragments with the new one, and whether the datagram is complete.\<close>

definition ip_reass_chain_frag_into_datagram_and_validate ::
    "ip_reassdata \<Rightarrow> packet \<Rightarrow> u8 list \<Rightarrow> bool \<Rightarrow> (ip_reassdata \<times> bool) option" where
  "ip_reass_chain_frag_into_datagram_and_validate ipr new_p fraghdr is_last =
     (let len = lwip_htons (IPH_LEN fraghdr);
          hlen = IPH_HL_BYTES fraghdr
      in if ucast hlen > len then None
         else
           let len = len - ucast hlen;
               offset = IPH_OFFSET_BYTES fraghdr;
               endoff = offset + len
           in if endoff < offset then None
              else
                (case place_frag (new_p, offset, endoff) None True (rd_p ipr) of
                   None \<Rightarrow> None
                 | Some (l, behind, valid) \<Rightarrow>
                     Some (ipr\<lparr>rd_p := l\<rparr>,
                       (is_last \<or> rd_flags ipr AND IP_REASS_FLAG_LASTFRAG \<noteq> 0) \<and> valid
                       \<and> fst (snd (hd l)) = 0 \<and> no_holes endoff behind)))"

text \<open>The fragments of a complete datagram are chained into one packet, their headers hidden.\<close>

definition cat_frag :: "packet \<Rightarrow> packet \<Rightarrow> eworld \<Rightarrow> eworld" where
  "cat_frag p r e =
     (let (_, c) = pbuf_remove_header (ew_pkt e r) IP_HLEN
      in set_pkt p (pbuf_cat (ew_pkt e p) c) (set_pkt r [] e))"

definition finish_datagram :: "nat \<Rightarrow> ip_reassdata \<Rightarrow> iworld \<Rightarrow> (packet option \<times> iworld) option" where
  "finish_datagram i ipr w =
     (case rd_p ipr of
        [] \<Rightarrow> None
      | (p, _) # rest \<Rightarrow>
          let datagram_len = rd_datagram_len ipr + 20;
              w = on_e (put_fields p [(0, rd_iphdr ipr), (2, u16_bytes (lwip_htons datagram_len)),
                                      (6, u16_bytes 0), (10, u16_bytes 0)]) w;
              w = on_e (put_fields p [(10, u16_bytes (payload_chksum (hd (iw_pkt w p)) IP_HLEN))]) w;
              w = on_e (\<lambda>e. fold (\<lambda>(r, _). cat_frag p r) rest e) w;
              w = ip_reass_dequeue_datagram i w;
              clen = pbuf_clen (iw_pkt w p)
          in Some (Some p, w\<lparr>iw_pbufcount := iw_pbufcount w - clen\<rparr>))"

definition reass_drop :: "packet \<Rightarrow> iworld \<Rightarrow> (packet option \<times> iworld) option" where
  "reass_drop p w = Some (None, on_e (free_pkt p) w)"

text \<open>From where the datagram of the fragment is known, at position \<open>i\<close>.\<close>

definition reass_insert :: "packet \<Rightarrow> u8 list \<Rightarrow> nat \<Rightarrow> iworld \<Rightarrow> (packet option \<times> iworld) option" where
  "reass_insert p fraghdr i w =
     (let ipr = iw_reass w ! i;
          offset = IPH_OFFSET_BYTES fraghdr;
          len = lwip_htons (IPH_LEN fraghdr) - ucast (IPH_HL_BYTES fraghdr);
          clen = pbuf_clen (iw_pkt w p);
          is_last = (IPH_OFFSET fraghdr AND lwip_htons IP_MF = 0);
          datagram_len = offset + len;
          drop_ipr = reass_drop p (if rd_p ipr = [] then ip_reass_dequeue_datagram i w else w)
      in if is_last \<and> (datagram_len < offset \<or> datagram_len > 0xFFFF - 20) then drop_ipr
         else
           (case ip_reass_chain_frag_into_datagram_and_validate ipr p fraghdr is_last of
              None \<Rightarrow> drop_ipr
            | Some (ipr, valid) \<Rightarrow>
                let ipr = (if is_last then ipr\<lparr>rd_datagram_len := datagram_len,
                                              rd_flags := rd_flags ipr OR IP_REASS_FLAG_LASTFRAG\<rparr>
                           else ipr);
                    w = w\<lparr>iw_reass := (iw_reass w)[i := ipr], iw_pbufcount := iw_pbufcount w + clen\<rparr>
                in if valid then finish_datagram i ipr w else Some (None, w)))"

fun find_datagram :: "u8 list \<Rightarrow> nat \<Rightarrow> ip_reassdata list \<Rightarrow> nat option" where
  "find_datagram fraghdr i [] = None"
| "find_datagram fraghdr i (r # rs) =
     (if addresses_and_id_match (rd_iphdr r) fraghdr then Some i else find_datagram fraghdr (Suc i) rs)"

definition ip4_reass ::
    "(nat \<Rightarrow> allocator) \<Rightarrow> u8 list \<Rightarrow> packet \<Rightarrow> iworld \<Rightarrow> (packet option \<times> iworld) option" where
  "ip4_reass heap stack p w =
     (case iw_pkt w p of
        [] \<Rightarrow> None
      | p0 # ps \<Rightarrow>
          let fraghdr = payload_read p0 0 IP_HLEN in
          if length fraghdr < IP_HLEN then None
          else if IPH_HL_BYTES fraghdr \<noteq> 20 then reass_drop p w
          else if ucast (IPH_HL_BYTES fraghdr) > lwip_htons (IPH_LEN fraghdr) then reass_drop p w
          else
            let clen = pbuf_clen (p0 # ps);
                full = (\<lambda>w. unat (iw_pbufcount w) + unat clen > IP_REASS_MAX_PBUFS)
            in Option.bind
                 (if full w
                  then map_option (\<lambda>(freed, w). (freed = 0 \<or> full w, w))
                         (ip_reass_remove_oldest_datagram heap stack fraghdr (unat clen) w)
                  else Some (False, w))
                 (\<lambda>(overflow, w).
                    if overflow then reass_drop p w
                    else
                      (case find_datagram fraghdr 0 (iw_reass w) of
                         None \<Rightarrow> do {
                           (got, w) \<leftarrow> ip_reass_enqueue_new_datagram heap stack fraghdr (unat clen) w;
                           if \<not> got then reass_drop p w else reass_insert p fraghdr 0 w
                         }
                       | Some i \<Rightarrow>
                           let ipr = iw_reass w ! i;
                               ipr = (if lwip_htons (IPH_OFFSET fraghdr) AND IP_OFFMASK = 0
                                         \<and> lwip_htons (IPH_OFFSET (rd_iphdr ipr)) AND IP_OFFMASK \<noteq> 0
                                      then ipr\<lparr>rd_iphdr := fraghdr\<rparr> else ipr)
                           in reass_insert p fraghdr i (w\<lparr>iw_reass := (iw_reass w)[i := ipr]\<rparr>))))"

text \<open>The timer: \<open>k\<close> datagrams are still to be visited.\<close>

fun reass_tmr_loop :: "(nat \<Rightarrow> allocator) \<Rightarrow> u8 list \<Rightarrow> nat \<Rightarrow> iworld \<Rightarrow> iworld option" where
  "reass_tmr_loop heap stack 0 w = Some w"
| "reass_tmr_loop heap stack (Suc k) w =
     (let i = length (iw_reass w) - Suc k; r = iw_reass w ! i in
      if rd_timer r > 0
      then reass_tmr_loop heap stack k (w\<lparr>iw_reass := (iw_reass w)[i := r\<lparr>rd_timer := rd_timer r - 1\<rparr>]\<rparr>)
      else Option.bind (ip_reass_free_complete_datagram heap stack i w)
             (\<lambda>(_, w). reass_tmr_loop heap stack k w))"

definition ip_reass_tmr :: "(nat \<Rightarrow> allocator) \<Rightarrow> u8 list \<Rightarrow> iworld \<Rightarrow> iworld option" where
  "ip_reass_tmr heap stack w = reass_tmr_loop heap stack (length (iw_reass w)) w"

section \<open>Echo requests\<close>

text \<open>
  The packet the answer is made in: the request where it has room for the headers of the link, and a
  copy of it otherwise; \<open>None\<close> in the result where the request is dropped.
\<close>

definition echo_packet ::
    "(nat \<Rightarrow> allocator) \<Rightarrow> u8 list \<Rightarrow> nat \<Rightarrow> packet \<Rightarrow> eworld \<Rightarrow> packet option \<times> eworld" where
  "echo_packet heap iphdr_in hlen p e =
     (let (failed, c) = pbuf_add_header (ew_pkt e p) (hlen + 14) in
      if failed \<noteq> 0 then
        let tot_len = p_tot_len (hd (ew_pkt e p)); alloc_len = tot_len + of_nat hlen
        in if alloc_len < tot_len then (None, free_pkt p e)
           else
             let (r, e) = new_pkt heap PBUF_LINK alloc_len e
             in if ew_pkt e r = [] then (None, free_pkt p e)
                else if unat (p_len (hd (ew_pkt e r))) < hlen + 8 then (None, free_pkt p (free_pkt r e))
                else
                  let e = put_fields r [(0, iphdr_in)] e;
                      (failed, c) = pbuf_remove_header (ew_pkt e r) hlen;
                      e = set_pkt r c e
                  in if failed \<noteq> 0 then (None, free_pkt p (free_pkt r e))
                     else
                       let (err, c) = pbuf_copy (ew_pkt e r) (ew_pkt e p); e = set_pkt r c e
                       in if err \<noteq> ERR_OK then (None, free_pkt p (free_pkt r e))
                          else (Some r, free_pkt p e)
      else
        let (failed, c) = pbuf_remove_header c (hlen + 14); e = set_pkt p c e
        in if failed \<noteq> 0 then (None, free_pkt p e) else (Some p, e))"

definition adjust_chksum :: "u16 \<Rightarrow> u16" where
  "adjust_chksum chksum =
     (if chksum > lwip_htons (0xffff - 0x0800) then chksum + lwip_htons 0x0800 + 1
      else chksum + lwip_htons 0x0800)"

definition icmp_echo ::
    "(nat \<Rightarrow> allocator) \<Rightarrow> u8 list \<Rightarrow> ip_globals \<Rightarrow> nat \<Rightarrow> packet \<Rightarrow> addr \<Rightarrow> iworld \<Rightarrow> iworld option" where
  "icmp_echo heap stack d hlen p inp w =
     (let src = current_iphdr_dest d; drop_it = Some (on_e (free_pkt p) w) in
      if ip4_addr_ismulticast src then drop_it
      else if ip4_addr_isbroadcast_u32 src (iw_netif w (current_netif d)) then drop_it
      else if p_tot_len (hd (iw_pkt w p)) < 8 then drop_it
      else
        (case echo_packet heap (current_ip4_header d) hlen p (iw_e w) of
           (None, e) \<Rightarrow> Some (w\<lparr>iw_e := e\<rparr>)
         | (Some p, e) \<Rightarrow>
             let w = w\<lparr>iw_e := e\<rparr>;
                 chksum = u16_at (payload_read (hd (iw_pkt w p)) 2 2) 0;
                 (failed, c) = pbuf_add_header (iw_pkt w p) hlen
             in map_option (on_e (free_pkt p))
                  (if failed \<noteq> 0 then Some w
                   else
                     let w = on_e (set_pkt p c) w;
                         w = on_e (put_fields p [(12, u32_bytes src), (16, u32_bytes (current_iphdr_src d)),
                               (hlen, [0]), (hlen + 2, u16_bytes (adjust_chksum chksum)),
                               (8, [ICMP_TTL]), (10, u16_bytes 0)]) w;
                         w = on_e (put_fields p
                               [(10, u16_bytes (payload_chksum (hd (iw_pkt w p)) hlen))]) w
                     in map_option snd
                          (ip4_output_if heap stack p (Some src) None ICMP_TTL 0 IP_PROTO_ICMP inp w))))"

definition icmp_input ::
    "(nat \<Rightarrow> allocator) \<Rightarrow> u8 list \<Rightarrow> ip_globals \<Rightarrow> packet \<Rightarrow> addr \<Rightarrow> iworld \<Rightarrow> iworld option" where
  "icmp_input heap stack d p inp w =
     (case iw_pkt w p of
        [] \<Rightarrow> None
      | p0 # ps \<Rightarrow>
          let hlen = unat (IPH_HL_BYTES (current_ip4_header d));
              drop_it = Some (on_e (free_pkt p) w)
          in if hlen < IP_HLEN then drop_it
             else if unat (p_len p0) < 4 then drop_it
             else
               (case payload_read p0 0 1 of
                  [] \<Rightarrow> None
                | typ # _ \<Rightarrow> if typ = 8 then icmp_echo heap stack d hlen p inp w else drop_it))"

section \<open>Input\<close>

definition ip4_input_accept :: "u32 \<Rightarrow> netif \<Rightarrow> bool" where
  "ip4_input_accept dest n \<longleftrightarrow> netif_is_flag_set n NETIF_FLAG_UP \<and> nf_ip_addr n \<noteq> IPADDR_ANY
     \<and> (dest = nf_ip_addr n \<or> ip4_addr_isbroadcast_u32 dest n)"

text \<open>The interface that accepts the packet; the outer \<open>None\<close> is a walk that never ends.\<close>

definition accepting_netif :: "u32 \<Rightarrow> addr \<Rightarrow> iworld \<Rightarrow> addr option option" where
  "accepting_netif dest inp w =
     (let net = x_net (ew_x (iw_e w)); n = nw_mem net inp in
      if ip4_addr_ismulticast dest
      then Some (if netif_is_flag_set n NETIF_FLAG_UP \<and> nf_ip_addr n \<noteq> IPADDR_ANY then Some inp else None)
      else if ip4_input_accept dest n then Some (Some inp)
      else if ip4_addr_isloopback dest then Some None
      else NETIF_FOREACH (\<lambda>a. a \<noteq> inp \<and> ip4_input_accept dest (nw_mem net a)) (nw_mem net) (nw_list net))"

text \<open>To the protocols above.\<close>

definition ip4_deliver ::
    "(nat \<Rightarrow> allocator) \<Rightarrow> u8 list \<Rightarrow> nat \<Rightarrow> ip_globals \<Rightarrow> packet \<Rightarrow> addr \<Rightarrow> iworld \<Rightarrow> iworld option" where
  "ip4_deliver heap stack hlen d p inp w =
     (let (_, c) = pbuf_remove_header (iw_pkt w p) hlen;
          w = on_e (set_pkt p c) w;
          proto = current_ip4_header d ! 9;
          dest = current_iphdr_dest d
      in if proto = IP_PROTO_UDP then Some (on_e (\<lambda>e. e\<lparr>ew_up := ew_up e @ [Udp_Input p inp d]\<rparr>) w)
         else if proto = IP_PROTO_TCP then Some (on_e (\<lambda>e. e\<lparr>ew_up := ew_up e @ [Tcp_Input p inp d]\<rparr>) w)
         else if proto = IP_PROTO_ICMP then icmp_input heap stack d p inp w
         else
           map_option (on_e (free_pkt p))
             (if \<not> ip4_addr_isbroadcast_u32 dest (iw_netif w (current_netif d)) \<and> \<not> ip4_addr_ismulticast dest
              then
                let (_, c) = pbuf_header_force (iw_pkt w p) (of_nat hlen)
                in icmp_dest_unreach heap stack p 2 (on_e (set_pkt p c) w)
              else Some w))"

definition ip4_input ::
    "(nat \<Rightarrow> allocator) \<Rightarrow> u8 list \<Rightarrow> packet \<Rightarrow> addr \<Rightarrow> iworld \<Rightarrow> iworld option" where
  "ip4_input heap stack p inp w =
     (case iw_pkt w p of
        [] \<Rightarrow> None
      | p0 # ps \<Rightarrow>
          let iphdr = payload_read p0 0 IP_HLEN in
          if iphdr = [] then None
          else if IPH_V iphdr \<noteq> 4 then Some (on_e (free_pkt p) w)
          else if length iphdr < 4 then None
          else
            let iphdr_hlen = unat (IPH_HL_BYTES iphdr);
                iphdr_len = lwip_htons (IPH_LEN iphdr)
            in Option.bind
                 (if iphdr_len < p_tot_len p0
                  then map_option (\<lambda>(c, fr, _). on_e (\<lambda>e. (set_pkt p c e)\<lparr>ew_freed := ew_freed e @ fr\<rparr>) w)
                         (pbuf_realloc (p0 # ps) iphdr_len)
                  else Some w)
                 (\<lambda>w.
                    let p0 = hd (iw_pkt w p) in
                    if iphdr_hlen > unat (p_len p0) \<or> iphdr_len > p_tot_len p0 \<or> iphdr_hlen < IP_HLEN
                    then Some (on_e (free_pkt p) w)
                    else
                      let dest = iph_dest iphdr; src = iph_src iphdr in
                      Option.bind (accepting_netif dest inp w)
                        (\<lambda>nif.
                           if ip4_addr_isbroadcast_u32 src (iw_netif w inp) \<or> ip4_addr_ismulticast src
                           then Some (on_e (free_pkt p) w)
                           else
                             (case nif of
                                None \<Rightarrow> Some (on_e (free_pkt p) w)
                              | Some nif \<Rightarrow>
                                  Option.bind
                                    (if IPH_OFFSET iphdr AND lwip_htons (IP_OFFMASK OR IP_MF) \<noteq> 0
                                     then ip4_reass heap stack p w else Some (Some p, w))
                                    (\<lambda>(r, w).
                                       case r of
                                         None \<Rightarrow> Some w
                                       | Some p \<Rightarrow>
                                           let hdr = payload_read (hd (iw_pkt w p)) 0 iphdr_hlen;
                                               d = \<lparr>current_netif = nif, current_input_netif = inp,
                                                    current_ip4_header = hdr,
                                                    current_ip_header_tot_len = ucast (IPH_HL_BYTES hdr),
                                                    current_iphdr_src = src, current_iphdr_dest = dest\<rparr>
                                           in ip4_deliver heap stack iphdr_hlen d p inp w)))))"

text \<open>\<open>None\<close> in the result where the packet is one of IPv6.\<close>

definition ip_input ::
    "(nat \<Rightarrow> allocator) \<Rightarrow> u8 list \<Rightarrow> packet \<Rightarrow> addr \<Rightarrow> iworld \<Rightarrow> iworld option" where
  "ip_input heap stack p inp w =
     (case iw_pkt w p of
        [] \<Rightarrow> None
      | p0 # ps \<Rightarrow>
          (case payload_read p0 0 1 of
             [] \<Rightarrow> None
           | b # _ \<Rightarrow>
               if drop_bit 4 b = 6
               then Some (on_e (\<lambda>e. e\<lparr>ew_up := ew_up e @ [Ip6_Input p inp]\<rparr>) w)
               else ip4_input heap stack p inp w))"

text \<open>
  A frame from the driver: \<open>tcpip_input\<close>, and what it hands to IP at its end, last in \<open>ew_up\<close>.
\<close>

definition stack_input ::
    "(nat \<Rightarrow> allocator) \<Rightarrow> u8 list \<Rightarrow> packet \<Rightarrow> addr \<Rightarrow> iworld \<Rightarrow> iworld option" where
  "stack_input heap stack p inp w =
     Option.bind (tcpip_input heap stack p inp (iw_e w))
       (\<lambda>(_, e).
          if ew_up e = ew_up (iw_e w) then Some (w\<lparr>iw_e := e\<rparr>)
          else
            let taken = w\<lparr>iw_e := e\<lparr>ew_up := butlast (ew_up e)\<rparr>\<rparr> in
            (case last (ew_up e) of
               Ip4_Input q n \<Rightarrow> ip4_input heap stack q n taken
             | Ip_Input q n \<Rightarrow> ip_input heap stack q n taken
             | _ \<Rightarrow> Some (w\<lparr>iw_e := e\<rparr>)))"

end
