(* ===== verification/Ip4_Header.thy ===== *)
theory Ip4_Header
  imports "Ip4_Stack" "Link_Frames"
begin

text \<open>
  The IPv4 header: the fields that are written are the ones that are read, and the checksum that is
  summed up on the way is the one the receiver verifies.
\<close>

section \<open>Bytes\<close>

definition ip_header :: "u8 \<Rightarrow> u16 \<Rightarrow> u16 \<Rightarrow> u16 \<Rightarrow> u8 \<Rightarrow> u8 \<Rightarrow> u16 \<Rightarrow> u32 \<Rightarrow> u32 \<Rightarrow> u8 list" where
  "ip_header tos len ipid offset ttl proto chk src dest =
     [0x45, tos] @ be16 len @ be16 ipid @ be16 offset @ [ttl, proto] @ u16_bytes chk
       @ u32_bytes src @ u32_bytes dest"

lemma length_be16 [simp]: "length (be16 n) = 2"
  by (simp add: be16_def)

lemma length_ip_header [simp]: "length (ip_header tos len ipid offset ttl proto chk src dest) = 20"
  by (simp add: ip_header_def)

lemma be16_u16_bytes: "u16_bytes (lwip_htons n) = be16 n"
  by (simp add: u16_bytes_htons be16_def)

lemma u16_bytes_0: "u16_bytes 0 = be16 0"
  by (simp add: u16_bytes_def be16_def)

lemma u16_at_bytes: "u16_at (xs @ u16_bytes n @ ys) (length xs) = n"
proof (rule bit_word_eqI)
  fix k assume "k < LENGTH(16)"
  then consider "k < 8" | "8 \<le> k" "k < 16" by fastforce
  then show "bit (u16_at (xs @ u16_bytes n @ ys) (length xs)) k = bit n k"
    unfolding u16_at_def u16_bytes_def by cases (auto simp: nth_append bit_simps)
qed

lemma u16_at_be16: "length xs = k \<Longrightarrow> u16_at (xs @ be16 n @ ys) k = lwip_htons n"
  using u16_at_bytes [of xs "lwip_htons n" ys] by (auto simp: be16_u16_bytes)

lemma word_at_bytes: "length xs = k \<Longrightarrow> word_at (xs @ u32_bytes a @ ys) k = a"
  using word_at_append [of xs a ys] by auto

lemma ip_header_reads [simp]:
  fixes tos ttl proto :: u8 and len ipid offset chk :: u16 and src dest :: u32
  defines "h \<equiv> ip_header tos len ipid offset ttl proto chk src dest"
  shows "IPH_V h = 4" "IPH_HL_BYTES h = 20" "IPH_LEN h = lwip_htons len" "IPH_ID h = lwip_htons ipid"
    "IPH_OFFSET h = lwip_htons offset" "iph_src h = src" "iph_dest h = dest" "h ! 9 = proto"
proof -
  show "IPH_V h = 4" "IPH_HL_BYTES h = 20" "h ! 9 = proto"
    by (simp_all add: h_def IPH_V_def IPH_HL_BYTES_def ip_header_def be16_def)
  show "IPH_LEN h = lwip_htons len" using u16_at_be16 [of "[0x45, tos]" 2 len]
    by (simp add: IPH_LEN_def h_def ip_header_def)
  show "IPH_ID h = lwip_htons ipid" using u16_at_be16 [of "[0x45, tos] @ be16 len" 4 ipid]
    by (simp add: IPH_ID_def h_def ip_header_def)
  show "IPH_OFFSET h = lwip_htons offset" using u16_at_be16 [of "[0x45, tos] @ be16 len @ be16 ipid" 6 offset]
    by (simp add: IPH_OFFSET_def h_def ip_header_def)
  show "iph_src h = src"
    using word_at_bytes [of "[0x45, tos] @ be16 len @ be16 ipid @ be16 offset @ [ttl, proto] @ u16_bytes chk" 12]
    by (simp add: iph_src_def h_def ip_header_def)
  show "iph_dest h = dest"
    using word_at_bytes [of "[0x45, tos] @ be16 len @ be16 ipid @ be16 offset @ [ttl, proto] @ u16_bytes chk
        @ u32_bytes src" 16 dest "[]"]
    by (simp add: iph_dest_def h_def ip_header_def)
qed

lemma ip_fields_bytes:
  assumes "length h = 20"
  shows "fold (\<lambda>(k, bs) d. mem_write d k bs) (ip_fields ttl proto dest tos len ipid src) (h @ data)
    = (let x = take 2 (drop 10 h) in
       [0x45, tos] @ be16 len @ be16 ipid @ be16 0 @ [ttl, proto] @ x @ u32_bytes src @ u32_bytes dest @ data)"
proof -
  obtain h0 h1 h2 h3 h4 h5 h6 h7 h8 h9 h10 h11 h12 h13 h14 h15 h16 h17 h18 h19
    where h: "h = [h0, h1, h2, h3, h4, h5, h6, h7, h8, h9, h10, h11, h12, h13, h14, h15, h16, h17, h18, h19]"
    using assms by (auto simp: length_Suc_conv numeral_eq_Suc)
  show ?thesis
    by (simp add: h ip_fields_def mem_write_def u16_bytes_htons be16_def u16_bytes_0 u32_bytes_def Let_def)
qed

section \<open>The checksum\<close>

lemma u32_bytes_mem32: "u32_bytes a = mem32 a"
  by (simp add: u32_bytes_def mem32_def)

lemma u16_bytes_eq: "u16_bytes c = [ucast c, ucast (drop_bit 8 c)]"
  by (simp add: u16_bytes_def)

text \<open>Summing up while storing gives what \<open>inet_chksum\<close> gives on the header with an empty field.\<close>

lemma halves_sum: "unat (a AND 0xFFFF) + unat (drop_bit 16 a) = le_sum (mem32 a)" for a :: u32
proof -
  have "a AND 0xFFFF = take_bit 16 a" by (simp add: take_bit_eq_mask mask_eq_exp_minus_1)
  then show ?thesis by (simp add: le_sum_mem32 unat_take_bit unat_drop_bit)
qed

lemma two_bytes_sum: "unat (lwip_htons (ucast b OR push_bit 8 (ucast a))) = unat a + 256 * unat b"
  for a b :: u8
proof -
  have "lwip_htons (ucast b OR push_bit 8 (ucast a)) = le16 a b"
    unfolding lwip_htons_def byte_masks le16_def by (auto intro!: bit_word_eqI simp: bit_simps u8_high_bit)
  then show ?thesis by (simp add: unat_le16)
qed

lemma le_sum_ip_header:
  "le_sum (ip_header tos len ipid offset ttl proto chk src dest) =
     unat (lwip_htons (ucast tos OR push_bit 8 0x45)) + unat (lwip_htons len) + unat (lwip_htons ipid)
     + unat (lwip_htons offset) + unat (lwip_htons (ucast proto OR push_bit 8 (ucast ttl))) + unat chk
     + le_sum (mem32 src) + le_sum (mem32 dest)"
proof -
  have v: "unat (lwip_htons (ucast tos OR 17664)) = 69 + 256 * unat tos"
    using two_bytes_sum [of tos "0x45"] by simp
  have c: "le_sum (u16_bytes chk) = unat chk"
  proof -
    have "unat chk div 256 < 256" using unat_u16_lt [of chk] by (simp add: less_mult_imp_div_less)
    then show ?thesis by (simp add: u16_bytes_def unat_ucast_u8 unat_drop_bit)
  qed
  show ?thesis unfolding ip_header_def u32_bytes_mem32
    by (simp add: le_sum_even le_sum_be16 v c two_bytes_sum)
qed

lemma sum8:
  fixes a b c d e f g h :: u32
  assumes "unat a < 65536" "unat b < 65536" "unat c < 65536" "unat d < 65536"
    "unat e < 65536" "unat f < 65536" "unat g < 65536" "unat h < 65536"
  shows "unat (a + b + c + d + e + f + g + h)
    = unat a + unat b + unat c + unat d + unat e + unat f + unat g + unat h"
  using assms by (simp add: unat_word_ariths)

lemma unat_low_half: "unat (a AND 0xFFFF) < 65536" "unat (drop_bit 16 a) < 65536" for a :: u32
proof -
  have "a AND 0xFFFF = take_bit 16 a" by (simp add: take_bit_eq_mask mask_eq_exp_minus_1)
  then show "unat (a AND 0xFFFF) < 65536" by (simp add: unat_take_bit)
  show "unat (drop_bit 16 a) < 65536" using unat_u32_lt [of a] by (simp add: unat_drop_bit less_mult_imp_div_less)
qed

lemma ucast_NOT_u16: "ucast (NOT c) = (NOT (ucast c) :: u16)" for c :: u32
  by (auto intro!: bit_word_eqI simp: bit_simps)

lemma inline_chksum_eq:
  "inline_chksum ttl proto dest tos len ipid src
     = inet_chksum at_odd (ip_header tos len ipid 0 ttl proto 0 src dest)"
proof -
  define x where "x = ucast (lwip_htons (ucast proto OR push_bit 8 (ucast ttl))) + (dest AND 0xFFFF)
    + drop_bit 16 dest + ucast (lwip_htons (ucast tos OR push_bit 8 0x45)) + ucast (lwip_htons len)
    + ucast (lwip_htons ipid) + (src AND 0xFFFF) + drop_bit 16 src"
  define S where "S = le_sum (ip_header tos len ipid 0 ttl proto 0 src dest)"
  have "unat x = S"
    unfolding x_def
    by (subst sum8)
       (simp_all add: unat_low_half unat_u16_lt S_def le_sum_ip_header halves_sum [symmetric] unat_ucast_u16_u32
          lwip_htons_def)
  then have r: "rep (unat (FOLD_U32T (FOLD_U32T x))) S" by (simp add: rep_FOLD rep_refl)
  define c where "c = FOLD_U32T x"
  have "unat (ucast (drop_bit 16 c + c) :: u16) = unat (FOLD_U32T c)"
  proof -
    have l: "unat (FOLD_U32T c) \<le> 65535" using fold_fold_le [of x] by (simp add: c_def)
    have "unat (ucast (drop_bit 16 c + c) :: u16) = (unat c div 65536 + unat c) mod 65536"
      by (simp add: unat_ucast_u32_u16 unat_word_ariths unat_drop_bit mod_mod_cancel)
    also have "\<dots> = (unat c div 65536 + unat c mod 65536) mod 65536" by (simp add: mod_simps)
    finally show ?thesis using l by (simp add: unat_FOLD)
  qed
  also have "\<dots> = ocsum S" using r fold_fold_le [of x] rep_unique c_def by blast
  finally have "unat (ucast (drop_bit 16 c + c) :: u16)
      = unat (lwip_standard_chksum at_odd (ip_header tos len ipid 0 ttl proto 0 src dest))"
    by (simp add: lwip_standard_chksum_ocsum S_def)
  then have "(ucast (drop_bit 16 c + c) :: u16)
      = lwip_standard_chksum at_odd (ip_header tos len ipid 0 ttl proto 0 src dest)" by (simp add: word_unat_eq_iff)
  moreover have "inline_chksum ttl proto dest tos len ipid src = NOT (ucast (drop_bit 16 c + c))"
    unfolding inline_chksum_def Let_def c_def FOLD_U32T_def x_def by (simp add: ucast_NOT_u16 ac_simps)
  ultimately show ?thesis by (simp add: inet_chksum_def)
qed

lemma header_verifies:
  "c = inet_chksum at_odd (ip_header tos len ipid offset ttl proto 0 src dest) \<Longrightarrow>
     inet_chksum at_odd' (ip_header tos len ipid offset ttl proto c src dest) = 0"
  using filled_chksum [of "[0x45, tos] @ be16 len @ be16 ipid @ be16 offset @ [ttl, proto]" 5
      "u32_bytes src @ u32_bytes dest" c at_odd at_odd']
  by (simp add: ip_header_def u16_bytes_def)

end
