(* ===== verification/Ip4_Output.thy ===== *)
theory Ip4_Output
  imports Ip4_Header "Link_Resolve"
begin

text \<open>
  Sending an IPv4 packet to a neighbour whose link address is known: from \<open>ip4_output\<close> to the frame
  the node gets.
\<close>

section \<open>A known neighbour\<close>

text \<open>A resolved entry that needs no new request yet.\<close>

definition known_entry :: "eworld \<Rightarrow> nat \<Rightarrow> addr \<Rightarrow> u32 \<Rightarrow> u8 list \<Rightarrow> bool" where
  "known_entry e i nif ip mac \<longleftrightarrow> i < 64 \<and> ge_stable (ae_state (ew_table e ! i))
     \<and> entry_key (ew_table e ! i) = (ip, Some nif) \<and> ae_ethaddr (ew_table e ! i) = mac
     \<and> (ae_state (ew_table e ! i) = ETHARP_STATE_STABLE \<longrightarrow> ae_ctime (ew_table e ! i) < 270)"

lemma known_unique:
  assumes "tab_ok nets (ew_table e)" "known_entry e i nif ip mac" "j < 64"
    "ge_stable (ae_state (ew_table e ! j))" "entry_key (ew_table e ! j) = (ip, Some nif)"
  shows "j = i"
  using assms ge_stable_live unfolding tab_ok_def unique_keys_def known_entry_def by metis

lemma hinted_sound:
  "hinted_index ip nif e = Some j \<Longrightarrow> j < 64 \<and> ge_stable (ae_state (ew_table e ! j))
     \<and> entry_key (ew_table e ! j) = (ip, Some nif)"
  by (auto simp: hinted_index_def Let_def split: option.splits if_splits)

lemma stable_index_sound:
  "stable_index ip nif k es = Some j \<Longrightarrow> k \<le> j \<and> j < k + length es \<and> ge_stable (ae_state (es ! (j - k)))
     \<and> entry_key (es ! (j - k)) = (ip, Some nif)"
proof (induction es arbitrary: k)
  case (Cons a es)
  show ?case
  proof (cases "ge_stable (ae_state a) \<and> ae_netif a = Some nif \<and> ip = ae_ipaddr a")
    case False
    then have "stable_index ip nif (Suc k) es = Some j" using Cons.prems by (simp only: stable_index.simps if_False)
    note ih = Cons.IH [OF this]
    then have "j - k = Suc (j - Suc k)" by linarith
    then show ?thesis using ih by simp
  qed (use Cons.prems in auto)
qed simp

lemma stable_index_complete:
  "j < length es \<Longrightarrow> ge_stable (ae_state (es ! j)) \<Longrightarrow> entry_key (es ! j) = (ip, Some nif) \<Longrightarrow>
     stable_index ip nif k es \<noteq> None"
proof (induction es arbitrary: k j)
  case (Cons a es)
  then show ?case by (cases j) auto
qed simp

lemma etharp_output_known:
  assumes "tab_ok (ew_netif e) (ew_table e)" "known_entry e i nif ip mac" "driver_up nif e" "on_link (ew_netif e nif) ip"
    "roomy (ew_pkt e p)" "length stack = 2048"
  shows "\<exists>c h. etharp_output heap stack nif p ip e
      = Some (ERR_OK, (set_pkt p c e)\<lparr>ew_hint := h, ew_x := emit (node_frame e nif (nf_hwaddr (ew_netif e nif)) mac 0x0800
               (pbytes (ew_pkt e p))) (ew_x e)\<rparr>)
    \<and> pkt_ok c \<and> map p_ref c = refs e p"
proof -
  have k: "i < 64" "ge_stable (ae_state (ew_table e ! i))" "entry_key (ew_table e ! i) = (ip, Some nif)"
      "ae_ethaddr (ew_table e ! i) = mac" "ae_state (ew_table e ! i) = ETHARP_STATE_STABLE \<longrightarrow> ae_ctime (ew_table e ! i) < 270"
    using assms(2) by (auto simp: known_entry_def)
  have len: "length (ew_table e) = 64" "length mac = 6"
    using assms(1) tab_ok_entry [OF assms(1) k(1)] k(4) by (auto simp: tab_ok_def entry_ok_def)
  have late: "\<not> 285 \<le> ae_ctime (ew_table e ! i)" "\<not> 270 \<le> ae_ctime (ew_table e ! i)"
    if "ae_state (ew_table e ! i) = ETHARP_STATE_STABLE"
    using k(5) that by (auto simp: word_less_nat_alt word_le_nat_alt)
  have send: "\<exists>c. etharp_output_to_arp_index heap stack nif p i (e\<lparr>ew_hint := h\<rparr>)
      = Some (ERR_OK, (set_pkt p c e)\<lparr>ew_hint := h, ew_x := emit (node_frame e nif (nf_hwaddr (ew_netif e nif)) mac 0x0800
               (pbytes (ew_pkt e p))) (ew_x e)\<rparr>)
    \<and> pkt_ok c \<and> map p_ref c = refs e p" for h
  proof -
    let ?e = "e\<lparr>ew_hint := h\<rparr>"
    have d: "driver_up nif ?e" "roomy (ew_pkt ?e p)" "node_frame ?e = node_frame e" "length (nf_hwaddr (ew_netif ?e nif)) = 6"
      using assms(3,5) by (auto simp: driver_up_def node_frame_def fun_eq_iff eth_netif_def)
    obtain c where "ethernet_output stack nif p (nf_hwaddr (ew_netif ?e nif)) mac 0x0800 ?e
        = Some (ERR_OK, (set_pkt p c ?e)\<lparr>ew_x := emit (node_frame ?e nif (nf_hwaddr (ew_netif ?e nif)) mac 0x0800
             (pbytes (ew_pkt ?e p))) (ew_x ?e)\<rparr>)" "pkt_ok c" "map p_ref c = map p_ref (ew_pkt ?e p)"
      using ethernet_output_sends [OF d(2,1,4) len(2) assms(6)] by blast
    then show ?thesis using late k(4) d(3)
      by (intro exI [of _ c]) (auto simp: etharp_output_to_arp_index_def Let_def refs_def set_pkt_def)
  qed
  have o: "\<not> ip4_addr_isbroadcast_u32 ip (ew_netif e nif)" "\<not> ip4_addr_ismulticast ip"
      "ip AND nf_netmask (ew_netif e nif) = nf_ip_addr (ew_netif e nif) AND nf_netmask (ew_netif e nif)"
    using assms(4) by (auto simp: on_link_def)
  have "\<exists>h. etharp_output heap stack nif p ip e = etharp_output_to_arp_index heap stack nif p i (e\<lparr>ew_hint := h\<rparr>)"
  proof (cases "hinted_index ip nif e")
    case (Some j)
    then have "j = i" using hinted_sound [OF Some] known_unique [OF assms(1,2)] by blast
    then show ?thesis using o Some by (intro exI [of _ "ew_hint e"]) (simp add: etharp_output_def Let_def)
  next
    case None
    obtain j where j: "stable_index ip nif 0 (ew_table e) = Some j"
      using stable_index_complete [of i "ew_table e" ip nif 0] k len by auto
    then have "j = i" using stable_index_sound [OF j] known_unique [OF assms(1,2)] len by auto
    moreover obtain h where "set_addrhint nif i e = e\<lparr>ew_hint := h\<rparr>"
      by (cases "nf_hints (ew_netif e nif)") (auto simp: set_addrhint_def intro: that [of "ew_hint e"])
    ultimately show ?thesis using o None j by (intro exI [of _ h]) (simp add: etharp_output_def Let_def)
  qed
  then obtain h where h: "etharp_output heap stack nif p ip e = etharp_output_to_arp_index heap stack nif p i (e\<lparr>ew_hint := h\<rparr>)" ..
  show ?thesis unfolding h using send [of h] by blast
qed

section \<open>Room for a header\<close>

lemma add_header_room:
  assumes "pkt_ok (p # ps)" "contiguous p" "int n \<le> p_payload p" "n + plen (p # ps) < 65536" "0 < n"
  shows "\<exists>q h. pbuf_add_header (p # ps) n = (0, q # ps) \<and> pkt_ok (q # ps) \<and> length h = n \<and> pdata q = h @ pdata p
    \<and> p_ref q = p_ref p \<and> unat (p_len q) = n + unat (p_len p) \<and> p_payload q = p_payload p - int n
    \<and> contiguous q \<and> p_flags q = p_flags p \<and> unat (p_tot_len q) = n + plen (p # ps)"
proof -
  define q where "q = p\<lparr>p_payload := p_payload p - int n, p_len := p_len p + of_nat n,
    p_tot_len := p_tot_len p + of_nat n\<rparr>"
  have wf: "wf_chain (p # ps)" "one_packet (p # ps)" using assms(1) by (auto simp: pkt_ok_def)
  note g = wf_grow_front [OF wf(1) assms(3,4), folded q_def]
  have "pbuf_add_header (p # ps) n = (0, q # ps)"
    using pbuf_add_header_cases [OF wf(1), of False n] assms(2-5) unfolding pbuf_add_header_def q_def by auto
  moreover have "length (take n (drop (nat (p_payload p) - n) (p_mem p))) = n"
    using wf(1) assms(3) by (auto simp: wf_chain_Cons wf_pbuf_def)
  moreover have "one_packet (q # ps)" using wf(2) by (auto simp: q_def)
  moreover have "unat (p_tot_len q) = n + plen (p # ps)" using g by (simp add: wf_chain_Cons)
  ultimately show ?thesis using g assms(2)
    by (intro exI [of _ q] exI [of _ "take n (drop (nat (p_payload p) - n) (p_mem p))"])
       (simp add: pkt_ok_def q_def contiguous_def)
qed

lemma put_fields_pkt [simp]: "ew_pkt e p = p0 # ps \<Longrightarrow> put_fields p fs e = set_pkt p (write_fields fs p0 # ps) e"
  by (simp add: put_fields_def)

lemma write_fields_flags [simp]: "p_flags (write_fields fs p) = p_flags p"
  unfolding write_fields_def by (induction fs arbitrary: p) (auto simp: case_prod_beta)

lemma write_fields_append: "write_fields gs (write_fields fs p) = write_fields (fs @ gs) p"
  by (simp add: write_fields_def)

lemma pkt_ok_write:
  assumes "pkt_ok (p # ps)" "\<forall>(k, bs) \<in> set fs. k + length bs \<le> unat (p_len p)"
  shows "pkt_ok (write_fields fs p # ps)"
    "pdata (write_fields fs p) = fold (\<lambda>(k, bs) d. mem_write d k bs) fs (pdata p)"
  using assms write_fields_data [of p fs] by (auto simp: pkt_ok_def wf_chain_Cons)

lemma set_pkt_twice [simp]: "set_pkt p a (set_pkt p b e) = set_pkt p a e"
  by (simp add: set_pkt_def)

lemma plen_Cons_pbytes: "wf_chain (p # ps) \<Longrightarrow> plen (p # ps) = length (pdata p) + plen ps"
  by (simp add: chain_simps)

section \<open>The header\<close>

lemma ip_header_chk:
  assumes "length h = 20"
  shows "fold (\<lambda>(k, bs) d. mem_write d k bs) (ip_fields ttl proto dest tos len ipid src @ [(10, u16_bytes chk)]) (h @ data)
    = ip_header tos len ipid 0 ttl proto chk src dest @ data"
proof -
  define x where "x = take 2 (drop 10 h)"
  have x: "length x = 2" using assms by (simp add: x_def)
  have "fold (\<lambda>(k, bs) d. mem_write d k bs) (ip_fields ttl proto dest tos len ipid src @ [(10, u16_bytes chk)]) (h @ data)
      = mem_write (([0x45, tos] @ be16 len @ be16 ipid @ be16 0 @ [ttl, proto]) @ x @ u32_bytes src @ u32_bytes dest @ data)
          10 (u16_bytes chk)"
    using ip_fields_bytes [OF assms, of ttl proto dest tos len ipid src data]
    by (simp add: x_def [symmetric] Let_def)
  also have "\<dots> = ip_header tos len ipid 0 ttl proto chk src dest @ data"
    using mem_write_append_right [of "[0x45, tos] @ be16 len @ be16 ipid @ be16 0 @ [ttl, proto]"
        "x @ u32_bytes src @ u32_bytes dest @ data" 0 "u16_bytes chk"] x
    by (simp add: ip_header_def mem_write_def)
  finally show ?thesis .
qed

lemma ip_fields_fit:
  "20 \<le> n \<Longrightarrow> \<forall>(k, bs) \<in> set (ip_fields ttl proto dest tos len ipid src @ [(10, u16_bytes chk)]). k + length bs \<le> n"
  by (simp add: ip_fields_def)

text \<open>The source of a packet for which the caller may have given none.\<close>

definition source_of :: "u32 option \<Rightarrow> netif \<Rightarrow> u32" where
  "source_of src n = (if src = None \<or> src = Some IPADDR_ANY then nf_ip_addr n else the src)"

lemma ip4_output_if_builds:
  assumes c: "iw_pkt w p = p0 # ps" "pkt_ok (p0 # ps)" "contiguous p0" "20 \<le> p_payload p0" "20 + plen (p0 # ps) < 65536"
    and f: "p_flags p0 AND 4 = 0" "dest \<noteq> nf_ip_addr (iw_netif w nif)"
      "nf_mtu (iw_netif w nif) = 0 \<or> 20 + plen (p0 # ps) \<le> unat (nf_mtu (iw_netif w nif))"
  shows "\<exists>q chk. ip4_output_if heap stack p src (Some dest) ttl tos proto nif w
      = call_e (netif_output heap stack nif p dest)
          (w\<lparr>iw_e := set_pkt p (q # ps) (iw_e w), iw_ip_id := iw_ip_id w + 1\<rparr>)
    \<and> pkt_ok (q # ps) \<and> p_ref q = p_ref p0 \<and> contiguous q \<and> p_payload q = p_payload p0 - 20
    \<and> pdata q = ip_header tos (of_nat (20 + plen (p0 # ps))) (iw_ip_id w) 0 ttl proto chk (source_of src (iw_netif w nif)) dest @ pdata p0
    \<and> inet_chksum at_odd (ip_header tos (of_nat (20 + plen (p0 # ps))) (iw_ip_id w) 0 ttl proto chk (source_of src (iw_netif w nif)) dest) = 0"
proof -
  have "int 20 \<le> p_payload p0" "0 < (20 :: nat)" using c(4) by simp_all
  from add_header_room [OF c(2,3) this(1) c(5) this(2)] obtain q1 h where q1: "pbuf_add_header (p0 # ps) 20 = (0, q1 # ps)"
      "pkt_ok (q1 # ps)" "length h = 20" "pdata q1 = h @ pdata p0" "p_ref q1 = p_ref p0"
      "unat (p_len q1) = 20 + unat (p_len p0)" "p_payload q1 = p_payload p0 - int 20" "contiguous q1"
      "p_flags q1 = p_flags p0" "unat (p_tot_len q1) = 20 + plen (p0 # ps)" by blast
  have tot: "p_tot_len q1 = of_nat (20 + plen (p0 # ps))" using arg_cong [OF q1(10), of "of_nat :: nat \<Rightarrow> u16"] by simp
  define s where "s = source_of src (iw_netif w nif)"
  define len where "len = p_tot_len q1"
  define chk where "chk = inline_chksum ttl proto dest tos len (iw_ip_id w) s"
  define q where "q = write_fields (ip_fields ttl proto dest tos len (iw_ip_id w) s @ [(10, u16_bytes chk)]) q1"
  have fit: "\<forall>(k, bs) \<in> set (ip_fields ttl proto dest tos len (iw_ip_id w) s @ [(10, u16_bytes chk)]). k + length bs \<le> unat (p_len q1)"
    by (rule ip_fields_fit) (simp add: q1(6))
  have q: "pkt_ok (q # ps)" "pdata q = ip_header tos len (iw_ip_id w) 0 ttl proto chk s dest @ pdata p0"
    using pkt_ok_write [OF q1(2) fit] ip_header_chk [OF q1(3)] by (simp_all add: q_def q1(4))
  have "inet_chksum at_odd (ip_header tos len (iw_ip_id w) 0 ttl proto chk s dest) = 0"
    by (rule header_verifies [of _ at_odd]) (simp add: chk_def inline_chksum_eq [of _ _ _ _ _ _ _ at_odd])
  moreover have "ip4_output_if heap stack p src (Some dest) ttl tos proto nif w
      = call_e (netif_output heap stack nif p dest)
          (w\<lparr>iw_e := set_pkt p (q # ps) (iw_e w), iw_ip_id := iw_ip_id w + 1\<rparr>)"
  proof -
    have "\<not> (nf_mtu (iw_netif w nif) \<noteq> 0 \<and> nf_mtu (iw_netif w nif) < p_tot_len q1)"
      using f(3) q1(10) by (auto simp: word_less_nat_alt)
    then show ?thesis using f(1,2) q1(1,9)
      by (auto simp: ip4_output_if_def ip4_output_if_src_def Let_def c(1) s_def source_of_def len_def chk_def q_def
          write_fields_append)
  qed
  ultimately show ?thesis using q q1(5,7,8) unfolding len_def tot
    by (intro exI [of _ q] exI [of _ chk]) (simp add: q_def contiguous_def s_def)
qed

section \<open>Onto the wire\<close>

text \<open>A neighbour on the network of an Ethernet interface that is up, its address in the cache.\<close>

definition neighbour :: "eworld \<Rightarrow> nat \<Rightarrow> addr \<Rightarrow> u32 \<Rightarrow> u8 list \<Rightarrow> bool" where
  "neighbour e i nif ip mac \<longleftrightarrow> tab_ok (ew_netif e) (ew_table e) \<and> known_entry e i nif ip mac
     \<and> driver_up nif e \<and> on_link (ew_netif e nif) ip \<and> nf_output (ew_netif e nif) = Some Etharp_Output"

lemma neighbour_cong:
  assumes "ew_x e' = ew_x e" "ew_table e' = ew_table e"
  shows "neighbour e' = neighbour e"
proof -
  have "ew_netif e' = ew_netif e" by (simp add: ew_netif_def assms fun_eq_iff)
  then show ?thesis by (intro ext) (simp add: neighbour_def known_entry_def driver_up_def assms)
qed

lemma neighbour_world [simp]:
  "neighbour (set_pkt p c e) = neighbour e" "neighbour (e\<lparr>ew_up := us\<rparr>) = neighbour e"
  by (rule neighbour_cong; simp add: set_pkt_def)+

lemma node_frame_set_pkt [simp]: "node_frame (set_pkt p c e) = node_frame e"
  by (simp add: node_frame_def fun_eq_iff)

lemma netif_output_known:
  assumes "neighbour e i nif ip mac" "roomy (ew_pkt e p)" "length stack = 2048"
  shows "\<exists>c h. netif_output heap stack nif p ip e
      = Some (ERR_OK, (set_pkt p c e)\<lparr>ew_hint := h, ew_x := emit (node_frame e nif (nf_hwaddr (ew_netif e nif)) mac 0x0800
               (pbytes (ew_pkt e p))) (ew_x e)\<rparr>)
    \<and> pkt_ok c \<and> map p_ref c = refs e p"
  using etharp_output_known [of e i nif ip mac p stack heap] assms by (simp add: neighbour_def netif_output_def)

lemma pbytes_Cons: "pbytes (q # ps) = pdata q @ pbytes ps"
  by (simp add: pbytes_def)

lemma ip4_output_if_known:
  assumes nb: "neighbour (iw_e w) i nif dest mac" and stack: "length stack = 2048"
    and c: "iw_pkt w p = p0 # ps" "pkt_ok (p0 # ps)" "contiguous p0" "34 \<le> p_payload p0" "20 + plen (p0 # ps) \<le> 2034"
    and f: "p_flags p0 AND 4 = 0" "dest \<noteq> nf_ip_addr (iw_netif w nif)"
      "nf_mtu (iw_netif w nif) = 0 \<or> 20 + plen (p0 # ps) \<le> unat (nf_mtu (iw_netif w nif))"
  shows "\<exists>v chk. ip4_output_if heap stack p src (Some dest) ttl tos proto nif w = Some (ERR_OK, v)
    \<and> x_events (ew_x (iw_e v)) = x_events (ew_x (iw_e w))
        @ [node_frame (iw_e w) nif (nf_hwaddr (iw_netif w nif)) mac 0x0800
             (ip_header tos (of_nat (20 + plen (p0 # ps))) (iw_ip_id w) 0 ttl proto chk (source_of src (iw_netif w nif)) dest @ pbytes (p0 # ps))]
    \<and> inet_chksum at_odd (ip_header tos (of_nat (20 + plen (p0 # ps))) (iw_ip_id w) 0 ttl proto chk (source_of src (iw_netif w nif)) dest) = 0
    \<and> iw_ip_id v = iw_ip_id w + 1 \<and> refs (iw_e v) p = refs (iw_e w) p"
proof -
  have "20 \<le> p_payload p0" "20 + plen (p0 # ps) < 65536" using c(4,5) by simp_all
  from ip4_output_if_builds [OF c(1-3) this f, of heap stack src ttl tos proto at_odd]
  obtain q chk where q: "ip4_output_if heap stack p src (Some dest) ttl tos proto nif w
        = call_e (netif_output heap stack nif p dest)
          (w\<lparr>iw_e := set_pkt p (q # ps) (iw_e w), iw_ip_id := iw_ip_id w + 1\<rparr>)"
      "pkt_ok (q # ps)" "p_ref q = p_ref p0" "contiguous q" "p_payload q = p_payload p0 - 20"
      "pdata q = ip_header tos (of_nat (20 + plen (p0 # ps))) (iw_ip_id w) 0 ttl proto chk (source_of src (iw_netif w nif)) dest @ pdata p0"
      "inet_chksum at_odd (ip_header tos (of_nat (20 + plen (p0 # ps))) (iw_ip_id w) 0 ttl proto chk (source_of src (iw_netif w nif)) dest) = 0"
    by blast
  let ?e = "set_pkt p (q # ps) (iw_e w)"
  have "plen (q # ps) = 20 + plen (p0 # ps)"
    using plen_Cons_pbytes [of q ps] plen_Cons_pbytes [of p0 ps] q(2,6) c(2) by (simp add: pkt_ok_def)
  then have "roomy (ew_pkt ?e p)" using q(2,4,5) c(4,5) by (simp add: roomy_def)
  moreover have "neighbour ?e i nif dest mac" using nb by simp
  ultimately obtain c' h where o: "netif_output heap stack nif p dest ?e
      = Some (ERR_OK, (set_pkt p c' ?e)\<lparr>ew_hint := h, ew_x := emit (node_frame ?e nif (nf_hwaddr (ew_netif ?e nif)) mac 0x0800
               (pbytes (ew_pkt ?e p))) (ew_x ?e)\<rparr>)" "map p_ref c' = refs ?e p"
    using netif_output_known stack by blast
  define v where "v = w\<lparr>iw_e := (set_pkt p c' ?e)\<lparr>ew_hint := h, ew_x := emit (node_frame ?e nif (nf_hwaddr (ew_netif ?e nif))
      mac 0x0800 (pbytes (ew_pkt ?e p))) (ew_x ?e)\<rparr>, iw_ip_id := iw_ip_id w + 1\<rparr>"
  have "ip4_output_if heap stack p src (Some dest) ttl tos proto nif w = Some (ERR_OK, v)"
    unfolding q(1) by (simp add: call_e_def o v_def)
  moreover have "refs (iw_e v) p = refs (iw_e w) p"
    using o(2) by (simp add: refs_def v_def c(1) q(3))
  moreover have "iw_ip_id v = iw_ip_id w + 1" by (simp add: v_def)
  moreover have "x_events (ew_x (iw_e v)) = x_events (ew_x (iw_e w))
        @ [node_frame (iw_e w) nif (nf_hwaddr (iw_netif w nif)) mac 0x0800
             (ip_header tos (of_nat (20 + plen (p0 # ps))) (iw_ip_id w) 0 ttl proto chk
               (source_of src (iw_netif w nif)) dest @ pbytes (p0 # ps))]"
    by (simp add: v_def emit_events pbytes_Cons q(6))
  ultimately show ?thesis using q(7) by blast
qed

lemma ip4_route_first:
  assumes "netif_ok (x_net (ew_x (iw_e w))) xs" "List.find (\<lambda>a. route_matches dest (iw_netif w a)) xs = Some nif"
    "\<not> ip4_addr_ismulticast dest"
  shows "ip4_route dest w = Some (Some nif)"
  using assms NETIF_FOREACH_lseg [of "nw_mem (x_net (ew_x (iw_e w)))" "nw_list (x_net (ew_x (iw_e w)))" xs]
  by (simp add: ip4_route_def netif_ok_def ew_netif_def Let_def)

text \<open>
  C0. Sending an IPv4 packet to a neighbour: the destination is another address on the network of an
  Ethernet interface that is up, its link address is in the cache and not yet due for a new request,
  and the packet has room for both headers in front, is not marked for multicast loopback and fits
  the MTU and the buffer of the driver. The first interface of the list that is up and has the
  destination on its network is used, and the node gets
  one frame from the interface's address to the neighbour's. It holds an IPv4 header with the length
  of the packet, the next identification, no fragment bits, the caller's TTL, type of service and
  protocol, the source (the interface's own address where the caller gives none) and the destination,
  followed by exactly the bytes of the packet. The checksum of the header, computed inline from its
  fields, verifies. The identification counter goes up by one and the packet's references stay as
  they were.
\<close>

theorem ip4_output_on_wire:
  assumes nb: "neighbour (iw_e w) i nif dest mac" "netif_ok (x_net (ew_x (iw_e w))) xs"
      "List.find (\<lambda>a. route_matches dest (iw_netif w a)) xs = Some nif" "length stack = 2048"
    and c: "iw_pkt w p = p0 # ps" "pkt_ok (p0 # ps)" "contiguous p0" "34 \<le> p_payload p0" "20 + plen (p0 # ps) \<le> 2034"
    and f: "p_flags p0 AND 4 = 0" "dest \<noteq> nf_ip_addr (iw_netif w nif)"
      "nf_mtu (iw_netif w nif) = 0 \<or> 20 + plen (p0 # ps) \<le> unat (nf_mtu (iw_netif w nif))"
  shows "\<exists>v chk. ip4_output heap stack p src dest ttl tos proto w = Some (ERR_OK, v)
    \<and> x_events (ew_x (iw_e v)) = x_events (ew_x (iw_e w))
        @ [node_frame (iw_e w) nif (nf_hwaddr (iw_netif w nif)) mac 0x0800
             (ip_header tos (of_nat (20 + plen (p0 # ps))) (iw_ip_id w) 0 ttl proto chk (source_of src (iw_netif w nif)) dest @ pbytes (p0 # ps))]
    \<and> inet_chksum at_odd (ip_header tos (of_nat (20 + plen (p0 # ps))) (iw_ip_id w) 0 ttl proto chk (source_of src (iw_netif w nif)) dest) = 0
    \<and> iw_ip_id v = iw_ip_id w + 1 \<and> refs (iw_e v) p = refs (iw_e w) p"
proof -
  have "ip4_route dest w = Some (Some nif)"
    by (rule ip4_route_first [OF nb(2,3)]) (use nb(1) in \<open>simp add: neighbour_def on_link_def\<close>)
  then show ?thesis
    using ip4_output_if_known [OF nb(1,4) c f, of heap src ttl tos proto at_odd] by (simp add: ip4_output_def)
qed

definition sample_if :: netif where
  "sample_if = sample_eth\<lparr>nf_flags := 0x1f, nf_output := Some Etharp_Output, nf_mtu := 1500, nf_next := None\<rparr>"

text \<open>One interface with address 10.0.0.1/24, and 10.0.0.2 in its cache.\<close>

definition sample_ip :: iworld where
  "sample_ip = \<lparr>iw_e = sample_link
       \<lparr>ew_x := sample_world\<lparr>x_net := nworld0\<lparr>nw_mem := (\<lambda>_. sample_if), nw_list := Some 0\<rparr>\<rparr>,
        ew_table := arp_table0[0 := empty_entry\<lparr>ae_state := ETHARP_STATE_STABLE, ae_ipaddr := IP4_ADDR 10 0 0 2,
          ae_netif := Some 0, ae_ethaddr := [2, 0, 0, 0, 0, 9]\<rparr>]\<rparr>,
     iw_ip_id = 7, iw_default_multicast = None, iw_reass = [], iw_pbufcount = 0\<rparr>"

lemma sample_ip_facts:
  "iw_netif sample_ip = (\<lambda>_. sample_if)" "neighbour (iw_e sample_ip) 0 0 (IP4_ADDR 10 0 0 2) [2, 0, 0, 0, 0, 9]"
  "netif_ok (x_net (ew_x (iw_e sample_ip))) [0]" "route_matches (IP4_ADDR 10 0 0 2) sample_if"
  "IP4_ADDR 10 0 0 2 \<noteq> nf_ip_addr sample_if" "nf_mtu sample_if = 1500" "nf_hwaddr sample_if = [2, 3, 4, 5, 6, 7]"
  "nf_ip_addr sample_if = IP4_ADDR 10 0 0 1"
proof -
  show n: "iw_netif sample_ip = (\<lambda>_. sample_if)" by (simp add: sample_ip_def ew_netif_def fun_eq_iff)
  have inv: "link_inv {#} sample_link" by (rule link_start_inv [OF link_sample_facts(3)])
  let ?e = "empty_entry\<lparr>ae_state := ETHARP_STATE_STABLE, ae_ipaddr := IP4_ADDR 10 0 0 2,
          ae_netif := Some 0, ae_ethaddr := [2, 0, 0, 0, 0, 9]\<rparr>"
  have "tab_ok (\<lambda>_. sample_if) (arp_table0[0 := ?e])"
  proof (rule tab_ok_update)
    show "tab_ok (\<lambda>_. sample_if) arp_table0"
      by (auto simp: tab_ok_def arp_table0_def unique_keys_def entry_ok_def empty_entry_def list_all_iff)
    show "entry_ok (\<lambda>_. sample_if) ?e" by (simp add: entry_ok_def eth_netif_def sample_if_def sample_eth_def empty_entry_def)
  qed (auto simp: arp_table0_def empty_entry_def)
  then have "tab_ok (iw_netif sample_ip) (ew_table (iw_e sample_ip))" by (simp add: n) (simp add: sample_ip_def)
  moreover have "known_entry (iw_e sample_ip) 0 0 (IP4_ADDR 10 0 0 2) [2, 0, 0, 0, 0, 9]"
    by (simp add: known_entry_def sample_ip_def arp_table0_def empty_entry_def)
  moreover have "driver_up 0 (iw_e sample_ip)"
    by (simp add: driver_up_def n) (simp add: sample_ip_def sample_if_def sample_eth_def eth_netif_def sample_world_def)
  moreover have "on_link sample_if (IP4_ADDR 10 0 0 2)"
    by (simp add: on_link_def sample_if_def sample_eth_def IP4_ADDR_def lwip_htonl_def
        ip4_addr_isbroadcast_u32_def ip4_addr_ismulticast_def IPADDR_ANY_def)
  ultimately show "neighbour (iw_e sample_ip) 0 0 (IP4_ADDR 10 0 0 2) [2, 0, 0, 0, 0, 9]"
    by (simp add: neighbour_def n) (simp add: sample_if_def)
  show "netif_ok (x_net (ew_x (iw_e sample_ip))) [0]"
    by (simp add: netif_ok_def sample_ip_def sample_if_def sample_eth_def nworld0_def zero_netif_def)
qed (simp_all add: route_matches_def route_usable_def netif_is_flag_set_def sample_if_def sample_eth_def
    IP4_ADDR_def lwip_htonl_def IPADDR_ANY_def)

definition sample_payload :: "pbuf list" where
  "sample_payload = [\<lparr>p_mem = replicate 34 0 @ [1, 2, 3], p_payload = 34, p_tot_len = 3, p_len = 3,
     p_type_internal = 0x280, p_flags = 0, p_ref = 1, p_if_idx = 0\<rparr>]"

lemma ip4_output_on_wire_witness:
  "\<exists>v chk. ip4_output (\<lambda>_. zero_malloc) (replicate 2048 0) 3 None (IP4_ADDR 10 0 0 2) 64 0 17
      (on_e (set_pkt 3 sample_payload) sample_ip) = Some (ERR_OK, v)
    \<and> x_events (ew_x (iw_e v)) = [node_frame (iw_e sample_ip) 0 [2, 3, 4, 5, 6, 7] [2, 0, 0, 0, 0, 9] 0x0800
        (ip_header 0 23 7 0 64 17 chk (IP4_ADDR 10 0 0 1) (IP4_ADDR 10 0 0 2) @ [1, 2, 3])]
    \<and> inet_chksum False (ip_header 0 23 7 0 64 17 chk (IP4_ADDR 10 0 0 1) (IP4_ADDR 10 0 0 2)) = 0
    \<and> iw_ip_id v = 8"
proof -
  let ?w = "on_e (set_pkt 3 sample_payload) sample_ip" let ?p = "hd sample_payload"
  have w: "neighbour (iw_e ?w) 0 0 (IP4_ADDR 10 0 0 2) [2, 0, 0, 0, 0, 9]" "netif_ok (x_net (ew_x (iw_e ?w))) [0]"
      "List.find (\<lambda>a. route_matches (IP4_ADDR 10 0 0 2) (iw_netif ?w a)) [0] = Some 0"
      "length (replicate 2048 (0 :: u8)) = 2048" "iw_netif ?w = (\<lambda>_. sample_if)"
      "x_events (ew_x (iw_e ?w)) = []" "iw_ip_id ?w = 7" "node_frame (iw_e ?w) = node_frame (iw_e sample_ip)"
    using sample_ip_facts by (simp_all add: on_e_def) (simp add: sample_ip_def sample_world_def)+
  have p: "iw_pkt ?w 3 = ?p # []" "pkt_ok (?p # [])" "contiguous ?p" "34 \<le> p_payload ?p" "20 + plen (?p # []) \<le> 2034"
      "p_flags ?p AND 4 = 0" "plen (?p # []) = 3" "pbytes (?p # []) = [1, 2, 3]"
    by (simp_all add: on_e_def sample_payload_def pkt_ok_def wf_chain_def wf_pbuf_def contiguous_def pbytes_def
        pdata_def payload_read_def)
  note t = ip4_output_on_wire [OF w(1-4) p(1-6), of "\<lambda>_. zero_malloc" None 64 0 17 False, unfolded w(5-8) p(7,8)]
  show ?thesis using t sample_ip_facts(5) by (simp add: sample_ip_facts(6-8) source_of_def) blast
qed

end
