(* ===== verification/Spec2Isabelle.thy ===== *)
theory Spec2Isabelle
  imports Lwip_Def Pbuf_Chain Pbuf_Alloc Pbuf_Ops Inet_Chksum Netif_Props Xnet_State Xnet_Socket
    Neighbour_Props Nat_Engine
    Nat_Props
    Tun_Tap
    Tun_Routes
    Tun_Props
    Netif_Refine
    Dns_Proxy
    Dns_Props
    Socks_Proxy
    Socks_Props
    Socks_Relay
    Tether_State
    Ip4_Addr
    Ip4_Props
    Timeouts
    Timeouts_Props
    Link_Layer
    Link_Frames
    Link_Table
    Link_Refs
    Link_Inv
    Link_Ops
    Link_Props
    Link_Resolve
    Link_Age
    Link_Tap
    Ip4_Stack
    Ip4_Header
    Ip4_Output
begin

text \<open>
  Verification development for the xnet client, a ZeroTier node for Android. The repository has
  three layers that meet at Ethernet frames:

  \<^item> the native client under \<^verbatim>\<open>src/externals/libzt-jni\<close> (\<^verbatim>\<open>xnet_service.c\<close>, \<^verbatim>\<open>xnet_tap.c\<close>,
    \<^verbatim>\<open>xnet_socket.c\<close>): it runs a ZeroTier node, keeps a registry of networks, and gives each network
    an interface of the lwIP stack, over which a program opens sockets;
  \<^item> the lwIP stack under \<^verbatim>\<open>src/externals/lwip/src\<close>, of which the client drives the interface list
    and the packet buffers directly;
  \<^item> the Android application under \<^verbatim>\<open>src/app/src/main/java/ngo/xnet/vpn\<close>: it connects the node to a
    TUN device (\<^verbatim>\<open>TunTapAdapter\<close>), resolves neighbours (\<^verbatim>\<open>ARPTable\<close>, \<^verbatim>\<open>NDPTable\<close>), and forwards the
    traffic of tethered devices (\<^verbatim>\<open>NatEngine\<close>, \<^verbatim>\<open>TetherL3Bridge\<close>, and the proxies).

  \<^bold>\<open>Conventions.\<close> C integers are words of their width. A C function that can fail to return or
  dereference a null pointer is in the option type, \<open>None\<close> standing for that. A Java method that
  can throw is in the option type, \<open>None\<close> standing for the exception; an inner option is a
  reference that may be null. Bytes are \<open>u8\<close>, arrays are lists, offsets are \<open>nat\<close>. The clock, the
  ZeroTier node, the operating system and the socket calls of lwIP are arguments, or events
  appended to a trace that is part of the state. The iteration order of a hash map is an argument.

  \<^bold>\<open>Shared theories.\<close>

  \<^item> \<^verbatim>\<open>Xnet_Prelude\<close>: word types, lists as memory, and two locales. \<open>invariant_system\<close> (a step
    function with an invariant, reachability and runs) is interpreted on the tap registry, the
    neighbour tables, the tethering state and others; \<open>simulation\<close> (a component and its contract) on the interface list.
  \<^item> \<^verbatim>\<open>Java_Base\<close>: arrays, byte buffers, big integers and \<open>InetAddress\<close> as the application uses them.
  \<^item> \<^verbatim>\<open>Ip_Sum\<close>: one's complement sums of byte blocks, and what changing a field does to them.

  \<^bold>\<open>lwIP.\<close>

  \<^item> \<^verbatim>\<open>Lwip_Def\<close> (\<^verbatim>\<open>core/def.c\<close>): byte order, string search and comparison, \<open>lwip_itoa\<close>.
  \<^item> \<^verbatim>\<open>Pbuf\<close> (\<^verbatim>\<open>core/pbuf.c\<close>): every operation on packet buffers; a chain is the list of its buffers.
    \<^verbatim>\<open>Pbuf_Chain\<close> shows that what is written into a chain is read back, \<^verbatim>\<open>Pbuf_Alloc\<close> that an
    allocation has the requested shape and a failed one leaks nothing, \<^verbatim>\<open>Pbuf_Ops\<close> that headers,
    shortening, coalescing, splitting and searching do what they promise.
  \<^item> \<^verbatim>\<open>Inet_Chksum\<close> (\<^verbatim>\<open>core/inet_chksum.c\<close>): the checksum of a chain is that of its bytes, the
    accumulator does not overflow up to 128 KiB, and a filled-in checksum verifies.
  \<^item> \<^verbatim>\<open>Netif\<close> (\<^verbatim>\<open>core/netif.c\<close>): control blocks in a store, linked by their next pointers.
    \<^verbatim>\<open>Netif_List\<close> has the invariant of the list and the locale \<open>netif_driver\<close> of an initialisation
    function, interpreted on the loopback driver here and on the tap driver in \<^verbatim>\<open>Xnet_Registry\<close>;
    \<^verbatim>\<open>Netif_Refine\<close> shows that the calls implement an abstract list with a default; \<^verbatim>\<open>Netif_Props\<close>
    has loopback queues, IPv6 slots and names.
  \<^item> \<^verbatim>\<open>Ip4_Addr\<close> (\<^verbatim>\<open>core/ipv4/ip4_addr.c\<close>), with \<^verbatim>\<open>Ip4_Props\<close>: the text of an address is read back as that
    address, and netmasks are accepted exactly when they are a run of ones.
  \<^item> \<^verbatim>\<open>Timeouts\<close> (\<^verbatim>\<open>core/timeouts.c\<close>), with \<^verbatim>\<open>Timeouts_Props\<close>: the list of timers stays in order across the
    wrap-around of the clock, and a check of the timers ends.

  \<^bold>\<open>The native client.\<close>

  \<^item> \<^verbatim>\<open>Xnet_Tap\<close> (\<^verbatim>\<open>xnet_tap.c\<close>): frames from the node into lwIP and back; a frame survives the trip.
  \<^item> \<^verbatim>\<open>Xnet_Service\<close> (\<^verbatim>\<open>xnet_service.c\<close>): callbacks and public functions over one state record
    \<open>xworld\<close>. \<^verbatim>\<open>Xnet_Registry\<close> and \<^verbatim>\<open>Xnet_Lifecycle\<close> have its invariant: runs that remove networks in
    the reverse order of their addition stay consistent; others can hang, and a stopped client never
    runs again. \<^verbatim>\<open>Xnet_State\<close>: what the node stores is what it reads.
  \<^item> \<^verbatim>\<open>Xnet_Socket\<close> (\<^verbatim>\<open>xnet_socket.c\<close>): the socket functions over the calls of lwIP, as parameters.

  \<^bold>\<open>The application.\<close>

  \<^item> \<^verbatim>\<open>Inet_Utils\<close> (\<^verbatim>\<open>InetAddressUtils\<close>, \<^verbatim>\<open>IPPacketUtils\<close>, \<^verbatim>\<open>Route\<close>): netmasks, prefixes, packet
    addresses, checksums, with the prefix lengths for which the netmask is right.
  \<^item> \<^verbatim>\<open>Neighbour_Table\<close> (\<^verbatim>\<open>ARPTable\<close>, \<^verbatim>\<open>NDPTable\<close>): the maps, their entries in a store, the pass of the
    timeout thread, and the packets. \<^verbatim>\<open>Neighbour_Props\<close>: the invariant of the maps, what expires and
    what never does, and that packets built by one table are understood by another.
  \<^item> \<^verbatim>\<open>Nat_Engine\<close> (\<^verbatim>\<open>NatEngine\<close>, \<^verbatim>\<open>TetherL3Bridge\<close>, and the subnet test of \<^verbatim>\<open>TetherBridge\<close>), with
    \<^verbatim>\<open>Nat_Props\<close>: checksums after rewriting, and connections that share an entry.
  \<^item> \<^verbatim>\<open>Tun_Tap\<close> (\<^verbatim>\<open>TunTapAdapter\<close>): packets from the device, frames from the node, the route map, the
    receive thread as a sequence of packets. \<^verbatim>\<open>Tun_Routes\<close>: the chosen route is the longest prefix.
    \<^verbatim>\<open>Tun_Props\<close>: what is learned from frames is used for packets, the fast path agrees with the
    general one, and the destination cache outlives what it caches.
  \<^item> \<^verbatim>\<open>Dns_Proxy\<close> (\<^verbatim>\<open>DnsProxy\<close>), with \<^verbatim>\<open>Dns_Props\<close>: answers come from queries for the same name; the cache
    does not tell record types apart, and the lifetime of some answers is misread.
  \<^item> \<^verbatim>\<open>Socks_Proxy\<close> (\<^verbatim>\<open>SocksProxy\<close> and the upstream connections of \<^verbatim>\<open>TetherBridge\<close>), with \<^verbatim>\<open>Socks_Props\<close>: the
    proxy understands the bridge, requires authentication, and the split of the traffic is by the
    managed routes. \<^verbatim>\<open>Socks_Relay\<close>: the two copy threads as an interleaving of steps.
  \<^item> \<^verbatim>\<open>Tether_State\<close> (\<^verbatim>\<open>TetherDetector\<close>, \<^verbatim>\<open>UpstreamSelector\<close> and the state of \<^verbatim>\<open>TetherBridge\<close>): tethering is
    active exactly while there is an interface and an upstream network.

  \<^bold>\<open>Loops and bounds.\<close> Loops over lists and offsets are structural or have a termination proof.
  The loops that may not end (the walk of a linked list, the search for an interface number, the
  check of the timers) are partial functions in the option type, and the theorems show for which states they return. There
  is no fuel.

  \<^bold>\<open>Not modelled.\<close> Of lwIP: IP, ICMP, TCP, UDP, DHCP, ARP and neighbour discovery beyond the calls
  that \<^verbatim>\<open>netif.c\<close> makes (events of the trace), the message passing of the sequential API, and memory
  pools, which are a parameter. Of the native client: the JNI bridge, whose work is done by the
  Java environment. Of the application: the VPN service, the HTTP proxy, user interface, events and
  database entities, which call the Android platform. Apart from the relay, threads run one
  operation at a time: the interleavings within an operation are not modelled.
\<close>

end
